(* ===== verification/Prelude.thy ===== *)
theory Prelude
  imports Main "HOL-Library.Word"
begin

text \<open>
  What every component shares.

  The C code reports failure in three ways, which the model keeps apart as the values of
  \<open>fault\<close>: it returns \<^verbatim>\<open>TCL_ERROR\<close> to the interpreter (\<open>Tcl_Error\<close>), an \<^verbatim>\<open>assert\<close>
  stops the process (\<open>Abort\<close>), or it does something C leaves undefined, such as reading
  past the end of an array, following a null pointer or overflowing an \<^verbatim>\<open>int\<close>
  (\<open>Undefined\<close>). A loop whose end is decided by its environment (random draws, messages,
  other processes) consumes a finite supply of answers and is \<open>Unfinished\<close> when the
  supply runs out first; \<open>Unfinished\<close> is no behaviour of the code but the absence of
  one, and that the loops end is proved where it is true. Memory allocation is taken to
  succeed. The macros of \<^verbatim>\<open>src/tcl/util.h\<close> that the code is written with
  become combinators of the same names. Error messages are not modelled.

  C's \<^verbatim>\<open>int\<close>, \<^verbatim>\<open>long\<close> and \<^verbatim>\<open>int64_t\<close> are \<open>int\<close>; where the code computes on them and
  could leave the range of the type, the model says so with \<open>c_int\<close>. Unsigned types
  whose wrap-around matters are words.
\<close>

named_theorems res_simps \<open>evaluation of the error combinators\<close>
named_theorems lib_simps \<open>the laws of the association-list instances of the library interfaces\<close>

section \<open>Faults and the error macros\<close>

datatype fault = Tcl_Error | Abort | Undefined | Unfinished

type_synonym 'a res = "fault + 'a"

definition tcl_check :: "'e + 'a \<Rightarrow> ('a \<Rightarrow> 'e + 'b) \<Rightarrow> 'e + 'b" where
  "tcl_check m k = (case m of Inl e \<Rightarrow> Inl e | Inr v \<Rightarrow> k v)"

definition tcl_condition :: "bool \<Rightarrow> 'a res \<Rightarrow> 'a res" where
  "tcl_condition b k = (if b then k else Inl Tcl_Error)"

definition c_assert :: "bool \<Rightarrow> 'a res \<Rightarrow> 'a res" where
  "c_assert b k = (if b then k else Inl Abort)"

definition c_defined :: "bool \<Rightarrow> 'a res \<Rightarrow> 'a res" where
  "c_defined b k = (if b then k else Inl Undefined)"

text \<open>A Tcl conversion function returns \<^verbatim>\<open>TCL_OK\<close> and a value, or \<^verbatim>\<open>TCL_ERROR\<close>.\<close>

definition tcl_get :: "'a option \<Rightarrow> 'a res" where
  "tcl_get v = (case v of None \<Rightarrow> Inl Tcl_Error | Some x \<Rightarrow> Inr x)"

lemma tcl_check_simps [simp, res_simps]:
  "tcl_check (Inl e) k = Inl e"
  "tcl_check (Inr v) k = k v"
  by (simp_all add: tcl_check_def)

lemma tcl_condition_simps [simp, res_simps]:
  "tcl_condition True k = k"
  "tcl_condition False k = Inl Tcl_Error"
  by (simp_all add: tcl_condition_def)

lemma c_assert_simps [simp, res_simps]:
  "c_assert True k = k"
  "c_assert False k = Inl Abort"
  by (simp_all add: c_assert_def)

lemma c_defined_simps [simp, res_simps]:
  "c_defined True k = k"
  "c_defined False k = Inl Undefined"
  by (simp_all add: c_defined_def)

lemma tcl_get_simps [simp, res_simps]:
  "tcl_get None = Inl Tcl_Error"
  "tcl_get (Some x) = Inr x"
  by (simp_all add: tcl_get_def)

lemma tcl_check_Inr_conv: "tcl_check m k = Inr r \<longleftrightarrow> (\<exists>v. m = Inr v \<and> k v = Inr r)"
  by (cases m) simp_all

lemma tcl_condition_Inr_conv: "tcl_condition b k = Inr r \<longleftrightarrow> b \<and> k = Inr r"
  by (cases b) simp_all

lemma c_assert_Inr_conv: "c_assert b k = Inr r \<longleftrightarrow> b \<and> k = Inr r"
  by (cases b) simp_all

lemma c_defined_Inr_conv: "c_defined b k = Inr r \<longleftrightarrow> b \<and> k = Inr r"
  by (cases b) simp_all

lemma tcl_get_Inr_conv: "tcl_get v = Inr r \<longleftrightarrow> v = Some r"
  by (cases v) simp_all

lemmas res_Inr_convs = tcl_check_Inr_conv tcl_condition_Inr_conv c_assert_Inr_conv
  c_defined_Inr_conv tcl_get_Inr_conv

lemma tcl_check_split:
  "P (tcl_check m k) \<longleftrightarrow> (\<forall>e. m = Inl e \<longrightarrow> P (Inl e)) \<and> (\<forall>v. m = Inr v \<longrightarrow> P (k v))"
  by (cases m) simp_all

lemma tcl_check_assoc: "tcl_check (tcl_check m k) l = tcl_check m (\<lambda>v. tcl_check (k v) l)"
  by (cases m) simp_all

section \<open>Machine integers\<close>

definition INT_MAX :: int where "INT_MAX = 2147483647"
definition INT_MIN :: int where "INT_MIN = - 2147483648"

definition int_ok :: "int \<Rightarrow> bool" where
  "int_ok x \<longleftrightarrow> INT_MIN \<le> x \<and> x \<le> INT_MAX"

text \<open>The result of signed \<^verbatim>\<open>int\<close> arithmetic: undefined when it does not fit.\<close>

definition c_int :: "int \<Rightarrow> int res" where
  "c_int x = (if int_ok x then Inr x else Inl Undefined)"

lemma c_int_Inr_conv: "c_int x = Inr r \<longleftrightarrow> int_ok x \<and> r = x"
  by (auto simp: c_int_def)

lemma c_int_ok [simp]: "int_ok x \<Longrightarrow> c_int x = Inr x"
  by (simp add: c_int_def)

section \<open>Lists, maps and sorted sets\<close>

lemma sorted_list_of_set_insert_greatest:
  fixes A :: "'a::linorder set"
  assumes "finite A" "\<And>x. x \<in> A \<Longrightarrow> x < y"
  shows "sorted_list_of_set (insert y A) = sorted_list_of_set A @ [y]"
proof -
  have "y \<notin> A" using assms(2) by blast
  then have "sorted_list_of_set (insert y A) = insort y (sorted_list_of_set A)"
    using assms(1) by simp
  also have "\<dots> = sorted_list_of_set A @ [y]"
    using assms by (intro sorted_insort_is_snoc) (auto intro: less_imp_le)
  finally show ?thesis .
qed

lemma sorted_list_of_set_Min_Cons:
  fixes A :: "'a::linorder set"
  assumes "finite A" "A \<noteq> {}"
  shows "sorted_list_of_set A = Min A # sorted_list_of_set (A - {Min A})"
  using assms by (rule sorted_list_of_set_nonempty)

lemma sorted_list_of_set_Diff:
  fixes A :: "'a::linorder set"
  assumes "finite A"
  shows "sorted_list_of_set (A - V) = filter (\<lambda>y. y \<notin> V) (sorted_list_of_set A)"
proof (rule sorted_distinct_set_unique)
  show "sorted (filter (\<lambda>y. y \<notin> V) (sorted_list_of_set A))"
    using sorted_filter [of id "sorted_list_of_set A" "\<lambda>y. y \<notin> V"] by simp
qed (use assms in auto)

lemma restrict_map_Compl_empty: "m |` (- {}) = m"
  by (simp add: restrict_map_def)

lemma filter_eq_singleton: "distinct xs \<Longrightarrow> v \<in> set xs \<Longrightarrow> filter (\<lambda>x. x = v) xs = [v]"
  by (induction xs) (auto simp: filter_empty_conv)

lemma mod_ring_succ: "(n::nat) < m \<Longrightarrow> Suc n mod m = (if Suc n = m then 0 else Suc n)"
  by auto

end
