(* ===== verification/Turbine_Defs.thy ===== *)
theory Turbine_Defs
  imports Prelude
begin

text \<open>
  The codes and types of \<^verbatim>\<open>src/turbine/turbine-defs.h\<close>, their rendering as text
  (\<^verbatim>\<open>turbine_code_tostring\<close> of \<^verbatim>\<open>src/turbine/turbine.c\<close>), and the ADLB types they
  are aliases of.
\<close>

datatype adlb_type =
    TYPE_NULL | TYPE_INTEGER | TYPE_FLOAT | TYPE_STRING | TYPE_BLOB | TYPE_REF
  | TYPE_CONTAINER | TYPE_MULTISET | TYPE_STRUCT

datatype turbine_code =
    TURBINE_SUCCESS
  | TURBINE_ERROR_OOM
  | TURBINE_ERROR_DOUBLE_DECLARE
  | TURBINE_ERROR_DOUBLE_WRITE
  | TURBINE_ERROR_UNSET
  | TURBINE_ERROR_NOT_FOUND
  | TURBINE_ERROR_NUMBER_FORMAT
  | TURBINE_ERROR_INVALID
  | TURBINE_ERROR_NULL
  | TURBINE_ERROR_TYPE
  | TURBINE_ERROR_STORAGE
  | TURBINE_ERROR_UNINITIALIZED
  | TURBINE_ERROR_ADLB
  | TURBINE_ERROR_EXTERNAL
  | TURBINE_ERROR_IO
  | TURBINE_ERROR_UNKNOWN

text \<open>
  \<^verbatim>\<open>turbine_code_tostring\<close>: the text written to the buffer and the value returned.
  \<open>number\<close> is the decimal rendering of a code by \<^verbatim>\<open>sprintf\<close>.
\<close>

fun turbine_code_tostring :: "(turbine_code \<Rightarrow> string) \<Rightarrow> turbine_code \<Rightarrow> string \<times> int" where
  "turbine_code_tostring number code =
     (let ok = (\<lambda>s. (s, int (length s))) in
      case code of
        TURBINE_SUCCESS \<Rightarrow> ok ''TURBINE_SUCCESS''
      | TURBINE_ERROR_OOM \<Rightarrow> ok ''TURBINE_ERROR_OOM''
      | TURBINE_ERROR_DOUBLE_DECLARE \<Rightarrow> ok ''TURBINE_ERROR_DOUBLE_DECLARE''
      | TURBINE_ERROR_DOUBLE_WRITE \<Rightarrow> ok ''TURBINE_ERROR_DOUBLE_WRITE''
      | TURBINE_ERROR_UNSET \<Rightarrow> ok ''TURBINE_ERROR_UNSET''
      | TURBINE_ERROR_NOT_FOUND \<Rightarrow> ok ''TURBINE_ERROR_NOT_FOUND''
      | TURBINE_ERROR_NUMBER_FORMAT \<Rightarrow> ok ''TURBINE_ERROR_NUMBER_FORMAT''
      | TURBINE_ERROR_INVALID \<Rightarrow> ok ''TURBINE_ERROR_INVALID''
      | TURBINE_ERROR_NULL \<Rightarrow> ok ''TURBINE_ERROR_NULL''
      | TURBINE_ERROR_UNKNOWN \<Rightarrow> ok ''TURBINE_ERROR_UNKNOWN''
      | TURBINE_ERROR_TYPE \<Rightarrow> ok ''TURBINE_ERROR_TYPE''
      | TURBINE_ERROR_STORAGE \<Rightarrow> ok ''TURBINE_ERROR_STORAGE''
      | TURBINE_ERROR_UNINITIALIZED \<Rightarrow> ok ''TURBINE_ERROR_UNINITIALIZED''
      | _ \<Rightarrow> (''<could not convert code '' @ number code @ '' to string>'', -1))"

definition TURBINE_CODE_STRING_MAX :: nat where "TURBINE_CODE_STRING_MAX = 64"

text \<open>
  The codes of the ADLB library (not part of the repository); \<open>ADLB_CODE\<close> stands for
  those the program never compares with.
\<close>

datatype adlb_code = ADLB_SUCCESS | ADLB_ERROR | ADLB_NOTHING | ADLB_SHUTDOWN | ADLB_CODE int

end
