(* ===== verification/Lru_Queue.thy ===== *)
theory Lru_Queue
  imports Turbine_Defs "HOL-Library.Multiset"
begin

text \<open>
  What a bounded cache of data promises its clients: the queue in order of last access that
  specifies it, the contract of its operations as the locale \<open>bounded_cache\<close>, and what follows for
  a client that stores what it has not found. The cache of \<^verbatim>\<open>src/turbine/cache.c\<close> provides the contract
  in \<open>Cache\<close>; its commands use it in \<open>Cache_Cmds\<close>.
\<close>

section \<open>The queue\<close>

text \<open>A datum is cached with its type, a buffer and the length of the data; the oldest access is first.\<close>

type_synonym 'd payload = "adlb_type \<times> 'd \<times> 64 word"
type_synonym 'd queue = "(int \<times> 'd payload) list"

definition lru_put :: "int \<Rightarrow> int \<times> 'd payload \<Rightarrow> 'd queue \<Rightarrow> 'd queue" where
  "lru_put n x q = (if int (length q) = n - 1 then tl q else q) @ [x]"

definition lru_touch :: "int \<Rightarrow> 'd queue \<Rightarrow> 'd queue" where
  "lru_touch td q = filter (\<lambda>x. fst x \<noteq> td) q @ filter (\<lambda>x. fst x = td) q"

definition live_bytes :: "'d queue \<Rightarrow> 64 word" where
  "live_bytes q = sum_list (map (\<lambda>x. snd (snd (snd x))) q)"

definition live_data :: "'d queue \<Rightarrow> 'd multiset" where
  "live_data q = mset (map (\<lambda>x. fst (snd (snd x))) q)"

lemma live_simps [simp]:
  "live_bytes [] = 0" "live_bytes (x # q) = snd (snd (snd x)) + live_bytes q"
  "live_bytes (q @ q') = live_bytes q + live_bytes q'"
  "live_data [] = {#}" "live_data (x # q) = add_mset (fst (snd (snd x))) (live_data q)"
  "live_data (q @ q') = live_data q + live_data q'"
  by (simp_all add: live_bytes_def live_data_def)

lemma live_data_touch: "live_data (lru_touch td q) = live_data q"
  unfolding lru_touch_def by (induction q) auto

lemma lru_touch_absent: "td \<notin> fst ` set q \<Longrightarrow> lru_touch td q = q"
  unfolding lru_touch_def by (induction q) auto

lemma map_of_filter_split: "map_of (filter (\<lambda>x. fst x \<noteq> t) q) td = (if td = t then None else map_of q td)"
  "map_of (filter (\<lambda>x. fst x = t) q) td = (if td = t then map_of q td else None)"
  by (induction q) auto

lemma map_of_touch: "map_of (lru_touch t q) td = map_of q td"
  by (auto simp: lru_touch_def map_add_def map_of_filter_split split: option.split)

lemma map_of_snoc:
  "map_of (q @ [x]) td = (case map_of q td of None \<Rightarrow> if fst x = td then Some (snd x) else None | Some p \<Rightarrow> Some p)"
  by (induction q) auto

lemma map_of_tl: "distinct (map fst q) \<Longrightarrow> map_of (tl q) td \<in> {None, map_of q td}"
proof (cases q)
  case (Cons y ys)
  moreover assume "distinct (map fst q)"
  ultimately show ?thesis by (cases "fst y = td") (auto simp: map_of_eq_None_iff)
qed simp

lemma map_of_put: "distinct (map fst q) \<Longrightarrow> fst x \<noteq> td \<Longrightarrow> map_of (lru_put n x q) td \<in> {None, map_of q td}"
  using map_of_tl [of q td] unfolding lru_put_def
  by (auto simp: map_of_snoc simp del: map_of_append split: option.split)

lemma map_of_put_new: "td \<notin> fst ` set q \<Longrightarrow> map_of (lru_put n (td, p) q) td = Some p"
proof -
  assume new: "td \<notin> fst ` set q"
  then have "td \<notin> fst ` set (tl q)" by (cases q) auto
  with new have "map_of q td = None" "map_of (tl q) td = None" by (simp_all add: map_of_eq_None_iff)
  then show ?thesis unfolding lru_put_def by (simp add: map_of_snoc del: map_of_append)
qed

lemma distinct_put: "distinct (map fst q) \<Longrightarrow> fst x \<notin> fst ` set q \<Longrightarrow> distinct (map fst (lru_put n x q))"
  by (cases q) (auto simp: lru_put_def)

lemma distinct_touch: "distinct (map fst q) \<Longrightarrow> distinct (map fst (lru_touch t q))"
  by (auto simp: lru_touch_def distinct_map inj_on_def)

section \<open>Runs of a client\<close>

text \<open>
  The Tcl library stores a TD it has not found in the cache: \<open>client_run\<close> performs a
  list of such calls on a cache and \<open>lru_run\<close> is the same list on the queue.
\<close>

datatype 'd cache_op = Retrieve int | Store int adlb_type 'd "64 word"

fun client_run ::
    "(int \<Rightarrow> 's \<Rightarrow> bool) \<Rightarrow> (int \<Rightarrow> 's \<Rightarrow> ('r \<times> 's) res) \<Rightarrow>
      (int \<Rightarrow> adlb_type \<Rightarrow> 'd \<Rightarrow> 64 word \<Rightarrow> 's \<Rightarrow> ('c \<times> 's) res) \<Rightarrow> 'd cache_op list \<Rightarrow> 's \<Rightarrow> 's res" where
  "client_run check retrieve store [] s = Inr s"
| "client_run check retrieve store (Retrieve td # ops) s =
     tcl_check (retrieve td s) (\<lambda>(_, s). client_run check retrieve store ops s)"
| "client_run check retrieve store (Store td ty d n # ops) s =
     (if check td s then client_run check retrieve store ops s
      else tcl_check (store td ty d n s) (\<lambda>(_, s). client_run check retrieve store ops s))"

fun lru_run :: "int \<Rightarrow> 'd cache_op list \<Rightarrow> 'd queue \<Rightarrow> 'd queue" where
  "lru_run n [] q = q"
| "lru_run n (Retrieve td # ops) q = lru_run n ops (lru_touch td q)"
| "lru_run n (Store td ty d len # ops) q =
     lru_run n ops (if td \<in> fst ` set q then q else lru_put n (td, ty, d, len) q)"

text \<open>The data buffers a run hands over to the cache.\<close>

fun lru_stored :: "int \<Rightarrow> 'd cache_op list \<Rightarrow> 'd queue \<Rightarrow> 'd list" where
  "lru_stored n [] q = []"
| "lru_stored n (Retrieve td # ops) q = lru_stored n ops (lru_touch td q)"
| "lru_stored n (Store td ty d len # ops) q =
     (if td \<in> fst ` set q then lru_stored n ops q
      else d # lru_stored n ops (lru_put n (td, ty, d, len) q))"

text \<open>Calls that do not store a datum can only evict it.\<close>

lemma lru_run_keeps:
  "distinct (map fst q) \<Longrightarrow> \<forall>ty d len. Store td ty d len \<notin> set ops \<Longrightarrow>
    map_of (lru_run n ops q) td \<in> {None, map_of q td}"
proof (induction ops arbitrary: q)
  case (Cons op ops)
  show ?case
  proof (cases op)
    case (Retrieve t)
    then show ?thesis using Cons.IH [of "lru_touch t q"] Cons.prems by (simp add: distinct_touch map_of_touch)
  next
    case (Store t ty d len)
    then have "t \<noteq> td" using Cons.prems(2) by auto
    then show ?thesis
      using Store Cons.IH [of q] Cons.IH [of "lru_put n (t, ty, d, len) q"] Cons.prems
        map_of_put [of q "(t, ty, d, len)" td n]
      by (auto simp: distinct_put)
  qed
qed simp

section \<open>The contract\<close>

text \<open>
  \<open>view\<close> reads the state as the queue, \<open>config\<close> is what no operation changes, with the capacity first, and
  \<open>released\<close> are the buffers freed so far. A store is only promised for a datum that is not cached.
\<close>

locale bounded_cache =
  fixes check :: "int \<Rightarrow> 's \<Rightarrow> bool"
    and retrieve :: "int \<Rightarrow> 's \<Rightarrow> ((turbine_code + 'd payload) \<times> 's) res"
    and store :: "int \<Rightarrow> adlb_type \<Rightarrow> 'd \<Rightarrow> 64 word \<Rightarrow> 's \<Rightarrow> (turbine_code \<times> 's) res"
    and Inv :: "'s \<Rightarrow> bool"
    and view :: "'s \<Rightarrow> 'd queue"
    and config :: "'s \<Rightarrow> int \<times> 'c"
    and released :: "'s \<Rightarrow> 'd list"
  assumes distinct_view: "Inv s \<Longrightarrow> distinct (map fst (view s))"
    and check_view: "Inv s \<Longrightarrow> check td s \<longleftrightarrow> td \<in> fst ` set (view s)"
    and retrieve_view: "Inv s \<Longrightarrow> \<exists>s'.
      retrieve td s = Inr (case map_of (view s) td of None \<Rightarrow> Inl TURBINE_ERROR_NOT_FOUND | Some p \<Rightarrow> Inr p, s') \<and>
      Inv s' \<and> config s' = config s \<and> view s' = lru_touch td (view s) \<and> released s' = released s"
    and store_view: "Inv s \<Longrightarrow> td \<notin> fst ` set (view s) \<Longrightarrow> \<exists>s'.
      store td ty d n s = Inr (TURBINE_SUCCESS, s') \<and>
      Inv s' \<and> config s' = config s \<and> view s' = lru_put (fst (config s)) (td, ty, d, n) (view s) \<and>
      mset (released s') + live_data (view s') = mset (released s) + add_mset d (live_data (view s))"
begin

text \<open>Every run succeeds and does to the queue what its calls do; what it stores is live or released.\<close>

lemma run_refines:
  "Inv s \<Longrightarrow> \<exists>s'. client_run check retrieve store ops s = Inr s' \<and> Inv s' \<and> config s' = config s \<and>
    view s' = lru_run (fst (config s)) ops (view s) \<and>
    mset (released s') + live_data (view s') = mset (released s) + live_data (view s) +
      mset (lru_stored (fst (config s)) ops (view s))"
proof (induction ops arbitrary: s)
  case Nil
  then show ?case by simp
next
  case (Cons x ops)
  show ?case
  proof (cases x)
    case (Retrieve td)
    from retrieve_view [OF Cons.prems, of td] obtain r s1 where
      "retrieve td s = Inr (r, s1)" "Inv s1" "config s1 = config s" "view s1 = lru_touch td (view s)"
      "released s1 = released s" by blast
    then show ?thesis using Cons.IH [of s1] by (simp add: Retrieve live_data_touch)
  next
    case (Store td ty d n)
    show ?thesis
    proof (cases "check td s")
      case True
      then show ?thesis using Cons.IH [OF Cons.prems] check_view [OF Cons.prems] by (simp add: Store)
    next
      case False
      then have new: "td \<notin> fst ` set (view s)" using check_view [OF Cons.prems] by simp
      from store_view [OF Cons.prems this, of ty d n] obtain s1 where
        "store td ty d n s = Inr (TURBINE_SUCCESS, s1)" "Inv s1" "config s1 = config s"
        "view s1 = lru_put (fst (config s)) (td, ty, d, n) (view s)"
        "mset (released s1) + live_data (view s1) = mset (released s) + add_mset d (live_data (view s))" by blast
      then show ?thesis using Cons.IH [of s1] new False by (simp add: Store)
    qed
  qed
qed

text \<open>What is stored is what is retrieved, as long as it is cached.\<close>

lemma stored_retrieved:
  assumes I: "Inv s" and new: "td \<notin> fst ` set (view s)" and st: "store td ty d n s = Inr (code, s1)"
    and run: "client_run check retrieve store ops s1 = Inr s2" and others: "\<forall>ty d n. Store td ty d n \<notin> set ops"
  shows "code = TURBINE_SUCCESS"
    and "\<exists>s3. retrieve td s2 = Inr (if check td s2 then Inr (ty, d, n) else Inl TURBINE_ERROR_NOT_FOUND, s3)"
proof -
  from store_view [OF I new, of ty d n] st have s1: "code = TURBINE_SUCCESS" "Inv s1"
    "view s1 = lru_put (fst (config s)) (td, ty, d, n) (view s)" by auto
  then show "code = TURBINE_SUCCESS" by simp
  from run_refines [OF s1(2), of ops] run have s2: "Inv s2" "view s2 = lru_run (fst (config s1)) ops (view s1)" by auto
  have "map_of (view s1) td = Some (ty, d, n)" using map_of_put_new [OF new] s1(3) by metis
  with lru_run_keeps [OF distinct_view [OF s1(2)] others] s2(2)
  have "map_of (view s2) td \<in> {None, Some (ty, d, n)}" by metis
  moreover have "check td s2 \<longleftrightarrow> map_of (view s2) td \<noteq> None"
    using check_view [OF s2(1)] by (simp add: map_of_eq_None_iff)
  ultimately show "\<exists>s3. retrieve td s2 = Inr (if check td s2 then Inr (ty, d, n) else Inl TURBINE_ERROR_NOT_FOUND, s3)"
    using retrieve_view [OF s2(1), of td] by auto
qed

end

end
