(* ===== verification/C_Utils.thy ===== *)
theory C_Utils
  imports Prelude
begin

text \<open>
  The interfaces of the c-utils containers the program calls: \<^verbatim>\<open>table_lp\<close> (a hash table
  keyed by \<^verbatim>\<open>int64_t\<close>), \<^verbatim>\<open>table_bp\<close> (keyed by byte strings), \<^verbatim>\<open>table\<close> (keyed by C strings)
  and \<^verbatim>\<open>rbtree\<close> (an ordered tree keyed by \<^verbatim>\<open>int64_t\<close>). The library is not part of the
  repository, so each container is a record of functions, an argument of the
  definitions that call it. What the program relies on is stated once, as the
  predicates \<open>table_ok\<close> and \<open>rbtree_ok\<close>; adding a key a table already holds is left
  unconstrained. The association-list instances at the end show that the
  predicates can hold; witnesses evaluate on them.
\<close>

section \<open>Hash tables\<close>

record ('t, 'k, 'v) table_api =
  tbl_init :: "int \<Rightarrow> 't"
  tbl_size :: "'t \<Rightarrow> int"
  tbl_search :: "'t \<Rightarrow> 'k \<Rightarrow> 'v option"
  tbl_add :: "'t \<Rightarrow> 'k \<Rightarrow> 'v \<Rightarrow> 't"
  tbl_remove :: "'t \<Rightarrow> 'k \<Rightarrow> ('v \<times> 't) option"
  tbl_items :: "'t \<Rightarrow> ('k \<times> 'v) list"
  tbl_free :: "'t \<Rightarrow> 't"

definition table_ok :: "('t, 'k, 'v) table_api \<Rightarrow> bool" where
  "table_ok T \<longleftrightarrow>
     (\<forall>n. tbl_search T (tbl_init T n) = Map.empty) \<and>
     (\<forall>t. finite (dom (tbl_search T t))) \<and>
     (\<forall>t. tbl_size T t = int (card (dom (tbl_search T t)))) \<and>
     (\<forall>t k v. tbl_search T t k = None \<longrightarrow>
        tbl_search T (tbl_add T t k v) = (tbl_search T t)(k \<mapsto> v)) \<and>
     (\<forall>t k. tbl_search T t k = None \<longrightarrow> tbl_remove T t k = None) \<and>
     (\<forall>t k v. tbl_search T t k = Some v \<longrightarrow>
        (\<exists>t'. tbl_remove T t k = Some (v, t') \<and>
           tbl_search T t' = (tbl_search T t)(k := None))) \<and>
     (\<forall>t. distinct (map fst (tbl_items T t)) \<and> map_of (tbl_items T t) = tbl_search T t)"

lemma table_okD:
  assumes "table_ok T"
  shows "tbl_search T (tbl_init T n) = Map.empty"
    "finite (dom (tbl_search T t))"
    "tbl_size T t = int (card (dom (tbl_search T t)))"
    "tbl_search T t k = None \<Longrightarrow> tbl_search T (tbl_add T t k v) = (tbl_search T t)(k \<mapsto> v)"
    "tbl_search T t k = None \<Longrightarrow> tbl_remove T t k = None"
    "distinct (map fst (tbl_items T t))"
    "map_of (tbl_items T t) = tbl_search T t"
  using assms unfolding table_ok_def by blast+

lemma table_ok_remove:
  assumes "table_ok T" "tbl_search T t k = Some v"
  obtains t' where "tbl_remove T t k = Some (v, t')"
    "tbl_search T t' = (tbl_search T t)(k := None)"
  using assms unfolding table_ok_def by blast

section \<open>Ordered trees\<close>

text \<open>
  \<open>rb_find\<close> is the content of the tree; the program never calls it, the laws are
  stated with it.
\<close>

record ('r, 'v) rbtree_api =
  rb_init :: 'r
  rb_find :: "'r \<Rightarrow> int \<Rightarrow> 'v option"
  rb_add :: "'r \<Rightarrow> int \<Rightarrow> 'v \<Rightarrow> 'r"
  rb_move :: "'r \<Rightarrow> int \<Rightarrow> int \<Rightarrow> 'r option"
  rb_leftmost :: "'r \<Rightarrow> (int \<times> 'v) option"
  rb_remove_node :: "'r \<Rightarrow> int \<Rightarrow> 'r"
  rb_clear :: "'r \<Rightarrow> 'r"

definition rbtree_ok :: "('r, 'v) rbtree_api \<Rightarrow> bool" where
  "rbtree_ok R \<longleftrightarrow>
     rb_find R (rb_init R) = Map.empty \<and>
     (\<forall>r. finite (dom (rb_find R r))) \<and>
     (\<forall>r k v. rb_find R r k = None \<longrightarrow>
        rb_find R (rb_add R r k v) = (rb_find R r)(k \<mapsto> v)) \<and>
     (\<forall>r k k' v. rb_find R r k = Some v \<longrightarrow> rb_find R r k' = None \<longrightarrow>
        (\<exists>r'. rb_move R r k k' = Some r' \<and>
           rb_find R r' = (rb_find R r)(k := None, k' \<mapsto> v))) \<and>
     (\<forall>r. rb_find R r = Map.empty \<longrightarrow> rb_leftmost R r = None) \<and>
     (\<forall>r. rb_find R r \<noteq> Map.empty \<longrightarrow>
        (\<exists>v. rb_leftmost R r = Some (Min (dom (rb_find R r)), v) \<and>
           rb_find R r (Min (dom (rb_find R r))) = Some v)) \<and>
     (\<forall>r k. rb_find R (rb_remove_node R r k) = (rb_find R r)(k := None))"

lemma rbtree_okD:
  assumes "rbtree_ok R"
  shows "rb_find R (rb_init R) = Map.empty"
    "finite (dom (rb_find R r))"
    "rb_find R r k = None \<Longrightarrow> rb_find R (rb_add R r k v) = (rb_find R r)(k \<mapsto> v)"
    "rb_find R r = Map.empty \<Longrightarrow> rb_leftmost R r = None"
    "rb_find R (rb_remove_node R r k) = (rb_find R r)(k := None)"
  using assms unfolding rbtree_ok_def by blast+

lemma rbtree_ok_move:
  assumes "rbtree_ok R" "rb_find R r k = Some v" "rb_find R r k' = None"
  obtains r' where "rb_move R r k k' = Some r'"
    "rb_find R r' = (rb_find R r)(k := None, k' \<mapsto> v)"
  using assms unfolding rbtree_ok_def by blast

lemma rbtree_ok_leftmost:
  assumes "rbtree_ok R" "rb_find R r \<noteq> Map.empty"
  obtains v where "rb_leftmost R r = Some (Min (dom (rb_find R r)), v)"
    "rb_find R r (Min (dom (rb_find R r))) = Some v"
  using assms unfolding rbtree_ok_def by blast

section \<open>Association-list instances\<close>

definition al_table :: "(('k \<times> 'v) list, 'k, 'v) table_api" where
  "al_table = \<lparr>
     tbl_init = (\<lambda>_. []),
     tbl_size = (\<lambda>t. int (length (remdups (map fst t)))),
     tbl_search = map_of,
     tbl_add = (\<lambda>t k v. (k, v) # t),
     tbl_remove = (\<lambda>t k. case map_of t k of None \<Rightarrow> None
       | Some v \<Rightarrow> Some (v, filter (\<lambda>p. fst p \<noteq> k) t)),
     tbl_items = (\<lambda>t. map (\<lambda>k. (k, the (map_of t k))) (remdups (map fst t))),
     tbl_free = (\<lambda>_. [])\<rparr>"

lemma map_of_filter_key: "map_of (filter (\<lambda>p. fst p \<noteq> k) t) = (map_of t)(k := None)"
  by (induction t) (auto simp: fun_eq_iff)

lemma map_of_map_keys:
  "map_of (map (\<lambda>k. (k, f k)) ks) k = (if k \<in> set ks then Some (f k) else None)"
  by (induction ks) auto

lemma table_ok_al_table [simp]: "table_ok al_table"
proof -
  have items: "map_of (map (\<lambda>k. (k, the (map_of t k))) (remdups (map fst t))) = map_of t"
    for t :: "('k \<times> 'v) list"
    by (rule ext) (auto simp: map_of_map_keys map_of_eq_None_iff dest: weak_map_of_SomeI
      intro!: sym [OF iffD2 [OF map_of_eq_None_iff]])
  have size: "length (remdups (map fst t)) = card (dom (map_of t))" for t :: "('k \<times> 'v) list"
    by (simp add: dom_map_of_conv_image_fst length_remdups_card_conv)
  show ?thesis
    unfolding table_ok_def al_table_def
    by (auto simp: items size map_of_filter_key finite_dom_map_of comp_def)
qed

lemma al_table_simps [simp, lib_simps]:
  "tbl_init al_table n = []"
  "tbl_size al_table t = int (length (remdups (map fst t)))"
  "tbl_search al_table = map_of"
  "tbl_add al_table t k v = (k, v) # t"
  "tbl_remove al_table t k = (case map_of t k of None \<Rightarrow> None
     | Some v \<Rightarrow> Some (v, filter (\<lambda>p. fst p \<noteq> k) t))"
  "tbl_items al_table t = map (\<lambda>k. (k, the (map_of t k))) (remdups (map fst t))"
  by (simp_all add: al_table_def)

definition al_rbtree :: "((int \<times> 'v) list, 'v) rbtree_api" where
  "al_rbtree = \<lparr>
     rb_init = [],
     rb_find = map_of,
     rb_add = (\<lambda>r k v. (k, v) # r),
     rb_move = (\<lambda>r k k'. case map_of r k of None \<Rightarrow> None
       | Some v \<Rightarrow> Some ((k', v) # filter (\<lambda>p. fst p \<noteq> k) r)),
     rb_leftmost = (\<lambda>r. if r = [] then None
       else let k = Min (set (map fst r)) in Some (k, the (map_of r k))),
     rb_remove_node = (\<lambda>r k. filter (\<lambda>p. fst p \<noteq> k) r),
     rb_clear = (\<lambda>_. [])\<rparr>"

lemma rbtree_ok_al_rbtree [simp]: "rbtree_ok al_rbtree"
proof -
  have left: "\<exists>v. the (map_of r (Min (fst ` set r))) = v \<and> map_of r (Min (fst ` set r)) = Some v"
    if "r \<noteq> []" for r :: "(int \<times> 'v) list"
  proof -
    have "Min (fst ` set r) \<in> fst ` set r" using that by (intro Min_in) auto
    then show ?thesis by (auto dest: weak_map_of_SomeI)
  qed
  show ?thesis
    unfolding rbtree_ok_def al_rbtree_def
    using left
    by (auto simp: map_of_filter_key finite_dom_map_of dom_map_of_conv_image_fst Let_def)
qed

lemma al_rbtree_simps [simp, lib_simps]:
  "rb_init al_rbtree = []"
  "rb_find al_rbtree = map_of"
  "rb_add al_rbtree r k v = (k, v) # r"
  "rb_move al_rbtree r k k' = (case map_of r k of None \<Rightarrow> None
     | Some v \<Rightarrow> Some ((k', v) # filter (\<lambda>p. fst p \<noteq> k) r))"
  "rb_leftmost al_rbtree r = (if r = [] then None
     else let k = Min (set (map fst r)) in Some (k, the (map_of r k)))"
  "rb_remove_node al_rbtree r k = filter (\<lambda>p. fst p \<noteq> k) r"
  by (simp_all add: al_rbtree_def)

end
