(* ===== verification/Cache.thy ===== *)
theory Cache
  imports C_Utils Lru_Queue
begin

text \<open>
  The datum cache of a worker, \<^verbatim>\<open>src/turbine/cache.c\<close>: a hash table from a TD to an
  entry and a tree from a stamp to the same entry, the tree giving the order of last
  access. Both hold pointers to one \<^verbatim>\<open>struct entry\<close>, which \<^verbatim>\<open>turbine_cache_retrieve\<close>
  and \<^verbatim>\<open>cache_replace\<close> update in place, so the model keeps an explicit store of
  entries by address. \<open>cache_abs\<close> reads the state as a queue in order of last
  access; the operations refine \<open>lru_put\<close> and \<open>lru_touch\<close> on it. The memory budget
  is an \<^verbatim>\<open>unsigned long\<close> and is a 64-bit word here. \<^verbatim>\<open>malloc\<close> of an entry is taken to
  succeed (the code does not test it).
\<close>

section \<open>State\<close>

record 'd entry =
  e_td :: int
  e_type :: adlb_type
  e_data :: 'd
  e_length :: "64 word"
  e_stamp :: int

record ('t, 'r, 'd) cache =
  max_entries :: int
  initialized :: bool
  counter :: int
  memory :: "64 word"
  entries :: 't
  lru :: 'r
  heap :: "nat \<rightharpoonup> 'd entry"
  brk :: nat
  freed :: "'d list"

type_synonym 't table = "('t, int, nat) table_api"
type_synonym 'r tree = "('r, nat) rbtree_api"

section \<open>Operations\<close>

definition turbine_cache_init ::
    "'t table \<Rightarrow> 'r tree \<Rightarrow> int \<Rightarrow> 64 word \<Rightarrow> ('t, 'r, 'd) cache \<Rightarrow> ('t, 'r, 'd) cache res" where
  "turbine_cache_init T R sz max_memory s =
     c_assert (\<not> initialized s)
       (let s = s\<lparr>initialized := True, max_entries := sz, memory := max_memory\<rparr> in
        if max_entries s = 0 then Inr s
        else Inr (s\<lparr>entries := tbl_init T sz, lru := rb_init R\<rparr>))"

definition turbine_cache_check :: "'t table \<Rightarrow> int \<Rightarrow> ('t, 'r, 'd) cache \<Rightarrow> bool" where
  "turbine_cache_check T td s =
     (if max_entries s = 0 then False else tbl_search T (entries s) td \<noteq> None)"

definition turbine_cache_retrieve ::
    "'t table \<Rightarrow> 'r tree \<Rightarrow> int \<Rightarrow> ('t, 'r, 'd) cache
      \<Rightarrow> ((turbine_code + 'd payload) \<times> ('t, 'r, 'd) cache) res" where
  "turbine_cache_retrieve T R td s =
     (case tbl_search T (entries s) td of
        None \<Rightarrow> Inr (Inl TURBINE_ERROR_NOT_FOUND, s)
      | Some a \<Rightarrow>
          (case heap s a of
             None \<Rightarrow> Inl Undefined
           | Some e \<Rightarrow>
               (case rb_move R (lru s) (e_stamp e) (counter s) of
                  None \<Rightarrow> Inl Abort
                | Some r \<Rightarrow>
                    Inr (Inr (e_type e, e_data e, e_length e),
                         s\<lparr>lru := r, heap := (heap s)(a \<mapsto> e\<lparr>e_stamp := counter s\<rparr>),
                           counter := counter s + 1\<rparr>))))"

definition entry_init :: "int \<Rightarrow> adlb_type \<Rightarrow> 'd \<Rightarrow> 64 word \<Rightarrow> int \<Rightarrow> 'd entry" where
  "entry_init td type data len stamp =
     \<lparr>e_td = td, e_type = type, e_data = data, e_length = len, e_stamp = stamp\<rparr>"

definition entry_create ::
    "int \<Rightarrow> adlb_type \<Rightarrow> 'd \<Rightarrow> 64 word \<Rightarrow> int \<Rightarrow> ('t, 'r, 'd) cache \<Rightarrow> nat \<times> ('t, 'r, 'd) cache" where
  "entry_create td type data len stamp s =
     (brk s, s\<lparr>heap := (heap s)(brk s \<mapsto> entry_init td type data len stamp),
               brk := brk s + 1\<rparr>)"

text \<open>
  The loop of \<^verbatim>\<open>cache_shrink\<close>. The guard compares an \<^verbatim>\<open>unsigned long\<close> with zero.
\<close>

function cache_shrink :: "'r tree \<Rightarrow> ('t, 'r, 'd) cache \<Rightarrow> ('t, 'r, 'd) cache res" where
  "cache_shrink R s =
     (if memory s < 0
      then (case rb_leftmost R (lru s) of
              None \<Rightarrow> Inl Undefined
            | Some (stamp, a) \<Rightarrow>
                (case heap s a of
                   None \<Rightarrow> Inl Undefined
                 | Some e \<Rightarrow>
                     cache_shrink R (s\<lparr>lru := rb_remove_node R (lru s) stamp,
                       memory := memory s + e_length e, freed := freed s @ [e_data e],
                       heap := (heap s)(a := None)\<rparr>)))
      else Inr s)"
  by pat_completeness auto
termination
  by (relation "{}") (simp_all add: word_less_def)

definition cache_add ::
    "'t table \<Rightarrow> 'r tree \<Rightarrow> int \<Rightarrow> adlb_type \<Rightarrow> 'd \<Rightarrow> 64 word \<Rightarrow> ('t, 'r, 'd) cache
      \<Rightarrow> ('t, 'r, 'd) cache res" where
  "cache_add T R td type data len s =
     (let (e, s) = entry_create td type data len (counter s) s;
          s = s\<lparr>entries := tbl_add T (entries s) td e\<rparr>;
          s = s\<lparr>lru := rb_add R (lru s) (counter s) e\<rparr>;
          s = s\<lparr>counter := counter s + 1\<rparr>;
          s = s\<lparr>memory := memory s - len\<rparr>
      in cache_shrink R s)"

definition cache_replace ::
    "'t table \<Rightarrow> 'r tree \<Rightarrow> int \<Rightarrow> adlb_type \<Rightarrow> 'd \<Rightarrow> 64 word \<Rightarrow> ('t, 'r, 'd) cache
      \<Rightarrow> ('t, 'r, 'd) cache res" where
  "cache_replace T R td type data len s =
     (case rb_leftmost R (lru s) of
        None \<Rightarrow> Inl Undefined
      | Some (key, a) \<Rightarrow>
          (case heap s a of
             None \<Rightarrow> Inl Undefined
           | Some e \<Rightarrow>
               (case tbl_remove T (entries s) (e_td e) of
                  None \<Rightarrow> Inl Undefined
                | Some (tmp, t) \<Rightarrow>
                    c_assert (tmp = a)
                      (let s = s\<lparr>lru := rb_remove_node R (lru s) key\<rparr>;
                           s = s\<lparr>entries := t\<rparr>;
                           s = s\<lparr>memory := memory s + e_length e, freed := freed s @ [e_data e]\<rparr>;
                           s = s\<lparr>heap := (heap s)
                                   (a \<mapsto> entry_init td type data len (counter s))\<rparr>;
                           s = s\<lparr>lru := rb_add R (lru s) (counter s) a\<rparr>;
                           s = s\<lparr>entries := tbl_add T (entries s) td a\<rparr>;
                           s = s\<lparr>memory := memory s - len\<rparr>;
                           s = s\<lparr>counter := counter s + 1\<rparr>
                       in cache_shrink R s))))"

definition turbine_cache_store ::
    "'t table \<Rightarrow> 'r tree \<Rightarrow> int \<Rightarrow> adlb_type \<Rightarrow> 'd \<Rightarrow> 64 word \<Rightarrow> ('t, 'r, 'd) cache
      \<Rightarrow> (turbine_code \<times> ('t, 'r, 'd) cache) res" where
  "turbine_cache_store T R td type data sz s =
     (if max_entries s = 0 then Inr (TURBINE_SUCCESS, s)
      else c_assert (tbl_size T (entries s) \<le> max_entries s)
        (tcl_check
           (if max_entries s - tbl_size T (entries s) = 1
            then cache_replace T R td type data sz s
            else cache_add T R td type data sz s)
           (\<lambda>s. Inr (TURBINE_SUCCESS, s))))"

fun free_items :: "(int \<times> nat) list \<Rightarrow> ('t, 'r, 'd) cache \<Rightarrow> ('t, 'r, 'd) cache res" where
  "free_items [] s = Inr s"
| "free_items ((td, a) # items) s =
     (case heap s a of
        None \<Rightarrow> Inl Undefined
      | Some e \<Rightarrow> free_items items (s\<lparr>freed := freed s @ [e_data e]\<rparr>))"

definition turbine_cache_finalize ::
    "'t table \<Rightarrow> 'r tree \<Rightarrow> ('t, 'r, 'd) cache \<Rightarrow> ('t, 'r, 'd) cache res" where
  "turbine_cache_finalize T R s =
     (if \<not> initialized s then Inr s
      else tcl_check (free_items (tbl_items T (entries s)) s)
        (\<lambda>s. Inr (s\<lparr>entries := tbl_free T (entries s), lru := rb_clear R (lru s),
                    initialized := False\<rparr>)))"

declare cache_shrink.simps [simp del]

section \<open>The cache as a queue in order of last access\<close>

definition entry_at :: "'r tree \<Rightarrow> ('t, 'r, 'd) cache \<Rightarrow> int \<Rightarrow> 'd entry" where
  "entry_at R s stamp = the (heap s (the (rb_find R (lru s) stamp)))"

definition entry_view :: "'d entry \<Rightarrow> int \<times> 'd payload" where
  "entry_view e = (e_td e, e_type e, e_data e, e_length e)"

definition stamps :: "'r tree \<Rightarrow> ('t, 'r, 'd) cache \<Rightarrow> int list" where
  "stamps R s = sorted_list_of_set (dom (rb_find R (lru s)))"

definition cache_abs :: "'r tree \<Rightarrow> ('t, 'r, 'd) cache \<Rightarrow> 'd queue" where
  "cache_abs R s = map (\<lambda>stamp. entry_view (entry_at R s stamp)) (stamps R s)"

text \<open>How the table, the tree and the entries agree.\<close>

definition cache_inv :: "'t table \<Rightarrow> 'r tree \<Rightarrow> ('t, 'r, 'd) cache \<Rightarrow> bool" where
  "cache_inv T R s \<longleftrightarrow>
     2 \<le> max_entries s \<and> tbl_size T (entries s) < max_entries s \<and>
     (\<forall>td a. tbl_search T (entries s) td = Some a \<longrightarrow>
        (\<exists>e. heap s a = Some e \<and> e_td e = td \<and> rb_find R (lru s) (e_stamp e) = Some a)) \<and>
     (\<forall>stamp a. rb_find R (lru s) stamp = Some a \<longrightarrow> stamp < counter s \<and>
        (\<exists>e. heap s a = Some e \<and> e_stamp e = stamp \<and>
             tbl_search T (entries s) (e_td e) = Some a)) \<and>
     (\<forall>a. a \<in> dom (heap s) \<longrightarrow> a < brk s)"

lemma cache_invD:
  assumes "cache_inv T R s"
  shows "2 \<le> max_entries s" "tbl_size T (entries s) < max_entries s"
    "tbl_search T (entries s) td = Some a \<Longrightarrow>
       \<exists>e. heap s a = Some e \<and> e_td e = td \<and> rb_find R (lru s) (e_stamp e) = Some a"
    "rb_find R (lru s) stamp = Some a \<Longrightarrow> stamp < counter s"
    "rb_find R (lru s) stamp = Some a \<Longrightarrow>
       \<exists>e. heap s a = Some e \<and> e_stamp e = stamp \<and> tbl_search T (entries s) (e_td e) = Some a"
    "heap s a = Some e \<Longrightarrow> a < brk s"
  using assms unfolding cache_inv_def by blast+

lemma entry_at_find:
  assumes "cache_inv T R s" "rb_find R (lru s) stamp = Some a"
  shows "heap s a = Some (entry_at R s stamp)" "e_stamp (entry_at R s stamp) = stamp"
    "tbl_search T (entries s) (e_td (entry_at R s stamp)) = Some a"
  using cache_invD(5) [OF assms] assms(2) by (auto simp: entry_at_def)

lemma find_counter: "cache_inv T R s \<Longrightarrow> rb_find R (lru s) (counter s) = None"
  by (cases "rb_find R (lru s) (counter s)") (auto dest: cache_invD(4))

lemma heap_brk: "cache_inv T R s \<Longrightarrow> heap s (brk s) = None"
  by (cases "heap s (brk s)") (auto dest: cache_invD(6))

lemma find_inj:
  assumes "cache_inv T R s" "rb_find R (lru s) x = Some a" "rb_find R (lru s) y = Some a"
  shows "x = y"
  using entry_at_find(1,2) [OF assms(1,2)] entry_at_find(1,2) [OF assms(1,3)] by simp

lemma search_inj:
  assumes "cache_inv T R s" "tbl_search T (entries s) x = Some a" "tbl_search T (entries s) y = Some a"
  shows "x = y"
  using cache_invD(3) [OF assms(1,2)] cache_invD(3) [OF assms(1,3)] by auto

lemma set_stamps: "rbtree_ok R \<Longrightarrow> set (stamps R s) = dom (rb_find R (lru s))"
  by (simp add: stamps_def rbtree_okD(2))

lemma distinct_stamps: "distinct (stamps R s)"
  by (simp add: stamps_def)

text \<open>Cached TDs are the keys of the queue, each once.\<close>

lemma search_iff_stamp:
  assumes "cache_inv T R s"
  shows "tbl_search T (entries s) td = Some a \<longleftrightarrow>
    (\<exists>stamp. rb_find R (lru s) stamp = Some a \<and> e_td (entry_at R s stamp) = td)"
proof
  assume "tbl_search T (entries s) td = Some a"
  then obtain e where e: "heap s a = Some e" "e_td e = td" "rb_find R (lru s) (e_stamp e) = Some a"
    using cache_invD(3) [OF assms] by blast
  then have "entry_at R s (e_stamp e) = e" by (simp add: entry_at_def)
  with e show "\<exists>stamp. rb_find R (lru s) stamp = Some a \<and> e_td (entry_at R s stamp) = td"
    by (intro exI [of _ "e_stamp e"]) simp
next
  assume "\<exists>stamp. rb_find R (lru s) stamp = Some a \<and> e_td (entry_at R s stamp) = td"
  then show "tbl_search T (entries s) td = Some a" using entry_at_find(3) [OF assms] by blast
qed

lemma td_inj:
  assumes "cache_inv T R s" "rb_find R (lru s) x = Some a" "rb_find R (lru s) y = Some b"
    "e_td (entry_at R s x) = e_td (entry_at R s y)"
  shows "x = y"
  using entry_at_find(3) [OF assms(1,2)] entry_at_find(3) [OF assms(1,3)] assms
  by (metis find_inj option.inject)

lemma keys_cache_abs:
  assumes "rbtree_ok R" "cache_inv T R s"
  shows "fst ` set (cache_abs R s) = dom (tbl_search T (entries s))"
  unfolding cache_abs_def image_image
  by (auto simp: set_stamps [OF assms(1)] entry_view_def search_iff_stamp [OF assms(2)] dom_def
      image_def)

lemma map_fst_cache_abs: "map fst (cache_abs R s) = map (\<lambda>x. e_td (entry_at R s x)) (stamps R s)"
  by (simp add: cache_abs_def entry_view_def comp_def)

lemma distinct_keys_cache_abs:
  assumes "rbtree_ok R" "cache_inv T R s"
  shows "distinct (map fst (cache_abs R s))"
  unfolding map_fst_cache_abs distinct_map
  using td_inj [OF assms(2)] by (auto simp: distinct_stamps set_stamps [OF assms(1)] inj_on_def)

lemma length_cache_abs:
  assumes "table_ok T" "rbtree_ok R" "cache_inv T R s"
  shows "int (length (cache_abs R s)) = tbl_size T (entries s)"
proof -
  have "length (cache_abs R s) = card (fst ` set (cache_abs R s))"
    using distinct_card [OF distinct_keys_cache_abs [OF assms(2,3)]] by simp
  then show ?thesis by (simp add: keys_cache_abs [OF assms(2,3)] table_okD(3) [OF assms(1)])
qed

lemma map_of_cache_abs:
  assumes "rbtree_ok R" "cache_inv T R s" "tbl_search T (entries s) td = Some a" "heap s a = Some e"
  shows "map_of (cache_abs R s) td = Some (e_type e, e_data e, e_length e)"
proof -
  from assms obtain stamp where st: "rb_find R (lru s) stamp = Some a" "entry_at R s stamp = e"
    "e_td e = td"
    using search_iff_stamp [OF assms(2)] entry_at_find(1) [OF assms(2)] by fastforce
  then have "entry_view e \<in> set (cache_abs R s)"
    by (force simp: cache_abs_def set_stamps [OF assms(1)])
  with st(3) show ?thesis
    using distinct_keys_cache_abs [OF assms(1,2)] by (simp add: entry_view_def map_of_is_SomeI)
qed


section \<open>Refinement\<close>

lemma cache_shrink_id [simp]: "cache_shrink R s = Inr s"
  by (subst cache_shrink.simps) simp

text \<open>
  Every operation that changes the tree drops some stamps \<open>V\<close> and adds the current
  counter, the greatest stamp; on the queue this drops entries and appends one.
\<close>

lemma cache_abs_push:
  assumes R: "rbtree_ok R"
    and find: "rb_find R (lru s') = (rb_find R (lru s) |` (- V))(c \<mapsto> a)"
    and old: "\<And>x. x \<in> dom (rb_find R (lru s)) \<Longrightarrow> x < c"
    and new: "heap s' a = Some e"
    and keep: "\<And>x b. rb_find R (lru s) x = Some b \<Longrightarrow> x \<notin> V \<Longrightarrow> heap s' b = heap s b"
  shows "cache_abs R s' =
    map (\<lambda>x. entry_view (entry_at R s x)) (filter (\<lambda>x. x \<notin> V) (stamps R s)) @ [entry_view e]"
proof -
  let ?D = "dom (rb_find R (lru s))"
  have dom: "dom (rb_find R (lru s')) = insert c (?D - V)"
    by (auto simp: find restrict_map_def split: if_splits)
  have fin: "finite ?D" by (rule rbtree_okD(2) [OF R])
  have st: "stamps R s' = filter (\<lambda>x. x \<notin> V) (stamps R s) @ [c]"
    unfolding stamps_def dom
    using fin old by (subst sorted_list_of_set_insert_greatest) (auto simp: sorted_list_of_set_Diff)
  have "entry_at R s' x = entry_at R s x" if "x \<in> set (filter (\<lambda>x. x \<notin> V) (stamps R s))" for x
    using that old keep by (auto simp: entry_at_def find set_stamps [OF R] restrict_map_def)
  moreover have "entry_at R s' c = e" by (simp add: entry_at_def find new)
  ultimately show ?thesis unfolding cache_abs_def st by simp
qed

lemma cache_inv_push:
  assumes inv: "cache_inv T R s"
    and find: "rb_find R (lru s') = (rb_find R (lru s) |` (- V))(counter s \<mapsto> a)"
    and search: "tbl_search T (entries s') = (tbl_search T (entries s) |` (- K))(td \<mapsto> a)"
    and K: "K = (\<lambda>x. e_td (entry_at R s x)) ` (V \<inter> dom (rb_find R (lru s)))"
    and td: "td \<in> K \<or> tbl_search T (entries s) td = None"
    and new: "heap s' a = Some e" "e_td e = td" "e_stamp e = counter s"
    and keep: "\<And>x b. rb_find R (lru s) x = Some b \<Longrightarrow> x \<notin> V \<Longrightarrow> heap s' b = heap s b"
    and count: "counter s' = counter s + 1"
    and brk: "\<And>b. b \<in> dom (heap s') \<Longrightarrow> b < brk s'"
    and size: "2 \<le> max_entries s'" "tbl_size T (entries s') < max_entries s'"
  shows "cache_inv T R s'"
proof -
  have "\<exists>e. heap s' b = Some e \<and> e_td e = t \<and> rb_find R (lru s') (e_stamp e) = Some b"
    if t: "tbl_search T (entries s') t = Some b" for t b
  proof (cases "t = td")
    case True
    with t new show ?thesis by (simp add: search find)
  next
    case False
    with t have nK: "t \<notin> K" and tb: "tbl_search T (entries s) t = Some b"
      by (auto simp: search restrict_map_def split: if_splits)
    from cache_invD(3) [OF inv tb] obtain e0 where
      e0: "heap s b = Some e0" "e_td e0 = t" "rb_find R (lru s) (e_stamp e0) = Some b" by blast
    have "entry_at R s (e_stamp e0) = e0" using e0 by (simp add: entry_at_def)
    then have nV: "e_stamp e0 \<notin> V" using nK e0(2,3) unfolding K by (metis IntI domI image_eqI)
    then show ?thesis using e0 keep [OF e0(3) nV] cache_invD(4) [OF inv e0(3)]
      by (simp add: find)
  qed
  moreover have "x < counter s' \<and> (\<exists>e. heap s' b = Some e \<and> e_stamp e = x \<and>
      tbl_search T (entries s') (e_td e) = Some b)"
    if x: "rb_find R (lru s') x = Some b" for x b
  proof (cases "x = counter s")
    case True
    with x new show ?thesis by (simp add: search find count)
  next
    case False
    with x have nV: "x \<notin> V" and xb: "rb_find R (lru s) x = Some b"
      by (auto simp: find restrict_map_def split: if_splits)
    have "e_td (entry_at R s x) \<notin> K" using td_inj [OF inv xb] nV by (auto simp: K)
    moreover from this td have "e_td (entry_at R s x) \<noteq> td"
      using entry_at_find(3) [OF inv xb] by auto
    ultimately show ?thesis
      using keep [OF xb nV] entry_at_find [OF inv xb] cache_invD(4) [OF inv xb]
      by (simp add: search count)
  qed
  ultimately show ?thesis unfolding cache_inv_def using size brk by blast
qed

lemma filter_stamps_view:
  assumes R: "rbtree_ok R" and inv: "cache_inv T R s"
    and v: "rb_find R (lru s) v = Some a" "e_td (entry_at R s v) = td"
  shows "map (\<lambda>x. entry_view (entry_at R s x)) (filter (\<lambda>x. x \<notin> {v}) (stamps R s)) =
      filter (\<lambda>x. fst x \<noteq> td) (cache_abs R s)"
    and "filter (\<lambda>x. fst x = td) (cache_abs R s) = [entry_view (entry_at R s v)]"
proof -
  have eq: "fst (entry_view (entry_at R s x)) = td \<longleftrightarrow> x = v" if "x \<in> set (stamps R s)" for x
  proof -
    from that obtain b where b: "rb_find R (lru s) x = Some b" by (auto simp: set_stamps [OF R])
    have "e_td (entry_at R s x) = td \<longleftrightarrow> x = v"
      using td_inj [OF inv b v(1)] v(2) by metis
    then show ?thesis by (simp add: entry_view_def)
  qed
  have "filter (\<lambda>x. x \<notin> {v}) (stamps R s) =
      filter ((\<lambda>x. fst x \<noteq> td) \<circ> (\<lambda>x. entry_view (entry_at R s x))) (stamps R s)"
    by (rule filter_cong) (simp_all add: eq)
  then show "map (\<lambda>x. entry_view (entry_at R s x)) (filter (\<lambda>x. x \<notin> {v}) (stamps R s)) =
      filter (\<lambda>x. fst x \<noteq> td) (cache_abs R s)"
    by (simp only: cache_abs_def filter_map)
  have "v \<in> set (stamps R s)" using v(1) by (auto simp: set_stamps [OF R])
  then have "[v] = filter (\<lambda>x. x = v) (stamps R s)"
    by (simp add: filter_eq_singleton distinct_stamps)
  also have "\<dots> = filter ((\<lambda>x. fst x = td) \<circ> (\<lambda>x. entry_view (entry_at R s x))) (stamps R s)"
    by (rule filter_cong) (simp_all add: eq)
  finally have f: "filter ((\<lambda>x. fst x = td) \<circ> (\<lambda>x. entry_view (entry_at R s x))) (stamps R s) = [v]"
    by (rule sym)
  show "filter (\<lambda>x. fst x = td) (cache_abs R s) = [entry_view (entry_at R s v)]"
    unfolding cache_abs_def filter_map f by simp
qed

lemma retrieve_hit:
  assumes ok: "rbtree_ok R" and inv: "cache_inv T R s"
    and a: "tbl_search T (entries s) td = Some a"
  obtains e s' where "heap s a = Some e"
    "turbine_cache_retrieve T R td s = Inr (Inr (e_type e, e_data e, e_length e), s')"
    "cache_inv T R s'"
    "cache_abs R s' = lru_touch td (cache_abs R s)"
    "entries s' = entries s" "max_entries s' = max_entries s" "memory s' = memory s"
    "freed s' = freed s" "initialized s' = initialized s"
proof -
  from cache_invD(3) [OF inv a] obtain e where
    e: "heap s a = Some e" "e_td e = td" "rb_find R (lru s) (e_stamp e) = Some a" by blast
  from rbtree_ok_move [OF ok e(3) find_counter [OF inv]] obtain r where
    r: "rb_move R (lru s) (e_stamp e) (counter s) = Some r"
      "rb_find R r = (rb_find R (lru s))(e_stamp e := None, counter s \<mapsto> a)" by blast
  let ?e = "e\<lparr>e_stamp := counter s\<rparr>"
  let ?s' = "s\<lparr>lru := r, heap := (heap s)(a \<mapsto> ?e), counter := counter s + 1\<rparr>"
  have at: "entry_at R s (e_stamp e) = e" using e by (simp add: entry_at_def)
  have find: "rb_find R (lru ?s') = (rb_find R (lru s) |` (- {e_stamp e}))(counter s \<mapsto> a)"
    by (simp add: r restrict_complement_singleton_eq)
  have keep: "heap ?s' b = heap s b" if "rb_find R (lru s) x = Some b" "x \<notin> {e_stamp e}" for x b
    using that find_inj [OF inv _ e(3)] by auto
  show thesis
  proof (rule that [of e ?s'])
    show "turbine_cache_retrieve T R td s = Inr (Inr (e_type e, e_data e, e_length e), ?s')"
      by (simp add: turbine_cache_retrieve_def a e r)
    show "cache_inv T R ?s'"
      by (rule cache_inv_push [OF inv find, where K = "{td}" and td = td and e = ?e])
        (use a e at keep cache_invD [OF inv] in
          \<open>auto simp: restrict_map_def fun_eq_iff dest: cache_invD(6) [OF inv]\<close>)
    have "cache_abs R ?s' = map (\<lambda>x. entry_view (entry_at R s x))
        (filter (\<lambda>x. x \<notin> {e_stamp e}) (stamps R s)) @ [entry_view ?e]"
      by (rule cache_abs_push [OF ok find]) (use keep cache_invD(4) [OF inv] in auto)
    also have "\<dots> = lru_touch td (cache_abs R s)"
      using filter_stamps_view [OF ok inv e(3)] e(2)
      by (simp add: lru_touch_def at entry_view_def)
    finally show "cache_abs R ?s' = lru_touch td (cache_abs R s)" .
  qed (simp_all add: e)
qed


lemma entry_init_simps [simp]:
  "e_td (entry_init td ty d n c) = td" "e_type (entry_init td ty d n c) = ty"
  "e_data (entry_init td ty d n c) = d" "e_length (entry_init td ty d n c) = n"
  "e_stamp (entry_init td ty d n c) = c"
  by (simp_all add: entry_init_def)

lemma entry_view_init: "entry_view (entry_init td ty d n c) = (td, ty, d, n)"
  by (simp add: entry_view_def)

lemma add_refines:
  assumes T: "table_ok T" and R: "rbtree_ok R" and inv: "cache_inv T R s"
    and new: "tbl_search T (entries s) td = None"
    and room: "tbl_size T (entries s) < max_entries s - 1"
  obtains s' where "cache_add T R td ty d n s = Inr s'"
    "cache_inv T R s'"
    "cache_abs R s' = cache_abs R s @ [(td, ty, d, n)]"
    "max_entries s' = max_entries s" "memory s' = memory s - n" "freed s' = freed s"
    "initialized s' = initialized s"
proof -
  let ?e = "entry_init td ty d n (counter s)"
  let ?s' = "s\<lparr>heap := (heap s)(brk s \<mapsto> ?e), brk := brk s + 1,
    entries := tbl_add T (entries s) td (brk s), lru := rb_add R (lru s) (counter s) (brk s),
    counter := counter s + 1, memory := memory s - n\<rparr>"
  have find: "rb_find R (lru ?s') = (rb_find R (lru s) |` (- {}))(counter s \<mapsto> brk s)"
    unfolding restrict_map_Compl_empty by (simp add: rbtree_okD(3) [OF R find_counter [OF inv]])
  have search: "tbl_search T (entries ?s') = (tbl_search T (entries s) |` (- {}))(td \<mapsto> brk s)"
    unfolding restrict_map_Compl_empty by (simp add: table_okD(4) [OF T new])
  have keep: "heap ?s' b = heap s b" if "rb_find R (lru s) x = Some b" "x \<notin> {}" for x b
    using entry_at_find(1) [OF inv that(1)] heap_brk [OF inv] by auto
  have size: "tbl_size T (entries ?s') < max_entries ?s'"
    using room new by (simp add: table_okD(4) [OF T new] table_okD(2,3) [OF T] domIff)
  show thesis
  proof (rule that [of ?s'])
    show "cache_add T R td ty d n s = Inr ?s'"
      by (simp add: cache_add_def entry_create_def Let_def)
    show "cache_inv T R ?s'"
      by (rule cache_inv_push [OF inv find search])
        (use new keep size cache_invD(1) [OF inv] in
          \<open>auto simp: less_Suc_eq dest: cache_invD(6) [OF inv] split: if_splits\<close>)
    have "cache_abs R ?s' = map (\<lambda>x. entry_view (entry_at R s x))
        (filter (\<lambda>x. x \<notin> {}) (stamps R s)) @ [entry_view ?e]"
      by (rule cache_abs_push [OF R find]) (use keep cache_invD(4) [OF inv] in auto)
    then show "cache_abs R ?s' = cache_abs R s @ [(td, ty, d, n)]"
      by (simp add: cache_abs_def entry_view_init)
  qed simp_all
qed

text \<open>The entry at the least stamp is the head of the abstract queue.\<close>

lemma lru_front:
  assumes R: "rbtree_ok R" and inv: "cache_inv T R s" and ne: "rb_find R (lru s) \<noteq> Map.empty"
  obtains k a e where "rb_leftmost R (lru s) = Some (k, a)" "rb_find R (lru s) k = Some a"
    "e = entry_at R s k" "heap s a = Some e" "e_stamp e = k" "tbl_search T (entries s) (e_td e) = Some a"
    "cache_abs R s = entry_view e # tl (cache_abs R s)"
    "map (\<lambda>x. entry_view (entry_at R s x)) (filter (\<lambda>x. x \<notin> {k}) (stamps R s)) = tl (cache_abs R s)"
proof -
  define k where "k = Min (dom (rb_find R (lru s)))"
  from rbtree_ok_leftmost [OF R ne] obtain a where
    left: "rb_leftmost R (lru s) = Some (k, a)" and k: "rb_find R (lru s) k = Some a"
    unfolding k_def by blast
  define e where "e = entry_at R s k"
  have "stamps R s = k # sorted_list_of_set (dom (rb_find R (lru s)) - {k})"
    unfolding stamps_def k_def
    using ne by (intro sorted_list_of_set_Min_Cons rbtree_okD(2) [OF R]) auto
  moreover have "filter (\<lambda>x. x \<notin> {k}) (stamps R s) = sorted_list_of_set (dom (rb_find R (lru s)) - {k})"
    unfolding stamps_def by (rule sorted_list_of_set_Diff [OF rbtree_okD(2) [OF R], symmetric])
  ultimately have "map (\<lambda>x. entry_view (entry_at R s x)) (filter (\<lambda>x. x \<notin> {k}) (stamps R s)) =
      tl (cache_abs R s)" and "cache_abs R s = entry_view e # tl (cache_abs R s)"
    by (simp_all add: cache_abs_def e_def)
  with left k e_def show thesis
    using entry_at_find [OF inv k] by (intro that [of k a e]) simp_all
qed

lemma replace_refines:
  assumes T: "table_ok T" and R: "rbtree_ok R" and inv: "cache_inv T R s"
    and new: "tbl_search T (entries s) td = None"
    and full: "tbl_size T (entries s) = max_entries s - 1"
  obtains s' v where "cache_replace T R td ty d n s = Inr s'"
    "cache_inv T R s'"
    "cache_abs R s = v # tl (cache_abs R s)"
    "cache_abs R s' = tl (cache_abs R s) @ [(td, ty, d, n)]"
    "max_entries s' = max_entries s" "memory s' = memory s + snd (snd (snd v)) - n"
    "freed s' = freed s @ [fst (snd (snd v))]" "initialized s' = initialized s"
proof -
  have "dom (tbl_search T (entries s)) \<noteq> {}"
    using full cache_invD(1) [OF inv] table_okD(3) [OF T, of "entries s"] by auto
  then have "rb_find R (lru s) \<noteq> Map.empty"
    using cache_invD(3) [OF inv] by (fastforce simp: dom_def)
  then obtain k a e where
    left: "rb_leftmost R (lru s) = Some (k, a)" and k: "rb_find R (lru s) k = Some a" and
    e_def: "e = entry_at R s k" and
    e: "heap s a = Some e" "e_stamp e = k" "tbl_search T (entries s) (e_td e) = Some a" and
    hd: "cache_abs R s = entry_view e # tl (cache_abs R s)" and
    V: "map (\<lambda>x. entry_view (entry_at R s x)) (filter (\<lambda>x. x \<notin> {k}) (stamps R s)) = tl (cache_abs R s)"
    by (rule lru_front [OF R inv])
  from table_ok_remove [OF T e(3)] obtain t where
    t: "tbl_remove T (entries s) (e_td e) = Some (a, t)"
      "tbl_search T t = (tbl_search T (entries s))(e_td e := None)" by blast
  let ?e = "entry_init td ty d n (counter s)"
  let ?r = "rb_remove_node R (lru s) k"
  let ?s' = "s\<lparr>lru := rb_add R ?r (counter s) a, entries := tbl_add T t td a,
    memory := memory s + e_length e - n, freed := freed s @ [e_data e],
    heap := (heap s)(a \<mapsto> ?e), counter := counter s + 1\<rparr>"
  have fr: "rb_find R ?r = (rb_find R (lru s))(k := None)" by (rule rbtree_okD(5) [OF R])
  have "rb_find R ?r (counter s) = None" by (simp add: fr find_counter [OF inv])
  then have find: "rb_find R (lru ?s') = (rb_find R (lru s) |` (- {k}))(counter s \<mapsto> a)"
    by (simp add: rbtree_okD(3) [OF R] fr restrict_complement_singleton_eq)
  have "tbl_search T t td = None" using new by (simp add: t(2))
  then have search: "tbl_search T (entries ?s') =
      (tbl_search T (entries s) |` (- {e_td e}))(td \<mapsto> a)"
    by (simp add: table_okD(4) [OF T] t(2) restrict_complement_singleton_eq)
  have keep: "heap ?s' b = heap s b" if "rb_find R (lru s) x = Some b" "x \<notin> {k}" for x b
    using that find_inj [OF inv _ k] by auto
  have dom: "dom (tbl_search T (entries ?s')) = insert td (dom (tbl_search T (entries s)) - {e_td e})"
    unfolding search by (auto simp: restrict_map_def split: if_splits)
  have "card (dom (tbl_search T (entries ?s'))) = card (dom (tbl_search T (entries s)))"
    using new e(3) card_Suc_Diff1 [OF table_okD(2) [OF T], of "e_td e" "entries s"]
    unfolding dom by (simp add: table_okD(2) [OF T] domIff del: card_Diff_insert)
  then have size: "tbl_size T (entries ?s') < max_entries ?s'"
    using full by (simp add: table_okD(3) [OF T])
  show thesis
  proof (rule that [of ?s' "entry_view e"])
    show "cache_replace T R td ty d n s = Inr ?s'"
      by (simp add: cache_replace_def left e(1) t(1) Let_def)
    show "cache_inv T R ?s'"
      by (rule cache_inv_push [OF inv find search])
        (use new keep size k e cache_invD(1) [OF inv] in
          \<open>auto simp: e_def dest: cache_invD(6) [OF inv] split: if_splits\<close>)
    have "cache_abs R ?s' = map (\<lambda>x. entry_view (entry_at R s x))
        (filter (\<lambda>x. x \<notin> {k}) (stamps R s)) @ [entry_view ?e]"
      by (rule cache_abs_push [OF R find]) (use keep cache_invD(4) [OF inv] in auto)
    then show "cache_abs R ?s' = tl (cache_abs R s) @ [(td, ty, d, n)]"
      unfolding V entry_view_init .
    show "cache_abs R s = entry_view e # tl (cache_abs R s)" by (rule hd)
  qed (simp_all add: entry_view_def)
qed


lemma search_None_iff:
  assumes "rbtree_ok R" "cache_inv T R s"
  shows "tbl_search T (entries s) td = None \<longleftrightarrow> td \<notin> fst ` set (cache_abs R s)"
  using keys_cache_abs [OF assms] by (auto simp: domIff)

text \<open>One store, whichever of \<^verbatim>\<open>cache_add\<close> and \<^verbatim>\<open>cache_replace\<close> it takes.\<close>

lemma store_cases:
  assumes T: "table_ok T" and R: "rbtree_ok R" and inv: "cache_inv T R s"
    and new: "td \<notin> fst ` set (cache_abs R s)"
  obtains s' where "turbine_cache_store T R td ty d n s = Inr (TURBINE_SUCCESS, s')"
    "cache_inv T R s'" "max_entries s' = max_entries s" "initialized s' = initialized s"
    "cache_abs R s' = lru_put (max_entries s) (td, ty, d, n) (cache_abs R s)"
    "memory s' + live_bytes (cache_abs R s') = memory s + live_bytes (cache_abs R s)"
    "mset (freed s') + live_data (cache_abs R s') =
       mset (freed s) + add_mset d (live_data (cache_abs R s))"
    "int (length (cache_abs R s)) < max_entries s - 1 \<Longrightarrow> memory s' = memory s - n"
proof -
  have none: "tbl_search T (entries s) td = None" using new search_None_iff [OF R inv] by simp
  have len: "int (length (cache_abs R s)) = tbl_size T (entries s)" by (rule length_cache_abs [OF T R inv])
  have max: "2 \<le> max_entries s" "tbl_size T (entries s) < max_entries s"
    using cache_invD(1,2) [OF inv] by simp_all
  show thesis
  proof (cases "tbl_size T (entries s) = max_entries s - 1")
    case True
    from replace_refines [OF T R inv none True, of ty d n] obtain s' v where
      r: "cache_replace T R td ty d n s = Inr s'" "cache_inv T R s'"
        "cache_abs R s = v # tl (cache_abs R s)"
        "cache_abs R s' = tl (cache_abs R s) @ [(td, ty, d, n)]"
        "max_entries s' = max_entries s" "memory s' = memory s + snd (snd (snd v)) - n"
        "freed s' = freed s @ [fst (snd (snd v))]" "initialized s' = initialized s" by blast
    obtain q where q: "cache_abs R s = v # q" using r(3) by blast
    show thesis
      by (rule that [of s']) (use r(1,2,4-8) q True max len in
        \<open>simp_all add: turbine_cache_store_def lru_put_def\<close>)
  next
    case False
    then have room: "tbl_size T (entries s) < max_entries s - 1" using max by simp
    from add_refines [OF T R inv none room, of ty d n] obtain s' where
      "cache_add T R td ty d n s = Inr s'" "cache_inv T R s'"
        "cache_abs R s' = cache_abs R s @ [(td, ty, d, n)]"
        "max_entries s' = max_entries s" "memory s' = memory s - n" "freed s' = freed s"
        "initialized s' = initialized s" by blast
    then show thesis
      by (intro that [of s']) (use False max len in
        \<open>simp_all add: turbine_cache_store_def lru_put_def\<close>)
  qed
qed

lemma retrieve_miss:
  assumes "tbl_search T (entries s) td = None"
  shows "turbine_cache_retrieve T R td s = Inr (Inl TURBINE_ERROR_NOT_FOUND, s)"
  using assms by (simp add: turbine_cache_retrieve_def)

lemma init_inv:
  assumes "table_ok T" "rbtree_ok R" "\<not> initialized s" "2 \<le> n" "\<forall>a \<in> dom (heap s). a < brk s"
    "turbine_cache_init T R n m s = Inr s'"
  shows "cache_inv T R s'" "cache_abs R s' = []" "max_entries s' = n" "memory s' = m"
    "freed s' = freed s" "initialized s'"
proof -
  have s': "s' = s\<lparr>initialized := True, max_entries := n, memory := m,
      entries := tbl_init T n, lru := rb_init R\<rparr>"
    using assms by (simp add: turbine_cache_init_def Let_def)
  show "cache_inv T R s'"
    unfolding cache_inv_def using assms(4,5)
    by (simp add: s' table_okD(1,3) [OF assms(1)] rbtree_okD(1) [OF assms(2)])
  show "cache_abs R s' = []"
    by (simp add: s' cache_abs_def stamps_def rbtree_okD(1) [OF assms(2)])
qed (use assms in \<open>auto simp: turbine_cache_init_def Let_def\<close>)


section \<open>Finalization\<close>

lemma free_items_all:
  assumes "\<forall>(td, a) \<in> set items. heap s a \<noteq> None"
  shows "free_items items s =
    Inr (s\<lparr>freed := freed s @ map (\<lambda>(td, a). e_data (the (heap s a))) items\<rparr>)"
  using assms
proof (induction items arbitrary: s)
  case Nil
  then show ?case by simp
next
  case (Cons x items)
  obtain td a where x: "x = (td, a)" by (cases x)
  with Cons.prems obtain e where e: "heap s a = Some e" by auto
  have "\<forall>(td, a) \<in> set items. heap (s\<lparr>freed := freed s @ [e_data e]\<rparr>) a \<noteq> None"
    using Cons.prems by auto
  from Cons.IH [OF this] show ?case by (simp add: x e)
qed

lemma mset_addresses:
  assumes T: "table_ok T" and R: "rbtree_ok R" and inv: "cache_inv T R s"
  shows "mset (map snd (tbl_items T (entries s))) =
    mset (map (\<lambda>x. the (rb_find R (lru s) x)) (stamps R s))"
proof -
  let ?I = "tbl_items T (entries s)" and ?f = "\<lambda>x. the (rb_find R (lru s) x)"
  have items: "(td, a) \<in> set ?I \<longleftrightarrow> tbl_search T (entries s) td = Some a" for td a
    using table_okD(6,7) [OF T, of "entries s"] by (metis map_of_eq_Some_iff)
  have "inj_on snd (set ?I)" using search_inj [OF inv] by (auto simp: inj_on_def items)
  then have d1: "distinct (map snd ?I)"
    using table_okD(6) [OF T, of "entries s"] by (simp add: distinct_map)
  have "inj_on ?f (set (stamps R s))"
    using find_inj [OF inv] by (auto simp: inj_on_def set_stamps [OF R])
  then have d2: "distinct (map ?f (stamps R s))" by (simp add: distinct_map distinct_stamps)
  have "snd ` set ?I = ran (tbl_search T (entries s))"
    using items by (force simp: ran_def)
  also have "\<dots> = ran (rb_find R (lru s))"
    using search_iff_stamp [OF inv] by (auto simp: ran_def)
  also have "\<dots> = ?f ` set (stamps R s)"
    by (force simp: ran_def set_stamps [OF R])
  finally have "set (map snd ?I) = set (map ?f (stamps R s))" by simp
  then show ?thesis using d1 d2 by (simp only: set_eq_iff_mset_eq_distinct)
qed

lemma finalize_frees:
  assumes T: "table_ok T" and R: "rbtree_ok R" and inv: "cache_inv T R s" and i: "initialized s"
  obtains s' where "turbine_cache_finalize T R s = Inr s'" "\<not> initialized s'"
    "mset (freed s') = mset (freed s) + live_data (cache_abs R s)"
proof -
  let ?I = "tbl_items T (entries s)" and ?d = "\<lambda>a. e_data (the (heap s a))"
  have heap: "\<forall>(td, a) \<in> set ?I. heap s a \<noteq> None"
    using cache_invD(3) [OF inv] table_okD(6,7) [OF T, of "entries s"]
    by (fastforce simp flip: map_of_eq_Some_iff)
  have "mset (map (\<lambda>(td, a). ?d a) ?I) = image_mset ?d (mset (map snd ?I))"
    by (simp add: case_prod_unfold image_mset.compositionality comp_def)
  also have "\<dots> = live_data (cache_abs R s)"
    unfolding mset_addresses [OF T R inv]
    by (simp add: live_data_def cache_abs_def entry_view_def entry_at_def
        image_mset.compositionality comp_def)
  finally have data: "mset (map (\<lambda>(td, a). ?d a) ?I) = live_data (cache_abs R s)" .
  let ?F = "freed s @ map (\<lambda>(td, a). ?d a) ?I"
  show thesis
  proof (rule that)
    show "turbine_cache_finalize T R s = Inr (s\<lparr>freed := ?F, entries := tbl_free T (entries s),
        lru := rb_clear R (lru s), initialized := False\<rparr>)"
      by (simp add: turbine_cache_finalize_def i free_items_all [OF heap])
    show "mset (freed (s\<lparr>freed := ?F, entries := tbl_free T (entries s),
        lru := rb_clear R (lru s), initialized := False\<rparr>)) =
        mset (freed s) + live_data (cache_abs R s)"
      using data by simp
  qed simp
qed

section \<open>The contract of the cache\<close>

lemma check_iff:
  assumes "rbtree_ok R" "cache_inv T R s"
  shows "turbine_cache_check T td s \<longleftrightarrow> td \<in> fst ` set (cache_abs R s)"
  using search_None_iff [OF assms, of td] cache_invD(1) [OF assms(2)]
  by (simp add: turbine_cache_check_def)

lemma retrieve_refines:
  assumes R: "rbtree_ok R" and inv: "cache_inv T R s"
  shows "\<exists>s'. turbine_cache_retrieve T R td s =
      Inr (case map_of (cache_abs R s) td of None \<Rightarrow> Inl TURBINE_ERROR_NOT_FOUND | Some p \<Rightarrow> Inr p, s') \<and>
    cache_inv T R s' \<and> max_entries s' = max_entries s \<and> initialized s' = initialized s \<and>
    cache_abs R s' = lru_touch td (cache_abs R s) \<and> freed s' = freed s"
proof (cases "tbl_search T (entries s) td")
  case None
  then have "td \<notin> fst ` set (cache_abs R s)" using search_None_iff [OF R inv] by simp
  then show ?thesis
    using None inv by (simp add: retrieve_miss lru_touch_absent iffD2 [OF map_of_eq_None_iff])
next
  case (Some a)
  show ?thesis
    by (rule retrieve_hit [OF R inv Some]) (use map_of_cache_abs [OF R inv Some] in auto)
qed

abbreviation cache_ready :: "'t table \<Rightarrow> 'r tree \<Rightarrow> ('t, 'r, 'd) cache \<Rightarrow> bool" where
  "cache_ready T R s \<equiv> table_ok T \<and> rbtree_ok R \<and> cache_inv T R s"

interpretation lru: bounded_cache "turbine_cache_check T" "turbine_cache_retrieve T R" "turbine_cache_store T R"
  "cache_ready T R" "cache_abs R" "\<lambda>s. (max_entries s, initialized s)" freed
proof (unfold_locales, goal_cases)
  case (1 s)
  then show ?case using distinct_keys_cache_abs by blast
next
  case (2 s td)
  then show ?case using check_iff by blast
next
  case (3 s td)
  then show ?case using retrieve_refines [of R T s td] by auto
next
  case (4 s td ty d n)
  then obtain T: "table_ok T" and R: "rbtree_ok R" and inv: "cache_inv T R s" by blast
  show ?case by (rule store_cases [OF T R inv 4(2), of ty d n]) (use T R in auto)
qed

text \<open>A run of a client on the cache.\<close>

abbreviation cache_run ::
    "'t table \<Rightarrow> 'r tree \<Rightarrow> 'd cache_op list \<Rightarrow> ('t, 'r, 'd) cache \<Rightarrow> ('t, 'r, 'd) cache res" where
  "cache_run T R \<equiv> client_run (turbine_cache_check T) (turbine_cache_retrieve T R) (turbine_cache_store T R)"

lemma cache_run_refines_from:
  assumes T: "table_ok T" and R: "rbtree_ok R" and inv: "cache_inv T R s"
  shows "\<exists>s'. cache_run T R ops s = Inr s' \<and> cache_inv T R s' \<and>
    max_entries s' = max_entries s \<and> initialized s' = initialized s \<and>
    cache_abs R s' = lru_run (max_entries s) ops (cache_abs R s) \<and>
    mset (freed s') + live_data (cache_abs R s') = mset (freed s) + live_data (cache_abs R s) +
      mset (lru_stored (max_entries s) ops (cache_abs R s))"
  using lru.run_refines [of T R s ops] T R inv by auto

section \<open>Properties\<close>

definition cache_blank :: "((int \<times> nat) list, (int \<times> nat) list, string) cache" where
  "cache_blank = \<lparr>max_entries = 0, initialized = False, counter = 0, memory = 0, entries = [],
     lru = [], heap = Map.empty, brk = 0, freed = []\<rparr>"

lemma cache_blank_fresh:
  "\<not> initialized cache_blank" "dom (heap cache_blank) = {}" "freed cache_blank = []"
  by (simp_all add: cache_blank_def)

text \<open>
  C1: From initialization with a capacity of at least two, every sequence of retrievals and
  of stores of missing TDs runs without a fault and leaves the cache holding exactly what a
  bounded queue in order of last access holds: never more than the capacity less one.
\<close>

theorem cache_run_refines_lru:
  assumes "table_ok T" "rbtree_ok R" "\<not> initialized s" "2 \<le> n" "\<forall>a \<in> dom (heap s). a < brk s"
  shows "\<exists>s0 s'. turbine_cache_init T R n m s = Inr s0 \<and> cache_run T R ops s0 = Inr s' \<and>
    cache_abs R s' = lru_run n ops [] \<and> int (length (cache_abs R s')) < n"
proof -
  obtain s0 where s0: "turbine_cache_init T R n m s = Inr s0"
    using assms(3,4) by (simp add: turbine_cache_init_def Let_def)
  note I = init_inv [OF assms s0]
  from cache_run_refines_from [OF assms(1,2) I(1), of ops] I obtain s' where
    "cache_run T R ops s0 = Inr s'" "cache_inv T R s'" "max_entries s' = n"
    "cache_abs R s' = lru_run n ops []" by auto
  with s0 length_cache_abs [OF assms(1,2)] cache_invD(2) show ?thesis by metis
qed

lemma cache_run_refines_lru_witness:
  "\<exists>s0 s'. turbine_cache_init al_table al_rbtree 3 100 cache_blank = Inr s0 \<and>
    cache_run al_table al_rbtree [Store 7 TYPE_STRING ''a'' 1, Store 8 TYPE_BLOB ''b'' 1,
      Retrieve 7, Store 9 TYPE_STRING ''c'' 1] s0 = Inr s' \<and>
    cache_abs al_rbtree s' = [(7, TYPE_STRING, ''a'', 1), (9, TYPE_STRING, ''c'', 1)]"
  using cache_run_refines_lru [of al_table al_rbtree cache_blank 3 100
      "[Store 7 TYPE_STRING ''a'' 1, Store 8 TYPE_BLOB ''b'' 1, Retrieve 7, Store 9 TYPE_STRING ''c'' 1]"]
  by (auto simp: cache_blank_fresh lru_put_def lru_touch_def simp del: client_run.simps)

text \<open>
  C19: In every state of the invariant a lookup returns the type, data and length the TD
  was stored with and makes it the most recent, or reports \<^verbatim>\<open>NOT_FOUND\<close> and changes
  nothing, and \<^verbatim>\<open>turbine_cache_check\<close> tells the two cases apart.
\<close>

theorem cache_retrieve_correct:
  assumes "table_ok T" "rbtree_ok R" "cache_inv T R s"
  shows "\<exists>s'. turbine_cache_retrieve T R td s =
      Inr (case map_of (cache_abs R s) td of None \<Rightarrow> Inl TURBINE_ERROR_NOT_FOUND | Some p \<Rightarrow> Inr p, s') \<and>
    cache_inv T R s' \<and> cache_abs R s' = lru_touch td (cache_abs R s) \<and>
    (turbine_cache_check T td s \<longleftrightarrow> map_of (cache_abs R s) td \<noteq> None)"
  using retrieve_refines [OF assms(2,3), of td] check_iff [OF assms(2,3), of td] map_of_eq_None_iff [of "cache_abs R s" td]
  by auto

definition cache_two :: "((int \<times> nat) list, (int \<times> nat) list, string) cache" where
  "cache_two = \<lparr>max_entries = 4, initialized = True, counter = 2, memory = 5,
     entries = [(8, 1), (7, 0)], lru = [(1, 1), (0, 0)],
     heap = [0 \<mapsto> entry_init 7 TYPE_STRING ''a'' 1 0, 1 \<mapsto> entry_init 8 TYPE_BLOB ''b'' 1 1],
     brk = 2, freed = []\<rparr>"

lemma cache_two_inv: "cache_inv al_table al_rbtree cache_two"
  by (auto simp: cache_inv_def cache_two_def entry_init_def split: if_splits)

lemma cache_two_abs:
  "cache_abs al_rbtree cache_two = [(7, TYPE_STRING, ''a'', 1), (8, TYPE_BLOB, ''b'', 1)]"
  by (simp add: cache_abs_def stamps_def cache_two_def entry_at_def entry_init_def entry_view_def)

lemma cache_retrieve_correct_witness:
  "\<exists>s'. turbine_cache_retrieve al_table al_rbtree 7 cache_two = Inr (Inr (TYPE_STRING, ''a'', 1), s') \<and>
    cache_abs al_rbtree s' = [(8, TYPE_BLOB, ''b'', 1), (7, TYPE_STRING, ''a'', 1)]"
  using cache_retrieve_correct [OF table_ok_al_table rbtree_ok_al_rbtree cache_two_inv, of 7]
  by (auto simp: cache_two_abs lru_touch_def)

text \<open>
  C20: The cache owns the buffers it is given. From initialization through any run to
  \<^verbatim>\<open>turbine_cache_finalize\<close>, every buffer stored is freed exactly once: on eviction or
  at the end.
\<close>

theorem cache_frees_exactly_once:
  assumes "table_ok T" "rbtree_ok R" "\<not> initialized s" "2 \<le> n" "\<forall>a \<in> dom (heap s). a < brk s"
  shows "\<exists>s0 s1 s2. turbine_cache_init T R n m s = Inr s0 \<and> cache_run T R ops s0 = Inr s1 \<and>
    turbine_cache_finalize T R s1 = Inr s2 \<and> \<not> initialized s2 \<and>
    mset (freed s2) = mset (freed s) + mset (lru_stored n ops [])"
proof -
  obtain s0 where s0: "turbine_cache_init T R n m s = Inr s0"
    using assms(3,4) by (simp add: turbine_cache_init_def Let_def)
  note I = init_inv [OF assms s0]
  from cache_run_refines_from [OF assms(1,2) I(1), of ops] I obtain s1 where
    s1: "cache_run T R ops s0 = Inr s1" "cache_inv T R s1" "initialized s1"
    "mset (freed s1) + live_data (cache_abs R s1) = mset (freed s) + mset (lru_stored n ops [])"
    by auto
  from finalize_frees [OF assms(1,2) s1(2,3)] obtain s2 where
    "turbine_cache_finalize T R s1 = Inr s2" "\<not> initialized s2"
    "mset (freed s2) = mset (freed s1) + live_data (cache_abs R s1)" by blast
  with s0 s1(1,4) show ?thesis by metis
qed

lemma cache_frees_exactly_once_witness:
  "\<exists>s0 s1 s2. turbine_cache_init al_table al_rbtree 2 100 cache_blank = Inr s0 \<and>
    cache_run al_table al_rbtree [Store 7 TYPE_STRING ''a'' 1, Store 8 TYPE_BLOB ''b'' 1] s0 = Inr s1 \<and>
    turbine_cache_finalize al_table al_rbtree s1 = Inr s2 \<and> mset (freed s2) = {#''a'', ''b''#}"
  using cache_frees_exactly_once [of al_table al_rbtree cache_blank 2 100
      "[Store 7 TYPE_STRING ''a'' 1, Store 8 TYPE_BLOB ''b'' 1]"]
  by (auto simp: cache_blank_fresh lru_put_def add_mset_commute simp del: client_run.simps)

text \<open>
  The memory budget is not enforced. A store that does not fit the budget left still
  succeeds, evicts nothing, and wraps the budget round to a larger one.
\<close>

theorem cache_budget_not_enforced:
  assumes "table_ok T" "rbtree_ok R" "cache_inv T R s" "td \<notin> fst ` set (cache_abs R s)"
    "int (length (cache_abs R s)) < max_entries s - 1" "memory s < n"
  shows "\<exists>s'. turbine_cache_store T R td ty d n s = Inr (TURBINE_SUCCESS, s') \<and>
    cache_abs R s' = cache_abs R s @ [(td, ty, d, n)] \<and> memory s < memory s'"
proof -
  have wrap: "memory s < memory s - n" using assms(6) by (simp add: sub_wrap_lt)
  from store_cases [OF assms(1-4), of ty d n] obtain s' where
    "turbine_cache_store T R td ty d n s = Inr (TURBINE_SUCCESS, s')"
    "cache_abs R s' = lru_put (max_entries s) (td, ty, d, n) (cache_abs R s)"
    "memory s' = memory s - n" using assms(5) by blast
  with wrap assms(5) show ?thesis by (simp add: lru_put_def)
qed

lemma cache_budget_not_enforced_witness:
  "\<exists>s'. turbine_cache_store al_table al_rbtree 9 TYPE_BLOB ''big'' 6 cache_two = Inr (TURBINE_SUCCESS, s') \<and>
    length (cache_abs al_rbtree s') = 3 \<and> memory cache_two < memory s'"
proof -
  have "int (length (cache_abs al_rbtree cache_two)) < max_entries cache_two - 1"
    "memory cache_two < 6" "9 \<notin> fst ` set (cache_abs al_rbtree cache_two)"
    by (simp_all only: cache_two_abs, simp_all add: cache_two_def)
  from cache_budget_not_enforced [OF table_ok_al_table rbtree_ok_al_rbtree cache_two_inv this(3,1,2)]
  show ?thesis by (force simp: cache_two_abs)
qed

text \<open>
  With a capacity of one the first store follows a null pointer (the least recently
  used entry of an empty tree); with a capacity of zero the cache is off: every check
  misses and a store does nothing, so the caller keeps the buffer.
\<close>

theorem cache_small_capacity:
  assumes "table_ok T" "rbtree_ok R" "\<not> initialized s"
  shows "tcl_check (turbine_cache_init T R 1 m s) (turbine_cache_store T R td ty d n) = Inl Undefined \<and>
    (\<exists>s'. turbine_cache_init T R 0 m s = Inr s' \<and> \<not> turbine_cache_check T td s' \<and>
       turbine_cache_store T R td ty d n s' = Inr (TURBINE_SUCCESS, s'))"
  using assms
  by (simp add: turbine_cache_init_def turbine_cache_store_def turbine_cache_check_def Let_def
      cache_replace_def table_okD(1,3) rbtree_okD(1,4))

lemma cache_small_capacity_witness:
  "tcl_check (turbine_cache_init al_table al_rbtree 1 10 cache_blank)
     (turbine_cache_store al_table al_rbtree 7 TYPE_STRING ''a'' 1) = Inl Undefined"
  using cache_small_capacity [OF table_ok_al_table rbtree_ok_al_rbtree, of cache_blank 10 7 TYPE_STRING "''a''" 1]
  by (simp add: cache_blank_def)

end
