(* ===== verification/Exec_Interface.thy ===== *)
theory Exec_Interface
  imports Turbine_Defs "HOL-Library.Multiset" "HOL-Library.AList"
begin

text \<open>
  The interface between the asynchronous worker and its executors,
  \<^verbatim>\<open>src/turbine/executors/exec_interface.h\<close> and the callback types of
  \<^verbatim>\<open>src/turbine/async_exec.h\<close>. A \<^verbatim>\<open>struct turbine_executor\<close> is a record of functions, as in
  the code; each takes the executor's state and the world (the Tcl interpreter, ADLB and
  whatever service the executor talks to) and returns them updated. A callback is a Tcl
  object: \<^verbatim>\<open>NULL\<close> is \<open>None\<close>, and the world counts the references to each object.

  The locale \<open>executor\<close> states what the worker relies on. It is interpreted by both
  executors of the repository, in \<^verbatim>\<open>Noop_Exec\<close> and \<^verbatim>\<open>Coaster_Exec\<close>.
\<close>

section \<open>Codes, callbacks and completed tasks\<close>

text \<open>
  The code of an executor function. Several of them return a \<^verbatim>\<open>turbine_code\<close> through
  the same \<^verbatim>\<open>enum\<close>-typed result; \<open>EXEC_CODE\<close> is such a value (never a success).
\<close>

datatype turbine_exec_code =
    EXEC_SUCCESS | EXEC_SHUTDOWN | EXEC_OOM | EXEC_TASK | EXEC_INVALID | EXEC_OTHER
  | EXEC_CODE turbine_code

record turbine_exec_slot_state =
  used :: int
  total :: int

record 'cb turbine_task_callbacks =
  cb_success :: "'cb option"
  cb_failure :: "'cb option"

datatype tcl_obj = Tcl_Str string | Tcl_Int int | Tcl_Dict "(string \<times> tcl_obj) list"

text \<open>\<^verbatim>\<open>Tcl_DictObjPut\<close> replaces the value of a key in place or appends the key.\<close>

fun dict_put :: "string \<Rightarrow> tcl_obj \<Rightarrow> tcl_obj \<Rightarrow> tcl_obj" where
  "dict_put k v (Tcl_Dict d) = Tcl_Dict (AList.update k v d)"
| "dict_put k v obj = obj"

fun dict_get :: "tcl_obj \<Rightarrow> string \<Rightarrow> tcl_obj option" where
  "dict_get (Tcl_Dict d) k = map_of d k"
| "dict_get obj k = None"

record turbine_task_callback_var =
  var_name :: string
  free_name :: bool
  var_val :: tcl_obj

record 'cb turbine_completed_task =
  success :: bool
  callbacks :: "'cb turbine_task_callbacks"
  vars :: "turbine_task_callback_var list"

section \<open>The world\<close>

record 'cb world =
  refs :: "'cb \<Rightarrow> int"

definition Tcl_IncrRefCount :: "'cb option \<Rightarrow> ('cb, 'z) world_scheme \<Rightarrow> ('cb, 'z) world_scheme" where
  "Tcl_IncrRefCount cb w = (case cb of None \<Rightarrow> w
     | Some c \<Rightarrow> w\<lparr>refs := (refs w)(c := refs w c + 1)\<rparr>)"

definition Tcl_DecrRefCount :: "'cb option \<Rightarrow> ('cb, 'z) world_scheme \<Rightarrow> ('cb, 'z) world_scheme" where
  "Tcl_DecrRefCount cb w = (case cb of None \<Rightarrow> w
     | Some c \<Rightarrow> w\<lparr>refs := (refs w)(c := refs w c - 1)\<rparr>)"

text \<open>The references a task holds on a callback object.\<close>

definition cb_refs :: "'cb turbine_task_callbacks \<Rightarrow> 'cb \<Rightarrow> int" where
  "cb_refs cbs c = of_bool (cb_success cbs = Some c) + of_bool (cb_failure cbs = Some c)"

definition task_refs :: "'cb turbine_task_callbacks multiset \<Rightarrow> 'cb \<Rightarrow> int" where
  "task_refs M c = (\<Sum>cbs \<in># M. cb_refs cbs c)"

lemma task_refs_simps [simp]:
  "task_refs {#} c = 0" "task_refs (add_mset x M) c = cb_refs x c + task_refs M c"
  "task_refs (M + N) c = task_refs M c + task_refs N c"
  by (simp_all add: task_refs_def)

lemma refs_Incr [simp]:
  "refs (Tcl_IncrRefCount (cb_failure cbs) (Tcl_IncrRefCount (cb_success cbs) w)) =
     (\<lambda>c. refs w c + cb_refs cbs c)"
  by (auto simp: Tcl_IncrRefCount_def cb_refs_def split: option.splits)

lemma refs_Decr [simp]:
  "refs (Tcl_DecrRefCount (cb_failure cbs) (Tcl_DecrRefCount (cb_success cbs) w)) =
     (\<lambda>c. refs w c - cb_refs cbs c)"
  by (auto simp: Tcl_DecrRefCount_def cb_refs_def split: option.splits)

lemma more_Incr_Decr [simp]:
  "world.more (Tcl_IncrRefCount cb w) = world.more w"
  "world.more (Tcl_DecrRefCount cb w) = world.more w"
  by (auto simp: Tcl_IncrRefCount_def Tcl_DecrRefCount_def split: option.splits)

section \<open>Executors\<close>

record ('x, 's, 'w, 'cb) turbine_executor =
  ex_name :: string
  exec_configure :: "string \<Rightarrow> 'w \<Rightarrow> (turbine_exec_code \<times> 'x option \<times> 'w) res"
  exec_start :: "'x option \<Rightarrow> 'w \<Rightarrow> (turbine_exec_code \<times> 's option \<times> 'w) res"
  exec_stop :: "'s \<Rightarrow> 'w \<Rightarrow> (turbine_exec_code \<times> 'w) res"
  exec_free :: "'x option \<Rightarrow> 'w \<Rightarrow> (turbine_exec_code \<times> 'w) res"
  exec_wait :: "int \<Rightarrow> 's \<Rightarrow> 'w \<Rightarrow>
    (turbine_exec_code \<times> 'cb turbine_completed_task list \<times> 's \<times> 'w) res"
  exec_poll :: "int \<Rightarrow> 's \<Rightarrow> 'w \<Rightarrow>
    (turbine_exec_code \<times> 'cb turbine_completed_task list \<times> 's \<times> 'w) res"
  exec_slots :: "'s \<Rightarrow> turbine_exec_code \<times> turbine_exec_slot_state"
  exec_max_slots :: "'x option \<Rightarrow> (turbine_exec_code \<times> int) res"
  ex_context :: "'x option"
  ex_state :: "'s option"
  ex_started :: bool

abbreviation slots_of :: "('x, 's, 'w, 'cb) turbine_executor \<Rightarrow> 's \<Rightarrow> turbine_exec_slot_state" where
  "slots_of E s \<equiv> snd (exec_slots E s)"

text \<open>
  The contract. \<open>active\<close> is the multiset of tasks in flight; \<open>execute\<close> is the function of
  the executor that a Tcl command calls to launch one.
\<close>

locale executor =
  fixes E :: "('x, 's, ('cb, 'z) world_scheme, 'cb) turbine_executor"
    and execute :: "'work \<Rightarrow> 'cb turbine_task_callbacks \<Rightarrow> 's \<Rightarrow> ('cb, 'z) world_scheme \<Rightarrow>
      (turbine_code \<times> 's \<times> ('cb, 'z) world_scheme) res"
    and Inv :: "'s \<Rightarrow> 'z \<Rightarrow> bool"
    and active :: "'s \<Rightarrow> 'cb turbine_task_callbacks multiset"
  assumes slots_code: "Inv s z \<Longrightarrow> fst (exec_slots E s) = EXEC_SUCCESS"
    and slots_used: "Inv s z \<Longrightarrow> used (slots_of E s) = int (size (active s))"
    and slots_total: "Inv s z \<Longrightarrow> used (slots_of E s) \<le> total (slots_of E s)"
    and poll_fault: "Inv s (world.more w) \<Longrightarrow> 1 \<le> n \<Longrightarrow> exec_poll E n s w = Inl f \<Longrightarrow> f = Unfinished"
    and poll_done: "Inv s (world.more w) \<Longrightarrow> 1 \<le> n \<Longrightarrow>
      exec_poll E n s w = Inr (EXEC_SUCCESS, cs, s', w') \<Longrightarrow>
      Inv s' (world.more w') \<and> total (slots_of E s') = total (slots_of E s) \<and>
      active s = mset (map callbacks cs) + active s' \<and> int (length cs) \<le> n \<and> refs w' = refs w"
    and wait_fault: "Inv s (world.more w) \<Longrightarrow> 1 \<le> n \<Longrightarrow> exec_wait E n s w = Inl f \<Longrightarrow> f = Unfinished"
    and wait_done: "Inv s (world.more w) \<Longrightarrow> 1 \<le> n \<Longrightarrow>
      exec_wait E n s w = Inr (EXEC_SUCCESS, cs, s', w') \<Longrightarrow>
      Inv s' (world.more w') \<and> total (slots_of E s') = total (slots_of E s) \<and>
      active s = mset (map callbacks cs) + active s' \<and> int (length cs) \<le> n \<and> refs w' = refs w \<and>
      (active s \<noteq> {#} \<longrightarrow> cs \<noteq> [])"
    and execute_ok: "Inv s (world.more w) \<Longrightarrow> used (slots_of E s) < total (slots_of E s) \<Longrightarrow>
      \<exists>tc s' w'. execute work cbs s w = Inr (tc, s', w') \<and>
        (tc = TURBINE_SUCCESS \<longrightarrow>
           Inv s' (world.more w') \<and> total (slots_of E s') = total (slots_of E s) \<and>
           active s' = add_mset cbs (active s) \<and> refs w' = (\<lambda>c. refs w c + cb_refs cbs c))"
begin

lemma execute_no_fault:
  assumes "Inv s (world.more w)" "used (slots_of E s) < total (slots_of E s)"
  shows "execute work cbs s w \<noteq> Inl f"
  using execute_ok [OF assms, of work cbs] by auto

lemma execute_used:
  assumes "Inv s (world.more w)" "used (slots_of E s) < total (slots_of E s)"
    "execute work cbs s w = Inr (TURBINE_SUCCESS, s', w')"
  shows "Inv s' (world.more w')" "used (slots_of E s') = used (slots_of E s) + 1"
    "total (slots_of E s') = total (slots_of E s)"
proof -
  have *: "Inv s' (world.more w') \<and> total (slots_of E s') = total (slots_of E s) \<and>
      active s' = add_mset cbs (active s)"
    using execute_ok [OF assms(1,2), of work cbs] assms(3) by auto
  then show "Inv s' (world.more w')" "total (slots_of E s') = total (slots_of E s)" by simp_all
  show "used (slots_of E s') = used (slots_of E s) + 1"
    using * slots_used [OF assms(1)] slots_used [of s' "world.more w'"] by simp
qed

text \<open>A check for completed tasks, blocking or not.\<close>

definition check :: "bool \<Rightarrow> int \<Rightarrow> 's \<Rightarrow> ('cb, 'z) world_scheme \<Rightarrow>
    (turbine_exec_code \<times> 'cb turbine_completed_task list \<times> 's \<times> ('cb, 'z) world_scheme) res" where
  "check poll = (if poll then exec_poll E else exec_wait E)"

lemma check_fault: "Inv s (world.more w) \<Longrightarrow> 1 \<le> n \<Longrightarrow> check poll n s w = Inl f \<Longrightarrow> f = Unfinished"
  unfolding check_def using poll_fault wait_fault by (cases poll) auto

lemma check_done:
  assumes "Inv s (world.more w)" "1 \<le> n" "check poll n s w = Inr (EXEC_SUCCESS, cs, s', w')"
  shows "Inv s' (world.more w')" "total (slots_of E s') = total (slots_of E s)"
    "active s = mset (map callbacks cs) + active s'" "int (length cs) \<le> n" "refs w' = refs w"
    "used (slots_of E s') = used (slots_of E s) - int (length cs)"
proof -
  have *: "Inv s' (world.more w') \<and> total (slots_of E s') = total (slots_of E s) \<and>
      active s = mset (map callbacks cs) + active s' \<and> int (length cs) \<le> n \<and> refs w' = refs w"
  proof (cases poll)
    case True
    then show ?thesis using poll_done [OF assms(1,2)] assms(3) by (simp add: check_def)
  next
    case False
    then show ?thesis using wait_done [OF assms(1,2)] assms(3) by (simp add: check_def)
  qed
  then show "Inv s' (world.more w')" "total (slots_of E s') = total (slots_of E s)"
    "active s = mset (map callbacks cs) + active s'" "int (length cs) \<le> n" "refs w' = refs w"
    by simp_all
  show "used (slots_of E s') = used (slots_of E s) - int (length cs)"
    using * slots_used [OF assms(1)] slots_used [of s' "world.more w'"] by simp
qed

end

end
