(* ===== verification/Async_Exec.thy ===== *)
theory Async_Exec
  imports Exec_Interface C_Utils
begin

text \<open>
  The asynchronous worker, \<^verbatim>\<open>src/turbine/async_exec.c\<close>: the registry of executors, the
  ring of outstanding ADLB get requests, the execution of tasks and callbacks, and the
  worker loop. The Tcl interpreter and ADLB are records of functions. The executor's
  state and the world are threaded through every call because a task command launches
  its task by calling back into the executor. The worker's ring of requests is refined
  to a queue (\<open>q_get_tasks\<close>), and the worker loop is shown never to overfill an
  executor when every command launches at most one task, the assumption the header
  comment of the file makes.

  Ring indices and counts are natural numbers below 256, so \<^verbatim>\<open>int\<close> arithmetic on them
  cannot overflow.
\<close>

section \<open>The interpreter and ADLB\<close>

record ('st, 'cb) tcl_interp =
  eval_work :: "string \<Rightarrow> int \<Rightarrow> 'st \<Rightarrow> (bool \<times> 'st) res"
  eval_cb :: "'cb \<Rightarrow> 'st \<Rightarrow> (bool \<times> 'st) res"
  set_var :: "string \<Rightarrow> tcl_obj \<Rightarrow> 'st \<Rightarrow> bool \<times> 'st"
  unset_var :: "string \<Rightarrow> 'st \<Rightarrow> bool \<times> 'st"

record ('w, 'req, 'buf) adlb_get_api =
  Amget :: "int \<Rightarrow> nat \<Rightarrow> bool \<Rightarrow> 'buf list \<Rightarrow> 'w \<Rightarrow> adlb_code \<times> 'req list \<times> 'w"
  Aget_test :: "'req \<Rightarrow> 'w \<Rightarrow> adlb_code \<times> int \<times> 'w"
  Aget_wait :: "'req \<Rightarrow> 'w \<Rightarrow> adlb_code \<times> int \<times> 'w"
  payload :: "'buf \<Rightarrow> 'w \<Rightarrow> string"

section \<open>The registry of executors\<close>

definition TURBINE_ASYNC_EXEC_LIMIT :: int where "TURBINE_ASYNC_EXEC_LIMIT = 64"
definition TURBINE_ASYNC_EXEC_MAX_REQS :: nat where "TURBINE_ASYNC_EXEC_MAX_REQS = 256"
definition COMPLETED_BUFFER_SIZE :: int where "COMPLETED_BUFFER_SIZE = 16"

record ('t, 'e) registry =
  executors_init :: bool
  executors_table_init :: bool
  executors :: 't
  exec_heap :: "nat \<rightharpoonup> 'e"
  exec_brk :: nat

definition turbine_async_exec_initialize ::
    "('t, 'e) registry \<Rightarrow> turbine_code \<times> ('t, 'e) registry" where
  "turbine_async_exec_initialize g =
     (if executors_init g then (TURBINE_ERROR_INVALID, g)
      else (TURBINE_SUCCESS, g\<lparr>executors_init := True\<rparr>))"

definition init_exec_table ::
    "('t, string, nat) table_api \<Rightarrow> ('t, 'e) registry \<Rightarrow> (turbine_code \<times> ('t, 'e) registry) res" where
  "init_exec_table T g =
     c_assert (\<not> executors_table_init g)
       (Inr (TURBINE_SUCCESS, g\<lparr>executors := tbl_init T 16, executors_table_init := True\<rparr>))"

text \<open>The function pointers of an executor are total functions here, so never \<^verbatim>\<open>NULL\<close>.\<close>

definition turbine_add_async_exec ::
    "('t, string, nat) table_api \<Rightarrow> ('x, 's, 'w, 'cb) turbine_executor \<Rightarrow>
      ('t, ('x, 's, 'w, 'cb) turbine_executor) registry \<Rightarrow>
      (turbine_code \<times> ('t, ('x, 's, 'w, 'cb) turbine_executor) registry) res" where
  "turbine_add_async_exec T ex g =
     tcl_check (if executors_table_init g then Inr (TURBINE_SUCCESS, g) else init_exec_table T g)
       (\<lambda>(tc, g).
          if tc \<noteq> TURBINE_SUCCESS then Inr (tc, g)
          else if \<not> tbl_size T (executors g) < TURBINE_ASYNC_EXEC_LIMIT
          then Inr (TURBINE_ERROR_INVALID, g)
          else let p = exec_brk g;
                   g = g\<lparr>exec_heap := (exec_heap g)(p \<mapsto> ex), exec_brk := p + 1\<rparr>;
                   g = g\<lparr>executors := tbl_add T (executors g) (ex_name ex) p\<rparr>
               in Inr (TURBINE_SUCCESS, g))"

definition turbine_async_exec_names ::
    "('t, string, nat) table_api \<Rightarrow> nat \<Rightarrow> ('t, 'e) registry \<Rightarrow> string list" where
  "turbine_async_exec_names T sz g =
     (if \<not> executors_table_init g then []
      else take sz (map fst (tbl_items T (executors g))))"

definition turbine_get_async_exec ::
    "('t, string, nat) table_api \<Rightarrow> string \<Rightarrow> ('t, ('x, 's, 'w, 'cb) turbine_executor) registry \<Rightarrow>
      (nat \<times> bool) option res" where
  "turbine_get_async_exec T name g =
     (if \<not> executors_table_init g then Inr None
      else case tbl_search T (executors g) name of
          None \<Rightarrow> Inr None
        | Some p \<Rightarrow>
            (case exec_heap g p of
               None \<Rightarrow> Inl Undefined
             | Some ex \<Rightarrow> Inr (Some (p, ex_started ex))))"

definition turbine_configure_exec ::
    "string \<Rightarrow> ('x, 's, 'w, 'cb) turbine_executor \<Rightarrow> 'w \<Rightarrow>
      (turbine_code \<times> ('x, 's, 'w, 'cb) turbine_executor \<times> 'w) res" where
  "turbine_configure_exec config ex w =
     tcl_check (exec_configure ex config w) (\<lambda>(ec, cx, w).
       if ec \<noteq> EXEC_SUCCESS then Inr (TURBINE_ERROR_EXTERNAL, ex, w)
       else Inr (TURBINE_SUCCESS, ex\<lparr>ex_context := cx\<rparr>, w))"

definition turbine_async_exec_max_slots ::
    "('x, 's, 'w, 'cb) turbine_executor \<Rightarrow> (turbine_code \<times> int) res" where
  "turbine_async_exec_max_slots ex =
     tcl_check (exec_max_slots ex (ex_context ex)) (\<lambda>(ec, n).
       if ec \<noteq> EXEC_SUCCESS then Inr (TURBINE_ERROR_EXTERNAL, n) else Inr (TURBINE_SUCCESS, n))"

section \<open>The ring of get requests\<close>

record ('req, 'buf) get_req_state =
  buffers :: "'buf list"
  requests :: "'req option list"
  max_reqs :: nat
  nreqs :: nat
  head :: nat
  tail :: nat

fun issue :: "'req list \<Rightarrow> ('req, 'buf) get_req_state \<Rightarrow> ('req, 'buf) get_req_state" where
  "issue [] reqs = reqs"
| "issue (r # rs) reqs =
     issue rs (reqs\<lparr>requests := (requests reqs)[head reqs := Some r],
                    head := (head reqs + 1) mod max_reqs reqs\<rparr>)"

type_synonym ('s, 'w, 'req, 'buf) got =
  "turbine_exec_code \<times> bool \<times> ('req, 'buf) get_req_state \<times> 's \<times> 'w"

text \<open>
  Testing or waiting for one request: \<open>Inr None\<close> is the evaluation of its payload, an
  exec code is the value \<^verbatim>\<open>get_tasks\<close> returns.
\<close>

definition check_request ::
    "('w, 'req, 'buf) adlb_get_api \<Rightarrow> bool \<Rightarrow> 'req \<Rightarrow> 'w \<Rightarrow>
      (turbine_exec_code option \<times> int \<times> 'w) res" where
  "check_request A poll req w =
     (if poll
      then (let (ac, work_len, w) = Aget_test A req w in
            if ac = ADLB_ERROR then Inr (Some EXEC_OTHER, work_len, w)
            else if ac = ADLB_SHUTDOWN then Inr (Some EXEC_SHUTDOWN, work_len, w)
            else if ac = ADLB_NOTHING then Inr (Some EXEC_SUCCESS, work_len, w)
            else c_assert (ac = ADLB_SUCCESS) (Inr (None, work_len, w)))
      else (let (ac, work_len, w) = Aget_wait A req w in
            if ac = ADLB_SHUTDOWN then Inr (Some EXEC_SHUTDOWN, work_len, w)
            else if ac = ADLB_ERROR then Inr (Some EXEC_OTHER, work_len, w)
            else c_assert (ac = ADLB_SUCCESS) (Inr (None, work_len, w))))"

function get_loop ::
    "('s \<times> 'w, 'cb) tcl_interp \<Rightarrow> ('w, 'req, 'buf) adlb_get_api \<Rightarrow> bool \<Rightarrow> bool \<Rightarrow>
      ('req, 'buf) get_req_state \<Rightarrow> 's \<Rightarrow> 'w \<Rightarrow> ('s, 'w, 'req, 'buf) got res" where
  "get_loop I A poll got reqs s w =
     (if nreqs reqs = 0 then Inr (EXEC_SUCCESS, got, reqs, s, w)
      else c_defined (tail reqs < length (requests reqs) \<and> tail reqs < length (buffers reqs))
        (case requests reqs ! tail reqs of
           None \<Rightarrow> Inl Undefined
         | Some req \<Rightarrow>
             tcl_check (check_request A poll req w) (\<lambda>(ret, work_len, w).
               case ret of
                 Some ec \<Rightarrow> Inr (ec, got, reqs, s, w)
               | None \<Rightarrow>
                   tcl_check (eval_work I (payload A (buffers reqs ! tail reqs) w) (work_len - 1) (s, w))
                     (\<lambda>(ok, s, w).
                        if \<not> ok then Inr (EXEC_TASK, got, reqs, s, w)
                        else get_loop I A True True
                          (reqs\<lparr>tail := (tail reqs + 1) mod max_reqs reqs, nreqs := nreqs reqs - 1\<rparr>)
                          s w))))"
  by pat_completeness auto
termination
  by (relation "measure (\<lambda>(I, A, poll, got, reqs, s, w). nreqs reqs)") auto

declare get_loop.simps [simp del]

definition get_tasks ::
    "('s \<times> 'w, 'cb) tcl_interp \<Rightarrow> ('w, 'req, 'buf) adlb_get_api \<Rightarrow> int \<Rightarrow> bool \<Rightarrow> int \<Rightarrow> bool \<Rightarrow>
      ('req, 'buf) get_req_state \<Rightarrow> 's \<Rightarrow> 'w \<Rightarrow> ('s, 'w, 'req, 'buf) got res" where
  "get_tasks I A work_type poll max_tasks got reqs s w =
     (let desired_reqs = min max_tasks (int (max_reqs reqs));
          extra_reqs = desired_reqs - int (nreqs reqs) in
      if extra_reqs > 0
      then (let n = nat extra_reqs;
                tmp_bufs = map (\<lambda>i. buffers reqs ! ((head reqs + i) mod max_reqs reqs)) [0..<n];
                block = (\<not> poll \<and> nreqs reqs = 0);
                (ac, tmp_reqs, w) = Amget A work_type n block tmp_bufs w in
            if ac = ADLB_ERROR then Inr (EXEC_OTHER, got, reqs, s, w)
            else c_defined (length tmp_reqs = n)
              (let reqs = issue tmp_reqs reqs;
                   reqs = reqs\<lparr>nreqs := nreqs reqs + n\<rparr>
               in get_loop I A poll False reqs s w))
      else get_loop I A poll False reqs s w)"

section \<open>Completed tasks\<close>

fun set_vars ::
    "('s \<times> 'w, 'cb) tcl_interp \<Rightarrow> turbine_task_callback_var list \<Rightarrow> 's \<times> 'w \<Rightarrow> bool \<times> 's \<times> 'w" where
  "set_vars I [] st = (True, st)"
| "set_vars I (v # vs) st =
     (let (ok, st) = set_var I (var_name v) (var_val v) st in
      if ok then set_vars I vs st else (False, st))"

fun unset_vars ::
    "('s \<times> 'w, 'cb) tcl_interp \<Rightarrow> turbine_task_callback_var list \<Rightarrow> 's \<times> 'w \<Rightarrow> bool \<times> 's \<times> 'w" where
  "unset_vars I [] st = (True, st)"
| "unset_vars I (v # vs) st =
     (let (ok, st) = unset_var I (var_name v) st in
      if ok then unset_vars I vs st else (False, st))"

definition run_callback ::
    "('s \<times> 'w, 'cb) tcl_interp \<Rightarrow> 'cb turbine_completed_task \<Rightarrow> 'cb option \<Rightarrow> 's \<times> 'w \<Rightarrow>
      (turbine_code \<times> 's \<times> 'w) res" where
  "run_callback I task cb st =
     (case cb of
        None \<Rightarrow> Inr (TURBINE_SUCCESS, st)
      | Some c \<Rightarrow>
          (let (ok, st) = set_vars I (vars task) st in
           if \<not> ok then Inr (TURBINE_ERROR_UNKNOWN, st)
           else tcl_check (eval_cb I c st) (\<lambda>(ok, st).
             let tc = (if ok then TURBINE_SUCCESS else TURBINE_ERROR_EXTERNAL);
                 (ok, st) = unset_vars I (vars task) st in
             if \<not> ok then Inr (TURBINE_ERROR_UNKNOWN, st) else Inr (tc, st))))"

fun run_completed ::
    "('s \<times> ('cb, 'z) world_scheme, 'cb) tcl_interp \<Rightarrow> 'cb turbine_completed_task list \<Rightarrow>
      's \<times> ('cb, 'z) world_scheme \<Rightarrow> (turbine_exec_code \<times> 's \<times> ('cb, 'z) world_scheme) res" where
  "run_completed I [] st = Inr (EXEC_SUCCESS, st)"
| "run_completed I (c # cs) st =
     (let succ_cb = cb_success (callbacks c); fail_cb = cb_failure (callbacks c);
          cb = (if success c then succ_cb else fail_cb) in
      tcl_check (run_callback I c cb st) (\<lambda>(tc, s, w).
        if tc \<noteq> TURBINE_SUCCESS then Inr (EXEC_CODE tc, s, w)
        else run_completed I cs (s, Tcl_DecrRefCount fail_cb (Tcl_DecrRefCount succ_cb w))))"

definition check_tasks ::
    "('s \<times> ('cb, 'z) world_scheme, 'cb) tcl_interp \<Rightarrow>
      ('x, 's, ('cb, 'z) world_scheme, 'cb) turbine_executor \<Rightarrow> bool \<Rightarrow>
      's \<Rightarrow> ('cb, 'z) world_scheme \<Rightarrow> (turbine_exec_code \<times> 's \<times> ('cb, 'z) world_scheme) res" where
  "check_tasks I ex poll s w =
     tcl_check ((if poll then exec_poll ex else exec_wait ex) COMPLETED_BUFFER_SIZE s w)
       (\<lambda>(ec, completed, s, w).
          if ec \<noteq> EXEC_SUCCESS then Inr (ec, s, w) else run_completed I completed (s, w))"

section \<open>The worker loop\<close>

datatype ('s, 'w, 'req, 'buf) loop_step =
    Again bool "('req, 'buf) get_req_state" 's 'w
  | Break 's 'w
  | Return turbine_code 's 'w

text \<open>
  One iteration. The flag of \<open>Again\<close> is \<^verbatim>\<open>something_happened\<close>: when it is false the
  code yields to the scheduler.
\<close>

definition loop_check ::
    "('s \<times> ('cb, 'z) world_scheme, 'cb) tcl_interp \<Rightarrow>
      ('x, 's, ('cb, 'z) world_scheme, 'cb) turbine_executor \<Rightarrow> bool \<Rightarrow>
      ('req, 'buf) get_req_state \<Rightarrow> 's \<Rightarrow> ('cb, 'z) world_scheme \<Rightarrow>
      ('s, ('cb, 'z) world_scheme, 'req, 'buf) loop_step res" where
  "loop_check I ex happened reqs s w =
     (let (ec, slots) = exec_slots ex s in
      if ec \<noteq> EXEC_SUCCESS then Inr (Return TURBINE_ERROR_EXTERNAL s w)
      else if used slots > 0
      then tcl_check (check_tasks I ex (used slots < total slots) s w) (\<lambda>(ec, s, w).
        if ec \<noteq> EXEC_SUCCESS then Inr (Return TURBINE_ERROR_EXTERNAL s w)
        else Inr (Again happened reqs s w))
      else Inr (Again happened reqs s w))"

definition loop_body ::
    "('s \<times> ('cb, 'z) world_scheme, 'cb) tcl_interp \<Rightarrow>
      (('cb, 'z) world_scheme, 'req, 'buf) adlb_get_api \<Rightarrow>
      ('x, 's, ('cb, 'z) world_scheme, 'cb) turbine_executor \<Rightarrow> int \<Rightarrow>
      ('req, 'buf) get_req_state \<Rightarrow> 's \<Rightarrow> ('cb, 'z) world_scheme \<Rightarrow>
      ('s, ('cb, 'z) world_scheme, 'req, 'buf) loop_step res" where
  "loop_body I A ex work_type reqs s w =
     (let (ec, slots) = exec_slots ex s in
      if ec \<noteq> EXEC_SUCCESS then Inr (Return TURBINE_ERROR_EXTERNAL s w)
      else if used slots < total slots
      then tcl_check
        (get_tasks I A work_type (used slots \<noteq> 0) (total slots - used slots) False reqs s w)
        (\<lambda>(ec, happened, reqs, s, w).
           if ec = EXEC_SHUTDOWN then Inr (Break s w)
           else if ec \<noteq> EXEC_SUCCESS then Inr (Return TURBINE_ERROR_EXTERNAL s w)
           else loop_check I ex happened reqs s w)
      else loop_check I ex False reqs s w)"

text \<open>\<open>n\<close> bounds the iterations performed.\<close>

fun loop_run ::
    "nat \<Rightarrow> ('s \<times> ('cb, 'z) world_scheme, 'cb) tcl_interp \<Rightarrow>
      (('cb, 'z) world_scheme, 'req, 'buf) adlb_get_api \<Rightarrow>
      ('x, 's, ('cb, 'z) world_scheme, 'cb) turbine_executor \<Rightarrow> int \<Rightarrow>
      ('req, 'buf) get_req_state \<Rightarrow> 's \<Rightarrow> ('cb, 'z) world_scheme \<Rightarrow>
      (turbine_code option \<times> 's \<times> ('cb, 'z) world_scheme) res" where
  "loop_run 0 I A ex work_type reqs s w = Inl Unfinished"
| "loop_run (Suc n) I A ex work_type reqs s w =
     tcl_check (loop_body I A ex work_type reqs s w) (\<lambda>step.
       case step of
         Again happened reqs s w \<Rightarrow> loop_run n I A ex work_type reqs s w
       | Break s w \<Rightarrow> Inr (None, s, w)
       | Return tc s w \<Rightarrow> Inr (Some tc, s, w))"

text \<open>An error of \<^verbatim>\<open>stop\<close> is only reported.\<close>

fun stop_executors ::
    "('x, 's, 'w, 'cb) turbine_executor list \<Rightarrow> 'w \<Rightarrow>
      (('x, 's, 'w, 'cb) turbine_executor list \<times> 'w) res" where
  "stop_executors [] w = Inr ([], w)"
| "stop_executors (ex # exs) w =
     (case ex_state ex of
        None \<Rightarrow> Inl Undefined
      | Some s \<Rightarrow>
          tcl_check (exec_stop ex s w) (\<lambda>(ec, w).
            tcl_check (stop_executors exs w) (\<lambda>(exs, w).
              Inr (ex\<lparr>ex_started := False\<rparr> # exs, w))))"

definition init_reqs :: "'buf list \<Rightarrow> nat \<Rightarrow> ('req, 'buf) get_req_state" where
  "init_reqs bufs n = \<lparr>buffers = bufs, requests = replicate n None, max_reqs = n,
     nreqs = 0, head = 0, tail = 0\<rparr>"

text \<open>
  \<^verbatim>\<open>turbine_async_worker_loop\<close>. The worker service is started by \<open>service_init\<close> and
  stopped by \<open>service_finalize\<close> (\<^verbatim>\<open>src/turbine/services.c\<close>).
\<close>

definition turbine_async_worker_loop ::
    "nat \<Rightarrow> ('s \<times> ('cb, 'z) world_scheme, 'cb) tcl_interp \<Rightarrow>
      (('cb, 'z) world_scheme, 'req, 'buf) adlb_get_api \<Rightarrow>
      (('cb, 'z) world_scheme \<Rightarrow> turbine_code \<times> ('cb, 'z) world_scheme) \<Rightarrow>
      (('cb, 'z) world_scheme \<Rightarrow> ('cb, 'z) world_scheme) \<Rightarrow>
      ('x, 's, ('cb, 'z) world_scheme, 'cb) turbine_executor \<Rightarrow> int \<Rightarrow> 'buf list \<Rightarrow> int \<Rightarrow>
      ('cb, 'z) world_scheme \<Rightarrow>
      (turbine_code \<times> ('x, 's, ('cb, 'z) world_scheme, 'cb) turbine_executor \<times>
        ('cb, 'z) world_scheme) res" where
  "turbine_async_worker_loop fuel I A service_init service_finalize ex work_type bufs nbuffers w =
     c_assert (nbuffers \<ge> 1)
       (let nbuffers = min nbuffers (int TURBINE_ASYNC_EXEC_MAX_REQS);
            (tc, w) = service_init w in
        if tc \<noteq> TURBINE_SUCCESS then Inr (tc, ex, w)
        else let reqs = init_reqs bufs (nat nbuffers); must_start = \<not> ex_started ex in
        tcl_check
          (if must_start
           then tcl_check (exec_start ex (ex_context ex) w) (\<lambda>(ec, st, w).
             if ec \<noteq> EXEC_SUCCESS then Inr (TURBINE_ERROR_EXTERNAL, ex, w)
             else Inr (TURBINE_SUCCESS, ex\<lparr>ex_state := st, ex_started := True\<rparr>, w))
           else Inr (TURBINE_SUCCESS, ex, w))
          (\<lambda>(tc, ex, w).
             if tc \<noteq> TURBINE_SUCCESS then Inr (tc, ex, w)
             else case ex_state ex of
               None \<Rightarrow> Inl Undefined
             | Some s \<Rightarrow>
                 tcl_check (loop_run fuel I A ex work_type reqs s w) (\<lambda>(ret, s, w).
                   case ret of
                     Some tc \<Rightarrow> Inr (tc, ex\<lparr>ex_state := Some s\<rparr>, w)
                   | None \<Rightarrow>
                       tcl_check
                         (if must_start then stop_executors [ex\<lparr>ex_state := Some s\<rparr>] w
                          else Inr ([ex\<lparr>ex_state := Some s\<rparr>], w))
                         (\<lambda>(exs, w). Inr (TURBINE_SUCCESS, hd exs, service_finalize w)))))"

text \<open>\<^verbatim>\<open>turbine_async_exec_finalize\<close> frees the executors and drops the table.\<close>

fun free_executors ::
    "(string \<times> nat) list \<Rightarrow> ('t, ('x, 's, 'w, 'cb) turbine_executor) registry \<Rightarrow> 'w \<Rightarrow>
      (('t, ('x, 's, 'w, 'cb) turbine_executor) registry \<times> 'w) res" where
  "free_executors [] g w = Inr (g, w)"
| "free_executors ((name, p) # items) g w =
     (case exec_heap g p of
        None \<Rightarrow> Inl Undefined
      | Some ex \<Rightarrow>
          tcl_check (exec_free ex (ex_context ex) w) (\<lambda>(ec, w).
            free_executors items (g\<lparr>exec_heap := (exec_heap g)(p := None)\<rparr>) w))"

definition turbine_async_exec_finalize ::
    "('t, string, nat) table_api \<Rightarrow> ('t, ('x, 's, 'w, 'cb) turbine_executor) registry \<Rightarrow> 'w \<Rightarrow>
      (turbine_code \<times> ('t, ('x, 's, 'w, 'cb) turbine_executor) registry \<times> 'w) res" where
  "turbine_async_exec_finalize T g w =
     tcl_check
       (if executors_table_init g
        then tcl_check (free_executors (tbl_items T (executors g)) g w) (\<lambda>(g, w).
          Inr (g\<lparr>executors := tbl_free T (executors g), executors_table_init := False\<rparr>, w))
        else Inr (g, w))
       (\<lambda>(g, w). Inr (TURBINE_SUCCESS, g\<lparr>executors_init := False\<rparr>, w))"

text \<open>The loop uses the functions of the executor, not its mutable fields.\<close>

lemma exec_fields:
  "exec_slots (ex\<lparr>ex_context := c\<rparr>) = exec_slots ex" "exec_poll (ex\<lparr>ex_context := c\<rparr>) = exec_poll ex"
  "exec_wait (ex\<lparr>ex_context := c\<rparr>) = exec_wait ex"
  "exec_slots (ex\<lparr>ex_state := st\<rparr>) = exec_slots ex" "exec_poll (ex\<lparr>ex_state := st\<rparr>) = exec_poll ex"
  "exec_wait (ex\<lparr>ex_state := st\<rparr>) = exec_wait ex"
  "exec_slots (ex\<lparr>ex_started := b\<rparr>) = exec_slots ex" "exec_poll (ex\<lparr>ex_started := b\<rparr>) = exec_poll ex"
  "exec_wait (ex\<lparr>ex_started := b\<rparr>) = exec_wait ex"
  by simp_all

lemma loop_body_fields [simp]:
  "loop_body I A (ex\<lparr>ex_context := c\<rparr>) ty r s w = loop_body I A ex ty r s w"
  "loop_body I A (ex\<lparr>ex_state := st\<rparr>) ty r s w = loop_body I A ex ty r s w"
  "loop_body I A (ex\<lparr>ex_started := b\<rparr>) ty r s w = loop_body I A ex ty r s w"
  unfolding loop_body_def loop_check_def check_tasks_def exec_fields by (rule refl)+

lemma loop_run_fields [simp]:
  "loop_run n I A (ex\<lparr>ex_context := c\<rparr>) ty = loop_run n I A ex ty"
  "loop_run n I A (ex\<lparr>ex_state := st\<rparr>) ty = loop_run n I A ex ty"
  "loop_run n I A (ex\<lparr>ex_started := b\<rparr>) ty = loop_run n I A ex ty"
  by (induction n) (intro ext, simp_all)+

section \<open>The ring as a queue\<close>

text \<open>
  The outstanding requests, oldest first, each with the buffer it was issued for, and the
  idle buffers in the order they will be used. On these two lists the worker is
  \<open>q_get_tasks\<close>.
\<close>

definition ring_inv :: "('req, 'buf) get_req_state \<Rightarrow> bool" where
  "ring_inv r \<longleftrightarrow> 1 \<le> max_reqs r \<and> length (requests r) = max_reqs r \<and>
     max_reqs r \<le> length (buffers r) \<and> nreqs r \<le> max_reqs r \<and> tail r < max_reqs r \<and>
     head r = (tail r + nreqs r) mod max_reqs r \<and>
     (\<forall>i < nreqs r. requests r ! ((tail r + i) mod max_reqs r) \<noteq> None)"

definition pending :: "('req, 'buf) get_req_state \<Rightarrow> ('req \<times> 'buf) list" where
  "pending r = map (\<lambda>i. (the (requests r ! ((tail r + i) mod max_reqs r)),
                       buffers r ! ((tail r + i) mod max_reqs r))) [0..<nreqs r]"

definition idle :: "('req, 'buf) get_req_state \<Rightarrow> 'buf list" where
  "idle r = map (\<lambda>i. buffers r ! ((head r + i) mod max_reqs r)) [0..<max_reqs r - nreqs r]"

type_synonym ('s, 'w, 'req, 'buf) q_got =
  "turbine_exec_code \<times> bool \<times> ('req \<times> 'buf) list \<times> 'buf list \<times> 's \<times> 'w"

fun q_loop ::
    "('s \<times> 'w, 'cb) tcl_interp \<Rightarrow> ('w, 'req, 'buf) adlb_get_api \<Rightarrow> bool \<Rightarrow> bool \<Rightarrow>
      ('req \<times> 'buf) list \<Rightarrow> 'buf list \<Rightarrow> 's \<Rightarrow> 'w \<Rightarrow> ('s, 'w, 'req, 'buf) q_got res" where
  "q_loop I A poll got [] free s w = Inr (EXEC_SUCCESS, got, [], free, s, w)"
| "q_loop I A poll got ((req, buf) # rest) free s w =
     tcl_check (check_request A poll req w) (\<lambda>(ret, work_len, w).
       case ret of
         Some ec \<Rightarrow> Inr (ec, got, (req, buf) # rest, free, s, w)
       | None \<Rightarrow>
           tcl_check (eval_work I (payload A buf w) (work_len - 1) (s, w)) (\<lambda>(ok, s, w).
             if \<not> ok then Inr (EXEC_TASK, got, (req, buf) # rest, free, s, w)
             else q_loop I A True True rest (free @ [buf]) s w))"

definition q_get_tasks ::
    "('s \<times> 'w, 'cb) tcl_interp \<Rightarrow> ('w, 'req, 'buf) adlb_get_api \<Rightarrow> int \<Rightarrow> bool \<Rightarrow> int \<Rightarrow> bool \<Rightarrow>
      ('req \<times> 'buf) list \<Rightarrow> 'buf list \<Rightarrow> 's \<Rightarrow> 'w \<Rightarrow> ('s, 'w, 'req, 'buf) q_got res" where
  "q_get_tasks I A work_type poll max_tasks got q free s w =
     (let n = nat (min max_tasks (int (length q + length free)) - int (length q)) in
      if n = 0 then q_loop I A poll False q free s w
      else let (ac, rs, w) = Amget A work_type n (\<not> poll \<and> q = []) (take n free) w in
        if ac = ADLB_ERROR then Inr (EXEC_OTHER, got, q, free, s, w)
        else c_defined (length rs = n)
          (q_loop I A poll False (q @ zip rs (take n free)) (drop n free) s w))"

definition abs_got :: "('s, 'w, 'req, 'buf) got res \<Rightarrow> ('s, 'w, 'req, 'buf) q_got res" where
  "abs_got r = tcl_check r (\<lambda>(ec, got, reqs, s, w). Inr (ec, got, pending reqs, idle reqs, s, w))"

lemma abs_got_simps [simp]:
  "abs_got (Inl e) = Inl e"
  "abs_got (Inr (ec, got, reqs, s, w)) = Inr (ec, got, pending reqs, idle reqs, s, w)"
  "abs_got (c_defined b m) = c_defined b (abs_got m)"
  by (simp_all add: abs_got_def c_defined_def)

lemma length_pending [simp]: "length (pending r) = nreqs r"
  by (simp add: pending_def)

lemma length_idle [simp]: "length (idle r) = max_reqs r - nreqs r"
  by (simp add: idle_def)

lemma mod_ring_neq: "i < j \<Longrightarrow> j < m \<Longrightarrow> (t + i) mod m \<noteq> (t + j) mod (m::nat)"
  by (metis add_diff_cancel_left dvd_imp_le less_imp_diff_less less_imp_le mod_eq_dvd_iff_nat
      nat_add_left_cancel_le not_less zero_less_diff)

lemma mod_ring_shift: "((h + 1) mod m + i) mod m = (h + Suc i) mod (m::nat)"
  by (simp add: mod_add_left_eq)

lemma ring_push:
  fixes x :: 'req and r :: "('req, 'buf) get_req_state"
  assumes inv: "ring_inv r" and room: "nreqs r < max_reqs r"
  defines "r' \<equiv> r\<lparr>requests := (requests r)[head r := Some x],
    head := (head r + 1) mod max_reqs r, nreqs := nreqs r + 1\<rparr>"
  shows "ring_inv r'" "pending r' = pending r @ [(x, hd (idle r))]" "idle r' = tl (idle r)"
proof -
  let ?m = "max_reqs r"
  note inv = inv [unfolded ring_inv_def]
  have h: "head r < ?m" "head r = (tail r + nreqs r) mod ?m" using inv by auto
  have old: "(requests r)[head r := Some x] ! ((tail r + i) mod ?m) = requests r ! ((tail r + i) mod ?m)"
    if "i < nreqs r" for i
    using mod_ring_neq [OF that room, of "tail r"] h(2) by simp
  have new: "(requests r)[head r := Some x] ! ((tail r + nreqs r) mod ?m) = Some x"
    using inv h by (metis nth_list_update_eq)
  have idle: "idle r = buffers r ! head r #
      map (\<lambda>i. buffers r ! ((head r + Suc i) mod ?m)) [0..<?m - nreqs r - 1]"
  proof -
    have "[0..<?m - nreqs r] = 0 # map Suc [0..<?m - nreqs r - 1]"
      using room by (metis Suc_diff_1 map_Suc_upt upt_conv_Cons zero_less_diff)
    then show ?thesis using h(1) by (simp add: idle_def comp_def)
  qed
  show "ring_inv r'"
    using inv room old new
    by (auto simp: ring_inv_def r'_def mod_Suc_eq less_Suc_eq)
  show "pending r' = pending r @ [(x, hd (idle r))]"
    using old new by (simp add: pending_def r'_def idle h(2) [symmetric])
  show "idle r' = tl (idle r)"
    unfolding idle by (simp add: idle_def r'_def mod_Suc_eq mod_add_left_eq)
qed

lemma issue_nreqs: "issue rs (r\<lparr>nreqs := n\<rparr>) = (issue rs r)\<lparr>nreqs := n\<rparr>"
proof (induction rs arbitrary: r)
  case (Cons x rs)
  let ?u = "\<lambda>r. r\<lparr>requests := (requests r)[head r := Some x], head := (head r + 1) mod max_reqs r\<rparr>"
  have "?u (r\<lparr>nreqs := n\<rparr>) = (?u r)\<lparr>nreqs := n\<rparr>" by simp
  with Cons.IH show ?case by (simp only: issue.simps)
qed simp

lemma issue_keeps: "nreqs (issue rs r) = nreqs r"
  by (induction rs arbitrary: r) (simp_all add: Let_def)

lemma issue_buffers: "buffers (issue rs r) = buffers r" "max_reqs (issue rs r) = max_reqs r"
  by (induction rs arbitrary: r) (simp_all add: Let_def)

lemma ring_issue:
  assumes "ring_inv r" "nreqs r + length rs \<le> max_reqs r"
  shows "ring_inv ((issue rs r)\<lparr>nreqs := nreqs r + length rs\<rparr>) \<and>
    pending ((issue rs r)\<lparr>nreqs := nreqs r + length rs\<rparr>) = pending r @ zip rs (take (length rs) (idle r)) \<and>
    idle ((issue rs r)\<lparr>nreqs := nreqs r + length rs\<rparr>) = drop (length rs) (idle r)"
  using assms
proof (induction rs arbitrary: r)
  case Nil
  then show ?case by simp
next
  case (Cons x rs)
  let ?r = "r\<lparr>requests := (requests r)[head r := Some x],
    head := (head r + 1) mod max_reqs r, nreqs := nreqs r + 1\<rparr>"
  have room: "nreqs r < max_reqs r" using Cons.prems by simp
  note push = ring_push [OF Cons.prems(1) room, of x]
  have eq: "(issue rs ?r)\<lparr>nreqs := nreqs ?r + length rs\<rparr> =
      (issue (x # rs) r)\<lparr>nreqs := nreqs r + length (x # rs)\<rparr>"
    using issue_nreqs [where n = "nreqs r + 1" and rs = rs and r = "r\<lparr>requests :=
      (requests r)[head r := Some x], head := (head r + 1) mod max_reqs r\<rparr>"] by simp
  obtain b bs where b: "idle r = b # bs"
    using room length_idle [of r] by (cases "idle r") auto
  have "nreqs ?r + length rs \<le> max_reqs ?r" using Cons.prems by simp
  from Cons.IH [OF push(1) this] show ?case unfolding eq push(2,3) by (simp add: b)
qed

lemma ring_pop:
  assumes inv: "ring_inv r" and ne: "nreqs r \<noteq> 0"
  defines "r' \<equiv> r\<lparr>tail := (tail r + 1) mod max_reqs r, nreqs := nreqs r - 1\<rparr>"
  shows "ring_inv r'"
    "pending r = (the (requests r ! tail r), buffers r ! tail r) # pending r'"
    "idle r' = idle r @ [buffers r ! tail r]"
    "tail r < length (requests r)" "tail r < length (buffers r)" "requests r ! tail r \<noteq> None"
proof -
  let ?m = "max_reqs r"
  note inv = inv [unfolded ring_inv_def]
  have upt: "[0..<nreqs r] = 0 # map Suc [0..<nreqs r - 1]"
    using ne by (metis Suc_diff_1 map_Suc_upt neq0_conv upt_conv_Cons)
  have "requests r ! ((tail r + 0) mod ?m) \<noteq> None" using inv ne by blast
  then show "requests r ! tail r \<noteq> None" using inv by simp
  show "tail r < length (requests r)" "tail r < length (buffers r)" using inv by auto
  have "requests r ! ((tail r + Suc i) mod ?m) \<noteq> None" if "i < nreqs r - 1" for i
    using inv that by (metis less_diff_conv add.commute plus_1_eq_Suc)
  moreover have "(tail r + nreqs r) mod ?m = ((tail r + 1) mod ?m + (nreqs r - 1)) mod ?m"
  proof -
    obtain k where "nreqs r = Suc k" using ne by (cases "nreqs r") auto
    then show ?thesis by (simp add: mod_add_left_eq)
  qed
  ultimately show "ring_inv r'"
    using inv by (auto simp: ring_inv_def r'_def mod_Suc_eq mod_add_left_eq)
  show "pending r = (the (requests r ! tail r), buffers r ! tail r) # pending r'"
    using inv upt by (simp add: pending_def r'_def comp_def mod_add_left_eq mod_Suc_eq)
  have "head r = (tail r + nreqs r) mod ?m" using inv by simp
  then have "(head r + (?m - nreqs r)) mod ?m = (tail r + nreqs r + (?m - nreqs r)) mod ?m"
    by (simp only: mod_add_left_eq)
  also have "\<dots> = tail r" using inv by simp
  finally have last: "(head r + (?m - nreqs r)) mod ?m = tail r" .
  have "?m - (nreqs r - 1) = Suc (?m - nreqs r)" using inv ne by linarith
  then show "idle r' = idle r @ [buffers r ! tail r]"
    using last by (simp add: idle_def r'_def)
qed

lemma get_loop_refines:
  assumes "ring_inv r"
  shows "abs_got (get_loop I A poll got r s w) = q_loop I A poll got (pending r) (idle r) s w"
  using assms
proof (induction "nreqs r" arbitrary: r poll got s w)
  case 0
  then show ?case by (subst get_loop.simps) (simp add: pending_def)
next
  case (Suc n)
  then have ne: "nreqs r \<noteq> 0" by simp
  let ?r = "r\<lparr>tail := (tail r + 1) mod max_reqs r, nreqs := nreqs r - 1\<rparr>"
  note pop = ring_pop [OF Suc.prems ne]
  obtain req where req: "requests r ! tail r = Some req" using pop(6) by blast
  have IH: "abs_got (get_loop I A True True ?r s w) = q_loop I A True True (pending ?r) (idle ?r) s w"
    for s w by (rule Suc.hyps(1)) (use Suc.hyps(2) pop(1) in simp_all)
  note start = get_loop.simps [of I A poll got r s w]
  show ?case
  proof (cases "check_request A poll req w")
    case (Inl e)
    then show ?thesis using ne by (simp add: start pop(2,4,5) req)
  next
    case (Inr x)
    obtain ret len w1 where x: "x = (ret, len, w1)" by (cases x)
    show ?thesis
    proof (cases ret)
      case (Some ec)
      then show ?thesis using ne Inr x by (simp add: start pop(4,5) req) (simp add: pop(2) req)
    next
      case None
      show ?thesis
      proof (cases "eval_work I (payload A (buffers r ! tail r) w1) (len - 1) (s, w1)")
        case (Inl e)
        then show ?thesis using ne Inr x None by (simp add: start pop(2,4,5) req)
      next
        case (Inr y)
        obtain ok s2 w2 where "y = (ok, s2, w2)" by (cases y)
        with Inr \<open>check_request A poll req w = Inr x\<close> show ?thesis
          using ne x None IH
          by (cases ok) (simp_all add: start pop(4,5) req, simp_all add: pop(2,3) [simplified] req)
      qed
    qed
  qed
qed

text \<open>\<^verbatim>\<open>get_tasks\<close> on the ring is \<open>q_get_tasks\<close> on the queue.\<close>

lemma get_tasks_refines:
  assumes inv: "ring_inv r"
  shows "abs_got (get_tasks I A ty poll m got r s w) =
    q_get_tasks I A ty poll m got (pending r) (idle r) s w"
proof -
  define x where "x = min m (int (max_reqs r)) - int (nreqs r)"
  have len: "int (nreqs r + length (idle r)) = int (max_reqs r)"
    using inv by (simp add: ring_inv_def)
  have empty: "pending r = [] \<longleftrightarrow> nreqs r = 0" by (metis length_0_conv length_pending)
  note defs = get_tasks_def q_get_tasks_def Let_def len length_pending empty x_def [symmetric]
  show ?thesis
  proof (cases "0 < x")
    case False
    then show ?thesis unfolding defs by (simp add: get_loop_refines [OF inv])
  next
    case True
    define n where "n = nat x"
    have n: "0 < n" "n \<le> length (idle r)" "nreqs r + n \<le> max_reqs r"
      using True inv by (auto simp: ring_inv_def n_def x_def)
    have tmp: "map (\<lambda>i. buffers r ! ((head r + i) mod max_reqs r)) [0..<n] = take n (idle r)"
      using n(2) by (simp add: idle_def take_map)
    obtain ac rs w1 where am: "Amget A ty n (\<not> poll \<and> nreqs r = 0) (take n (idle r)) w = (ac, rs, w1)"
      by (cases "Amget A ty n (\<not> poll \<and> nreqs r = 0) (take n (idle r)) w") auto
    note defs = defs n_def [symmetric] tmp am
    show ?thesis
    proof (cases "ac \<noteq> ADLB_ERROR \<and> length rs = n")
      case ok: True
      have "nreqs r + length rs \<le> max_reqs r" using ok n by simp
      note ring = ring_issue [OF inv this]
      show ?thesis
        using True ok n(1) ring unfolding defs by (simp add: issue_keeps get_loop_refines)
    next
      case False
      then show ?thesis using True n(1) unfolding defs by auto
    qed
  qed
qed

lemma get_loop_elim:
  assumes run: "get_loop I A poll got r s w = Inr (ec, got', r', s', w')" and ne: "nreqs r \<noteq> 0"
  shows "r' = r \<or> (\<exists>s w. get_loop I A True True
    (r\<lparr>tail := (tail r + 1) mod max_reqs r, nreqs := nreqs r - 1\<rparr>) s w = Inr (ec, got', r', s', w'))"
proof -
  note run = run [unfolded get_loop.simps [of I A poll got r s w]]
  obtain req where req: "requests r ! tail r = Some req"
    using run ne by (auto simp: res_Inr_convs split: option.splits)
  obtain ret len w1 where cr: "check_request A poll req w = Inr (ret, len, w1)"
    using run ne by (auto simp: res_Inr_convs req)
  show ?thesis
  proof (cases ret)
    case (Some x)
    then show ?thesis using run ne by (simp add: res_Inr_convs req cr)
  next
    case None
    obtain ok s2 w2 where
      "eval_work I (payload A (buffers r ! tail r) w1) (len - 1) (s, w1) = Inr (ok, s2, w2)"
      using run ne None by (auto simp: res_Inr_convs req cr)
    then show ?thesis using run ne None by (cases ok) (auto simp: res_Inr_convs req cr)
  qed
qed

lemma get_loop_ring:
  assumes "ring_inv r" "get_loop I A poll got r s w = Inr (ec, got', r', s', w')"
  shows "ring_inv r' \<and> buffers r' = buffers r \<and> max_reqs r' = max_reqs r"
  using assms
proof (induction "nreqs r" arbitrary: r poll got s w)
  case 0
  then show ?case by (simp add: get_loop.simps [of I A poll got r s w])
next
  case (Suc n)
  then have ne: "nreqs r \<noteq> 0" by simp
  let ?r = "r\<lparr>tail := (tail r + 1) mod max_reqs r, nreqs := nreqs r - 1\<rparr>"
  have IH: "get_loop I A True True ?r s w = Inr (ec, got', r', s', w') \<Longrightarrow> ring_inv r' \<and>
      buffers r' = buffers ?r \<and> max_reqs r' = max_reqs ?r" for s w
    by (rule Suc.hyps(1)) (use Suc.hyps(2) ring_pop(1) [OF Suc.prems(1) ne] in simp_all)
  from get_loop_elim [OF Suc.prems(2) ne] show ?case
  proof (elim disjE exE)
    fix s1 w1
    assume "get_loop I A True True ?r s1 w1 = Inr (ec, got', r', s', w')"
    from IH [OF this] show ?thesis by simp
  qed (use Suc.prems(1) in simp)
qed

lemma get_tasks_ring:
  assumes inv: "ring_inv r" and run: "get_tasks I A ty poll m got r s w = Inr (ec, got', r', s', w')"
  shows "ring_inv r' \<and> buffers r' = buffers r \<and> max_reqs r' = max_reqs r"
proof -
  define x where "x = min m (int (max_reqs r)) - int (nreqs r)"
  define n where "n = nat x"
  define bufs where "bufs = map (\<lambda>i. buffers r ! ((head r + i) mod max_reqs r)) [0..<n]"
  note run = run [unfolded get_tasks_def Let_def x_def [symmetric] n_def [symmetric], folded bufs_def]
  show ?thesis
  proof (cases "0 < x")
    case False
    with run inv get_loop_ring show ?thesis by (simp split: if_splits)
  next
    case True
    obtain ac rs w1 where am: "Amget A ty n (\<not> poll \<and> nreqs r = 0) bufs w = (ac, rs, w1)"
      by (cases "Amget A ty n (\<not> poll \<and> nreqs r = 0) bufs w") auto
    show ?thesis
    proof (cases "ac = ADLB_ERROR")
      case e: True
      then show ?thesis using run inv True am by simp
    next
      case False
      let ?r = "(issue rs r)\<lparr>nreqs := nreqs r + length rs\<rparr>"
      have rs: "length rs = n" and gl: "get_loop I A poll False ?r s w1 = Inr (ec, got', r', s', w')"
        using run True False am by (auto simp: c_defined_Inr_conv issue_keeps)
      have "nreqs r + length rs \<le> max_reqs r" using rs True inv by (auto simp: n_def x_def ring_inv_def)
      with ring_issue [OF inv] have "ring_inv ?r" by blast
      from get_loop_ring [OF this gl] show ?thesis by (simp add: issue_buffers)
    qed
  qed
qed

section \<open>An executor is never overfilled\<close>

text \<open>
  The assumption of the header comment of \<^verbatim>\<open>async_exec.c\<close>: a task command or a callback
  holds at most one work unit, so evaluating it calls the executor's launch function at
  most once. What else the command does (\<open>w1\<close> before, \<open>g\<close> after) keeps the executor's
  invariant.
\<close>

definition launch_step ::
    "('s \<Rightarrow> 'z \<Rightarrow> bool) \<Rightarrow> ('work \<Rightarrow> 'cb turbine_task_callbacks \<Rightarrow> 's \<Rightarrow> ('cb, 'z) world_scheme \<Rightarrow>
      (turbine_code \<times> 's \<times> ('cb, 'z) world_scheme) res) \<Rightarrow>
      ('s \<times> ('cb, 'z) world_scheme \<Rightarrow> (bool \<times> 's \<times> ('cb, 'z) world_scheme) res) \<Rightarrow> bool" where
  "launch_step Inv execute ev \<longleftrightarrow> (\<forall>s w. Inv s (world.more w) \<longrightarrow>
     (\<exists>b w'. ev (s, w) = Inr (b, s, w') \<and> Inv s (world.more w')) \<or>
     (\<exists>work cbs w1 g. Inv s (world.more w1) \<and>
        (\<forall>s' w'. Inv s' (world.more w') \<longrightarrow> Inv s' (world.more (g w'))) \<and>
        ev (s, w) = tcl_check (execute work cbs s w1)
          (\<lambda>(tc, s', w2). Inr (tc = TURBINE_SUCCESS, s', g w2))))"

lemma launch_stepI:
  fixes Inv :: "'s \<Rightarrow> 'z \<Rightarrow> bool"
    and ev :: "'s \<times> ('cb, 'z) world_scheme \<Rightarrow> (bool \<times> 's \<times> ('cb, 'z) world_scheme) res"
  assumes "\<And>s w. ev (s, w) =
    tcl_check (execute work cbs s w) (\<lambda>(tc, s', w'). Inr (tc = TURBINE_SUCCESS, s', w'))"
  shows "launch_step Inv execute ev"
  unfolding launch_step_def
proof (intro allI impI disjI2)
  fix s and w :: "('cb, 'z) world_scheme"
  assume "Inv s (world.more w)"
  then have "Inv s (world.more w) \<and> (\<forall>s' w'. Inv s' (world.more w') \<longrightarrow> Inv s' (world.more w')) \<and>
      ev (s, w) = tcl_check (execute work cbs s w) (\<lambda>(tc, s', w2). Inr (tc = TURBINE_SUCCESS, s', w2))"
    by (simp add: assms)
  then show "\<exists>work cbs w1 g. Inv s (world.more w1) \<and>
      (\<forall>s' w'. Inv s' (world.more w') \<longrightarrow> Inv s' (world.more (g w'))) \<and>
      ev (s, w) = tcl_check (execute work cbs s w1) (\<lambda>(tc, s', w2). Inr (tc = TURBINE_SUCCESS, s', g w2))"
    by - (rule exI [of _ work], rule exI [of _ cbs], rule exI [of _ w], rule exI [of _ "\<lambda>w. w"])
qed

definition scripts_ok ::
    "('s \<Rightarrow> 'z \<Rightarrow> bool) \<Rightarrow> ('work \<Rightarrow> 'cb turbine_task_callbacks \<Rightarrow> 's \<Rightarrow> ('cb, 'z) world_scheme \<Rightarrow>
      (turbine_code \<times> 's \<times> ('cb, 'z) world_scheme) res) \<Rightarrow>
      ('s \<times> ('cb, 'z) world_scheme, 'cb) tcl_interp \<Rightarrow> bool" where
  "scripts_ok Inv execute I \<longleftrightarrow>
     (\<forall>c n. launch_step Inv execute (eval_work I c n)) \<and>
     (\<forall>c. launch_step Inv execute (eval_cb I c)) \<and>
     (\<forall>x v s w. Inv s (world.more w) \<longrightarrow>
        (\<exists>b w'. set_var I x v (s, w) = (b, s, w') \<and> Inv s (world.more w'))) \<and>
     (\<forall>x s w. Inv s (world.more w) \<longrightarrow>
        (\<exists>b w'. unset_var I x (s, w) = (b, s, w') \<and> Inv s (world.more w')))"

text \<open>
  What the worker relies on in ADLB: one handle per buffer, the documented return codes,
  and no effect on the executor.
\<close>

definition adlb_get_ok ::
    "('s \<Rightarrow> 'z \<Rightarrow> bool) \<Rightarrow> (('cb, 'z) world_scheme, 'req, 'buf) adlb_get_api \<Rightarrow> bool" where
  "adlb_get_ok Inv A \<longleftrightarrow>
     (\<forall>ty n b bufs w s. case Amget A ty n b bufs w of (ac, rs, w') \<Rightarrow>
        length rs = n \<and> (Inv s (world.more w) \<longrightarrow> Inv s (world.more w'))) \<and>
     (\<forall>req w s. case Aget_test A req w of (ac, len, w') \<Rightarrow>
        ac \<in> {ADLB_SUCCESS, ADLB_ERROR, ADLB_NOTHING, ADLB_SHUTDOWN} \<and>
        (Inv s (world.more w) \<longrightarrow> Inv s (world.more w'))) \<and>
     (\<forall>req w s. case Aget_wait A req w of (ac, len, w') \<Rightarrow>
        ac \<in> {ADLB_SUCCESS, ADLB_ERROR, ADLB_SHUTDOWN} \<and>
        (Inv s (world.more w) \<longrightarrow> Inv s (world.more w')))"

text \<open>
  The same with the reference counts in view. When the flag \<open>b\<close> is set, a script leaves the counts of
  callback objects as they were, but for the launch: it drops again whatever references of its own it takes.
  ADLB knows nothing of them.
\<close>

definition launch_held ::
    "bool \<Rightarrow> ('s \<Rightarrow> 'z \<Rightarrow> bool) \<Rightarrow> ('work \<Rightarrow> 'cb turbine_task_callbacks \<Rightarrow> 's \<Rightarrow> ('cb, 'z) world_scheme \<Rightarrow>
      (turbine_code \<times> 's \<times> ('cb, 'z) world_scheme) res) \<Rightarrow>
      ('s \<times> ('cb, 'z) world_scheme \<Rightarrow> (bool \<times> 's \<times> ('cb, 'z) world_scheme) res) \<Rightarrow> bool" where
  "launch_held b Inv execute ev \<longleftrightarrow> (\<forall>s w. Inv s (world.more w) \<longrightarrow>
     (\<exists>ok w'. ev (s, w) = Inr (ok, s, w') \<and> Inv s (world.more w') \<and> (b \<longrightarrow> refs w' = refs w)) \<or>
     (\<exists>work cbs w1 g. Inv s (world.more w1) \<and> (b \<longrightarrow> refs w1 = refs w) \<and>
        (\<forall>s' w'. Inv s' (world.more w') \<longrightarrow> Inv s' (world.more (g w'))) \<and> (b \<longrightarrow> (\<forall>w'. refs (g w') = refs w')) \<and>
        ev (s, w) = tcl_check (execute work cbs s w1)
          (\<lambda>(tc, s', w2). Inr (tc = TURBINE_SUCCESS, s', g w2))))"

definition scripts_held ::
    "bool \<Rightarrow> ('s \<Rightarrow> 'z \<Rightarrow> bool) \<Rightarrow> ('work \<Rightarrow> 'cb turbine_task_callbacks \<Rightarrow> 's \<Rightarrow> ('cb, 'z) world_scheme \<Rightarrow>
      (turbine_code \<times> 's \<times> ('cb, 'z) world_scheme) res) \<Rightarrow>
      ('s \<times> ('cb, 'z) world_scheme, 'cb) tcl_interp \<Rightarrow> bool" where
  "scripts_held b Inv execute I \<longleftrightarrow>
     (\<forall>c n. launch_held b Inv execute (eval_work I c n)) \<and>
     (\<forall>c. launch_held b Inv execute (eval_cb I c)) \<and>
     (\<forall>x v s w. Inv s (world.more w) \<longrightarrow>
        (\<exists>ok w'. set_var I x v (s, w) = (ok, s, w') \<and> Inv s (world.more w') \<and> (b \<longrightarrow> refs w' = refs w))) \<and>
     (\<forall>x s w. Inv s (world.more w) \<longrightarrow>
        (\<exists>ok w'. unset_var I x (s, w) = (ok, s, w') \<and> Inv s (world.more w') \<and> (b \<longrightarrow> refs w' = refs w)))"

definition adlb_held ::
    "bool \<Rightarrow> ('s \<Rightarrow> 'z \<Rightarrow> bool) \<Rightarrow> (('cb, 'z) world_scheme, 'req, 'buf) adlb_get_api \<Rightarrow> bool" where
  "adlb_held b Inv A \<longleftrightarrow> adlb_get_ok Inv A \<and> (b \<longrightarrow>
     (\<forall>ty n block bufs w. refs (snd (snd (Amget A ty n block bufs w))) = refs w) \<and>
     (\<forall>req w. refs (snd (snd (Aget_test A req w))) = refs w \<and> refs (snd (snd (Aget_wait A req w))) = refs w))"

lemma held_False:
  "scripts_held False = scripts_ok" "adlb_held False = adlb_get_ok"
  by (auto simp: fun_eq_iff scripts_held_def scripts_ok_def launch_held_def launch_step_def adlb_held_def)

lemma launch_heldI:
  fixes Inv :: "'s \<Rightarrow> 'z \<Rightarrow> bool"
    and ev :: "'s \<times> ('cb, 'z) world_scheme \<Rightarrow> (bool \<times> 's \<times> ('cb, 'z) world_scheme) res"
  assumes "\<And>s w. ev (s, w) =
    tcl_check (execute work cbs s w) (\<lambda>(tc, s', w'). Inr (tc = TURBINE_SUCCESS, s', w'))"
  shows "launch_held b Inv execute ev"
  unfolding launch_held_def
proof (intro allI impI disjI2)
  fix s and w :: "('cb, 'z) world_scheme"
  assume "Inv s (world.more w)"
  then have "Inv s (world.more w) \<and> (b \<longrightarrow> refs w = refs w) \<and>
      (\<forall>s' w'. Inv s' (world.more w') \<longrightarrow> Inv s' (world.more w')) \<and> (b \<longrightarrow> (\<forall>w' :: ('cb, 'z) world_scheme. refs w' = refs w')) \<and>
      ev (s, w) = tcl_check (execute work cbs s w) (\<lambda>(tc, s', w2). Inr (tc = TURBINE_SUCCESS, s', w2))"
    by (simp add: assms)
  then show "\<exists>work cbs w1 g. Inv s (world.more w1) \<and> (b \<longrightarrow> refs w1 = refs w) \<and>
      (\<forall>s' w'. Inv s' (world.more w') \<longrightarrow> Inv s' (world.more (g w'))) \<and> (b \<longrightarrow> (\<forall>w'. refs (g w') = refs w')) \<and>
      ev (s, w) = tcl_check (execute work cbs s w1) (\<lambda>(tc, s', w2). Inr (tc = TURBINE_SUCCESS, s', g w2))"
    by - (rule exI [of _ work], rule exI [of _ cbs], rule exI [of _ w], rule exI [of _ "\<lambda>w. w"])
qed

lemma check_request_ok:
  assumes "adlb_held b Inv A" "Inv s (world.more w)"
  shows "\<exists>ret len w'. check_request A poll req w = Inr (ret, len, w') \<and> Inv s (world.more w') \<and> (b \<longrightarrow> refs w' = refs w)"
proof -
  have A: "adlb_get_ok Inv A" using assms(1) by (simp add: adlb_held_def)
  show ?thesis
  proof (cases poll)
    case True
    obtain ac len w' where r: "Aget_test A req w = (ac, len, w')" by (cases "Aget_test A req w") auto
    have "b \<longrightarrow> refs w' = refs w" using assms(1) r by (auto simp: adlb_held_def dest!: spec [where x = req] spec [where x = w])
    with A [unfolded adlb_get_ok_def, THEN conjunct2, THEN conjunct1, THEN spec [where x = req], THEN spec [where x = w], THEN spec [where x = s]] r assms(2) True show ?thesis
      by (cases ac) (simp_all add: check_request_def)
  next
    case False
    obtain ac len w' where r: "Aget_wait A req w = (ac, len, w')" by (cases "Aget_wait A req w") auto
    have "b \<longrightarrow> refs w' = refs w" using assms(1) r by (auto simp: adlb_held_def dest!: spec [where x = req] spec [where x = w])
    with A [unfolded adlb_get_ok_def, THEN conjunct2, THEN conjunct2, THEN spec [where x = req], THEN spec [where x = w], THEN spec [where x = s]] r assms(2) False show ?thesis
      by (cases ac) (simp_all add: check_request_def)
  qed
qed

lemma Amget_ok:
  assumes "adlb_held b Inv A" "Inv s (world.more w)" "Amget A ty n block bufs w = (ac, rs, w')"
  shows "length rs = n" "Inv s (world.more w')" "b \<longrightarrow> refs w' = refs w"
proof -
  have A: "adlb_get_ok Inv A" using assms(1) by (simp add: adlb_held_def)
  from A [unfolded adlb_get_ok_def, THEN conjunct1, THEN spec [where x = ty], THEN spec [where x = n],
    THEN spec [where x = block], THEN spec [where x = bufs], THEN spec [where x = w], THEN spec [where x = s]] assms(2,3)
  show "length rs = n" "Inv s (world.more w')" by simp_all
  have "b \<longrightarrow> refs (snd (snd (Amget A ty n block bufs w))) = refs w" using assms(1) by (simp add: adlb_held_def)
  then show "b \<longrightarrow> refs w' = refs w" using assms(3) by simp
qed

context executor
begin

text \<open>
  One part of the run leads from \<open>s\<close>, \<open>w\<close> to \<open>s'\<close>, \<open>w'\<close>: the invariant holds again, and the counts less
  what the tasks in flight hold are the same.
\<close>

definition held :: "bool \<Rightarrow> 's \<Rightarrow> ('cb, 'z) world_scheme \<Rightarrow> 's \<Rightarrow> ('cb, 'z) world_scheme \<Rightarrow> bool" where
  "held b s w s' w' \<longleftrightarrow> Inv s' (world.more w') \<and> total (slots_of E s') = total (slots_of E s) \<and>
     (b \<longrightarrow> (\<forall>c. refs w' c - task_refs (active s') c = refs w c - task_refs (active s) c))"

lemma held_world: "Inv s (world.more w') \<Longrightarrow> b \<longrightarrow> refs w' = refs w \<Longrightarrow> held b s w s w'"
  by (simp add: held_def)

lemma held_trans: "held b s w s1 w1 \<Longrightarrow> held b s1 w1 s2 w2 \<Longrightarrow> held b s w s2 w2"
  by (simp add: held_def)

lemma held_before: "held b s w1 s' w' \<Longrightarrow> b \<longrightarrow> refs w1 = refs w \<Longrightarrow> held b s w s' w'"
  by (simp add: held_def)

lemma held_after: "held b s w s' w1 \<Longrightarrow> Inv s' (world.more w') \<Longrightarrow> b \<longrightarrow> refs w' = refs w1 \<Longrightarrow> held b s w s' w'"
  by (simp add: held_def)

lemma launch_held_used:
  assumes "launch_held b Inv execute ev" "Inv s (world.more w)"
    "used (slots_of E s) < total (slots_of E s)"
  shows "\<exists>ok s' w'. ev (s, w) = Inr (ok, s', w') \<and>
    (ok \<longrightarrow> held b s w s' w' \<and> used (slots_of E s') \<le> used (slots_of E s) + 1)"
proof -
  from assms(1) [unfolded launch_held_def, rule_format, OF assms(2)] show ?thesis
  proof (elim disjE exE conjE)
    fix ok w'
    assume "ev (s, w) = Inr (ok, s, w')" "Inv s (world.more w')" "b \<longrightarrow> refs w' = refs w"
    then show ?thesis using held_world by force
  next
    fix work cbs w1 g
    assume w1: "Inv s (world.more w1)" "b \<longrightarrow> refs w1 = refs w"
      and g: "\<forall>s' w'. Inv s' (world.more w') \<longrightarrow> Inv s' (world.more (g w'))" "b \<longrightarrow> (\<forall>w'. refs (g w') = refs w')"
      and ev: "ev (s, w) = tcl_check (execute work cbs s w1)
        (\<lambda>(tc, s', w2). Inr (tc = TURBINE_SUCCESS, s', g w2))"
    from execute_ok [OF w1(1) assms(3), of work cbs] obtain tc s' w2 where
      ex: "execute work cbs s w1 = Inr (tc, s', w2)" and
      ok: "tc = TURBINE_SUCCESS \<longrightarrow> Inv s' (world.more w2) \<and> total (slots_of E s') = total (slots_of E s) \<and>
         active s' = add_mset cbs (active s) \<and> refs w2 = (\<lambda>c. refs w1 c + cb_refs cbs c)" by blast
    show ?thesis
    proof (cases "tc = TURBINE_SUCCESS")
      case True
      with ex have ex: "execute work cbs s w1 = Inr (TURBINE_SUCCESS, s', w2)" by simp
      have "held b s w s' (g w2)" using ok True g w1(2) by (simp add: held_def)
      with execute_used(2) [OF w1(1) assms(3) ex] ex ev show ?thesis
        by (intro exI [of _ True] exI [of _ s'] exI [of _ "g w2"]) simp
    next
      case False
      with ex ev show ?thesis by (intro exI [of _ False] exI [of _ s'] exI [of _ "g w2"]) simp
    qed
  qed
qed

lemma q_loop_safe:
  assumes A: "adlb_held b Inv A" and I: "scripts_held b Inv execute I"
    and inv: "Inv s (world.more w)" and room: "used (slots_of E s) + int (length q) \<le> total (slots_of E s)"
  shows "\<exists>ec got' q' free' s' w'. q_loop I A poll got q free s w = Inr (ec, got', q', free', s', w') \<and>
    (ec = EXEC_SUCCESS \<or> ec = EXEC_SHUTDOWN \<longrightarrow> held b s w s' w' \<and>
       used (slots_of E s') + int (length q') \<le> total (slots_of E s))"
  using inv room
proof (induction q arbitrary: poll got free s w)
  case Nil
  then show ?case by (simp add: held_def)
next
  case (Cons x q)
  obtain req buf where x: "x = (req, buf)" by (cases x)
  from check_request_ok [OF A Cons.prems(1)] obtain ret len w1 where
    cr: "check_request A poll req w = Inr (ret, len, w1)" and w1: "Inv s (world.more w1)"
    and r1: "b \<longrightarrow> refs w1 = refs w" by blast
  show ?case
  proof (cases ret)
    case (Some ec)
    then show ?thesis using cr held_world [OF w1 r1] Cons.prems(2) by (simp add: x)
  next
    case None
    have ls: "launch_held b Inv execute (eval_work I (payload A buf w1) (len - 1))"
      using I by (simp add: scripts_held_def)
    have lt: "used (slots_of E s) < total (slots_of E s)" using Cons.prems(2) by simp
    from launch_held_used [OF ls w1 lt] obtain ok s2 w2 where
      ev: "eval_work I (payload A buf w1) (len - 1) (s, w1) = Inr (ok, s2, w2)"
      and ok: "ok \<longrightarrow> held b s w1 s2 w2 \<and> used (slots_of E s2) \<le> used (slots_of E s) + 1"
      by blast
    show ?thesis
    proof (cases ok)
      case True
      then have h: "held b s w s2 w2" using ok held_before [OF _ r1] by blast
      then have "used (slots_of E s2) + int (length q) \<le> total (slots_of E s2)"
        using ok True Cons.prems(2) by (simp add: held_def)
      from Cons.IH [OF _ this, of w2 True True "free @ [buf]"] h obtain ec got' q' free' s' w' where
        run: "q_loop I A True True q (free @ [buf]) s2 w2 = Inr (ec, got', q', free', s', w')" and
        post: "ec = EXEC_SUCCESS \<or> ec = EXEC_SHUTDOWN \<longrightarrow> held b s2 w2 s' w' \<and>
          used (slots_of E s') + int (length q') \<le> total (slots_of E s2)" by (auto simp: held_def)
      have "total (slots_of E s2) = total (slots_of E s)" using h by (simp add: held_def)
      then show ?thesis using cr None ev True run post held_trans [OF h] by (simp add: x)
    next
      case False
      then show ?thesis using cr None ev by (simp add: x)
    qed
  qed
qed

lemma q_get_tasks_safe:
  assumes A: "adlb_held b Inv A" and I: "scripts_held b Inv execute I"
    and inv: "Inv s (world.more w)" and room: "used (slots_of E s) + int (length q) \<le> total (slots_of E s)"
  shows "\<exists>ec got' q' free' s' w'.
    q_get_tasks I A ty poll (total (slots_of E s) - used (slots_of E s)) got q free s w =
      Inr (ec, got', q', free', s', w') \<and>
    (ec = EXEC_SUCCESS \<or> ec = EXEC_SHUTDOWN \<longrightarrow> held b s w s' w' \<and>
       used (slots_of E s') + int (length q') \<le> total (slots_of E s))"
proof -
  define n where "n = nat (min (total (slots_of E s) - used (slots_of E s))
    (int (length q + length free)) - int (length q))"
  note def = q_get_tasks_def [of I A ty poll "total (slots_of E s) - used (slots_of E s)", folded n_def]
  show ?thesis
  proof (cases "n = 0")
    case True
    then show ?thesis using q_loop_safe [OF A I inv room] by (simp add: q_get_tasks_def Let_def n_def)
  next
    case False
    obtain ac rs w1 where am: "Amget A ty n (\<not> poll \<and> q = []) (take n free) w = (ac, rs, w1)"
      by (cases "Amget A ty n (\<not> poll \<and> q = []) (take n free) w") auto
    note ok = Amget_ok [OF A inv am]
    have n: "n \<le> length free" "int n \<le> total (slots_of E s) - used (slots_of E s) - int (length q)"
      using False by (simp_all add: n_def)
    then have "used (slots_of E s) + int (length (q @ zip rs (take n free))) \<le> total (slots_of E s)"
      using ok(1) by simp
    from q_loop_safe [OF A I ok(2) this, of poll False "drop n free"] obtain ec got' q' free' s' w' where
      "q_loop I A poll False (q @ zip rs (take n free)) (drop n free) s w1 = Inr (ec, got', q', free', s', w')"
      "ec = EXEC_SUCCESS \<or> ec = EXEC_SHUTDOWN \<longrightarrow> held b s w1 s' w' \<and>
       used (slots_of E s') + int (length q') \<le> total (slots_of E s)" by blast
    then show ?thesis
      using am ok(1) held_before [OF _ ok(3)] False unfolding q_get_tasks_def Let_def n_def [symmetric]
      by (cases "ac = ADLB_ERROR") simp_all
  qed
qed

lemma set_vars_ok:
  assumes I: "scripts_held b Inv execute I" and inv: "Inv s (world.more w)"
  shows "\<exists>ok w'. set_vars I vs (s, w) = (ok, s, w') \<and> Inv s (world.more w') \<and> (b \<longrightarrow> refs w' = refs w)"
  using inv
proof (induction vs arbitrary: w)
  case (Cons v vs)
  have "\<forall>x v s w. Inv s (world.more w) \<longrightarrow>
      (\<exists>ok w'. set_var I x v (s, w) = (ok, s, w') \<and> Inv s (world.more w') \<and> (b \<longrightarrow> refs w' = refs w))"
    using I by (simp add: scripts_held_def)
  with Cons.prems obtain ok w1 where
    one: "set_var I (var_name v) (var_val v) (s, w) = (ok, s, w1)" "Inv s (world.more w1)" "b \<longrightarrow> refs w1 = refs w" by blast
  from Cons.IH [OF one(2)] one show ?case by (cases ok) auto
qed auto

lemma unset_vars_ok:
  assumes I: "scripts_held b Inv execute I" and inv: "Inv s (world.more w)"
  shows "\<exists>ok w'. unset_vars I vs (s, w) = (ok, s, w') \<and> Inv s (world.more w') \<and> (b \<longrightarrow> refs w' = refs w)"
  using inv
proof (induction vs arbitrary: w)
  case (Cons v vs)
  have "\<forall>x s w. Inv s (world.more w) \<longrightarrow>
      (\<exists>ok w'. unset_var I x (s, w) = (ok, s, w') \<and> Inv s (world.more w') \<and> (b \<longrightarrow> refs w' = refs w))"
    using I by (simp add: scripts_held_def)
  with Cons.prems obtain ok w1 where
    one: "unset_var I (var_name v) (s, w) = (ok, s, w1)" "Inv s (world.more w1)" "b \<longrightarrow> refs w1 = refs w" by blast
  from Cons.IH [OF one(2)] one show ?case by (cases ok) auto
qed auto

lemma run_callback_ok:
  assumes I: "scripts_held b Inv execute I" and inv: "Inv s (world.more w)"
    and room: "used (slots_of E s) < total (slots_of E s)"
  shows "\<exists>tc s' w'. run_callback I task cb (s, w) = Inr (tc, s', w') \<and>
    (tc = TURBINE_SUCCESS \<longrightarrow> held b s w s' w' \<and> used (slots_of E s') \<le> used (slots_of E s) + 1)"
proof (cases cb)
  case None
  then show ?thesis using inv by (simp add: run_callback_def held_def)
next
  case (Some c)
  from set_vars_ok [OF I inv, of "vars task"] obtain v w1 where
    sv: "set_vars I (vars task) (s, w) = (v, s, w1)" and w1: "Inv s (world.more w1)" "b \<longrightarrow> refs w1 = refs w" by blast
  have "launch_held b Inv execute (eval_cb I c)" using I by (simp add: scripts_held_def)
  from launch_held_used [OF this w1(1) room] obtain ok s2 w2 where
    ev: "eval_cb I c (s, w1) = Inr (ok, s2, w2)" and
    ok: "ok \<longrightarrow> held b s w1 s2 w2 \<and> used (slots_of E s2) \<le> used (slots_of E s) + 1" by blast
  show ?thesis
  proof (cases "v \<and> ok")
    case True
    then have h: "held b s w s2 w2" using ok held_before [OF _ w1(2)] by blast
    then have "Inv s2 (world.more w2)" by (simp add: held_def)
    from unset_vars_ok [OF I this, of "vars task"] obtain u w3 where
      u: "unset_vars I (vars task) (s2, w2) = (u, s2, w3)" "Inv s2 (world.more w3)" "b \<longrightarrow> refs w3 = refs w2" by blast
    from held_after [OF h u(2,3)] show ?thesis using True Some sv ev ok u(1) by (cases u) (simp_all add: run_callback_def)
  next
    case False
    obtain u s3 w3 where "unset_vars I (vars task) (s2, w2) = (u, s3, w3)"
      by (cases "unset_vars I (vars task) (s2, w2)") auto
    then show ?thesis using False Some sv ev
      by (cases v; cases u) (simp_all add: run_callback_def)
  qed
qed

text \<open>The tasks that are reported have given up their slots, but hold their references until here.\<close>

lemma run_completed_ok:
  assumes I: "scripts_held b Inv execute I" and inv: "Inv s (world.more w)"
    and room: "used (slots_of E s) + int (length cs) \<le> total (slots_of E s)"
  shows "\<exists>ec s' w'. run_completed I cs (s, w) = Inr (ec, s', w') \<and>
    (ec = EXEC_SUCCESS \<longrightarrow> Inv s' (world.more w') \<and> total (slots_of E s') = total (slots_of E s) \<and>
       used (slots_of E s') \<le> used (slots_of E s) + int (length cs) \<and>
       (b \<longrightarrow> (\<forall>c. refs w' c - task_refs (active s') c =
          refs w c - task_refs (active s) c - task_refs (mset (map callbacks cs)) c)))"
  using inv room
proof (induction cs arbitrary: s w)
  case (Cons c cs)
  define cb where "cb = (if success c then cb_success (callbacks c) else cb_failure (callbacks c))"
  have "used (slots_of E s) < total (slots_of E s)" using Cons.prems(2) by simp
  from run_callback_ok [OF I Cons.prems(1) this, of c cb] obtain tc s1 w1 where
    rc: "run_callback I c cb (s, w) = Inr (tc, s1, w1)" and
    ok: "tc = TURBINE_SUCCESS \<longrightarrow> held b s w s1 w1 \<and> used (slots_of E s1) \<le> used (slots_of E s) + 1"
    by blast
  let ?w = "Tcl_DecrRefCount (cb_failure (callbacks c)) (Tcl_DecrRefCount (cb_success (callbacks c)) w1)"
  show ?case
  proof (cases "tc = TURBINE_SUCCESS")
    case True
    then have h: "held b s w s1 w1" and "used (slots_of E s1) \<le> used (slots_of E s) + 1" using ok by simp_all
    then have "Inv s1 (world.more ?w)" "used (slots_of E s1) + int (length cs) \<le> total (slots_of E s1)"
      using Cons.prems(2) by (simp_all add: held_def)
    from Cons.IH [OF this] obtain ec s' w' where
      run: "run_completed I cs (s1, ?w) = Inr (ec, s', w')" and
      post: "ec = EXEC_SUCCESS \<longrightarrow> Inv s' (world.more w') \<and> total (slots_of E s') = total (slots_of E s1) \<and>
       used (slots_of E s') \<le> used (slots_of E s1) + int (length cs) \<and>
       (b \<longrightarrow> (\<forall>c. refs w' c - task_refs (active s') c =
          refs ?w c - task_refs (active s1) c - task_refs (mset (map callbacks cs)) c))" by blast
    have "run_completed I (c # cs) (s, w) = Inr (ec, s', w')"
      using True rc run by (simp add: Let_def cb_def [symmetric])
    moreover have "ec = EXEC_SUCCESS \<longrightarrow> b \<longrightarrow> (\<forall>x. refs w' x - task_refs (active s') x =
        refs w x - task_refs (active s) x - task_refs (mset (map callbacks (c # cs))) x)"
    proof (intro impI allI)
      fix x
      assume "ec = EXEC_SUCCESS" b
      then have "refs w' x - task_refs (active s') x =
          refs w1 x - cb_refs (callbacks c) x - task_refs (active s1) x - task_refs (mset (map callbacks cs)) x"
        "refs w1 x - task_refs (active s1) x = refs w x - task_refs (active s) x"
        using post h by (simp_all add: held_def)
      then show "refs w' x - task_refs (active s') x =
          refs w x - task_refs (active s) x - task_refs (mset (map callbacks (c # cs))) x" by simp
    qed
    ultimately show ?thesis using post ok True by (auto simp: held_def)
  next
    case False
    then show ?thesis using rc by (simp add: Let_def cb_def [symmetric])
  qed
qed simp

lemma check_tasks_safe:
  assumes I: "scripts_held b Inv execute I" and inv: "Inv s (world.more w)"
  shows "(check_tasks I E poll s w = Inl Unfinished) \<or>
    (\<exists>ec s' w'. check_tasks I E poll s w = Inr (ec, s', w') \<and>
      (ec = EXEC_SUCCESS \<longrightarrow> held b s w s' w' \<and> used (slots_of E s') \<le> used (slots_of E s)))"
proof (cases "check poll COMPLETED_BUFFER_SIZE s w")
  case (Inl f)
  then show ?thesis
    using check_fault [OF inv _ Inl] by (simp add: check_tasks_def check_def COMPLETED_BUFFER_SIZE_def)
next
  case (Inr x)
  obtain ec cs s1 w1 where x: "x = (ec, cs, s1, w1)" by (cases x)
  show ?thesis
  proof (cases "ec = EXEC_SUCCESS")
    case True
    note fin = check_done [OF inv _ Inr [unfolded x True]]
    have n: "(1::int) \<le> COMPLETED_BUFFER_SIZE" by (simp add: COMPLETED_BUFFER_SIZE_def)
    note fin = fin [OF n]
    have "used (slots_of E s1) + int (length cs) \<le> total (slots_of E s1)"
      using fin(2,6) slots_total [OF inv] by simp
    from run_completed_ok [OF I fin(1) this] obtain ec' s2 w2 where
      run: "run_completed I cs (s1, w1) = Inr (ec', s2, w2)" and
      post: "ec' = EXEC_SUCCESS \<longrightarrow> Inv s2 (world.more w2) \<and> total (slots_of E s2) = total (slots_of E s1) \<and>
        used (slots_of E s2) \<le> used (slots_of E s1) + int (length cs) \<and>
        (b \<longrightarrow> (\<forall>c. refs w2 c - task_refs (active s2) c =
          refs w1 c - task_refs (active s1) c - task_refs (mset (map callbacks cs)) c))" by blast
    have "ec' = EXEC_SUCCESS \<longrightarrow> held b s w s2 w2"
      using post fin(2,3,5) by (simp add: held_def algebra_simps)
    then show ?thesis
      using Inr x True fin(6) run post by (simp add: check_tasks_def check_def)
  next
    case False
    then show ?thesis using Inr x by (simp add: check_tasks_def check_def)
  qed
qed

definition ready :: "('req, 'buf) get_req_state \<Rightarrow> 's \<Rightarrow> ('cb, 'z) world_scheme \<Rightarrow> bool" where
  "ready r s w \<longleftrightarrow> ring_inv r \<and> Inv s (world.more w) \<and>
     used (slots_of E s) + int (nreqs r) \<le> total (slots_of E s)"

text \<open>What an iteration leads to.\<close>

fun step_held :: "bool \<Rightarrow> 's \<Rightarrow> ('cb, 'z) world_scheme \<Rightarrow> ('s, ('cb, 'z) world_scheme, 'req, 'buf) loop_step \<Rightarrow> bool" where
  "step_held b s w (Again h r' s' w') \<longleftrightarrow> ready r' s' w' \<and> held b s w s' w'"
| "step_held b s w (Break s' w') \<longleftrightarrow> held b s w s' w'"
| "step_held b s w (Return tc s' w') \<longleftrightarrow> tc \<noteq> TURBINE_SUCCESS"

lemma step_held_trans: "held b s w s1 w1 \<Longrightarrow> step_held b s1 w1 st \<Longrightarrow> step_held b s w st"
  by (cases st) (auto intro: held_trans)

lemma loop_check_safe:
  assumes I: "scripts_held b Inv execute I" and r: "ready r s w"
  shows "loop_check I E h r s w = Inl Unfinished \<or>
    (\<exists>step. loop_check I E h r s w = Inr step \<and> step_held b s w step)"
proof -
  have inv: "Inv s (world.more w)" using r by (simp add: ready_def)
  obtain sl where sl: "exec_slots E s = (EXEC_SUCCESS, sl)"
    using slots_code [OF inv] by (cases "exec_slots E s") simp
  show ?thesis
  proof (cases "0 < used (slots_of E s)")
    case True
    from check_tasks_safe [OF I inv, of "used (slots_of E s) < total (slots_of E s)"]
    show ?thesis
    proof (elim disjE exE conjE)
      fix ec s' w'
      assume c: "check_tasks I E (used (slots_of E s) < total (slots_of E s)) s w = Inr (ec, s', w')"
        "ec = EXEC_SUCCESS \<longrightarrow> held b s w s' w' \<and> used (slots_of E s') \<le> used (slots_of E s)"
      then have "ec = EXEC_SUCCESS \<longrightarrow> ready r s' w'" using r by (auto simp: ready_def held_def)
      then show ?thesis
        using True c sl by (cases "ec = EXEC_SUCCESS") (simp_all add: loop_check_def)
    qed (use True sl in \<open>simp add: loop_check_def\<close>)
  next
    case False
    then show ?thesis using r sl inv by (simp add: loop_check_def held_def)
  qed
qed

lemma loop_body_safe:
  assumes A: "adlb_held b Inv A" and I: "scripts_held b Inv execute I" and r: "ready r s w"
  shows "loop_body I A E ty r s w = Inl Unfinished \<or>
    (\<exists>step. loop_body I A E ty r s w = Inr step \<and> step_held b s w step)"
proof -
  have inv: "Inv s (world.more w)" and ring: "ring_inv r" using r by (simp_all add: ready_def)
  obtain sl where sl: "exec_slots E s = (EXEC_SUCCESS, sl)"
    using slots_code [OF inv] by (cases "exec_slots E s") simp
  show ?thesis
  proof (cases "used (slots_of E s) < total (slots_of E s)")
    case True
    let ?g = "get_tasks I A ty (used (slots_of E s) \<noteq> 0) (total (slots_of E s) - used (slots_of E s)) False r s w"
    have "used (slots_of E s) + int (length (pending r)) \<le> total (slots_of E s)"
      using r by (simp add: ready_def)
    from q_get_tasks_safe [OF A I inv this, of ty "used (slots_of E s) \<noteq> 0" False "idle r"]
    obtain ec got q free s' w' where
      abs: "abs_got ?g = Inr (ec, got, q, free, s', w')" and
      ok: "ec = EXEC_SUCCESS \<or> ec = EXEC_SHUTDOWN \<longrightarrow> held b s w s' w' \<and>
       used (slots_of E s') + int (length q) \<le> total (slots_of E s)"
      unfolding get_tasks_refines [OF ring, symmetric] by blast
    from abs obtain r' where g: "?g = Inr (ec, got, r', s', w')" and q: "q = pending r'"
      by (auto simp: abs_got_def res_Inr_convs)
    show ?thesis
    proof (cases "ec = EXEC_SUCCESS")
      case ec: True
      then have h: "held b s w s' w'" using ok by blast
      then have "ready r' s' w'"
        using ok ec q get_tasks_ring [OF ring g] by (simp add: ready_def held_def)
      from loop_check_safe [OF I this, of got] show ?thesis
        using g ec True sl step_held_trans [OF h] by (auto simp: loop_body_def)
    next
      case False
      then show ?thesis using g True sl ok by (cases "ec = EXEC_SHUTDOWN") (simp_all add: loop_body_def)
    qed
  next
    case False
    then show ?thesis using sl loop_check_safe [OF I r] by (simp add: loop_body_def)
  qed
qed

lemma loop_run_held:
  assumes A: "adlb_held b Inv A" and I: "scripts_held b Inv execute I" and r: "ready r s w"
  shows "loop_run n I A E ty r s w = Inl Unfinished \<or>
    (\<exists>ret s' w'. loop_run n I A E ty r s w = Inr (ret, s', w') \<and>
      (if ret = None then held b s w s' w' else ret \<noteq> Some TURBINE_SUCCESS))"
  using r
proof (induction n arbitrary: r s w)
  case (Suc n)
  from loop_body_safe [OF A I Suc.prems(1), of ty] show ?case
  proof (elim disjE exE conjE)
    fix step
    assume body: "loop_body I A E ty r s w = Inr step" and step: "step_held b s w step"
    show ?thesis
    proof (cases step)
      case (Again h r1 s1 w1)
      with step have "ready r1 s1 w1" and h: "held b s w s1 w1" by simp_all
      from Suc.IH [OF this(1)] show ?thesis
      proof (elim disjE exE conjE)
        fix ret s' w'
        assume "loop_run n I A E ty r1 s1 w1 = Inr (ret, s', w')"
          "if ret = None then held b s1 w1 s' w' else ret \<noteq> Some TURBINE_SUCCESS"
        then show ?thesis using body Again held_trans [OF h]
          by (intro disjI2 exI [of _ ret] exI [of _ s'] exI [of _ w']) simp
      qed (use body Again in simp)
    qed (use body step in auto)
  qed simp
qed simp

lemma loop_run_safe:
  assumes A: "adlb_get_ok Inv A" and I: "scripts_ok Inv execute I" and r: "ready r s w"
    and run: "loop_run n I A E ty r s w = Inl f"
  shows "f = Unfinished"
  using loop_run_held [of False A I r s w n ty] A I r run by (auto simp: held_False)

lemma ready_init:
  assumes "Inv s (world.more w)" "1 \<le> n" "n \<le> length bufs"
  shows "ready (init_reqs bufs n) s w"
  using assms slots_total [OF assms(1)] by (simp add: ready_def ring_inv_def init_reqs_def)

end

section \<open>References held by completed tasks\<close>

text \<open>Callbacks that leave the counts of callback objects alone, so that only the worker changes them.\<close>

definition counts_kept :: "('s \<times> ('cb, 'z) world_scheme, 'cb) tcl_interp \<Rightarrow> bool" where
  "counts_kept I \<longleftrightarrow>
     (\<forall>c s w ok s' w'. eval_cb I c (s, w) = Inr (ok, s', w') \<longrightarrow> refs w' = refs w) \<and>
     (\<forall>x v s w. refs (snd (snd (set_var I x v (s, w)))) = refs w) \<and>
     (\<forall>x s w. refs (snd (snd (unset_var I x (s, w)))) = refs w)"

lemma vars_counts:
  assumes "counts_kept I"
  shows "refs (snd (snd (set_vars I vs (s, w)))) = refs w" "refs (snd (snd (unset_vars I vs (s, w)))) = refs w"
proof -
  have one: "set_var I x v (s, w) = (ok, s', w') \<Longrightarrow> refs w' = refs w"
    "unset_var I x (s, w) = (ok, s', w') \<Longrightarrow> refs w' = refs w" for x v s w ok s' w'
    using assms by (metis counts_kept_def snd_conv)+
  show "refs (snd (snd (set_vars I vs (s, w)))) = refs w"
    by (induction vs arbitrary: s w) (auto simp: one split: prod.split)
  show "refs (snd (snd (unset_vars I vs (s, w)))) = refs w"
    by (induction vs arbitrary: s w) (auto simp: one split: prod.split)
qed

lemma run_callback_counts:
  assumes I: "counts_kept I" and run: "run_callback I task cb (s, w) = Inr (tc, s', w')"
  shows "refs w' = refs w"
proof (cases cb)
  case None
  then show ?thesis using run by (simp add: run_callback_def)
next
  case (Some c)
  obtain v s1 w1 where sv: "set_vars I (vars task) (s, w) = (v, s1, w1)" by (metis prod.exhaust)
  have 1: "refs w1 = refs w" using vars_counts(1) [OF I, of "vars task" s w] sv by simp
  show ?thesis
  proof (cases v)
    case True
    with run Some sv obtain ok s2 w2 where ev: "eval_cb I c (s1, w1) = Inr (ok, s2, w2)"
      by (auto simp: run_callback_def res_Inr_convs)
    then have 2: "refs w2 = refs w1" using I unfolding counts_kept_def by blast
    obtain u s3 w3 where us: "unset_vars I (vars task) (s2, w2) = (u, s3, w3)" by (metis prod.exhaust)
    have "refs w3 = refs w2" using vars_counts(2) [OF I, of "vars task" s2 w2] us by simp
    then show ?thesis using run Some sv ev us 1 2 True by (auto simp: run_callback_def split: if_splits)
  qed (use run Some sv 1 in \<open>auto simp: run_callback_def\<close>)
qed

lemma run_completed_counts:
  assumes I: "counts_kept I"
  shows "run_completed I cs (s, w) = Inr (ec, s', w') \<Longrightarrow>
    \<exists>k \<le> length cs. refs w' = (\<lambda>c. refs w c - task_refs (mset (map callbacks (take k cs))) c) \<and>
      (ec = EXEC_SUCCESS \<longleftrightarrow> k = length cs)"
proof (induction cs arbitrary: s w)
  case (Cons c cs)
  define cb where "cb = (if success c then cb_success (callbacks c) else cb_failure (callbacks c))"
  from Cons.prems obtain tc s1 w1 where rc: "run_callback I c cb (s, w) = Inr (tc, s1, w1)"
    by (auto simp: Let_def cb_def res_Inr_convs)
  note kept = run_callback_counts [OF I rc]
  show ?case
  proof (cases "tc = TURBINE_SUCCESS")
    case True
    with Cons.prems rc have "run_completed I cs
        (s1, Tcl_DecrRefCount (cb_failure (callbacks c)) (Tcl_DecrRefCount (cb_success (callbacks c)) w1)) =
        Inr (ec, s', w')" by (simp add: Let_def cb_def [symmetric])
    from Cons.IH [OF this] obtain k where "k \<le> length cs" "ec = EXEC_SUCCESS \<longleftrightarrow> k = length cs"
      "refs w' = (\<lambda>x. refs w x - cb_refs (callbacks c) x - task_refs (mset (map callbacks (take k cs))) x)"
      using kept by auto
    then show ?thesis by (intro exI [of _ "Suc k"]) (simp add: algebra_simps)
  next
    case False
    with Cons.prems rc have "ec \<noteq> EXEC_SUCCESS" "w' = w1" by (auto simp: Let_def cb_def [symmetric])
    then show ?thesis using kept by (intro exI [of _ 0]) simp
  qed
qed simp

section \<open>Properties\<close>

lemma ring_partition:
  assumes "ring_inv r"
  shows "map snd (pending r) @ idle r = rotate (tail r) (take (max_reqs r) (buffers r))"
proof (rule nth_equalityI)
  let ?m = "max_reqs r"
  have r: "1 \<le> ?m" "?m \<le> length (buffers r)" "nreqs r \<le> ?m" "head r = (tail r + nreqs r) mod ?m"
    using assms by (simp_all add: ring_inv_def)
  show "length (map snd (pending r) @ idle r) = length (rotate (tail r) (take ?m (buffers r)))"
    using r by simp
  fix i assume "i < length (map snd (pending r) @ idle r)"
  then have i: "i < ?m" using r by simp
  have "rotate (tail r) (take ?m (buffers r)) ! i = buffers r ! ((tail r + i) mod ?m)"
    using i r by (simp add: nth_rotate)
  moreover have "(map snd (pending r) @ idle r) ! i = buffers r ! ((tail r + i) mod ?m)"
  proof (cases "i < nreqs r")
    case True
    then show ?thesis by (simp add: nth_append pending_def)
  next
    case False
    then obtain j where "i = nreqs r + j" by (metis le_Suc_ex not_less)
    then show ?thesis using i r by (simp add: nth_append idle_def mod_add_left_eq add.assoc)
  qed
  ultimately show "(map snd (pending r) @ idle r) ! i = rotate (tail r) (take ?m (buffers r)) ! i"
    by simp
qed

text \<open>
  C2: The ring of outstanding requests is a queue. One call of \<^verbatim>\<open>get_tasks\<close> issues
  requests only with idle buffers, pairs each handle with its buffer, serves requests in
  the order they were issued with the payload of the matching buffer, and returns a
  buffer to the idle ones only when its task has been evaluated: it is
  \<open>q_get_tasks\<close> on the queue of pending pairs and idle buffers, which always
  partition the array.
\<close>

theorem get_tasks_is_queue:
  assumes "ring_inv r"
  shows "abs_got (get_tasks I A ty poll m got r s w) =
      q_get_tasks I A ty poll m got (pending r) (idle r) s w \<and>
    map snd (pending r) @ idle r = rotate (tail r) (take (max_reqs r) (buffers r)) \<and>
    (\<forall>ec got' r' s' w'. get_tasks I A ty poll m got r s w = Inr (ec, got', r', s', w') \<longrightarrow> ring_inv r')"
  by (intro conjI get_tasks_refines [OF assms] ring_partition [OF assms])
    (auto dest: get_tasks_ring [OF assms])

text \<open>An interpreter that logs what it evaluates, and an ADLB with one message per request.\<close>

definition log_interp :: "('s \<times> (nat, string list) world_scheme, nat) tcl_interp" where
  "log_interp = \<lparr>
     eval_work = (\<lambda>c n (s, w). Inr (True, s, world.extend (world.truncate w) (world.more w @ [take (nat n) c]))),
     eval_cb = (\<lambda>c (s, w). Inr (True, s, w)),
     set_var = (\<lambda>x v st. (True, st)), unset_var = (\<lambda>x st. (True, st))\<rparr>"

definition log_adlb :: "((nat, string list) world_scheme, nat, string) adlb_get_api" where
  "log_adlb = \<lparr>
     Amget = (\<lambda>ty n block bufs w. (ADLB_SUCCESS, [0..<n], w)),
     Aget_test = (\<lambda>req w. (ADLB_SUCCESS, 3, w)), Aget_wait = (\<lambda>req w. (ADLB_SUCCESS, 3, w)),
     payload = (\<lambda>buf w. buf)\<rparr>"

definition log_ring :: "(nat, string) get_req_state" where
  "log_ring = \<lparr>buffers = [''b0'', ''b1'', ''b2''], requests = [None, None, Some 5],
     max_reqs = 3, nreqs = 1, head = 0, tail = 2\<rparr>"

lemma get_tasks_is_queue_witness:
  "ring_inv log_ring \<and> pending log_ring = [(5, ''b2'')] \<and> idle log_ring = [''b0'', ''b1''] \<and>
   abs_got (get_tasks log_interp log_adlb 0 True 2 False log_ring () \<lparr>refs = \<lambda>_. 0, \<dots> = []\<rparr>) =
     Inr (EXEC_SUCCESS, True, [], [''b1'', ''b2'', ''b0''], (), \<lparr>refs = \<lambda>_. 0, \<dots> = [''b2'', ''b0'']\<rparr>)"
proof -
  have inv: "ring_inv log_ring" by (auto simp: ring_inv_def log_ring_def less_Suc_eq)
  have q: "pending log_ring = [(5, ''b2'')]" "idle log_ring = [''b0'', ''b1'']"
    by (simp_all add: pending_def idle_def log_ring_def upt_rec)
  show ?thesis
    unfolding get_tasks_is_queue [OF inv, THEN conjunct1] q
    using inv by (simp add: q_get_tasks_def log_adlb_def log_interp_def check_request_def Let_def
      world.defs)
qed


text \<open>Two tasks are done, and the callback of the first fails: nothing is released.\<close>

definition fail_interp :: "('s \<times> (nat, unit) world_scheme, nat) tcl_interp" where
  "fail_interp = \<lparr>eval_work = (\<lambda>c n st. Inr (True, st)), eval_cb = (\<lambda>c st. Inr (c \<noteq> 1, st)),
     set_var = (\<lambda>x v st. (True, st)), unset_var = (\<lambda>x st. (True, st))\<rparr>"

definition two_done :: "nat turbine_completed_task list" where
  "two_done = [\<lparr>success = True, callbacks = \<lparr>cb_success = Some 1, cb_failure = None\<rparr>, vars = []\<rparr>,
     \<lparr>success = True, callbacks = \<lparr>cb_success = Some 2, cb_failure = None\<rparr>, vars = []\<rparr>]"

definition done_exec :: "(unit, unit, (nat, unit) world_scheme, nat) turbine_executor" where
  "done_exec = \<lparr>ex_name = ''E'', exec_configure = (\<lambda>c w. Inr (EXEC_SUCCESS, None, w)),
     exec_start = (\<lambda>c w. Inr (EXEC_SUCCESS, Some (), w)), exec_stop = (\<lambda>s w. Inr (EXEC_SUCCESS, w)),
     exec_free = (\<lambda>c w. Inr (EXEC_SUCCESS, w)), exec_wait = (\<lambda>n s w. Inr (EXEC_SUCCESS, two_done, s, w)),
     exec_poll = (\<lambda>n s w. Inr (EXEC_SUCCESS, two_done, s, w)),
     exec_slots = (\<lambda>s. (EXEC_SUCCESS, \<lparr>used = 0, total = 4\<rparr>)), exec_max_slots = (\<lambda>c. Inr (EXEC_SUCCESS, 4)),
     ex_context = None, ex_state = None, ex_started = True\<rparr>"


text \<open>
  Registering an executor under a new name makes it, and no other change, visible to
  \<^verbatim>\<open>turbine_get_async_exec\<close>: it is found stopped or started as it was given, every
  other name is found as before, and with 64 executors registered the call is refused
  and the registry unchanged.
\<close>

theorem add_exec_visible:
  assumes T: "table_ok T" and init: "executors_table_init g"
    and new: "tbl_search T (executors g) (ex_name ex) = None"
    and heap: "\<And>n p. tbl_search T (executors g) n = Some p \<Longrightarrow> p < exec_brk g"
  shows "(tbl_size T (executors g) < 64 \<longrightarrow> (\<exists>g'. turbine_add_async_exec T ex g = Inr (TURBINE_SUCCESS, g') \<and>
      turbine_get_async_exec T (ex_name ex) g' = Inr (Some (exec_brk g, ex_started ex)) \<and>
      exec_heap g' (exec_brk g) = Some ex \<and> tbl_size T (executors g') = tbl_size T (executors g) + 1 \<and>
      (\<forall>n. n \<noteq> ex_name ex \<longrightarrow> turbine_get_async_exec T n g' = turbine_get_async_exec T n g))) \<and>
    (64 \<le> tbl_size T (executors g) \<longrightarrow> turbine_add_async_exec T ex g = Inr (TURBINE_ERROR_INVALID, g))"
proof (intro conjI impI)
  assume small: "tbl_size T (executors g) < 64"
  let ?g = "g\<lparr>executors := tbl_add T (executors g) (ex_name ex) (exec_brk g),
    exec_heap := (exec_heap g)(exec_brk g \<mapsto> ex), exec_brk := exec_brk g + 1\<rparr>"
  have add: "turbine_add_async_exec T ex g = Inr (TURBINE_SUCCESS, ?g)"
    using init small by (simp add: turbine_add_async_exec_def TURBINE_ASYNC_EXEC_LIMIT_def Let_def)
  have search: "tbl_search T (tbl_add T (executors g) (ex_name ex) (exec_brk g)) =
      (tbl_search T (executors g))(ex_name ex \<mapsto> exec_brk g)" by (rule table_okD(4) [OF T new])
  have "dom (tbl_search T (executors g)) = insert (ex_name ex) (dom (tbl_search T (executors g))) - {ex_name ex}"
    using new by auto
  then have size: "tbl_size T (tbl_add T (executors g) (ex_name ex) (exec_brk g)) = tbl_size T (executors g) + 1"
    using new by (simp add: table_okD(3) [OF T] search table_okD(2) [OF T] domIff)
  have other: "turbine_get_async_exec T n ?g = turbine_get_async_exec T n g" if "n \<noteq> ex_name ex" for n
    using that init search heap [of n]
    by (cases "tbl_search T (executors g) n") (auto simp: turbine_get_async_exec_def)
  show "\<exists>g'. turbine_add_async_exec T ex g = Inr (TURBINE_SUCCESS, g') \<and>
      turbine_get_async_exec T (ex_name ex) g' = Inr (Some (exec_brk g, ex_started ex)) \<and>
      exec_heap g' (exec_brk g) = Some ex \<and> tbl_size T (executors g') = tbl_size T (executors g) + 1 \<and>
      (\<forall>n. n \<noteq> ex_name ex \<longrightarrow> turbine_get_async_exec T n g' = turbine_get_async_exec T n g)"
    using add other init search size
    by (intro exI [of _ ?g]) (simp add: turbine_get_async_exec_def)
next
  assume "64 \<le> tbl_size T (executors g)"
  then show "turbine_add_async_exec T ex g = Inr (TURBINE_ERROR_INVALID, g)"
    using init by (simp add: turbine_add_async_exec_def TURBINE_ASYNC_EXEC_LIMIT_def)
qed

definition sample_exec ::
    "(unit, nat, (nat, unit) world_scheme, nat) turbine_executor" where
  "sample_exec = \<lparr>ex_name = ''E'', exec_configure = \<lambda>c w. Inr (EXEC_SUCCESS, None, w),
     exec_start = \<lambda>c w. Inr (EXEC_SUCCESS, Some 0, w), exec_stop = \<lambda>s w. Inr (EXEC_SUCCESS, w),
     exec_free = \<lambda>c w. Inr (EXEC_SUCCESS, w), exec_wait = \<lambda>n s w. Inr (EXEC_SUCCESS, [], s, w),
     exec_poll = \<lambda>n s w. Inr (EXEC_SUCCESS, [], s, w),
     exec_slots = \<lambda>s. (EXEC_SUCCESS, \<lparr>used = 0, total = 1\<rparr>),
     exec_max_slots = \<lambda>c. Inr (EXEC_SUCCESS, 1), ex_context = None, ex_state = None, ex_started = False\<rparr>"

lemma sample_exec_simps [simp]: "ex_name sample_exec = ''E''" "ex_started sample_exec = False"
  by (simp_all add: sample_exec_def)

lemma add_exec_visible_witness:
  "\<exists>g'. turbine_add_async_exec al_table sample_exec
      \<lparr>executors_init = True, executors_table_init = True, executors = [(''D'', 0)],
       exec_heap = [0 \<mapsto> sample_exec], exec_brk = 1\<rparr> = Inr (TURBINE_SUCCESS, g') \<and>
    turbine_get_async_exec al_table ''E'' g' = Inr (Some (1, False))"
proof -
  let ?g = "\<lparr>executors_init = True, executors_table_init = True, executors = [(''D'', 0)],
    exec_heap = [0 \<mapsto> sample_exec], exec_brk = 1\<rparr>"
  have "tbl_search al_table (executors ?g) (ex_name sample_exec) = None"
    and "\<And>n p. tbl_search al_table (executors ?g) n = Some p \<Longrightarrow> p < exec_brk ?g"
    and "tbl_size al_table (executors ?g) < 64"
    by (simp_all split: if_splits)
  with add_exec_visible [OF table_ok_al_table _ this(1,2)] show ?thesis by fastforce
qed

end
