(* ===== verification/Noop_Exec.thy ===== *)
theory Noop_Exec
  imports Async_Exec
begin

text \<open>
  The no-op executor, \<^verbatim>\<open>src/turbine/executors/noop_executor.c\<close>: four slots, completion in an
  order drawn with \<^verbatim>\<open>rand\<close>. The draws are a list in the world; a function that still
  needs one when the list is empty is \<open>Unfinished\<close>. The theory interprets the executor
  contract on these functions, so that the worker's guarantees hold for them.
  What the functions print is not modelled.
\<close>

section \<open>State and operations\<close>

record 'cb noop_world = "'cb world" +
  draws :: "nat list"

definition RAND_MAX :: nat where "RAND_MAX = 2147483647"
definition NOOP_CONTEXT :: "unit option" where "NOOP_CONTEXT = Some ()"
definition NOOP_EXEC_SLOTS :: int where "NOOP_EXEC_SLOTS = 4"

record 'cb noop_active_task =
  n_callbacks :: "'cb turbine_task_callbacks"
  n_active :: bool

record 'cb noop_state =
  n_slots :: turbine_exec_slot_state
  n_tasks :: "'cb noop_active_task list"

definition no_callbacks :: "'cb turbine_task_callbacks" where
  "no_callbacks = \<lparr>cb_success = None, cb_failure = None\<rparr>"

definition noop_configure :: "string \<Rightarrow> 'w \<Rightarrow> (turbine_exec_code \<times> unit option \<times> 'w) res" where
  "noop_configure config w = Inr (EXEC_SUCCESS, NOOP_CONTEXT, w)"

text \<open>The callbacks of a fresh slot are indeterminate; they are not read before being set.\<close>

definition noop_start ::
    "unit option \<Rightarrow> 'w \<Rightarrow> (turbine_exec_code \<times> 'cb noop_state option \<times> 'w) res" where
  "noop_start context w =
     c_assert (context = NOOP_CONTEXT)
       (Inr (EXEC_SUCCESS,
          Some \<lparr>n_slots = \<lparr>used = 0, total = NOOP_EXEC_SLOTS\<rparr>,
                n_tasks = replicate (nat NOOP_EXEC_SLOTS)
                  \<lparr>n_callbacks = no_callbacks, n_active = False\<rparr>\<rparr>, w))"

fun stop_tasks :: "'cb noop_active_task list \<Rightarrow> ('cb, 'z) world_scheme \<Rightarrow> ('cb, 'z) world_scheme" where
  "stop_tasks [] w = w"
| "stop_tasks (t # ts) w =
     stop_tasks ts
       (if n_active t
        then Tcl_DecrRefCount (cb_failure (n_callbacks t))
               (Tcl_DecrRefCount (cb_success (n_callbacks t)) w)
        else w)"

definition noop_stop ::
    "'cb noop_state \<Rightarrow> ('cb, 'z) world_scheme \<Rightarrow> (turbine_exec_code \<times> ('cb, 'z) world_scheme) res" where
  "noop_stop s w = Inr (EXEC_SUCCESS, stop_tasks (take (nat (total (n_slots s))) (n_tasks s)) w)"

definition noop_free :: "unit option \<Rightarrow> 'w \<Rightarrow> (turbine_exec_code \<times> 'w) res" where
  "noop_free context w = Inr (EXEC_SUCCESS, w)"

text \<open>The first slot that is not active.\<close>

fun find_slot :: "'cb noop_active_task list \<Rightarrow> nat option" where
  "find_slot [] = None"
| "find_slot (t # ts) = (if \<not> n_active t then Some 0 else map_option Suc (find_slot ts))"

definition noop_execute ::
    "string \<times> int \<Rightarrow> 'cb turbine_task_callbacks \<Rightarrow> 'cb noop_state \<Rightarrow> ('cb, 'z) world_scheme \<Rightarrow>
      (turbine_code \<times> 'cb noop_state \<times> ('cb, 'z) world_scheme) res" where
  "noop_execute work cbs s w =
     c_assert (used (n_slots s) < total (n_slots s))
       (let s = s\<lparr>n_slots := (n_slots s)\<lparr>used := used (n_slots s) + 1\<rparr>\<rparr> in
        case find_slot (take (nat (total (n_slots s))) (n_tasks s)) of
          None \<Rightarrow> Inl Abort
        | Some i \<Rightarrow>
            Inr (TURBINE_SUCCESS,
                 s\<lparr>n_tasks := (n_tasks s)[i := \<lparr>n_callbacks = cbs, n_active = True\<rparr>]\<rparr>,
                 Tcl_IncrRefCount (cb_failure cbs) (Tcl_IncrRefCount (cb_success cbs) w)))"

definition rand :: "('cb, 'y) noop_world_scheme \<Rightarrow> (nat \<times> ('cb, 'y) noop_world_scheme) res" where
  "rand w = (case draws w of [] \<Rightarrow> Inl Unfinished | d # ds \<Rightarrow> Inr (d, w\<lparr>draws := ds\<rparr>))"

text \<open>The loop of \<^verbatim>\<open>choose_completed\<close>: draw until an active slot comes up.\<close>

fun draw_slot :: "nat \<Rightarrow> 'cb noop_active_task list \<Rightarrow> nat list \<Rightarrow> (nat \<times> nat list) res" where
  "draw_slot m ts [] = Inl Unfinished"
| "draw_slot m ts (d # ds) =
     (let slot = d mod m in
      c_defined (slot < length ts)
        (if n_active (ts ! slot) then Inr (slot, ds) else draw_slot m ts ds))"

definition choose_completed ::
    "'cb noop_state \<Rightarrow> ('cb, 'y) noop_world_scheme \<Rightarrow>
      ('cb turbine_completed_task \<times> 'cb noop_state \<times> ('cb, 'y) noop_world_scheme) res" where
  "choose_completed s w =
     c_assert (used (n_slots s) > 0)
       (tcl_check (draw_slot (nat (total (n_slots s))) (n_tasks s) (draws w)) (\<lambda>(slot, ds).
          let t = n_tasks s ! slot in
          Inr (\<lparr>success = True, callbacks = n_callbacks t,
                vars = [\<lparr>var_name = ''noop_task_result'', free_name = True,
                         var_val = Tcl_Str ''noop_task_result''\<rparr>]\<rparr>,
               s\<lparr>n_tasks := (n_tasks s)[slot := t\<lparr>n_active := False\<rparr>]\<rparr>,
               w\<lparr>draws := ds\<rparr>)))"

definition fill_completed ::
    "int \<Rightarrow> 'cb noop_state \<Rightarrow> ('cb, 'y) noop_world_scheme \<Rightarrow>
      (turbine_exec_code \<times> 'cb turbine_completed_task list \<times> 'cb noop_state \<times>
        ('cb, 'y) noop_world_scheme) res" where
  "fill_completed completed_size s w =
     c_assert (completed_size \<ge> 1)
       (tcl_check
          (if used (n_slots s) > 1
           then tcl_check (rand w) (\<lambda>(d, w). Inr (d > RAND_MAX div 2 \<and> completed_size \<ge> 2, w))
           else Inr (False, w))
          (\<lambda>(two, w).
             tcl_check (choose_completed s w) (\<lambda>(c0, s, w).
             tcl_check
               (if two then tcl_check (choose_completed s w) (\<lambda>(c1, s, w). Inr ([c0, c1], s, w))
                else Inr ([c0], s, w))
               (\<lambda>(cs, s, w).
                  Inr (EXEC_SUCCESS, cs,
                    s\<lparr>n_slots := (n_slots s)\<lparr>used := used (n_slots s) - int (length cs)\<rparr>\<rparr>, w)))))"

definition noop_wait ::
    "int \<Rightarrow> 'cb noop_state \<Rightarrow> ('cb, 'y) noop_world_scheme \<Rightarrow>
      (turbine_exec_code \<times> 'cb turbine_completed_task list \<times> 'cb noop_state \<times>
        ('cb, 'y) noop_world_scheme) res" where
  "noop_wait n s w =
     (if used (n_slots s) > 0 then fill_completed n s w else Inr (EXEC_SUCCESS, [], s, w))"

definition noop_poll ::
    "int \<Rightarrow> 'cb noop_state \<Rightarrow> ('cb, 'y) noop_world_scheme \<Rightarrow>
      (turbine_exec_code \<times> 'cb turbine_completed_task list \<times> 'cb noop_state \<times>
        ('cb, 'y) noop_world_scheme) res" where
  "noop_poll n s w =
     (if used (n_slots s) > 0
      then tcl_check (rand w) (\<lambda>(d, w).
        if d > RAND_MAX div 5 then fill_completed n s w else Inr (EXEC_SUCCESS, [], s, w))
      else Inr (EXEC_SUCCESS, [], s, w))"

definition noop_slots :: "'cb noop_state \<Rightarrow> turbine_exec_code \<times> turbine_exec_slot_state" where
  "noop_slots s = (EXEC_SUCCESS, n_slots s)"

definition noop_max_slots :: "unit option \<Rightarrow> (turbine_exec_code \<times> int) res" where
  "noop_max_slots context = c_assert (context = NOOP_CONTEXT) (Inr (EXEC_SUCCESS, NOOP_EXEC_SLOTS))"

definition init_noop_executor ::
    "(unit, 'cb noop_state, ('cb, 'y) noop_world_scheme, 'cb) turbine_executor" where
  "init_noop_executor = \<lparr>ex_name = ''NOOP'', exec_configure = noop_configure,
     exec_start = noop_start, exec_stop = noop_stop, exec_free = noop_free,
     exec_wait = noop_wait, exec_poll = noop_poll, exec_slots = noop_slots,
     exec_max_slots = noop_max_slots, ex_context = None, ex_state = None, ex_started = False\<rparr>"

definition noop_executor_register ::
    "('t, string, nat) table_api \<Rightarrow>
      ('t, (unit, 'cb noop_state, ('cb, 'y) noop_world_scheme, 'cb) turbine_executor) registry \<Rightarrow>
      (turbine_code \<times>
        ('t, (unit, 'cb noop_state, ('cb, 'y) noop_world_scheme, 'cb) turbine_executor) registry) res" where
  "noop_executor_register T g = turbine_add_async_exec T init_noop_executor g"

section \<open>The contract\<close>

definition active_tasks :: "'cb noop_active_task list \<Rightarrow> 'cb turbine_task_callbacks list" where
  "active_tasks ts = map n_callbacks (filter n_active ts)"

definition noop_active :: "'cb noop_state \<Rightarrow> 'cb turbine_task_callbacks multiset" where
  "noop_active s = mset (active_tasks (n_tasks s))"

definition noop_inv :: "'cb noop_state \<Rightarrow> 'z \<Rightarrow> bool" where
  "noop_inv s z \<longleftrightarrow> 0 < total (n_slots s) \<and> length (n_tasks s) = nat (total (n_slots s)) \<and>
     used (n_slots s) = int (size (noop_active s))"

lemma active_tasks_simps [simp]:
  "active_tasks [] = []"
  "active_tasks (t # ts) = (if n_active t then [n_callbacks t] else []) @ active_tasks ts"
  by (simp_all add: active_tasks_def)

lemma active_tasks_set:
  "i < length ts \<Longrightarrow> \<not> n_active (ts ! i) \<Longrightarrow>
    mset (active_tasks (ts[i := \<lparr>n_callbacks = cbs, n_active = True\<rparr>])) =
    add_mset cbs (mset (active_tasks ts))"
  by (induction ts arbitrary: i) (auto split: nat.splits)

lemma active_tasks_clear:
  "i < length ts \<Longrightarrow> n_active (ts ! i) \<Longrightarrow>
    mset (active_tasks ts) =
    add_mset (n_callbacks (ts ! i)) (mset (active_tasks (ts[i := (ts ! i)\<lparr>n_active := False\<rparr>])))"
  by (induction ts arbitrary: i) (auto split: nat.splits)

lemma find_slot_Some: "find_slot ts = Some i \<Longrightarrow> i < length ts \<and> \<not> n_active (ts ! i)"
  by (induction ts arbitrary: i) (auto split: if_splits)

lemma find_slot_free: "length (active_tasks ts) < length ts \<Longrightarrow> find_slot ts \<noteq> None"
  by (induction ts) (auto split: if_splits)

lemma length_active_le: "length (active_tasks ts) \<le> length ts"
  by (simp add: active_tasks_def)

lemma noop_used_le: "noop_inv s z \<Longrightarrow> used (n_slots s) \<le> total (n_slots s)"
  using length_active_le [of "n_tasks s"] by (auto simp: noop_inv_def noop_active_def le_nat_iff)

lemma noop_execute_ok:
  assumes inv: "noop_inv s z" and room: "used (n_slots s) < total (n_slots s)"
  shows "\<exists>s' w'. noop_execute work cbs s w = Inr (TURBINE_SUCCESS, s', w') \<and>
    noop_inv s' z' \<and> total (n_slots s') = total (n_slots s) \<and>
    noop_active s' = add_mset cbs (noop_active s) \<and> refs w' = (\<lambda>c. refs w c + cb_refs cbs c) \<and>
    world.more w' = world.more w"
proof -
  have len: "length (n_tasks s) = nat (total (n_slots s))" using inv by (simp add: noop_inv_def)
  have "length (active_tasks (n_tasks s)) < length (n_tasks s)"
    using inv room by (simp add: noop_inv_def noop_active_def)
  then obtain i where i: "find_slot (n_tasks s) = Some i" using find_slot_free by blast
  let ?s = "s\<lparr>n_slots := (n_slots s)\<lparr>used := used (n_slots s) + 1\<rparr>,
    n_tasks := (n_tasks s)[i := \<lparr>n_callbacks = cbs, n_active = True\<rparr>]\<rparr>"
  let ?w = "Tcl_IncrRefCount (cb_failure cbs) (Tcl_IncrRefCount (cb_success cbs) w)"
  have act: "noop_active ?s = add_mset cbs (noop_active s)"
    using find_slot_Some [OF i] active_tasks_set unfolding noop_active_def by force
  have "noop_execute work cbs s w = Inr (TURBINE_SUCCESS, ?s, ?w)"
    using room i len by (simp add: noop_execute_def)
  moreover have "noop_inv ?s z'" using inv act by (simp add: noop_inv_def)
  ultimately show ?thesis using act by (intro exI [of _ ?s] exI [of _ ?w]) simp
qed

lemma draw_slot_cases:
  assumes "0 < m" "m \<le> length ts"
  shows "draw_slot m ts ds = Inl Unfinished \<or>
    (\<exists>i ds'. draw_slot m ts ds = Inr (i, ds') \<and> i < m \<and> n_active (ts ! i))"
  using assms
proof (induction ds)
  case (Cons d ds)
  then have "d mod m < m" "d mod m < length ts" using mod_less_divisor [of m d] by linarith+
  then show ?case using Cons by (auto simp: Let_def)
qed simp

lemma choose_completed_cases:
  assumes len: "length (n_tasks s) = nat (total (n_slots s))" and t: "0 < total (n_slots s)"
    and u: "0 < used (n_slots s)"
  shows "choose_completed s w = Inl Unfinished \<or>
    (\<exists>c s' w'. choose_completed s w = Inr (c, s', w') \<and> n_slots s' = n_slots s \<and>
      length (n_tasks s') = length (n_tasks s) \<and>
      noop_active s = add_mset (callbacks c) (noop_active s') \<and> refs w' = refs w)"
proof -
  have "0 < nat (total (n_slots s))" "nat (total (n_slots s)) \<le> length (n_tasks s)"
    using len t by simp_all
  from draw_slot_cases [OF this, of "draws w"] show ?thesis
  proof (elim disjE exE conjE)
    fix i ds'
    assume "draw_slot (nat (total (n_slots s))) (n_tasks s) (draws w) = Inr (i, ds')"
    "i < nat (total (n_slots s))" "n_active (n_tasks s ! i)"
  then show ?thesis
    using len u active_tasks_clear [of i "n_tasks s"]
    by (auto simp: choose_completed_def noop_active_def Let_def)
  qed (use u in \<open>simp add: choose_completed_def\<close>)
qed

lemma fill_completed_cases:
  assumes inv: "noop_inv s z" and u: "0 < used (n_slots s)" and n: "1 \<le> n"
  shows "fill_completed n s w = Inl Unfinished \<or>
    (\<exists>cs s' w'. fill_completed n s w = Inr (EXEC_SUCCESS, cs, s', w') \<and> noop_inv s' z' \<and>
      total (n_slots s') = total (n_slots s) \<and> noop_active s = mset (map callbacks cs) + noop_active s' \<and>
      int (length cs) \<le> n \<and> cs \<noteq> [] \<and> refs w' = refs w)"
proof -
  have len: "length (n_tasks s) = nat (total (n_slots s))" and t: "0 < total (n_slots s)"
    using inv by (simp_all add: noop_inv_def)
  define two where "two = (if used (n_slots s) > 1
     then tcl_check (rand w) (\<lambda>(d, w). Inr (d > RAND_MAX div 2 \<and> n \<ge> 2, w)) else Inr (False, w))"
  note def = fill_completed_def [of n s w, folded two_def]
  have "two = Inl Unfinished \<or> (\<exists>b w1. two = Inr (b, w1) \<and> (b \<longrightarrow> 2 \<le> n) \<and> refs w1 = refs w)"
    by (cases "draws w") (auto simp: two_def rand_def)
  then consider "two = Inl Unfinished"
    | b w1 where "two = Inr (b, w1)" "b \<longrightarrow> 2 \<le> n" "refs w1 = refs w" by blast
  then show ?thesis
  proof cases
    case 1
    then show ?thesis using n by (simp add: def)
  next
    case 2
    from choose_completed_cases [OF len t u, of w1] show ?thesis
    proof (elim disjE exE conjE)
      fix c s1 w2
      assume c: "choose_completed s w1 = Inr (c, s1, w2)" "n_slots s1 = n_slots s"
        "length (n_tasks s1) = length (n_tasks s)"
        "noop_active s = add_mset (callbacks c) (noop_active s1)" "refs w2 = refs w1"
      show ?thesis
      proof (cases b)
        case False
        then show ?thesis using c 2 n inv len t
          by (simp add: def noop_inv_def noop_active_def)
      next
        case True
        have "length (n_tasks s1) = nat (total (n_slots s1))" "0 < total (n_slots s1)"
          "0 < used (n_slots s1)" using c len t u by simp_all
        from choose_completed_cases [OF this, of w2] show ?thesis
        proof (elim disjE exE conjE)
          fix c' s2 w3
          assume "choose_completed s1 w2 = Inr (c', s2, w3)" "n_slots s2 = n_slots s1"
            "length (n_tasks s2) = length (n_tasks s1)"
            "noop_active s1 = add_mset (callbacks c') (noop_active s2)" "refs w3 = refs w2"
          then show ?thesis using c 2 n inv len t True
            by (simp add: def noop_inv_def noop_active_def)
        qed (use c 2 n True in \<open>simp add: def\<close>)
      qed
    qed (use 2 n in \<open>simp add: def\<close>)
  qed
qed

lemma noop_wait_cases:
  assumes inv: "noop_inv s z" and n: "1 \<le> n"
  shows "noop_wait n s w = Inl Unfinished \<or>
    (\<exists>cs s' w'. noop_wait n s w = Inr (EXEC_SUCCESS, cs, s', w') \<and> noop_inv s' z' \<and>
      total (n_slots s') = total (n_slots s) \<and> noop_active s = mset (map callbacks cs) + noop_active s' \<and>
      int (length cs) \<le> n \<and> (noop_active s \<noteq> {#} \<longrightarrow> cs \<noteq> []) \<and> refs w' = refs w)"
proof (cases "0 < used (n_slots s)")
  case True
  from fill_completed_cases [OF inv True n, of w z'] show ?thesis
    using True by (simp add: noop_wait_def) blast
next
  case False
  then show ?thesis using inv n by (simp add: noop_wait_def noop_inv_def)
qed

lemma noop_poll_cases:
  assumes inv: "noop_inv s z" and n: "1 \<le> n"
  shows "noop_poll n s w = Inl Unfinished \<or>
    (\<exists>cs s' w'. noop_poll n s w = Inr (EXEC_SUCCESS, cs, s', w') \<and> noop_inv s' z' \<and>
      total (n_slots s') = total (n_slots s) \<and> noop_active s = mset (map callbacks cs) + noop_active s' \<and>
      int (length cs) \<le> n \<and> refs w' = refs w)"
proof (cases "0 < used (n_slots s)")
  case True
  show ?thesis
  proof (cases "draws w")
    case Nil
    then show ?thesis using True by (simp add: noop_poll_def rand_def)
  next
    case (Cons d ds)
    have z: "noop_inv s z'" using inv by (simp add: noop_inv_def)
    from fill_completed_cases [OF inv True n, of "w\<lparr>draws := ds\<rparr>" z'] show ?thesis
      using True Cons n z by (cases "RAND_MAX div 5 < d") (simp_all add: noop_poll_def rand_def, blast)
  qed
next
  case False
  then show ?thesis using inv n by (simp add: noop_poll_def noop_inv_def)
qed

interpretation noop: executor init_noop_executor noop_execute noop_inv noop_active
proof unfold_locales
  fix s :: "'a noop_state" and z :: "'b noop_world_ext"
  assume inv: "noop_inv s z"
  show "fst (exec_slots init_noop_executor s) = EXEC_SUCCESS"
    by (simp add: init_noop_executor_def noop_slots_def)
  show "used (slots_of init_noop_executor s) = int (size (noop_active s))"
    using inv by (simp add: init_noop_executor_def noop_slots_def noop_inv_def)
  show "used (slots_of init_noop_executor s) \<le> total (slots_of init_noop_executor s)"
    using noop_used_le [OF inv] by (simp add: init_noop_executor_def noop_slots_def)
next
  fix s :: "'a noop_state" and w :: "('a, 'b) noop_world_scheme" and n f cs s' w'
  assume inv: "noop_inv s (world.more w)" and n: "1 \<le> (n::int)"
  have ex: "exec_poll init_noop_executor = (noop_poll :: _ \<Rightarrow> 'a noop_state \<Rightarrow> ('a, 'b) noop_world_scheme \<Rightarrow> _)"
    "exec_wait init_noop_executor = (noop_wait :: _ \<Rightarrow> 'a noop_state \<Rightarrow> ('a, 'b) noop_world_scheme \<Rightarrow> _)"
    "slots_of init_noop_executor s = n_slots s" for s :: "'a noop_state"
    by (simp_all add: init_noop_executor_def noop_slots_def)
  show "f = Unfinished" if "exec_poll init_noop_executor n s w = Inl f"
    using that noop_poll_cases [OF inv n, of w] by (auto simp: ex(1,2))
  show "f = Unfinished" if "exec_wait init_noop_executor n s w = Inl f"
    using that noop_wait_cases [OF inv n, of w] by (auto simp: ex(1,2))
  show "noop_inv s' (world.more w') \<and>
      total (slots_of init_noop_executor s') = total (slots_of init_noop_executor s) \<and>
      noop_active s = mset (map callbacks cs) + noop_active s' \<and> int (length cs) \<le> n \<and> refs w' = refs w"
    if "exec_poll init_noop_executor n s w = Inr (EXEC_SUCCESS, cs, s', w')"
    using that noop_poll_cases [OF inv n, of w "world.more w'"]
    by (elim disjE exE conjE) (simp_all add: ex)
  show "noop_inv s' (world.more w') \<and>
      total (slots_of init_noop_executor s') = total (slots_of init_noop_executor s) \<and>
      noop_active s = mset (map callbacks cs) + noop_active s' \<and> int (length cs) \<le> n \<and>
      refs w' = refs w \<and> (noop_active s \<noteq> {#} \<longrightarrow> cs \<noteq> [])"
    if "exec_wait init_noop_executor n s w = Inr (EXEC_SUCCESS, cs, s', w')"
    using that noop_wait_cases [OF inv n, of w "world.more w'"]
    by (elim disjE exE conjE) (simp_all add: ex)
next
  fix s :: "'a noop_state" and w :: "('a, 'b) noop_world_scheme" and work cbs
  assume inv: "noop_inv s (world.more w)"
    and room: "used (slots_of init_noop_executor s) < total (slots_of init_noop_executor s)"
  then have "used (n_slots s) < total (n_slots s)"
    by (simp add: init_noop_executor_def noop_slots_def)
  from noop_execute_ok [OF inv this, of work cbs w "world.more w"]
  show "\<exists>tc s' w'. noop_execute work cbs s w = Inr (tc, s', w') \<and>
      (tc = TURBINE_SUCCESS \<longrightarrow> noop_inv s' (world.more w') \<and>
        total (slots_of init_noop_executor s') = total (slots_of init_noop_executor s) \<and>
        noop_active s' = add_mset cbs (noop_active s) \<and> refs w' = (\<lambda>c. refs w c + cb_refs cbs c))"
    by (auto simp: init_noop_executor_def noop_slots_def)
qed

section \<open>Properties\<close>

lemma noop_start_ok:
  obtains s where "noop_start NOOP_CONTEXT w = Inr (EXEC_SUCCESS, Some s, w)" "noop_inv s z"
    "noop_active s = {#}"
  by (simp add: noop_start_def noop_inv_def noop_active_def active_tasks_def NOOP_EXEC_SLOTS_def)

text \<open>
  C3: The worker never overfills the executor. If every task command and callback launches
  at most one task, a worker loop on the no-op executor runs without an assertion
  failing and without undefined behaviour, however ADLB answers and in whatever order
  tasks complete; in particular \<^verbatim>\<open>noop_execute\<close> always finds a free slot.
\<close>

theorem noop_worker_never_faults:
  fixes w :: "('cb, 'y) noop_world_scheme"
  assumes A: "adlb_get_ok (noop_inv :: 'cb noop_state \<Rightarrow> _) A" and I: "scripts_ok noop_inv noop_execute I"
    and bufs: "1 \<le> n" "n \<le> int (length bufs)"
    and run: "turbine_async_worker_loop fuel I A si sf
      (init_noop_executor\<lparr>ex_context := NOOP_CONTEXT\<rparr>) ty bufs n w = Inl f"
  shows "f = Unfinished"
proof -
  define E :: "(unit, 'cb noop_state, ('cb, 'y) noop_world_scheme, 'cb) turbine_executor"
    where "E = init_noop_executor"
  obtain tc w0 where si: "si w = (tc, w0)" by (cases "si w")
  obtain s0 :: "'cb noop_state" where start: "noop_start NOOP_CONTEXT w0 = Inr (EXEC_SUCCESS, Some s0, w0)"
    and inv: "noop_inv s0 (world.more w0)" by (rule noop_start_ok)
  let ?n = "nat (min n (int TURBINE_ASYNC_EXEC_MAX_REQS))"
  have "1 \<le> ?n" "?n \<le> length bufs" using bufs by (auto simp: TURBINE_ASYNC_EXEC_MAX_REQS_def)
  note ready = noop.ready_init [OF inv this]
  have E: "ex_started E = False" "exec_start E = noop_start" "exec_stop E = noop_stop"
    by (simp_all add: E_def init_noop_executor_def)
  show ?thesis
  proof (cases "loop_run fuel I A E ty (init_reqs bufs ?n) s0 w0")
    case (Inl e)
    then have "e = Unfinished" using noop.loop_run_safe [OF A I ready] by (simp add: E_def)
    then show ?thesis
      using run Inl si bufs(1) E start
      by (auto simp: turbine_async_worker_loop_def Let_def E_def [symmetric] split: if_splits)
  next
    case (Inr y)
    obtain ret s1 w1 where "y = (ret, s1, w1)" by (cases y)
    with run Inr si bufs(1) E start show ?thesis
      by (auto simp: turbine_async_worker_loop_def Let_def E_def [symmetric] noop_stop_def
          split: if_splits option.splits)
  qed
qed

definition launch_interp ::
    "(nat noop_state \<times> (nat, 'y) noop_world_scheme, nat) tcl_interp" where
  "launch_interp = \<lparr>
     eval_work = (\<lambda>c n (s, w). tcl_check (noop_execute (c, n) \<lparr>cb_success = Some 1, cb_failure = None\<rparr> s w)
       (\<lambda>(tc, s, w). Inr (tc = TURBINE_SUCCESS, s, w))),
     eval_cb = (\<lambda>c (s, w). Inr (True, s, w)),
     set_var = (\<lambda>x v (s, w). (True, s, w)), unset_var = (\<lambda>x (s, w). (True, s, w))\<rparr>"

definition busy_adlb :: "((nat, 'y) noop_world_scheme, nat, string) adlb_get_api" where
  "busy_adlb = \<lparr>
     Amget = (\<lambda>ty n block bufs w. (ADLB_SUCCESS, [0..<n], w)),
     Aget_test = (\<lambda>req w. (if even req then ADLB_SUCCESS else ADLB_NOTHING, 3, w)),
     Aget_wait = (\<lambda>req w. (ADLB_SUCCESS, 3, w)), payload = (\<lambda>buf w. buf)\<rparr>"

lemma launch_interp_ok:
  "scripts_ok noop_inv noop_execute (launch_interp :: (nat noop_state \<times> (nat, 'y) noop_world_scheme, nat) tcl_interp)"
proof -
  let ?I = "launch_interp :: (nat noop_state \<times> (nat, 'y) noop_world_scheme, nat) tcl_interp"
  have "launch_step noop_inv noop_execute (eval_work ?I c n)" for c n
    by (rule launch_stepI [where work = "(c, n)" and cbs = "\<lparr>cb_success = Some 1, cb_failure = None\<rparr>"])
      (simp add: launch_interp_def)
  moreover have "launch_step noop_inv noop_execute (eval_cb ?I c)" for c
    unfolding launch_step_def launch_interp_def by auto
  ultimately show ?thesis by (auto simp: scripts_ok_def launch_interp_def)
qed

lemma busy_adlb_ok: "adlb_get_ok noop_inv busy_adlb"
  by (auto simp: adlb_get_ok_def busy_adlb_def noop_inv_def)

lemma noop_worker_never_faults_witness:
  "turbine_async_worker_loop 9 launch_interp busy_adlb (\<lambda>w. (TURBINE_SUCCESS, w)) (\<lambda>w. w)
     (init_noop_executor\<lparr>ex_context := NOOP_CONTEXT\<rparr>) 1 [''a'', ''b''] 2
     \<lparr>refs = \<lambda>_. 0, draws = [0, 1, 2, 3, 0, 1, 2, 3]\<rparr> \<noteq> Inl Abort"
proof
  assume "turbine_async_worker_loop 9 launch_interp busy_adlb (\<lambda>w. (TURBINE_SUCCESS, w)) (\<lambda>w. w)
     (init_noop_executor\<lparr>ex_context := NOOP_CONTEXT\<rparr>) 1 [''a'', ''b''] 2
     \<lparr>refs = \<lambda>_. 0, draws = [0, 1, 2, 3, 0, 1, 2, 3]\<rparr> = Inl Abort"
  from noop_worker_never_faults [OF busy_adlb_ok launch_interp_ok _ _ this] show False by simp
qed

lemma stop_tasks_refs:
  "refs (stop_tasks ts w) = (\<lambda>c. refs w c - task_refs (mset (active_tasks ts)) c)"
  by (induction ts arbitrary: w) auto

text \<open>
  C17: The references on callback objects balance over the life of a worker on the no-op executor. It
  starts the executor, takes tasks whose commands launch into it, runs the callbacks of the
  tasks that complete, and at shutdown stops it with tasks still in slots; if it returns success, every
  object has the count it began with. The scripts are taken to drop the references of their
  own that they take. A worker that returns an error promises nothing: a failing
  callback ends the loop without a release, and then the executor is not stopped.
\<close>

theorem noop_refs_balanced:
  fixes w :: "('cb, 'y) noop_world_scheme"
  assumes A: "adlb_held True (noop_inv :: 'cb noop_state \<Rightarrow> _) A" and I: "scripts_held True noop_inv noop_execute I"
    and service: "\<And>w. refs (snd (si w)) = refs w" "\<And>w. refs (sf w) = refs w" and bufs: "n \<le> int (length bufs)"
    and run: "turbine_async_worker_loop fuel I A si sf
      (init_noop_executor\<lparr>ex_context := NOOP_CONTEXT\<rparr>) ty bufs n w = Inr (TURBINE_SUCCESS, ex', w')"
  shows "refs w' = refs w"
proof -
  define E :: "(unit, 'cb noop_state, ('cb, 'y) noop_world_scheme, 'cb) turbine_executor"
    where "E = init_noop_executor"
  have E: "ex_started E = False" "exec_start E = noop_start" "exec_stop E = noop_stop"
    by (simp_all add: E_def init_noop_executor_def)
  obtain tc w0 where si: "si w = (tc, w0)" by (cases "si w")
  have r0: "refs w0 = refs w" using service(1) [of w] si by simp
  have n: "1 \<le> n" using run by (auto simp: turbine_async_worker_loop_def c_assert_def split: if_splits)
  obtain s0 :: "'cb noop_state" where start: "noop_start NOOP_CONTEXT w0 = Inr (EXEC_SUCCESS, Some s0, w0)"
    and s0: "noop_inv s0 (world.more w0)" "noop_active s0 = {#}" by (rule noop_start_ok)
  let ?n = "nat (min n (int TURBINE_ASYNC_EXEC_MAX_REQS))"
  have "1 \<le> ?n" "?n \<le> length bufs" using n bufs by (auto simp: TURBINE_ASYNC_EXEC_MAX_REQS_def)
  note ready = noop.ready_init [OF s0(1) this]
  from noop.loop_run_held [OF A I ready, of fuel ty, folded E_def] run si E start obtain s1 w1 where
    held: "noop.held True s0 w0 s1 w1" and w': "w' = sf (stop_tasks (take (nat (total (n_slots s1))) (n_tasks s1)) w1)"
    by (auto simp: turbine_async_worker_loop_def Let_def E_def [symmetric] noop_stop_def c_assert_def
        split: if_splits option.splits)
  from held have "noop_inv s1 (world.more w1)"
    and r1: "refs w1 = (\<lambda>c. refs w0 c + task_refs (noop_active s1) c)"
    using s0(2) by (auto simp: noop.held_def fun_eq_iff algebra_simps)
  then have "take (nat (total (n_slots s1))) (n_tasks s1) = n_tasks s1" by (simp add: noop_inv_def)
  then show ?thesis unfolding w' service(2) by (simp add: stop_tasks_refs r1 r0 noop_active_def)
qed

text \<open>Two tasks, the first of which completes while the second is in its slot at shutdown.\<close>

definition ending_adlb :: "((nat, unit) noop_world_scheme, nat, string) adlb_get_api" where
  "ending_adlb = \<lparr>
     Amget = (\<lambda>ty n block bufs w. (ADLB_SUCCESS, [0..<n], w)),
     Aget_test = (\<lambda>req w. (if draws w = [] then ADLB_SHUTDOWN else ADLB_NOTHING, 3, w)),
     Aget_wait = (\<lambda>req w. (if draws w = [] then ADLB_SHUTDOWN else ADLB_SUCCESS, 3, w)), payload = (\<lambda>buf w. buf)\<rparr>"

lemma noop_refs_balanced_witness:
  "\<exists>ex' w'. turbine_async_worker_loop 5 launch_interp ending_adlb (\<lambda>w. (TURBINE_SUCCESS, w)) (\<lambda>w. w)
     (init_noop_executor\<lparr>ex_context := NOOP_CONTEXT\<rparr>) 1 [''a'', ''b''] 2
     \<lparr>refs = \<lambda>_. 7, draws = [2000000000, 0, 5]\<rparr> = Inr (TURBINE_SUCCESS, ex', w') \<and> refs w' = (\<lambda>_. 7)"
proof -
  let ?w = "\<lparr>refs = \<lambda>_. 7, draws = [2000000000, 0, 5]\<rparr> :: nat noop_world"
  let ?I = "launch_interp :: (nat noop_state \<times> nat noop_world, nat) tcl_interp"
  have A: "adlb_held True noop_inv ending_adlb"
    by (auto simp: adlb_held_def adlb_get_ok_def ending_adlb_def noop_inv_def)
  have "launch_held True noop_inv noop_execute (eval_work ?I c n)" for c n
    by (rule launch_heldI [where work = "(c, n)" and cbs = "\<lparr>cb_success = Some 1, cb_failure = None\<rparr>"])
      (simp add: launch_interp_def)
  moreover have "launch_held True noop_inv noop_execute (eval_cb ?I c)" for c
    unfolding launch_held_def launch_interp_def by auto
  ultimately have I: "scripts_held True noop_inv noop_execute ?I" by (auto simp: scripts_held_def launch_interp_def)
  note get = get_loop.simps [of I A p g "\<lparr>buffers = b, requests = r, max_reqs = m, nreqs = k, head = h, tail = t\<rparr>"
    for I A p g b r m k h t]
  have small: "replicate 2 x = [x, x]" "replicate 4 y = [y, y, y, y]" "[0..<2] = [0, 1]" "[0..<1] = [0]" "[0..<Suc 0] = [0]"
    "loop_run 5 = loop_run (Suc (Suc (Suc (Suc (Suc 0)))))" for x :: "nat option" and y :: "nat noop_active_task"
    by (simp_all add: eval_nat_numeral upt_rec)
  obtain ex' w' where run: "turbine_async_worker_loop 5 ?I ending_adlb (\<lambda>w. (TURBINE_SUCCESS, w)) (\<lambda>w. w)
     (init_noop_executor\<lparr>ex_context := NOOP_CONTEXT\<rparr>) 1 [''a'', ''b''] 2 ?w = Inr (TURBINE_SUCCESS, ex', w')"
    by (simp add: turbine_async_worker_loop_def TURBINE_ASYNC_EXEC_MAX_REQS_def init_noop_executor_def noop_start_def
        NOOP_EXEC_SLOTS_def loop_body_def noop_slots_def get_tasks_def get init_reqs_def ending_adlb_def
        check_request_def launch_interp_def noop_execute_def loop_check_def check_tasks_def noop_poll_def rand_def
        RAND_MAX_def fill_completed_def choose_completed_def COMPLETED_BUFFER_SIZE_def run_callback_def noop_stop_def
        Tcl_IncrRefCount_def Tcl_DecrRefCount_def small)
  have "refs w' = refs ?w" by (rule noop_refs_balanced [OF A I _ _ _ run]) simp_all
  then show ?thesis using run by simp
qed

definition covers :: "nat \<Rightarrow> nat list \<Rightarrow> bool" where
  "covers m ds \<longleftrightarrow> (\<forall>i < m. \<exists>d \<in> set ds. d mod m = i)"

lemma draw_slot_returns:
  assumes "\<exists>d \<in> set ds. n_active (ts ! (d mod m))" "0 < m" "m \<le> length ts"
  shows "\<exists>i ds'. draw_slot m ts (ds @ rest) = Inr (i, ds' @ rest)"
  using assms
proof (induction ds)
  case (Cons d ds)
  have "d mod m < length ts" using Cons.prems(2,3) mod_less_divisor [of m d] by linarith
  then show ?case using Cons by (auto simp: Let_def intro: exI [of _ ds])
qed simp

lemma active_slot:
  assumes "active_tasks ts \<noteq> []"
  obtains i where "i < length ts" "n_active (ts ! i)"
  using assms by (auto simp: active_tasks_def filter_empty_conv in_set_conv_nth)

lemma choose_completed_returns:
  assumes len: "length (n_tasks s) = nat (total (n_slots s))" and t: "0 < total (n_slots s)"
    and u: "0 < used (n_slots s)" and act: "noop_active s \<noteq> {#}"
    and cov: "covers (nat (total (n_slots s))) ds" and w: "draws w = ds @ rest"
  shows "\<exists>c s' w' ds'. choose_completed s w = Inr (c, s', w') \<and> draws w' = ds' @ rest \<and>
    n_slots s' = n_slots s \<and> length (n_tasks s') = length (n_tasks s) \<and>
    noop_active s = add_mset (callbacks c) (noop_active s')"
proof -
  let ?m = "nat (total (n_slots s))"
  obtain i where i: "i < ?m" "n_active (n_tasks s ! i)"
    using act active_slot [of "n_tasks s"] len by (auto simp: noop_active_def)
  then obtain d where "d \<in> set ds" "d mod ?m = i" using cov unfolding covers_def by blast
  with i have "\<exists>d \<in> set ds. n_active (n_tasks s ! (d mod ?m))" by blast
  from draw_slot_returns [OF this, of rest] len t obtain j ds' where
    j: "draw_slot ?m (n_tasks s) (draws w) = Inr (j, ds' @ rest)" by (auto simp: w)
  then obtain c s' w' where c: "choose_completed s w = Inr (c, s', w')" "draws w' = ds' @ rest"
    using u by (simp add: choose_completed_def Let_def)
  with choose_completed_cases [OF len t u, of w] show ?thesis by auto
qed

text \<open>
  C21: A wait on the no-op executor with tasks in flight returns, with at least one
  completed task, as soon as the random draws have come up with every slot twice.
\<close>

theorem noop_wait_terminates:
  assumes inv: "noop_inv s z" and u: "0 < used (n_slots s)" and n: "1 \<le> n"
    and draws: "draws w = d # ds1 @ ds2 @ rest"
    and cov: "covers (nat (total (n_slots s))) ds1" "covers (nat (total (n_slots s))) ds2"
  shows "\<exists>cs s' w'. noop_wait n s w = Inr (EXEC_SUCCESS, cs, s', w') \<and> cs \<noteq> [] \<and> int (length cs) \<le> n \<and>
    used (n_slots s') = used (n_slots s) - int (length cs)"
proof -
  have len: "length (n_tasks s) = nat (total (n_slots s))" and t: "0 < total (n_slots s)"
    and us: "used (n_slots s) = int (size (noop_active s))" using inv by (simp_all add: noop_inv_def)
  have act: "noop_active s \<noteq> {#}" using u us by auto
  note wait = noop_wait_def fill_completed_def rand_def
  show ?thesis
  proof (cases "1 < used (n_slots s)")
    case False
    have "covers (nat (total (n_slots s))) (d # ds1)" using cov(1) by (auto simp: covers_def)
    from choose_completed_returns [OF len t u act this, of w "ds2 @ rest"] draws obtain c s1 w1 where
      "choose_completed s w = Inr (c, s1, w1)" "n_slots s1 = n_slots s" by auto
    then show ?thesis using False u n by (simp add: wait)
  next
    case True
    let ?w = "w\<lparr>draws := ds1 @ ds2 @ rest\<rparr>"
    from choose_completed_returns [OF len t u act cov(1), of ?w "ds2 @ rest"] obtain c s1 w1 ds' where
      c: "choose_completed s ?w = Inr (c, s1, w1)" "draws w1 = ds' @ ds2 @ rest" "n_slots s1 = n_slots s"
      "length (n_tasks s1) = length (n_tasks s)" "noop_active s = add_mset (callbacks c) (noop_active s1)"
      by auto
    have "noop_active s1 \<noteq> {#}" using True us c(5) by auto
    moreover have "covers (nat (total (n_slots s1))) (ds' @ ds2)"
      using cov(2) c(3) by (auto simp: covers_def)
    ultimately obtain c' s2 w2 where
      "choose_completed s1 w1 = Inr (c', s2, w2)" "n_slots s2 = n_slots s1"
      using choose_completed_returns [of s1 "ds' @ ds2" w1 rest] c len t u by auto
    then show ?thesis using True c(1,3) n draws
      by (cases "RAND_MAX div 2 < d \<and> 2 \<le> n") (auto simp: wait)
  qed
qed

definition noop_two :: "nat noop_state" where
  "noop_two = \<lparr>n_slots = \<lparr>used = 2, total = 2\<rparr>,
     n_tasks = replicate 2 \<lparr>n_callbacks = \<lparr>cb_success = Some 1, cb_failure = None\<rparr>, n_active = True\<rparr>\<rparr>"

lemma noop_wait_terminates_witness:
  "\<exists>cs s' w'. noop_wait 16 noop_two \<lparr>refs = \<lambda>_. 2, draws = [2000000000, 0, 1, 1, 0]\<rparr> =
      Inr (EXEC_SUCCESS, cs, s', w') \<and> cs \<noteq> []"
proof -
  have "noop_inv noop_two ()" "0 < used (n_slots noop_two)"
    "covers (nat (total (n_slots noop_two))) [0, 1]" "covers (nat (total (n_slots noop_two))) [1, 0]"
    by (auto simp: noop_two_def noop_inv_def noop_active_def active_tasks_def covers_def numeral_2_eq_2 less_Suc_eq)
  with noop_wait_terminates [of noop_two "()" 16 "\<lparr>refs = \<lambda>_. 2, draws = [2000000000, 0, 1, 1, 0]\<rparr>"
      2000000000 "[0, 1]" "[1, 0]" "[]"] show ?thesis by fastforce
qed

end
