(* ===== verification/C_Lib.thy ===== *)
theory C_Lib
  imports Prelude
begin

text \<open>
  The functions of the C library whose results the program computes with:
  \<^verbatim>\<open>isspace\<close>, \<^verbatim>\<open>strtol\<close> (for any base) and \<^verbatim>\<open>strchr\<close>. Strings are lists of characters
  without the terminating NUL.
\<close>

definition LONG_MAX :: int where "LONG_MAX = 9223372036854775807"
definition LONG_MIN :: int where "LONG_MIN = - 9223372036854775808"

definition isspace :: "char \<Rightarrow> bool" where
  "isspace c \<longleftrightarrow> of_char c \<in> {32, 9, 10, 11, 12, 13 :: nat}"

definition digit_value :: "char \<Rightarrow> nat option" where
  "digit_value c = (let n = of_char c in
     if 48 \<le> n \<and> n \<le> 57 then Some (n - 48)
     else if 97 \<le> n \<and> n \<le> 122 then Some (n - 87)
     else if 65 \<le> n \<and> n \<le> 90 then Some (n - 55)
     else None)"

definition is_digit :: "nat \<Rightarrow> char \<Rightarrow> bool" where
  "is_digit base c = (case digit_value c of None \<Rightarrow> False | Some d \<Rightarrow> d < base)"

definition digits_value :: "nat \<Rightarrow> string \<Rightarrow> int" where
  "digits_value base ds = foldl (\<lambda>v c. v * int base + int (the (digit_value c))) 0 ds"

text \<open>The base and the digits, after an optional prefix.\<close>

definition strtol_prefix :: "nat \<Rightarrow> string \<Rightarrow> nat \<times> string" where
  "strtol_prefix base s =
     (let hex = (2 < length s \<and> s ! 0 = CHR ''0'' \<and> (s ! 1 = CHR ''x'' \<or> s ! 1 = CHR ''X'') \<and>
        is_digit 16 (s ! 2)) in
      if (base = 0 \<or> base = 16) \<and> hex then (16, drop 2 s)
      else if base = 0 then (if s \<noteq> [] \<and> s ! 0 = CHR ''0'' then (8, s) else (10, s))
      else (base, s))"

text \<open>
  The value, clamped to the range of \<^verbatim>\<open>long\<close>, whether it was clamped (\<^verbatim>\<open>ERANGE\<close>), and the
  rest of the string; \<open>None\<close> when nothing was converted and the end pointer is the start.
\<close>

definition strtol :: "nat \<Rightarrow> string \<Rightarrow> (int \<times> bool \<times> string) option" where
  "strtol base s =
     (let t = dropWhile isspace s;
          (neg, t) = (case t of c # u \<Rightarrow> if c = CHR ''-'' then (True, u)
             else if c = CHR ''+'' then (False, u) else (False, t) | [] \<Rightarrow> (False, t));
          (b, t) = strtol_prefix base t;
          ds = takeWhile (is_digit b) t in
      if ds = [] then None
      else let v = (if neg then - digits_value b ds else digits_value b ds) in
        if v > LONG_MAX then Some (LONG_MAX, True, dropWhile (is_digit b) t)
        else if v < LONG_MIN then Some (LONG_MIN, True, dropWhile (is_digit b) t)
        else Some (v, False, dropWhile (is_digit b) t))"

text \<open>The index of the first occurrence of a character.\<close>

fun strchr :: "string \<Rightarrow> char \<Rightarrow> nat option" where
  "strchr [] c = None"
| "strchr (x # xs) c = (if x = c then Some 0 else map_option Suc (strchr xs c))"

lemma strchr_Some:
  "strchr s c = Some i \<longleftrightarrow> i < length s \<and> s ! i = c \<and> c \<notin> set (take i s)"
proof (induction s arbitrary: i)
  case (Cons x s)
  then show ?case by (cases i) auto
qed simp

lemma strchr_None: "strchr s c = None \<longleftrightarrow> c \<notin> set s"
  by (induction s) auto

lemma strchr_append: "c \<notin> set a \<Longrightarrow> strchr (a @ c # b) c = Some (length a)"
  by (induction a) auto

end
