(* ===== verification/Coaster_Exec.thy ===== *)
theory Coaster_Exec
  imports Async_Exec C_Lib
begin

text \<open>
  The Coaster executor, \<^verbatim>\<open>src/turbine/executors/coaster_executor.c\<close>. The Coaster client
  library is a record of functions over the part of the world it keeps; what the
  executor relies on in it is the predicate \<open>coaster_ok\<close>. The table of active tasks
  maps the id of a job to its callbacks and its job. \<open>coaster_inv\<close> says that this table
  holds exactly the jobs outstanding in the client; under it the executor contract
  holds, so the guarantees of the worker loop cover Coaster tasks too.
\<close>

section \<open>The client library\<close>

datatype coaster_rc = COASTER_SUCCESS | COASTER_ERROR_INVALID | COASTER_ERROR_OTHER

record coaster_job_status =
  st_code :: int
  st_timestamp :: int
  st_message :: "string option"
  st_exception :: "string option"

record ('z, 'set, 'cl, 'cfg, 'job) coaster_api =
  settings_create :: "coaster_rc \<times> 'set"
  settings_parse :: "'set \<Rightarrow> string \<Rightarrow> char \<Rightarrow> coaster_rc \<times> 'set"
  settings_get :: "'set \<Rightarrow> string \<Rightarrow> coaster_rc \<times> string option"
  settings_remove :: "'set \<Rightarrow> string \<Rightarrow> coaster_rc \<times> 'set"
  client_start :: "string \<Rightarrow> 'z \<Rightarrow> coaster_rc \<times> 'cl \<times> 'z"
  apply_settings :: "'cl \<Rightarrow> 'set \<Rightarrow> 'z \<Rightarrow> coaster_rc \<times> 'cfg \<times> 'z"
  client_stop :: "'cl \<Rightarrow> 'z \<Rightarrow> coaster_rc \<times> 'z"
  config_id_free :: "'cfg \<Rightarrow> 'z \<Rightarrow> coaster_rc \<times> 'z"
  submit :: "'cl \<Rightarrow> 'cfg \<Rightarrow> 'job \<Rightarrow> 'z \<Rightarrow> coaster_rc \<times> 'z"
  job_get_id :: "'job \<Rightarrow> 'z \<Rightarrow> int"
  check_jobs :: "'cl \<Rightarrow> bool \<Rightarrow> int \<Rightarrow> 'z \<Rightarrow> coaster_rc \<times> 'job list \<times> 'z"
  job_get_status :: "'job \<Rightarrow> 'z \<Rightarrow> coaster_rc \<times> coaster_job_status"
  job_free :: "'job \<Rightarrow> 'z \<Rightarrow> coaster_rc \<times> 'z"
  status_completed :: int

section \<open>State and operations\<close>

definition COASTER_DEFAULT_SERVICE_URL :: string where
  "COASTER_DEFAULT_SERVICE_URL = ''127.0.0.1:53001''"
definition COASTER_DEFAULT_MAX_PARALLELISM :: int where "COASTER_DEFAULT_MAX_PARALLELISM = 256"
definition COASTER_SETTING_SERVICE_URL :: string where
  "COASTER_SETTING_SERVICE_URL = ''coasterServiceURL''"
definition COASTER_SETTING_JOB_MANAGER :: string where "COASTER_SETTING_JOB_MANAGER = ''jobManager''"
definition COASTER_SETTING_SLOTS :: string where "COASTER_SETTING_SLOTS = ''maxParallelTasks''"
definition ACTIVE_TASKS_INIT_CAPACITY :: int where "ACTIVE_TASKS_INIT_CAPACITY = 32"

record 'set coaster_context =
  service_url :: string
  default_job_manager :: "string option"
  total_slots :: int
  settings :: 'set

record ('cb, 'job) coaster_active_task =
  a_callbacks :: "'cb turbine_task_callbacks"
  a_job :: 'job

text \<open>\<open>c_config\<close> is indeterminate (\<open>None\<close>) until \<^verbatim>\<open>coaster_apply_settings\<close> has set it.\<close>

record ('set, 'cl, 'cfg, 't) coaster_state =
  c_context :: "'set coaster_context"
  c_client :: 'cl
  c_config :: "'cfg option"
  c_slots :: turbine_exec_slot_state
  c_active :: 't

type_synonym ('t, 'cb, 'job) task_table = "('t, int, ('cb, 'job) coaster_active_task) table_api"

text \<open>\<^verbatim>\<open>COASTER_CHECK\<close>: the code to return when a client call failed.\<close>

definition coaster_check :: "coaster_rc \<Rightarrow> 'e \<Rightarrow> ('e + 'a) \<Rightarrow> 'e + 'a" where
  "coaster_check rc e k = (if rc = COASTER_SUCCESS then k else Inl e)"

lemma coaster_check_simps [simp]:
  "coaster_check COASTER_SUCCESS e k = k"
  "rc \<noteq> COASTER_SUCCESS \<Longrightarrow> coaster_check rc e k = Inl e"
  by (simp_all add: coaster_check_def)

definition extract_setting ::
    "('z, 'set, 'cl, 'cfg, 'job) coaster_api \<Rightarrow> 'set \<Rightarrow> string \<Rightarrow> string option \<Rightarrow> bool \<Rightarrow>
      turbine_exec_code + string option \<times> 'set" where
  "extract_setting K sts key dflt remove =
     (let (crc, tmp_val) = settings_get K sts key in
      coaster_check crc (EXEC_CODE TURBINE_ERROR_INVALID)
        (let val = (case tmp_val of None \<Rightarrow> dflt | Some v \<Rightarrow> Some v) in
         if remove
         then (let (crc, sts) = settings_remove K sts key in
               coaster_check crc (EXEC_CODE TURBINE_ERROR_INVALID) (Inr (val, sts)))
         else Inr (val, sts)))"

text \<open>The value of \<^verbatim>\<open>maxParallelTasks\<close>: a whole positive decimal \<^verbatim>\<open>int\<close>.\<close>

definition parse_slots :: "string \<Rightarrow> turbine_exec_code + int" where
  "parse_slots str =
     (case strtol 10 str of
        None \<Rightarrow> Inl (EXEC_CODE TURBINE_ERROR_INVALID)
      | Some (v, erange, rest) \<Rightarrow>
          if rest \<noteq> [] then Inl (EXEC_CODE TURBINE_ERROR_INVALID)
          else if \<not> (1 \<le> v \<and> v \<le> INT_MAX) then Inl (EXEC_CODE TURBINE_ERROR_INVALID)
          else Inr v)"

text \<open>The number of slots: the setting, which is then removed, or the default.\<close>

definition read_slots ::
    "('z, 'set, 'cl, 'cfg, 'job) coaster_api \<Rightarrow> 'set \<Rightarrow> turbine_exec_code + int \<times> 'set" where
  "read_slots K sts =
     (let (crc, slots_str) = settings_get K sts COASTER_SETTING_SLOTS in
      coaster_check crc (EXEC_CODE TURBINE_ERROR_INVALID)
        (case slots_str of
           None \<Rightarrow> Inr (COASTER_DEFAULT_MAX_PARALLELISM, sts)
         | Some str \<Rightarrow>
             tcl_check (parse_slots str) (\<lambda>v.
               let (crc, sts) = settings_remove K sts COASTER_SETTING_SLOTS in
               coaster_check crc (EXEC_CODE TURBINE_ERROR_INVALID) (Inr (v, sts)))))"

definition configure_context ::
    "('z, 'set, 'cl, 'cfg, 'job) coaster_api \<Rightarrow> string \<Rightarrow> turbine_exec_code + 'set coaster_context" where
  "configure_context K config =
     (let (crc, sts) = settings_create K in
      coaster_check crc EXEC_OOM
     (let (crc, sts) = settings_parse K sts config (CHR '','') in
      if crc = COASTER_ERROR_INVALID then Inl (EXEC_CODE TURBINE_ERROR_INVALID)
      else coaster_check crc EXEC_OOM
     (tcl_check (extract_setting K sts COASTER_SETTING_SERVICE_URL (Some COASTER_DEFAULT_SERVICE_URL) True)
       (\<lambda>(url, sts).
      tcl_check (extract_setting K sts COASTER_SETTING_JOB_MANAGER None True)
       (\<lambda>(jm, sts).
      tcl_check (read_slots K sts) (\<lambda>(n, sts).
        Inr \<lparr>service_url = the url, default_job_manager = jm, total_slots = n, settings = sts\<rparr>))))))"

definition coaster_configure ::
    "('z, 'set, 'cl, 'cfg, 'job) coaster_api \<Rightarrow> string \<Rightarrow> 'w \<Rightarrow>
      (turbine_exec_code \<times> 'set coaster_context option \<times> 'w) res" where
  "coaster_configure K config w =
     (case configure_context K config of
        Inl ec \<Rightarrow> Inr (ec, None, w)
      | Inr cx \<Rightarrow> Inr (EXEC_SUCCESS, Some cx, w))"

abbreviation set_more :: "('cb, 'z) world_scheme \<Rightarrow> 'z \<Rightarrow> ('cb, 'z) world_scheme" where
  "set_more w z \<equiv> \<lparr>refs = refs w, \<dots> = z\<rparr>"

text \<open>
  \<^verbatim>\<open>coaster_cleanup_active\<close>: free the job and drop the references of every task left.
\<close>

fun cleanup_tasks ::
    "('z, 'set, 'cl, 'cfg, 'job) coaster_api \<Rightarrow> (int \<times> ('cb, 'job) coaster_active_task) list \<Rightarrow>
      ('cb, 'z) world_scheme \<Rightarrow> turbine_exec_code \<times> ('cb, 'z) world_scheme" where
  "cleanup_tasks K [] w = (EXEC_SUCCESS, w)"
| "cleanup_tasks K ((job_id, task) # items) w =
     (let (crc, z) = job_free K (a_job task) (world.more w); w = set_more w z in
      if crc \<noteq> COASTER_SUCCESS then (EXEC_OTHER, w)
      else cleanup_tasks K items
        (Tcl_DecrRefCount (cb_failure (a_callbacks task))
          (Tcl_DecrRefCount (cb_success (a_callbacks task)) w)))"

definition coaster_cleanup_active ::
    "('t, 'cb, 'job) task_table \<Rightarrow> ('z, 'set, 'cl, 'cfg, 'job) coaster_api \<Rightarrow>
      ('set, 'cl, 'cfg, 't) coaster_state \<Rightarrow> ('cb, 'z) world_scheme \<Rightarrow>
      turbine_exec_code \<times> ('cb, 'z) world_scheme" where
  "coaster_cleanup_active T K s w = cleanup_tasks K (tbl_items T (c_active s)) w"

definition coaster_stop ::
    "('t, 'cb, 'job) task_table \<Rightarrow> ('z, 'set, 'cl, 'cfg, 'job) coaster_api \<Rightarrow>
      ('set, 'cl, 'cfg, 't) coaster_state \<Rightarrow> ('cb, 'z) world_scheme \<Rightarrow>
      (turbine_exec_code \<times> ('cb, 'z) world_scheme) res" where
  "coaster_stop T K s w =
     (let (crc, z) = client_stop K (c_client s) (world.more w); w = set_more w z in
      if crc \<noteq> COASTER_SUCCESS then Inr (EXEC_OTHER, w)
      else case c_config s of
        None \<Rightarrow> Inl Undefined
      | Some cfg \<Rightarrow>
          (let (crc, z) = config_id_free K cfg (world.more w); w = set_more w z in
           if crc \<noteq> COASTER_SUCCESS then Inr (EXEC_OTHER, w)
           else Inr (coaster_cleanup_active T K s w)))"

definition coaster_start ::
    "('t, 'cb, 'job) task_table \<Rightarrow> ('z, 'set, 'cl, 'cfg, 'job) coaster_api \<Rightarrow>
      'set coaster_context option \<Rightarrow> ('cb, 'z) world_scheme \<Rightarrow>
      (turbine_exec_code \<times> ('set, 'cl, 'cfg, 't) coaster_state option \<times> ('cb, 'z) world_scheme) res" where
  "coaster_start T K context w =
     (case context of
        None \<Rightarrow> Inl Abort
      | Some cx \<Rightarrow>
          (let (crc, cl, z) = client_start K (service_url cx) (world.more w); w = set_more w z in
           if crc \<noteq> COASTER_SUCCESS then Inr (EXEC_OTHER, None, w)
           else let s = \<lparr>c_context = cx, c_client = cl, c_config = None,
                         c_slots = \<lparr>used = 0, total = total_slots cx\<rparr>,
                         c_active = tbl_init T ACTIVE_TASKS_INIT_CAPACITY\<rparr>;
                    (crc, cfg, z) = apply_settings K cl (settings cx) (world.more w);
                    w = set_more w z in
           if crc \<noteq> COASTER_SUCCESS
           then tcl_check (coaster_stop T K s w) (\<lambda>(_, w). Inr (EXEC_OTHER, None, w))
           else Inr (EXEC_SUCCESS, Some (s\<lparr>c_config := Some cfg\<rparr>), w)))"

text \<open>What \<^verbatim>\<open>coaster_free\<close> frees is not modelled.\<close>

definition coaster_free :: "'x option \<Rightarrow> 'w \<Rightarrow> (turbine_exec_code \<times> 'w) res" where
  "coaster_free cx w = Inr (EXEC_SUCCESS, w)"

definition coaster_default_job_manager ::
    "('set, 'cl, 'cfg, 't) coaster_state option \<Rightarrow> turbine_code \<times> string option" where
  "coaster_default_job_manager st =
     (case st of
        None \<Rightarrow> (TURBINE_ERROR_INVALID, None)
      | Some s \<Rightarrow> (TURBINE_SUCCESS, default_job_manager (c_context s)))"

definition coaster_execute ::
    "('t, 'cb, 'job) task_table \<Rightarrow> ('z, 'set, 'cl, 'cfg, 'job) coaster_api \<Rightarrow>
      'job \<Rightarrow> 'cb turbine_task_callbacks \<Rightarrow> ('set, 'cl, 'cfg, 't) coaster_state \<Rightarrow>
      ('cb, 'z) world_scheme \<Rightarrow>
      (turbine_code \<times> ('set, 'cl, 'cfg, 't) coaster_state \<times> ('cb, 'z) world_scheme) res" where
  "coaster_execute T K job cbs s w =
     c_assert (used (c_slots s) < total (c_slots s))
       (let s = s\<lparr>c_slots := (c_slots s)\<lparr>used := used (c_slots s) + 1\<rparr>\<rparr> in
        case c_config s of
          None \<Rightarrow> Inl Undefined
        | Some cfg \<Rightarrow>
            (let (crc, z) = submit K (c_client s) cfg job (world.more w); w = set_more w z in
             if crc \<noteq> COASTER_SUCCESS then Inr (TURBINE_ERROR_EXTERNAL, s, w)
             else let task = \<lparr>a_callbacks = cbs, a_job = job\<rparr>;
                      job_id = job_get_id K job (world.more w) in
               Inr (TURBINE_SUCCESS,
                    s\<lparr>c_active := tbl_add T (c_active s) job_id task\<rparr>,
                    Tcl_IncrRefCount (cb_failure cbs) (Tcl_IncrRefCount (cb_success cbs) w))))"

text \<open>The dictionary handed to the callback.\<close>

definition result_dict :: "('z, 'set, 'cl, 'cfg, 'job) coaster_api \<Rightarrow> coaster_job_status \<Rightarrow> tcl_obj" where
  "result_dict K status =
     (let text = (\<lambda>m. Tcl_Str (case m of None \<Rightarrow> [] | Some s \<Rightarrow> s));
          d = dict_put ''timestamp'' (Tcl_Int (st_timestamp status)) (Tcl_Dict []);
          d = dict_put ''message'' (text (st_message status)) d;
          d = dict_put ''timestamp'' (Tcl_Int (st_timestamp status)) d in
      if st_code status = status_completed K then d
      else let d = dict_put ''status_code'' (Tcl_Int (st_code status)) d in
        dict_put ''message'' (text (st_exception status)) d)"

type_synonym ('cb, 'set, 'cl, 'cfg, 't, 'z) checked =
  "turbine_exec_code \<times> 'cb turbine_completed_task list \<times> ('set, 'cl, 'cfg, 't) coaster_state \<times>
   ('cb, 'z) world_scheme"

fun finish_jobs ::
    "('t, 'cb, 'job) task_table \<Rightarrow> ('z, 'set, 'cl, 'cfg, 'job) coaster_api \<Rightarrow> 'job list \<Rightarrow>
      'cb turbine_completed_task list \<Rightarrow> ('set, 'cl, 'cfg, 't) coaster_state \<Rightarrow>
      ('cb, 'z) world_scheme \<Rightarrow> ('cb, 'set, 'cl, 'cfg, 't, 'z) checked res" where
  "finish_jobs T K [] cs s w = Inr (EXEC_SUCCESS, cs, s, w)"
| "finish_jobs T K (job # jobs) cs s w =
     (case tbl_remove T (c_active s) (job_get_id K job (world.more w)) of
        None \<Rightarrow> Inl Undefined
      | Some (task, t) \<Rightarrow>
          (let s = s\<lparr>c_active := t\<rparr>;
               (crc, status) = job_get_status K job (world.more w) in
           if crc \<noteq> COASTER_SUCCESS then Inr (EXEC_OTHER, cs, s, w)
           else let comp = \<lparr>success = (st_code status = status_completed K),
                            callbacks = a_callbacks task,
                            vars = [\<lparr>var_name = ''coaster_task_result'', free_name = False,
                                     var_val = result_dict K status\<rparr>]\<rparr>;
                    (crc, z) = job_free K job (world.more w); w = set_more w z in
             if crc \<noteq> COASTER_SUCCESS then Inr (EXEC_OTHER, cs, s, w)
             else finish_jobs T K jobs (cs @ [comp]) s w))"

lemma finish_jobs_length:
  "finish_jobs T K jobs cs s w = Inr (EXEC_SUCCESS, cs', s', w') \<Longrightarrow> length cs' = length cs + length jobs"
  by (induction jobs arbitrary: cs s w)
    (auto simp: Let_def split: option.splits prod.splits if_splits)

text \<open>
  The loop of \<^verbatim>\<open>check_completed\<close>: ask for at most 32 jobs at a time until fewer come
  back than were asked for or the caller's array is full.
\<close>

function check_loop ::
    "('t, 'cb, 'job) task_table \<Rightarrow> ('z, 'set, 'cl, 'cfg, 'job) coaster_api \<Rightarrow> int \<Rightarrow> bool \<Rightarrow>
      'cb turbine_completed_task list \<Rightarrow> ('set, 'cl, 'cfg, 't) coaster_state \<Rightarrow>
      ('cb, 'z) world_scheme \<Rightarrow> ('cb, 'set, 'cl, 'cfg, 't, 'z) checked res" where
  "check_loop T K completed_size wait cs s w =
     (if int (length cs) < completed_size
      then (let maxleft = completed_size - int (length cs);
                maxjobs = min maxleft 32;
                (crc, jobs, z) = check_jobs K (c_client s) wait maxjobs (world.more w);
                w = set_more w z in
            if crc \<noteq> COASTER_SUCCESS then Inr (EXEC_OTHER, cs, s, w)
            else let wait' = (if 0 < length jobs then False else wait) in
            case finish_jobs T K jobs cs s w of
              Inl e \<Rightarrow> Inl e
            | Inr (ec, cs', s', w') \<Rightarrow>
                if ec \<noteq> EXEC_SUCCESS then Inr (ec, cs', s', w')
                else if int (length jobs) < maxjobs then Inr (EXEC_SUCCESS, cs', s', w')
                else check_loop T K completed_size wait' cs' s' w')
      else Inr (EXEC_SUCCESS, cs, s, w))"
  by pat_completeness auto
termination
  by (relation "measure (\<lambda>(T, K, n, wait, cs, s, w). nat (n - int (length cs)))")
    (auto dest!: finish_jobs_length)

declare check_loop.simps [simp del]

definition check_completed ::
    "('t, 'cb, 'job) task_table \<Rightarrow> ('z, 'set, 'cl, 'cfg, 'job) coaster_api \<Rightarrow> int \<Rightarrow> bool \<Rightarrow>
      ('set, 'cl, 'cfg, 't) coaster_state \<Rightarrow> ('cb, 'z) world_scheme \<Rightarrow>
      ('cb, 'set, 'cl, 'cfg, 't, 'z) checked res" where
  "check_completed T K n wait s w =
     c_assert (n \<ge> 1)
       (tcl_check (check_loop T K n wait [] s w) (\<lambda>(ec, cs, s, w).
          if ec \<noteq> EXEC_SUCCESS then Inr (ec, cs, s, w)
          else Inr (EXEC_SUCCESS, cs,
                 s\<lparr>c_slots := (c_slots s)\<lparr>used := used (c_slots s) - int (length cs)\<rparr>\<rparr>, w)))"

definition coaster_wait ::
    "('t, 'cb, 'job) task_table \<Rightarrow> ('z, 'set, 'cl, 'cfg, 'job) coaster_api \<Rightarrow> int \<Rightarrow>
      ('set, 'cl, 'cfg, 't) coaster_state \<Rightarrow> ('cb, 'z) world_scheme \<Rightarrow>
      ('cb, 'set, 'cl, 'cfg, 't, 'z) checked res" where
  "coaster_wait T K n s w =
     (if used (c_slots s) = 0 then Inr (EXEC_INVALID, [], s, w) else check_completed T K n True s w)"

definition coaster_poll ::
    "('t, 'cb, 'job) task_table \<Rightarrow> ('z, 'set, 'cl, 'cfg, 'job) coaster_api \<Rightarrow> int \<Rightarrow>
      ('set, 'cl, 'cfg, 't) coaster_state \<Rightarrow> ('cb, 'z) world_scheme \<Rightarrow>
      ('cb, 'set, 'cl, 'cfg, 't, 'z) checked res" where
  "coaster_poll T K n s w =
     (if used (c_slots s) > 0 then check_completed T K n False s w else Inr (EXEC_SUCCESS, [], s, w))"

definition coaster_slots ::
    "('set, 'cl, 'cfg, 't) coaster_state \<Rightarrow> turbine_exec_code \<times> turbine_exec_slot_state" where
  "coaster_slots s = (EXEC_SUCCESS, c_slots s)"

definition coaster_max_slots :: "'set coaster_context option \<Rightarrow> (turbine_exec_code \<times> int) res" where
  "coaster_max_slots cx = (case cx of None \<Rightarrow> Inl Abort | Some c \<Rightarrow> Inr (EXEC_SUCCESS, total_slots c))"

definition init_coaster_executor ::
    "('t, 'cb, 'job) task_table \<Rightarrow> ('z, 'set, 'cl, 'cfg, 'job) coaster_api \<Rightarrow>
      ('set coaster_context, ('set, 'cl, 'cfg, 't) coaster_state, ('cb, 'z) world_scheme, 'cb)
        turbine_executor" where
  "init_coaster_executor T K = \<lparr>ex_name = ''COASTER'', exec_configure = coaster_configure K,
     exec_start = coaster_start T K, exec_stop = coaster_stop T K, exec_free = coaster_free,
     exec_wait = coaster_wait T K, exec_poll = coaster_poll T K, exec_slots = coaster_slots,
     exec_max_slots = coaster_max_slots, ex_context = None, ex_state = None, ex_started = False\<rparr>"

definition coaster_executor_register ::
    "('r, string, nat) table_api \<Rightarrow> ('t, 'cb, 'job) task_table \<Rightarrow>
      ('z, 'set, 'cl, 'cfg, 'job) coaster_api \<Rightarrow>
      ('r, ('set coaster_context, ('set, 'cl, 'cfg, 't) coaster_state, ('cb, 'z) world_scheme, 'cb)
        turbine_executor) registry \<Rightarrow>
      (turbine_code \<times> ('r, ('set coaster_context, ('set, 'cl, 'cfg, 't) coaster_state,
        ('cb, 'z) world_scheme, 'cb) turbine_executor) registry) res" where
  "coaster_executor_register TR T K g =
     tcl_check (turbine_add_async_exec TR (init_coaster_executor T K) g) (\<lambda>(tc, g).
       if tc \<noteq> TURBINE_SUCCESS then Inr (TURBINE_ERROR_EXTERNAL, g) else Inr (TURBINE_SUCCESS, g))"

section \<open>The contract\<close>

text \<open>
  What the executor relies on in the client library: \<open>out\<close> is the set of ids of the jobs
  outstanding in a client. A submitted job gets a fresh id; a check returns outstanding
  jobs, each once and at most as many as asked for, at least one when it waits and any is
  outstanding; freeing a job disturbs no other.
\<close>

definition coaster_ok ::
    "('z, 'set, 'cl, 'cfg, 'job) coaster_api \<Rightarrow> ('cl \<Rightarrow> 'z \<Rightarrow> int set) \<Rightarrow> bool" where
  "coaster_ok K out \<longleftrightarrow>
     (\<forall>cl cfg j z z'. submit K cl cfg j z = (COASTER_SUCCESS, z') \<longrightarrow>
        job_get_id K j z' \<notin> out cl z \<and> out cl z' = insert (job_get_id K j z') (out cl z)) \<and>
     (\<forall>cl b n z js z'. 1 \<le> n \<longrightarrow> check_jobs K cl b n z = (COASTER_SUCCESS, js, z') \<longrightarrow>
        int (length js) \<le> n \<and> distinct (map (\<lambda>j. job_get_id K j z') js) \<and>
        (\<lambda>j. job_get_id K j z') ` set js \<subseteq> out cl z \<and>
        out cl z' = out cl z - (\<lambda>j. job_get_id K j z') ` set js \<and>
        (b \<and> out cl z \<noteq> {} \<longrightarrow> js \<noteq> [])) \<and>
     (\<forall>j z z'. job_free K j z = (COASTER_SUCCESS, z') \<longrightarrow>
        (\<forall>cl. out cl z' = out cl z) \<and> (\<forall>j'. j' \<noteq> j \<longrightarrow> job_get_id K j' z' = job_get_id K j' z))"

lemma coaster_okD:
  assumes "coaster_ok K out"
  shows "submit K cl cfg j z = (COASTER_SUCCESS, z') \<Longrightarrow>
      job_get_id K j z' \<notin> out cl z \<and> out cl z' = insert (job_get_id K j z') (out cl z)"
    "1 \<le> n \<Longrightarrow> check_jobs K cl b n z = (COASTER_SUCCESS, js, z') \<Longrightarrow>
        int (length js) \<le> n \<and> distinct (map (\<lambda>j. job_get_id K j z') js) \<and>
        (\<lambda>j. job_get_id K j z') ` set js \<subseteq> out cl z \<and>
        out cl z' = out cl z - (\<lambda>j. job_get_id K j z') ` set js \<and>
        (b \<and> out cl z \<noteq> {} \<longrightarrow> js \<noteq> [])"
    "job_free K j z = (COASTER_SUCCESS, z') \<Longrightarrow>
        out cl z' = out cl z \<and> (\<forall>j'. j' \<noteq> j \<longrightarrow> job_get_id K j' z' = job_get_id K j' z)"
proof -
  note ok = assms [unfolded coaster_ok_def]
  show "submit K cl cfg j z = (COASTER_SUCCESS, z') \<Longrightarrow>
      job_get_id K j z' \<notin> out cl z \<and> out cl z' = insert (job_get_id K j z') (out cl z)"
    using ok [THEN conjunct1] by blast
  show "int (length js) \<le> n \<and> distinct (map (\<lambda>j. job_get_id K j z') js) \<and>
        (\<lambda>j. job_get_id K j z') ` set js \<subseteq> out cl z \<and>
        out cl z' = out cl z - (\<lambda>j. job_get_id K j z') ` set js \<and>
        (b \<and> out cl z \<noteq> {} \<longrightarrow> js \<noteq> [])"
    if "1 \<le> n" "check_jobs K cl b n z = (COASTER_SUCCESS, js, z')"
    by (rule ok [THEN conjunct2, THEN conjunct1, rule_format, OF that])
  show "job_free K j z = (COASTER_SUCCESS, z') \<Longrightarrow>
        out cl z' = out cl z \<and> (\<forall>j'. j' \<noteq> j \<longrightarrow> job_get_id K j' z' = job_get_id K j' z)"
    using ok [THEN conjunct2, THEN conjunct2] by blast
qed

definition callbacks_of :: "('t, 'cb, 'job) task_table \<Rightarrow> 't \<Rightarrow> 'cb turbine_task_callbacks multiset" where
  "callbacks_of T t = image_mset (\<lambda>i. a_callbacks (the (tbl_search T t i))) (mset_set (dom (tbl_search T t)))"

definition coaster_active ::
    "('t, 'cb, 'job) task_table \<Rightarrow> ('set, 'cl, 'cfg, 't) coaster_state \<Rightarrow>
      'cb turbine_task_callbacks multiset" where
  "coaster_active T s = callbacks_of T (c_active s)"

definition coaster_sync ::
    "('t, 'cb, 'job) task_table \<Rightarrow> ('z, 'set, 'cl, 'cfg, 'job) coaster_api \<Rightarrow>
      ('cl \<Rightarrow> 'z \<Rightarrow> int set) \<Rightarrow> ('set, 'cl, 'cfg, 't) coaster_state \<Rightarrow> 'z \<Rightarrow> bool" where
  "coaster_sync T K out s z \<longleftrightarrow> coaster_ok K out \<and> table_ok T \<and> c_config s \<noteq> None \<and>
     dom (tbl_search T (c_active s)) = out (c_client s) z"

definition coaster_inv ::
    "('t, 'cb, 'job) task_table \<Rightarrow> ('z, 'set, 'cl, 'cfg, 'job) coaster_api \<Rightarrow>
      ('cl \<Rightarrow> 'z \<Rightarrow> int set) \<Rightarrow> ('set, 'cl, 'cfg, 't) coaster_state \<Rightarrow> 'z \<Rightarrow> bool" where
  "coaster_inv T K out s z \<longleftrightarrow> coaster_sync T K out s z \<and>
     used (c_slots s) = int (card (dom (tbl_search T (c_active s)))) \<and>
     used (c_slots s) \<le> total (c_slots s)"

lemma size_callbacks_of: "size (callbacks_of T t) = card (dom (tbl_search T t))"
  by (simp add: callbacks_of_def)

lemma callbacks_of_remove:
  assumes "table_ok T" "tbl_search T t k = Some v" "tbl_search T t' = (tbl_search T t)(k := None)"
  shows "callbacks_of T t = add_mset (a_callbacks v) (callbacks_of T t')"
proof -
  have fin: "finite (dom (tbl_search T t))" by (rule table_okD(2) [OF assms(1)])
  have "mset_set (dom (tbl_search T t)) = add_mset k (mset_set (dom (tbl_search T t) - {k}))"
    using fin assms(2) by (intro mset_set.remove) auto
  moreover have "image_mset (\<lambda>i. a_callbacks (the (tbl_search T t i))) (mset_set (dom (tbl_search T t) - {k})) =
      image_mset (\<lambda>i. a_callbacks (the (tbl_search T t' i))) (mset_set (dom (tbl_search T t) - {k}))"
    using fin by (intro image_mset_cong) (simp add: assms(3))
  ultimately show ?thesis using assms by (simp add: callbacks_of_def)
qed

lemma callbacks_of_add:
  assumes "table_ok T" "tbl_search T t k = None"
  shows "callbacks_of T (tbl_add T t k v) = add_mset (a_callbacks v) (callbacks_of T t)"
proof (rule callbacks_of_remove [OF assms(1)])
  note add = table_okD(4) [OF assms, of v]
  show "tbl_search T (tbl_add T t k v) k = Some v" by (simp add: add)
  show "tbl_search T t = (tbl_search T (tbl_add T t k v))(k := None)"
    using assms(2) by (simp add: add fun_eq_iff)
qed

definition jobs_done ::
    "('t, 'cb, 'job) task_table \<Rightarrow> ('cl \<Rightarrow> 'z \<Rightarrow> int set) \<Rightarrow> int set \<Rightarrow>
      'cb turbine_completed_task list \<Rightarrow> ('set, 'cl, 'cfg, 't) coaster_state \<Rightarrow> ('cb, 'z) world_scheme \<Rightarrow>
      'cb turbine_completed_task list \<Rightarrow> ('set, 'cl, 'cfg, 't) coaster_state \<Rightarrow> ('cb, 'z) world_scheme \<Rightarrow>
      bool" where
  "jobs_done T out ids cs s w cs' s' w' \<longleftrightarrow>
     (\<exists>comps. cs' = cs @ comps \<and>
        coaster_active T s = mset (map callbacks comps) + coaster_active T s') \<and>
     dom (tbl_search T (c_active s')) = dom (tbl_search T (c_active s)) - ids \<and>
     c_slots s' = c_slots s \<and> c_client s' = c_client s \<and> c_config s' = c_config s \<and>
     out (c_client s) (world.more w') = out (c_client s) (world.more w) \<and> refs w' = refs w"

lemma jobs_done_none: "jobs_done T out {} cs s w cs s w"
  by (simp add: jobs_done_def)

lemma jobs_done_trans:
  assumes "jobs_done T out I cs s w cs1 s1 w1" "jobs_done T out J cs1 s1 w1 cs2 s2 w2"
  shows "jobs_done T out (I \<union> J) cs s w cs2 s2 w2"
proof -
  from assms obtain a b where ab: "cs1 = cs @ a" "cs2 = cs1 @ b"
    "coaster_active T s = mset (map callbacks a) + coaster_active T s1"
    "coaster_active T s1 = mset (map callbacks b) + coaster_active T s2"
    by (auto simp: jobs_done_def)
  then have "cs2 = cs @ (a @ b) \<and>
      coaster_active T s = mset (map callbacks (a @ b)) + coaster_active T s2" by simp
  then show ?thesis using assms by (auto simp: jobs_done_def)
qed

text \<open>One job: either a call of the client fails, or the run goes on with the remaining jobs.\<close>

lemma finish_job:
  assumes ok: "coaster_ok K out" and T: "table_ok T"
    and act: "job_get_id K j (world.more w) \<in> dom (tbl_search T (c_active s))"
  obtains (failed) ec s' w' where "ec \<noteq> EXEC_SUCCESS"
      "finish_jobs T K (j # jobs) cs s w = Inr (ec, cs, s', w')"
  | (finished) c s' w' where
      "finish_jobs T K (j # jobs) cs s w = finish_jobs T K jobs (cs @ [c]) s' w'"
      "jobs_done T out {job_get_id K j (world.more w)} cs s w (cs @ [c]) s' w'"
      "\<And>j'. j' \<noteq> j \<Longrightarrow> job_get_id K j' (world.more w') = job_get_id K j' (world.more w)"
proof -
  from act obtain task where
    task: "tbl_search T (c_active s) (job_get_id K j (world.more w)) = Some task" by auto
  from table_ok_remove [OF T this] obtain t where
    t: "tbl_remove T (c_active s) (job_get_id K j (world.more w)) = Some (task, t)"
      "tbl_search T t = (tbl_search T (c_active s))(job_get_id K j (world.more w) := None)" by blast
  obtain crc status crc' z where st: "job_get_status K j (world.more w) = (crc, status)"
    and fr: "job_free K j (world.more w) = (crc', z)" by (metis prod.exhaust)
  show thesis
  proof (cases "crc = COASTER_SUCCESS \<and> crc' = COASTER_SUCCESS")
    case False
    then obtain s' w' where "finish_jobs T K (j # jobs) cs s w = Inr (EXEC_OTHER, cs, s', w')"
      using t st fr by (cases "crc = COASTER_SUCCESS") (simp_all add: Let_def)
    then show thesis by (rule failed [rotated]) simp
  next
    case True
    let ?c = "\<lparr>success = (st_code status = status_completed K), callbacks = a_callbacks task,
      vars = [\<lparr>var_name = ''coaster_task_result'', free_name = False, var_val = result_dict K status\<rparr>]\<rparr>"
    let ?s = "s\<lparr>c_active := t\<rparr>"
    note free = coaster_okD(3) [OF ok fr [unfolded True [THEN conjunct2]]]
    have "coaster_active T s = add_mset (a_callbacks task) (coaster_active T ?s)"
      unfolding coaster_active_def using callbacks_of_remove [OF T task] t(2) by simp
    then have one: "jobs_done T out {job_get_id K j (world.more w)} cs s w (cs @ [?c]) ?s (set_more w z)"
      using free by (auto simp: jobs_done_def t(2))
    have "finish_jobs T K (j # jobs) cs s w = finish_jobs T K jobs (cs @ [?c]) ?s (set_more w z)"
      using True t(1) st fr by (simp add: Let_def)
    from this one show thesis by (rule finished) (use free in simp)
  qed
qed

lemma finish_jobs_ok:
  assumes ok: "coaster_ok K out" and T: "table_ok T"
    and ids: "distinct (map (\<lambda>j. job_get_id K j (world.more w)) jobs)"
      "(\<lambda>j. job_get_id K j (world.more w)) ` set jobs \<subseteq> dom (tbl_search T (c_active s))"
  shows "\<exists>ec cs' s' w'. finish_jobs T K jobs cs s w = Inr (ec, cs', s', w') \<and>
    (ec = EXEC_SUCCESS \<longrightarrow>
       jobs_done T out ((\<lambda>j. job_get_id K j (world.more w)) ` set jobs) cs s w cs' s' w')"
  using ids
proof (induction jobs arbitrary: cs s w)
  case Nil
  then show ?case by (simp add: jobs_done_none)
next
  case (Cons j jobs)
  have "job_get_id K j (world.more w) \<in> dom (tbl_search T (c_active s))" using Cons.prems(2) by auto
  from ok T this show ?case
  proof (cases rule: finish_job [where jobs = jobs and cs = cs])
    case (failed ec s' w')
    then show ?thesis by simp
  next
    case (finished c s1 w1)
    have keep: "map (\<lambda>j. job_get_id K j (world.more w1)) jobs = map (\<lambda>j. job_get_id K j (world.more w)) jobs"
      using Cons.prems(1) by (auto intro!: finished(3))
    then have ids: "(\<lambda>j. job_get_id K j (world.more w1)) ` set jobs =
        (\<lambda>j. job_get_id K j (world.more w)) ` set jobs" by (metis list.set_map)
    have dist: "distinct (map (\<lambda>j. job_get_id K j (world.more w1)) jobs)"
      unfolding keep using Cons.prems(1) by simp
    have sub: "(\<lambda>j. job_get_id K j (world.more w1)) ` set jobs \<subseteq> dom (tbl_search T (c_active s1))"
    proof -
      have "job_get_id K j (world.more w) \<notin> (\<lambda>j. job_get_id K j (world.more w)) ` set jobs"
        using Cons.prems(1) by simp
      moreover have "dom (tbl_search T (c_active s1)) =
          dom (tbl_search T (c_active s)) - {job_get_id K j (world.more w)}"
        using finished(2) by (simp add: jobs_done_def)
      ultimately show ?thesis using Cons.prems(2) unfolding ids by simp blast
    qed
    from Cons.IH [OF dist sub, of "cs @ [c]"] obtain ec cs' s' w' where
      run: "finish_jobs T K jobs (cs @ [c]) s1 w1 = Inr (ec, cs', s', w')"
      and post: "ec = EXEC_SUCCESS \<longrightarrow> jobs_done T out
        ((\<lambda>j. job_get_id K j (world.more w)) ` set jobs) (cs @ [c]) s1 w1 cs' s' w'"
      unfolding ids by (elim exE conjE)
    have "ec = EXEC_SUCCESS \<longrightarrow> jobs_done T out
        ((\<lambda>j. job_get_id K j (world.more w)) ` set (j # jobs)) cs s w cs' s' w'"
      using post jobs_done_trans [OF finished(2)] by auto
    then show ?thesis unfolding finished(1) run by blast
  qed
qed

text \<open>
  One round of the loop: it fails, or it is the last one, or the loop goes on with \<^verbatim>\<open>wait\<close>
  cleared.
\<close>

lemma check_round:
  assumes sync: "coaster_sync T K out s (world.more w)" and lt: "int (length cs) < n"
  obtains (failed) ec cs' s' w' where "ec \<noteq> EXEC_SUCCESS"
      "check_loop T K n wait cs s w = Inr (ec, cs', s', w')"
  | (round) comps s' w' where
      "coaster_sync T K out s' (world.more w')" "int (length (cs @ comps)) \<le> n"
      "coaster_active T s = mset (map callbacks comps) + coaster_active T s'"
      "wait \<and> coaster_active T s \<noteq> {#} \<longrightarrow> comps \<noteq> []" "c_slots s' = c_slots s" "refs w' = refs w"
      "check_loop T K n wait cs s w = Inr (EXEC_SUCCESS, cs @ comps, s', w') \<or>
       comps \<noteq> [] \<and> check_loop T K n wait cs s w = check_loop T K n False (cs @ comps) s' w'"
proof -
  note start = check_loop.simps [of T K n wait cs s w]
  have ok: "coaster_ok K out" and T: "table_ok T"
    and dom: "dom (tbl_search T (c_active s)) = out (c_client s) (world.more w)"
    using sync by (simp_all add: coaster_sync_def)
  define m where "m = min (n - int (length cs)) 32"
  have m: "1 \<le> m" "m \<le> n - int (length cs)" using lt by (simp_all add: m_def)
  obtain crc jobs z where cj: "check_jobs K (c_client s) wait m (world.more w) = (crc, jobs, z)"
    by (cases "check_jobs K (c_client s) wait m (world.more w)") auto
  show thesis
  proof (cases "crc = COASTER_SUCCESS")
    case False
    then show thesis using lt cj by (intro failed [of EXEC_OTHER cs]) (simp_all add: start m_def [symmetric] Let_def)
  next
    case c: True
    note J = coaster_okD(2) [OF ok m(1) cj [unfolded c]]
    have "distinct (map (\<lambda>j. job_get_id K j (world.more (set_more w z))) jobs)"
      "(\<lambda>j. job_get_id K j (world.more (set_more w z))) ` set jobs \<subseteq> dom (tbl_search T (c_active s))"
      using J unfolding dom by simp_all
    from finish_jobs_ok [OF ok T this, of cs] obtain ec cs1 s1 w1 where
      f: "finish_jobs T K jobs cs s (set_more w z) = Inr (ec, cs1, s1, w1)" and
      post: "ec = EXEC_SUCCESS \<longrightarrow>
        jobs_done T out ((\<lambda>j. job_get_id K j z) ` set jobs) cs s (set_more w z) cs1 s1 w1" by auto
    show thesis
    proof (cases "ec = EXEC_SUCCESS")
      case False
      then show thesis using lt cj c f by (intro failed [of ec cs1]) (simp_all add: start m_def [symmetric] Let_def)
    next
      case e: True
      from post e obtain comps where comps: "cs1 = cs @ comps"
        "coaster_active T s = mset (map callbacks comps) + coaster_active T s1"
        by (auto simp: jobs_done_def)
      have len: "length comps = length jobs" using finish_jobs_length f e comps(1) by fastforce
      have "coaster_sync T K out s1 (world.more w1)"
        using sync post e J dom by (auto simp: coaster_sync_def jobs_done_def)
      moreover have "coaster_active T s \<noteq> {#} \<longrightarrow> out (c_client s) (world.more w) \<noteq> {}"
        unfolding dom [symmetric] coaster_active_def callbacks_of_def by auto
      then have "wait \<and> coaster_active T s \<noteq> {#} \<longrightarrow> comps \<noteq> []" using J len by auto
      moreover have "check_loop T K n wait cs s w = Inr (EXEC_SUCCESS, cs @ comps, s1, w1) \<or>
          comps \<noteq> [] \<and> check_loop T K n wait cs s w = check_loop T K n False (cs @ comps) s1 w1"
        using lt cj c f e comps(1) len m(1) by (auto simp: start m_def [symmetric] Let_def)
      ultimately show thesis using comps len J m(2) post e
        by (intro round [of s1 w1 comps]) (auto simp: jobs_done_def)
    qed
  qed
qed

lemma check_loop_ok:
  assumes "coaster_sync T K out s (world.more w)"
  shows "\<exists>ec cs' s' w'. check_loop T K n wait cs s w = Inr (ec, cs', s', w') \<and>
    (ec = EXEC_SUCCESS \<longrightarrow> coaster_sync T K out s' (world.more w') \<and>
       (\<exists>comps. cs' = cs @ comps \<and>
          coaster_active T s = mset (map callbacks comps) + coaster_active T s' \<and>
          (wait \<and> int (length cs) < n \<and> coaster_active T s \<noteq> {#} \<longrightarrow> comps \<noteq> [])) \<and>
       (int (length cs) \<le> n \<longrightarrow> int (length cs') \<le> n) \<and> c_slots s' = c_slots s \<and> refs w' = refs w)"
  using assms
proof (induction "nat (n - int (length cs))" arbitrary: cs s w wait rule: less_induct)
  case less
  show ?case
  proof (cases "int (length cs) < n")
    case False
    then show ?thesis using less.prems by (simp add: check_loop.simps [of T K n wait cs s w])
  next
    case True
    from less.prems True show ?thesis
    proof (cases rule: check_round [where wait = wait])
      case (failed ec cs' s' w')
      then show ?thesis by simp
    next
      case (round comps s1 w1)
      note keep = round(2-6)
      from round(7) show ?thesis
      proof
        assume "check_loop T K n wait cs s w = Inr (EXEC_SUCCESS, cs @ comps, s1, w1)"
        then show ?thesis using round(1) keep by auto
      next
        assume more: "comps \<noteq> [] \<and> check_loop T K n wait cs s w = check_loop T K n False (cs @ comps) s1 w1"
        then have "nat (n - int (length (cs @ comps))) < nat (n - int (length cs))" using True by simp
        from less.hyps [OF this round(1), of False] more keep show ?thesis by fastforce
      qed
    qed
  qed
qed

lemma check_completed_ok:
  assumes inv: "coaster_inv T K out s (world.more w)" and n: "1 \<le> n"
  shows "\<exists>ec cs s' w'. check_completed T K n wait s w = Inr (ec, cs, s', w') \<and>
    (ec = EXEC_SUCCESS \<longrightarrow> coaster_inv T K out s' (world.more w') \<and>
       total (c_slots s') = total (c_slots s) \<and>
       coaster_active T s = mset (map callbacks cs) + coaster_active T s' \<and> int (length cs) \<le> n \<and>
       refs w' = refs w \<and> (wait \<and> coaster_active T s \<noteq> {#} \<longrightarrow> cs \<noteq> []))"
proof -
  have sync: "coaster_sync T K out s (world.more w)" using inv by (simp add: coaster_inv_def)
  from check_loop_ok [OF sync, of n wait "[]"] obtain ec cs s' w' where
    run: "check_loop T K n wait [] s w = Inr (ec, cs, s', w')" and
    post: "ec = EXEC_SUCCESS \<longrightarrow> coaster_sync T K out s' (world.more w') \<and>
       (\<exists>comps. cs = [] @ comps \<and>
          coaster_active T s = mset (map callbacks comps) + coaster_active T s' \<and>
          (wait \<and> int (length ([] :: 'b turbine_completed_task list)) < n \<and> coaster_active T s \<noteq> {#} \<longrightarrow> comps \<noteq> [])) \<and>
       (int (length ([] :: 'b turbine_completed_task list)) \<le> n \<longrightarrow> int (length cs) \<le> n) \<and>
       c_slots s' = c_slots s \<and> refs w' = refs w" by blast
  show ?thesis
  proof (cases "ec = EXEC_SUCCESS")
    case False
    then show ?thesis using run n by (simp add: check_completed_def)
  next
    case True
    let ?s = "s'\<lparr>c_slots := (c_slots s')\<lparr>used := used (c_slots s') - int (length cs)\<rparr>\<rparr>"
    note post = post [rule_format, OF True]
    from post obtain comps where c: "cs = [] @ comps"
      "coaster_active T s = mset (map callbacks comps) + coaster_active T s'"
      "wait \<and> int (length ([] :: 'b turbine_completed_task list)) < n \<and> coaster_active T s \<noteq> {#} \<longrightarrow> comps \<noteq> []"
      by blast
    have act: "coaster_active T s = mset (map callbacks cs) + coaster_active T s'"
      and ne: "wait \<and> coaster_active T s \<noteq> {#} \<longrightarrow> cs \<noteq> []" using c n by simp_all
    have "card (dom (tbl_search T (c_active s))) = length cs + card (dom (tbl_search T (c_active s')))"
      using arg_cong [OF act, of size] by (simp add: coaster_active_def size_callbacks_of)
    then have "coaster_inv T K out ?s (world.more w')"
      using inv post by (simp add: coaster_inv_def coaster_sync_def)
    moreover have "coaster_active T ?s = coaster_active T s'" by (simp add: coaster_active_def)
    ultimately show ?thesis using run n True act ne post
      by (simp add: check_completed_def)
  qed
qed

lemma coaster_execute_ok:
  assumes inv: "coaster_inv T K out s (world.more w)" and room: "used (c_slots s) < total (c_slots s)"
  shows "\<exists>tc s' w'. coaster_execute T K job cbs s w = Inr (tc, s', w') \<and>
    (tc = TURBINE_SUCCESS \<longrightarrow> coaster_inv T K out s' (world.more w') \<and>
       total (c_slots s') = total (c_slots s) \<and> coaster_active T s' = add_mset cbs (coaster_active T s) \<and>
       refs w' = (\<lambda>c. refs w c + cb_refs cbs c))"
proof -
  have ok: "coaster_ok K out" and T: "table_ok T" and cfg: "c_config s \<noteq> None"
    and sync: "dom (tbl_search T (c_active s)) = out (c_client s) (world.more w)"
    using inv by (simp_all add: coaster_inv_def coaster_sync_def)
  obtain c where c: "c_config s = Some c" using cfg by blast
  obtain crc z where sub: "submit K (c_client s) c job (world.more w) = (crc, z)"
    by (cases "submit K (c_client s) c job (world.more w)")
  show ?thesis
  proof (cases "crc = COASTER_SUCCESS")
    case False
    then show ?thesis using room c sub by (simp add: coaster_execute_def Let_def)
  next
    case True
    let ?id = "job_get_id K job z" and ?task = "\<lparr>a_callbacks = cbs, a_job = job\<rparr>"
    note S = coaster_okD(1) [OF ok sub [unfolded True]]
    let ?s = "s\<lparr>c_slots := (c_slots s)\<lparr>used := used (c_slots s) + 1\<rparr>,
      c_active := tbl_add T (c_active s) ?id ?task\<rparr>"
    let ?w = "Tcl_IncrRefCount (cb_failure cbs) (Tcl_IncrRefCount (cb_success cbs) (set_more w z))"
    have new: "tbl_search T (c_active s) ?id = None" using S sync by blast
    have act: "coaster_active T ?s = add_mset cbs (coaster_active T s)"
      unfolding coaster_active_def by (simp add: callbacks_of_add [OF T new])
    have dom: "dom (tbl_search T (tbl_add T (c_active s) ?id ?task)) = insert ?id (dom (tbl_search T (c_active s)))"
      by (simp add: table_okD(4) [OF T new])
    have "coaster_execute T K job cbs s w = Inr (TURBINE_SUCCESS, ?s, ?w)"
      using room c sub True by (simp add: coaster_execute_def Let_def)
    moreover have "coaster_inv T K out ?s (world.more ?w)"
      using inv S room dom new table_okD(2) [OF T, of "c_active s"]
      by (simp add: coaster_inv_def coaster_sync_def domIff)
    ultimately show ?thesis using act by (intro exI [of _ TURBINE_SUCCESS] exI [of _ ?s] exI [of _ ?w]) simp
  qed
qed

text \<open>Both ways to ask for finished tasks keep the invariant and return the tasks they remove.\<close>

lemma coaster_collect_ok:
  assumes inv: "coaster_inv T K out s (world.more w)" and n: "1 \<le> n"
    and run: "(if wait then coaster_wait T K n s w else coaster_poll T K n s w) = Inr (EXEC_SUCCESS, cs, s', w')"
  shows "coaster_inv T K out s' (world.more w') \<and> total (c_slots s') = total (c_slots s) \<and>
    coaster_active T s = mset (map callbacks cs) + coaster_active T s' \<and> int (length cs) \<le> n \<and>
    refs w' = refs w \<and> (wait \<and> coaster_active T s \<noteq> {#} \<longrightarrow> cs \<noteq> [])"
proof (cases "check_completed T K n wait s w = Inr (EXEC_SUCCESS, cs, s', w')")
  case True
  then show ?thesis using check_completed_ok [OF inv n, of wait] by fastforce
next
  case False
  then have "\<not> wait" "cs = []" "s' = s" "w' = w"
    using run by (auto simp: coaster_wait_def coaster_poll_def split: if_splits)
  then show ?thesis using inv n by simp
qed

lemma coaster_poll_ok:
  assumes "coaster_inv T K out s (world.more w)" "1 \<le> n"
    "coaster_poll T K n s w = Inr (EXEC_SUCCESS, cs, s', w')"
  shows "coaster_inv T K out s' (world.more w') \<and> total (c_slots s') = total (c_slots s) \<and>
    coaster_active T s = mset (map callbacks cs) + coaster_active T s' \<and> int (length cs) \<le> n \<and>
    refs w' = refs w"
  by (rule coaster_collect_ok [where wait = False, OF assms(1,2), unfolded if_False simp_thms, OF assms(3)])

lemma coaster_wait_ok:
  assumes "coaster_inv T K out s (world.more w)" "1 \<le> n"
    "coaster_wait T K n s w = Inr (EXEC_SUCCESS, cs, s', w')"
  shows "coaster_inv T K out s' (world.more w') \<and> total (c_slots s') = total (c_slots s) \<and>
    coaster_active T s = mset (map callbacks cs) + coaster_active T s' \<and> int (length cs) \<le> n \<and>
    refs w' = refs w \<and> (coaster_active T s \<noteq> {#} \<longrightarrow> cs \<noteq> [])"
  by (rule coaster_collect_ok [where wait = True, OF assms(1,2), unfolded if_True simp_thms, OF assms(3)])

lemma coaster_collect_no_fault:
  assumes inv: "coaster_inv T K out s (world.more w)" and n: "1 \<le> n"
  shows "coaster_wait T K n s w \<noteq> Inl f" "coaster_poll T K n s w \<noteq> Inl f"
proof -
  have "check_completed T K n wait s w \<noteq> Inl f" for wait
    using check_completed_ok [OF inv n, of wait] by (elim exE conjE) simp
  then show "coaster_wait T K n s w \<noteq> Inl f" "coaster_poll T K n s w \<noteq> Inl f"
    by (simp_all add: coaster_wait_def coaster_poll_def)
qed

interpretation coaster: executor "init_coaster_executor T K" "coaster_execute T K" "coaster_inv T K out"
  "coaster_active T" for T :: "('t, 'cb, 'job) task_table"
    and K :: "('z, 'set, 'cl, 'cfg, 'job) coaster_api" and out
proof unfold_locales
  fix s z
  assume inv: "coaster_inv T K out s z"
  show "fst (exec_slots (init_coaster_executor T K) s) = EXEC_SUCCESS"
    by (simp add: init_coaster_executor_def coaster_slots_def)
  show "used (slots_of (init_coaster_executor T K) s) = int (size (coaster_active T s))"
    using inv by (simp add: init_coaster_executor_def coaster_slots_def coaster_inv_def
        coaster_active_def size_callbacks_of)
  show "used (slots_of (init_coaster_executor T K) s) \<le> total (slots_of (init_coaster_executor T K) s)"
    using inv by (simp add: init_coaster_executor_def coaster_slots_def coaster_inv_def)
next
  fix s and w :: "('cb, 'z) world_scheme" and n f cs s' w'
  assume inv: "coaster_inv T K out s (world.more w)" and n: "1 \<le> (n::int)"
  have ex: "exec_poll (init_coaster_executor T K) n s w = coaster_poll T K n s w"
    "exec_wait (init_coaster_executor T K) n s w = coaster_wait T K n s w"
    "\<And>s. slots_of (init_coaster_executor T K) s = c_slots s"
    by (simp_all add: init_coaster_executor_def coaster_slots_def)
  show "f = Unfinished" if "exec_poll (init_coaster_executor T K) n s w = Inl f"
    using that coaster_collect_no_fault [OF inv n] by (simp add: ex)
  show "f = Unfinished" if "exec_wait (init_coaster_executor T K) n s w = Inl f"
    using that coaster_collect_no_fault [OF inv n] by (simp add: ex)
  show "coaster_inv T K out s' (world.more w') \<and>
      total (slots_of (init_coaster_executor T K) s') = total (slots_of (init_coaster_executor T K) s) \<and>
      coaster_active T s = mset (map callbacks cs) + coaster_active T s' \<and> int (length cs) \<le> n \<and> refs w' = refs w"
    if "exec_poll (init_coaster_executor T K) n s w = Inr (EXEC_SUCCESS, cs, s', w')"
    unfolding ex(3) by (rule coaster_poll_ok [OF inv n that [unfolded ex]])
  show "coaster_inv T K out s' (world.more w') \<and>
      total (slots_of (init_coaster_executor T K) s') = total (slots_of (init_coaster_executor T K) s) \<and>
      coaster_active T s = mset (map callbacks cs) + coaster_active T s' \<and> int (length cs) \<le> n \<and>
      refs w' = refs w \<and> (coaster_active T s \<noteq> {#} \<longrightarrow> cs \<noteq> [])"
    if "exec_wait (init_coaster_executor T K) n s w = Inr (EXEC_SUCCESS, cs, s', w')"
    unfolding ex(3) by (rule coaster_wait_ok [OF inv n that [unfolded ex]])
next
  fix s and w :: "('cb, 'z) world_scheme" and work cbs
  assume inv: "coaster_inv T K out s (world.more w)"
    and room: "used (slots_of (init_coaster_executor T K) s) < total (slots_of (init_coaster_executor T K) s)"
  then have "used (c_slots s) < total (c_slots s)"
    by (simp add: init_coaster_executor_def coaster_slots_def)
  from coaster_execute_ok [OF inv this, of work cbs]
  show "\<exists>tc s' w'. coaster_execute T K work cbs s w = Inr (tc, s', w') \<and>
      (tc = TURBINE_SUCCESS \<longrightarrow> coaster_inv T K out s' (world.more w') \<and>
        total (slots_of (init_coaster_executor T K) s') = total (slots_of (init_coaster_executor T K) s) \<and>
        coaster_active T s' = add_mset cbs (coaster_active T s) \<and> refs w' = (\<lambda>c. refs w c + cb_refs cbs c))"
    by (simp add: init_coaster_executor_def coaster_slots_def)
qed

section \<open>Properties\<close>

text \<open>
  C4: The worker loop never overfills the Coaster executor either, and never looks up a
  finished job it has no task for: as long as the client library keeps its contract and
  every command launches at most one job, no assertion fails and nothing undefined is
  done, whatever the client and ADLB answer, errors included.
\<close>

theorem coaster_loop_never_faults:
  fixes w :: "('cb, 'z) world_scheme"
  assumes A: "adlb_get_ok (coaster_inv T K out) A"
    and I: "scripts_ok (coaster_inv T K out) (coaster_execute T K) I"
    and inv: "coaster_inv T K out s (world.more w)"
    and bufs: "1 \<le> n" "n \<le> length bufs"
    and run: "loop_run fuel I A (init_coaster_executor T K) ty (init_reqs bufs n) s w = Inl f"
  shows "f = Unfinished"
  by (rule coaster.loop_run_safe [OF A I coaster.ready_init [OF inv bufs] run])

text \<open>A client whose jobs are integers, their own ids, and finish in order of submission.\<close>

definition fifo_client :: "(int list, unit, unit, unit, int) coaster_api" where
  "fifo_client = \<lparr>
     settings_create = (COASTER_SUCCESS, ()), settings_parse = (\<lambda>s c d. (COASTER_SUCCESS, s)),
     settings_get = (\<lambda>s k. (COASTER_SUCCESS, None)), settings_remove = (\<lambda>s k. (COASTER_SUCCESS, s)),
     client_start = (\<lambda>u z. (COASTER_SUCCESS, (), z)), apply_settings = (\<lambda>c s z. (COASTER_SUCCESS, (), z)),
     client_stop = (\<lambda>c z. (COASTER_SUCCESS, z)), config_id_free = (\<lambda>c z. (COASTER_SUCCESS, z)),
     submit = (\<lambda>cl cfg j z. if j \<in> set z then (COASTER_ERROR_OTHER, z) else (COASTER_SUCCESS, z @ [j])),
     job_get_id = (\<lambda>j z. j),
     check_jobs = (\<lambda>cl b n z. (COASTER_SUCCESS, take (nat n) (remdups z),
        filter (\<lambda>j. j \<notin> set (take (nat n) (remdups z))) z)),
     job_get_status = (\<lambda>j z. (COASTER_SUCCESS,
        \<lparr>st_code = 7, st_timestamp = j, st_message = None, st_exception = None\<rparr>)),
     job_free = (\<lambda>j z. (COASTER_SUCCESS, z)), status_completed = 7\<rparr>"

lemma fifo_client_ok: "coaster_ok fifo_client (\<lambda>cl. set)"
  unfolding coaster_ok_def
proof (intro conjI allI impI)
  fix cl b n js and z z' :: "int list"
  assume n: "(1::int) \<le> n" and c: "check_jobs fifo_client cl b n z = (COASTER_SUCCESS, js, z')"
  then have js: "js = take (nat n) (remdups z)" and z': "z' = filter (\<lambda>j. j \<notin> set js) z"
    by (auto simp: fifo_client_def)
  show "int (length js) \<le> n" using n by (simp add: js)
  show "distinct (map (\<lambda>j. job_get_id fifo_client j z') js)"
    by (simp add: fifo_client_def js)
  show "(\<lambda>j. job_get_id fifo_client j z') ` set js \<subseteq> set z"
    using set_take_subset [of "nat n" "remdups z"] by (simp add: fifo_client_def js)
  show "set z' = set z - (\<lambda>j. job_get_id fifo_client j z') ` set js"
    by (auto simp: fifo_client_def z')
  show "js \<noteq> []" if "b \<and> set z \<noteq> {}" using that n by (simp add: js)
qed (auto simp: fifo_client_def split: if_splits)

definition submit_interp ::
    "((unit, unit, unit, (int \<times> (nat, int) coaster_active_task) list) coaster_state \<times>
      (nat, int list) world_scheme, nat) tcl_interp" where
  "submit_interp = \<lparr>
     eval_work = (\<lambda>c n (s, w). tcl_check
       (coaster_execute al_table fifo_client n \<lparr>cb_success = Some 1, cb_failure = None\<rparr> s w)
       (\<lambda>(tc, s, w). Inr (tc = TURBINE_SUCCESS, s, w))),
     eval_cb = (\<lambda>c (s, w). Inr (True, s, w)),
     set_var = (\<lambda>x v (s, w). (True, s, w)), unset_var = (\<lambda>x (s, w). (True, s, w))\<rparr>"

definition coaster_blank ::
    "(unit, unit, unit, (int \<times> (nat, int) coaster_active_task) list) coaster_state" where
  "coaster_blank = \<lparr>c_context = \<lparr>service_url = ''u'', default_job_manager = None, total_slots = 2,
       settings = ()\<rparr>, c_client = (), c_config = Some (), c_slots = \<lparr>used = 0, total = 2\<rparr>,
     c_active = []\<rparr>"

lemma submit_interp_ok:
  "scripts_ok (coaster_inv al_table fifo_client out) (coaster_execute al_table fifo_client) submit_interp"
proof -
  have "launch_step (coaster_inv al_table fifo_client out) (coaster_execute al_table fifo_client)
      (eval_work submit_interp c n)" for c n
    by (rule launch_stepI [where work = n and cbs = "\<lparr>cb_success = Some 1, cb_failure = None\<rparr>"])
      (simp add: submit_interp_def)
  moreover have "launch_step (coaster_inv al_table fifo_client out) (coaster_execute al_table fifo_client)
      (eval_cb submit_interp c)" for c
    unfolding launch_step_def submit_interp_def by auto
  ultimately show ?thesis by (auto simp: scripts_ok_def submit_interp_def)
qed

definition wait_adlb :: "((nat, int list) world_scheme, nat, string) adlb_get_api" where
  "wait_adlb = \<lparr>
     Amget = (\<lambda>ty n block bufs w. (ADLB_SUCCESS, [0..<n], w)),
     Aget_test = (\<lambda>req w. (ADLB_SHUTDOWN, 3, w)),
     Aget_wait = (\<lambda>req w. (ADLB_SUCCESS, int req + 3, w)), payload = (\<lambda>buf w. buf)\<rparr>"

lemma coaster_loop_never_faults_witness:
  "loop_run 5 submit_interp wait_adlb (init_coaster_executor al_table fifo_client) 1
     (init_reqs [''a'', ''b''] 2) coaster_blank \<lparr>refs = \<lambda>_. 0, \<dots> = []\<rparr> \<noteq> Inl Undefined"
proof
  assume run: "loop_run 5 submit_interp wait_adlb (init_coaster_executor al_table fifo_client) 1
     (init_reqs [''a'', ''b''] 2) coaster_blank \<lparr>refs = \<lambda>_. 0, \<dots> = []\<rparr> = Inl Undefined"
  have A: "adlb_get_ok (coaster_inv al_table fifo_client (\<lambda>cl. set)) wait_adlb"
    by (auto simp: adlb_get_ok_def wait_adlb_def)
  have inv: "coaster_inv al_table fifo_client (\<lambda>cl. set) coaster_blank (world.more \<lparr>refs = \<lambda>_. 0, \<dots> = []\<rparr>)"
    by (simp add: coaster_inv_def coaster_sync_def coaster_blank_def fifo_client_ok)
  from coaster_loop_never_faults [OF A submit_interp_ok inv _ _ run] show False by simp
qed

text \<open>
  The dictionary a callback receives. A completed job reports its message and
  timestamp; for a failed one the exception text replaces the message, which is lost,
  and the status code is added.
\<close>

theorem coaster_result_dict:
  "dict_get (result_dict K st) ''timestamp'' = Some (Tcl_Int (st_timestamp st)) \<and>
   dict_get (result_dict K st) ''message'' = Some (Tcl_Str (case_option [] (\<lambda>m. m)
     (if st_code st = status_completed K then st_message st else st_exception st))) \<and>
   dict_get (result_dict K st) ''status_code'' =
     (if st_code st = status_completed K then None else Some (Tcl_Int (st_code st)))"
  by (simp add: result_dict_def Let_def update_conv)

text \<open>
  A configuration accepted by \<^verbatim>\<open>coaster_configure\<close> has a number of slots that is a
  positive \<^verbatim>\<open>int\<close>: the default, or the whole decimal number given.
\<close>

theorem coaster_configure_slots:
  assumes "coaster_configure K config w = Inr (EXEC_SUCCESS, Some cx, w')"
  shows "1 \<le> total_slots cx \<and> total_slots cx \<le> INT_MAX \<and>
    (total_slots cx = COASTER_DEFAULT_MAX_PARALLELISM \<or>
     (\<exists>sts str. settings_get K sts COASTER_SETTING_SLOTS = (COASTER_SUCCESS, Some str) \<and>
        parse_slots str = Inr (total_slots cx)))"
proof -
  have cfg: "configure_context K config = Inr cx"
    using assms by (auto simp: coaster_configure_def split: sum.splits)
  have default: "1 \<le> COASTER_DEFAULT_MAX_PARALLELISM" "COASTER_DEFAULT_MAX_PARALLELISM \<le> INT_MAX"
    by (simp_all add: COASTER_DEFAULT_MAX_PARALLELISM_def INT_MAX_def)
  have slots: "1 \<le> v \<and> v \<le> INT_MAX" if "parse_slots str = Inr v" for str v
    using that by (auto simp: parse_slots_def split: option.splits if_splits)
  obtain sts where "read_slots K sts = Inr (total_slots cx, settings cx)"
    using cfg unfolding configure_context_def
    by (auto simp: coaster_check_def tcl_check_Inr_conv split: prod.splits if_splits)
  then show ?thesis
    unfolding read_slots_def
    by (cases "settings_get K sts COASTER_SETTING_SLOTS"; cases "settings_remove K sts COASTER_SETTING_SLOTS")
      (auto simp: coaster_check_def tcl_check_Inr_conv default dest: slots
        split: if_splits option.splits)
qed

lemma coaster_configure_slots_witness:
  "\<exists>cx. coaster_configure (fifo_client\<lparr>settings_get := \<lambda>s k. (COASTER_SUCCESS,
      if k = COASTER_SETTING_SLOTS then Some ''42'' else None)\<rparr>) ''maxParallelTasks=42''
      \<lparr>refs = \<lambda>_ :: nat. 0, \<dots> = [] :: int list\<rparr> = Inr (EXEC_SUCCESS, Some cx, \<lparr>refs = \<lambda>_. 0, \<dots> = []\<rparr>) \<and>
      total_slots cx = 42 \<and> 1 \<le> total_slots cx"
proof -
  let ?K = "fifo_client\<lparr>settings_get := \<lambda>s k. (COASTER_SUCCESS,
      if k = COASTER_SETTING_SLOTS then Some ''42'' else None)\<rparr>"
  let ?w = "\<lparr>refs = \<lambda>_ :: nat. 0, \<dots> = [] :: int list\<rparr>"
  have "parse_slots ''42'' = Inr 42"
    by (simp add: parse_slots_def strtol_def strtol_prefix_def isspace_def is_digit_def digit_value_def
        digits_value_def LONG_MAX_def LONG_MIN_def INT_MAX_def)
  then have "coaster_configure ?K ''maxParallelTasks=42'' ?w = Inr (EXEC_SUCCESS,
      Some \<lparr>service_url = COASTER_DEFAULT_SERVICE_URL, default_job_manager = None,
        total_slots = 42, settings = ()\<rparr>, ?w)"
    by (simp add: coaster_configure_def configure_context_def read_slots_def fifo_client_def extract_setting_def
        COASTER_SETTING_SLOTS_def COASTER_SETTING_SERVICE_URL_def COASTER_SETTING_JOB_MANAGER_def)
  from this coaster_configure_slots [OF this] show ?thesis by simp
qed

text \<open>
  When the service refuses the settings, \<^verbatim>\<open>coaster_start\<close> stops the client it has
  started by way of \<^verbatim>\<open>coaster_stop\<close>, which frees a configuration id that was never set.
\<close>

theorem coaster_start_refused:
  assumes "client_start K (service_url cx) (world.more w) = (COASTER_SUCCESS, cl, z)"
    "apply_settings K cl (settings cx) z = (crc, cfg, z')" "crc \<noteq> COASTER_SUCCESS"
    "client_stop K cl z' = (COASTER_SUCCESS, z'')"
  shows "coaster_start T K (Some cx) w = Inl Undefined"
  using assms by (simp add: coaster_start_def coaster_stop_def Let_def)

lemma coaster_start_refused_witness:
  "coaster_start (al_table :: ((int \<times> (nat, int) coaster_active_task) list, int, (nat, int) coaster_active_task) table_api)
     (fifo_client\<lparr>apply_settings := \<lambda>c s z. (COASTER_ERROR_OTHER, (), z)\<rparr>)
     (Some \<lparr>service_url = ''u'', default_job_manager = None, total_slots = 2, settings = ()\<rparr>)
     \<lparr>refs = \<lambda>_. 0, \<dots> = []\<rparr> = Inl Undefined"
  by (rule coaster_start_refused [where crc = COASTER_ERROR_OTHER]) (simp_all add: fifo_client_def)

end
