(* ===== verification/Handles.thy ===== *)
theory Handles
  imports C_Lib
begin

text \<open>
  ADLB handles and subscripts, the last part of \<^verbatim>\<open>src/tcl/adlb/tcl-adlb.c\<close>: a handle is the
  text of a datum id, or the id and a subscript separated by a dot. A parsed subscript
  is a pointer and a length, and the pointer may point into the string of a Tcl object,
  into the static scratch buffer or into a buffer that a resize allocates, moves or
  frees; so the model keeps a memory of blocks and pointers into them. Reading or
  writing outside a block, or through a pointer to a freed one, is \<open>Undefined\<close>.

  \<^verbatim>\<open>ADLB_Resize_buf\<close> and \<^verbatim>\<open>ADLB_Int64_parse\<close> belong to the ADLB library: they are
  parameters, and \<open>resize_ok\<close> states what the code relies on in the first. The
  checks of \<^verbatim>\<open>util.h\<close> are taken as compiled in (no \<^verbatim>\<open>NDEBUG\<close>).
\<close>

section \<open>Memory\<close>

type_synonym mem = "nat \<rightharpoonup> string"
type_synonym ptr = "(nat \<times> nat) option"

definition NUL :: char where "NUL = CHR 0x00"

text \<open>The block of \<^verbatim>\<open>tcl_adlb_scratch\<close>.\<close>

definition SCRATCH :: nat where "SCRATCH = 0"

definition read_bytes :: "ptr \<Rightarrow> nat \<Rightarrow> mem \<Rightarrow> string res" where
  "read_bytes p n m =
     (case p of
        None \<Rightarrow> Inl Undefined
      | Some (b, i) \<Rightarrow>
          (case m b of
             None \<Rightarrow> Inl Undefined
           | Some bs \<Rightarrow> c_defined (i + n \<le> length bs) (Inr (take n (drop i bs)))))"

definition write_bytes :: "ptr \<Rightarrow> nat \<Rightarrow> string \<Rightarrow> mem \<Rightarrow> mem res" where
  "write_bytes p off xs m =
     (case p of
        None \<Rightarrow> Inl Undefined
      | Some (b, i) \<Rightarrow>
          (case m b of
             None \<Rightarrow> Inl Undefined
           | Some bs \<Rightarrow> c_defined (i + off + length xs \<le> length bs)
               (Inr (m(b \<mapsto> take (i + off) bs @ xs @ drop (i + off + length xs) bs)))))"

definition memcpy :: "ptr \<Rightarrow> nat \<Rightarrow> ptr \<Rightarrow> nat \<Rightarrow> mem \<Rightarrow> mem res" where
  "memcpy dst off src n m = tcl_check (read_bytes src n m) (\<lambda>xs. write_bytes dst off xs m)"

lemma read_bytes_block [simp]:
  "m b = Some bs \<Longrightarrow> i + n \<le> length bs \<Longrightarrow> read_bytes (Some (b, i)) n m = Inr (take n (drop i bs))"
  by (simp add: read_bytes_def)

lemma write_bytes_block [simp]:
  "m b = Some bs \<Longrightarrow> i + off + length xs \<le> length bs \<Longrightarrow> write_bytes (Some (b, i)) off xs m =
     Inr (m(b \<mapsto> take (i + off) bs @ xs @ drop (i + off + length xs) bs))"
  by (simp add: write_bytes_def)

section \<open>Data\<close>

datatype adlb_subscript_kind = ADLB_SUB_NONE | ADLB_SUB_CONTAINER | ADLB_SUB_STRUCT

record adlb_buffer =
  b_data :: ptr
  b_length :: nat

record adlb_subscript =
  s_key :: ptr
  s_length :: nat

record tcl_adlb_sub_parse =
  p_val :: adlb_subscript
  p_buf :: adlb_buffer

record tcl_adlb_handle =
  h_id :: int
  h_sub :: tcl_adlb_sub_parse

definition ADLB_NO_SUB :: adlb_subscript where "ADLB_NO_SUB = \<lparr>s_key = None, s_length = 0\<rparr>"
definition no_buf :: adlb_buffer where "no_buf = \<lparr>b_data = None, b_length = 0\<rparr>"

definition tcl_adlb_scratch_buf :: "nat \<Rightarrow> adlb_buffer" where
  "tcl_adlb_scratch_buf scratch_len = \<lparr>b_data = Some (SCRATCH, 0), b_length = scratch_len\<rparr>"

text \<open>
  The interface: what Tcl makes of an object (an integer; its string, as a pointer and a
  length), and the two ADLB functions. The scratch buffer has
  \<^verbatim>\<open>ADLB_DATA_SUBSCRIPT_MAX\<close> bytes.
\<close>

record 'obj handle_api =
  get_id :: "'obj \<Rightarrow> int option"
  get_str :: "'obj \<Rightarrow> nat \<times> nat"
  int64_parse :: "string \<Rightarrow> int option"
  resize_buf :: "adlb_buffer \<Rightarrow> bool \<Rightarrow> nat \<Rightarrow> mem \<Rightarrow> (adlb_buffer \<times> bool \<times> mem) option"
  scratch_max :: nat

section \<open>Parsing\<close>

definition free_non_scratch :: "adlb_buffer \<Rightarrow> mem \<Rightarrow> mem" where
  "free_non_scratch buf m =
     (case b_data buf of
        None \<Rightarrow> m
      | Some (b, i) \<Rightarrow> if b = SCRATCH then m else m(b := None))"

text \<open>The result is the id, the pointer to the subscript if any, and its length.\<close>

definition ADLB_Extract_Handle :: "'obj handle_api \<Rightarrow> 'obj \<Rightarrow> mem \<Rightarrow> (int \<times> ptr \<times> nat) res" where
  "ADLB_Extract_Handle H obj m =
     (case get_id H obj of
        Some i \<Rightarrow> Inr (i, None, 0)
      | None \<Rightarrow>
          (let (b, len) = get_str H obj in
           tcl_check (read_bytes (Some (b, 0)) len m) (\<lambda>str.
             case strchr str (CHR ''.'') of
               None \<Rightarrow> Inl Tcl_Error
             | Some prefix_len \<Rightarrow>
                 tcl_check (tcl_get (int64_parse H (take prefix_len str))) (\<lambda>i.
                   Inr (i, Some (b, prefix_len + 1), len - prefix_len - 1)))))"

definition ADLB_Extract_Handle_ID :: "'obj handle_api \<Rightarrow> 'obj \<Rightarrow> mem \<Rightarrow> int res" where
  "ADLB_Extract_Handle_ID H obj m = tcl_check (ADLB_Extract_Handle H obj m) (\<lambda>(i, _). Inr i)"

definition Tcl_GetADLB_Subscript :: "'obj handle_api \<Rightarrow> 'obj \<Rightarrow> adlb_subscript" where
  "Tcl_GetADLB_Subscript H obj =
     (let (b, len) = get_str H obj in \<lparr>s_key = Some (b, 0), s_length = len + 1\<rparr>)"

text \<open>Writing the separator over the terminator of the subscript already in the buffer.\<close>

definition copy_old_sub :: "adlb_subscript \<Rightarrow> adlb_buffer \<Rightarrow> mem \<Rightarrow> mem res" where
  "copy_old_sub sub buf m =
     (if s_length sub > 0
      then tcl_check
        (if b_data buf \<noteq> s_key sub then memcpy (b_data buf) 0 (s_key sub) (s_length sub) m else Inr m)
        (write_bytes (b_data buf) (s_length sub - 1) ''.'')
      else Inr m)"

definition append_subscript ::
    "'obj handle_api \<Rightarrow> adlb_subscript \<Rightarrow> adlb_subscript \<Rightarrow> adlb_buffer \<Rightarrow> mem \<Rightarrow>
      (adlb_subscript \<times> adlb_buffer \<times> mem) res" where
  "append_subscript H sub to_append buf m =
     tcl_check (tcl_get (resize_buf H buf (b_data buf = Some (SCRATCH, 0))
         (s_length sub + s_length to_append) m)) (\<lambda>(buf, using_scratch, m).
       tcl_check (copy_old_sub sub buf m) (\<lambda>m.
       tcl_check (memcpy (b_data buf) (s_length sub) (s_key to_append) (s_length to_append) m) (\<lambda>m.
         Inr (\<lparr>s_key = b_data buf, s_length = s_length sub + s_length to_append\<rparr>, buf, m))))"

definition ADLB_Parse_Struct_Subscript ::
    "'obj handle_api \<Rightarrow> ptr \<Rightarrow> nat \<Rightarrow> adlb_buffer \<Rightarrow> adlb_subscript \<Rightarrow> bool \<Rightarrow> bool \<Rightarrow> mem \<Rightarrow>
      (adlb_buffer \<times> adlb_subscript \<times> bool \<times> mem) res" where
  "ADLB_Parse_Struct_Subscript H str len buf sub using_caller_buf app m =
     (if app \<and> s_length sub > 0
      then tcl_check (tcl_get (resize_buf H buf using_caller_buf (s_length sub + len + 1) m))
        (\<lambda>(buf, using, m).
          tcl_check (copy_old_sub sub buf m) (\<lambda>m.
          tcl_check (memcpy (b_data buf) (s_length sub) str len m) (\<lambda>m.
          tcl_check (write_bytes (b_data buf) len [NUL] m) (\<lambda>m.
            Inr (buf, \<lparr>s_key = b_data buf, s_length = s_length sub + len + 1\<rparr>, using, m)))))
      else tcl_check (tcl_get (resize_buf H buf using_caller_buf (len + 1) m))
        (\<lambda>(buf, using, m).
          tcl_check (memcpy (b_data buf) 0 str len m) (\<lambda>m.
          tcl_check (write_bytes (b_data buf) len [NUL] m) (\<lambda>m.
            Inr (buf, \<lparr>s_key = b_data buf, s_length = len + 1\<rparr>, using, m)))))"

definition ADLB_Parse_Subscript ::
    "'obj handle_api \<Rightarrow> 'obj \<Rightarrow> adlb_subscript_kind \<Rightarrow> tcl_adlb_sub_parse \<Rightarrow> bool \<Rightarrow> bool \<Rightarrow> mem \<Rightarrow>
      (tcl_adlb_sub_parse \<times> mem) res" where
  "ADLB_Parse_Subscript H obj sub_kind parse app use_scratch m =
     (if sub_kind = ADLB_SUB_CONTAINER
      then if \<not> app \<or> s_length (p_val parse) = 0
           then Inr (\<lparr>p_val = Tcl_GetADLB_Subscript H obj, p_buf = no_buf\<rparr>, m)
           else tcl_check (append_subscript H (p_val parse) (Tcl_GetADLB_Subscript H obj) (p_buf parse) m)
             (\<lambda>(sub, buf, m). Inr (\<lparr>p_val = sub, p_buf = buf\<rparr>, m))
      else c_assert (sub_kind = ADLB_SUB_STRUCT)
        (let (b, len) = get_str H obj in
         if len = 0
         then Inr (if \<not> app then \<lparr>p_val = ADLB_NO_SUB, p_buf = no_buf\<rparr> else parse, m)
         else let buf = (if app then p_buf parse
                         else if use_scratch then tcl_adlb_scratch_buf (scratch_max H) else no_buf) in
           tcl_check (ADLB_Parse_Struct_Subscript H (Some (b, 0)) len buf (p_val parse)
               (b_data buf = Some (SCRATCH, 0)) app m)
             (\<lambda>(buf, sub, using, m). Inr (\<lparr>p_val = sub, p_buf = buf\<rparr>, m))))"

definition ADLB_Parse_Subscript_Cleanup :: "tcl_adlb_sub_parse \<Rightarrow> mem \<Rightarrow> mem" where
  "ADLB_Parse_Subscript_Cleanup parse m = free_non_scratch (p_buf parse) m"

definition ADLB_Parse_Handle ::
    "'obj handle_api \<Rightarrow> 'obj \<Rightarrow> bool \<Rightarrow> mem \<Rightarrow> (tcl_adlb_handle \<times> mem) res" where
  "ADLB_Parse_Handle H obj use_scratch m =
     tcl_check (ADLB_Extract_Handle H obj m) (\<lambda>(i, subscript, len).
       if subscript = None
       then Inr (\<lparr>h_id = i, h_sub = \<lparr>p_val = ADLB_NO_SUB, p_buf = no_buf\<rparr>\<rparr>, m)
       else let buf = (if use_scratch then tcl_adlb_scratch_buf (scratch_max H) else no_buf) in
         tcl_check (ADLB_Parse_Struct_Subscript H subscript len buf ADLB_NO_SUB use_scratch False m)
           (\<lambda>(buf, sub, using, m).
              Inr (\<lparr>h_id = i, h_sub = \<lparr>p_val = sub, p_buf = buf\<rparr>\<rparr>, m)))"

definition ADLB_Parse_Handle_Cleanup :: "tcl_adlb_handle \<Rightarrow> mem \<Rightarrow> mem" where
  "ADLB_Parse_Handle_Cleanup parse m = free_non_scratch (p_buf (h_sub parse)) m"

text \<open>
  Building a handle from a handle and subscripts: the length is computed first, then the
  pieces are copied one after the other.
\<close>

fun copy_subs :: "string list \<Rightarrow> string \<Rightarrow> string" where
  "copy_subs [] out = out"
| "copy_subs (sub # subs) out = copy_subs subs (out @ ''.'' @ sub)"

definition ADLB_Subscript_Impl :: "string list \<Rightarrow> adlb_subscript_kind \<Rightarrow> string res" where
  "ADLB_Subscript_Impl args sub_kind =
     tcl_condition (length args \<ge> 1)
       (let old_handle = hd args; subs = tl args in
        tcl_check
          (if sub_kind = ADLB_SUB_CONTAINER then tcl_condition (length subs \<le> 1) (Inr ())
           else c_assert (sub_kind = ADLB_SUB_STRUCT) (Inr ()))
          (\<lambda>_. let new_handle_len = foldl (\<lambda>n sub. n + (length sub + 1)) (length old_handle) subs;
                   result = copy_subs subs old_handle in
               c_defined (length result \<le> new_handle_len) (Inr result)))"

definition ADLB_Subscript_Struct_Cmd :: "string list \<Rightarrow> string res" where
  "ADLB_Subscript_Struct_Cmd args = ADLB_Subscript_Impl args ADLB_SUB_STRUCT"

definition ADLB_Subscript_Container_Cmd :: "string list \<Rightarrow> string res" where
  "ADLB_Subscript_Container_Cmd args = ADLB_Subscript_Impl args ADLB_SUB_CONTAINER"

section \<open>Resizing\<close>

text \<open>
  What the code relies on in \<^verbatim>\<open>ADLB_Resize_buf\<close>: a buffer that is large enough is
  returned as it is; otherwise the new one is a block of its own of at least the size
  asked for, and no other block changes, except that the old block may be gone when it
  was not the caller's storage.
\<close>

definition resize_ok :: "'obj handle_api \<Rightarrow> bool" where
  "resize_ok H \<longleftrightarrow> (\<forall>buf c n m buf' c' m'. resize_buf H buf c n m = Some (buf', c', m') \<longrightarrow>
     (n \<le> b_length buf \<longrightarrow> buf' = buf \<and> c' = c \<and> m' = m) \<and>
     (b_length buf < n \<longrightarrow> n \<le> b_length buf' \<and> (\<exists>b bs. b_data buf' = Some (b, 0) \<and> m' b = Some bs \<and>
        length bs = b_length buf' \<and> (m b = None \<or> \<not> c \<and> b_data buf = Some (b, 0)) \<and>
        (\<forall>q. q \<noteq> b \<and> (c \<or> b_data buf \<noteq> Some (q, 0)) \<longrightarrow> m' q = m q))))"

definition buf_ok :: "adlb_buffer \<Rightarrow> mem \<Rightarrow> bool" where
  "buf_ok buf m \<longleftrightarrow> (case b_data buf of None \<Rightarrow> b_length buf = 0
     | Some (b, i) \<Rightarrow> i = 0 \<and> (\<exists>bs. m b = Some bs \<and> length bs = b_length buf))"

text \<open>After a resize there is a large enough block, and a block that is not the buffer is kept.\<close>

lemma resize_block:
  assumes ok: "resize_ok H" and buf: "buf_ok buf m" and n: "0 < n"
    and r: "resize_buf H buf c n m = Some (buf', c', m')"
    and q: "m q = Some xs" "b_data buf \<noteq> Some (q, 0)"
  obtains b bs where "b_data buf' = Some (b, 0)" "m' b = Some bs" "n \<le> length bs"
    "length bs = b_length buf'" "b \<noteq> q" "m' q = Some xs" "n \<le> b_length buf \<Longrightarrow> buf' = buf \<and> m' = m"
proof (cases "n \<le> b_length buf")
  case True
  with ok r have eq: "buf' = buf" "m' = m" unfolding resize_ok_def by blast+
  from buf True n obtain b bs where "b_data buf = Some (b, 0)" "m b = Some bs" "length bs = b_length buf"
    by (auto simp: buf_ok_def split: option.splits)
  with that [of b bs] eq q True show thesis by auto
next
  case False
  then have lt: "b_length buf < n" by simp
  from ok [unfolded resize_ok_def, rule_format, OF r, THEN conjunct2, rule_format, OF lt]
  obtain b bs where b: "n \<le> b_length buf'" "b_data buf' = Some (b, 0)" "m' b = Some bs"
    "length bs = b_length buf'" "m b = None \<or> \<not> c \<and> b_data buf = Some (b, 0)"
    "\<forall>p. p \<noteq> b \<and> (c \<or> b_data buf \<noteq> Some (p, 0)) \<longrightarrow> m' p = m p"
    by blast
  have "b \<noteq> q" using b(5) q by auto
  moreover have "m' q = Some xs" using b(6) q \<open>b \<noteq> q\<close> by auto
  ultimately show thesis using that [of b bs] b(1-4) False by auto
qed

lemma memcpy_blocks:
  assumes "m p = Some ps" "m q = Some qs" "i + n \<le> length qs" "off + n \<le> length ps"
  shows "memcpy (Some (p, 0)) off (Some (q, i)) n m =
    Inr (m(p \<mapsto> take off ps @ take n (drop i qs) @ drop (off + n) ps))"
  using assms by (simp add: memcpy_def)

text \<open>Without appending, the subscript is the string and a terminator.\<close>

lemma parse_struct_plain:
  assumes ok: "resize_ok H" and buf: "buf_ok buf m"
    and str: "m q = Some xs" "i + len \<le> length xs" "b_data buf \<noteq> Some (q, 0)"
    and r: "resize_buf H buf c (len + 1) m \<noteq> None"
    and plain: "\<not> app \<or> s_length sub = 0"
  obtains buf' sub' c' m' where
    "ADLB_Parse_Struct_Subscript H (Some (q, i)) len buf sub c app m = Inr (buf', sub', c', m')"
    "read_bytes (s_key sub') (s_length sub') m' = Inr (take len (drop i xs) @ [NUL])"
    "s_key sub' = b_data buf'" "buf_ok buf' m'"
proof -
  from r obtain buf' c' m1 where r: "resize_buf H buf c (len + 1) m = Some (buf', c', m1)" by auto
  have "0 < len + 1" by simp
  from resize_block [OF ok buf this r str(1,3)] obtain b bs where
    b: "b_data buf' = Some (b, 0)" "m1 b = Some bs" "len + 1 \<le> length bs" "length bs = b_length buf'"
      "b \<noteq> q" "m1 q = Some xs" by blast
  let ?t = "take len (drop i xs)"
  let ?m = "m1(b \<mapsto> ?t @ NUL # drop (len + 1) bs)"
  have cp: "memcpy (Some (b, 0)) 0 (Some (q, i)) len m1 = Inr (m1(b \<mapsto> ?t @ drop len bs))"
    using memcpy_blocks [of m1 b bs q xs i len 0] b str(2) by simp
  have len: "length ?t = len" using str(2) by simp
  have wr: "write_bytes (Some (b, 0)) len [NUL] (m1(b \<mapsto> ?t @ drop len bs)) = Inr ?m"
    using b(3) len by (simp add: write_bytes_def min_def)
  have run: "ADLB_Parse_Struct_Subscript H (Some (q, i)) len buf sub c app m =
      Inr (buf', \<lparr>s_key = Some (b, 0), s_length = len + 1\<rparr>, c', ?m)"
    using r cp wr plain b(1) by (auto simp: ADLB_Parse_Struct_Subscript_def)
  show thesis
    by (rule that [OF run]) (use b len in \<open>auto simp: read_bytes_def buf_ok_def\<close>)
qed

text \<open>Appending keeps the old subscript with a dot for its terminator, if it stays readable.\<close>

lemma copy_old_ok:
  assumes buf: "b_data buf = Some (b, 0)" "m b = Some bs" "s_length sub + k \<le> length bs"
    and old: "read_bytes (s_key sub) (s_length sub) m = Inr (old @ [x])"
    and key: "s_key sub = Some (b, 0) \<or> (\<exists>i. s_key sub = Some (p, i) \<and> p \<noteq> b)"
  shows "copy_old_sub sub buf m = Inr (m(b \<mapsto> old @ CHR ''.'' # drop (s_length sub) bs))"
    "s_length sub = Suc (length old)"
proof -
  have len: "s_length sub = length (old @ [x])"
  proof -
    obtain c i cs where "i + s_length sub \<le> length cs" "take (s_length sub) (drop i cs) = old @ [x]"
      using old by (auto simp: read_bytes_def c_defined_def split: option.splits if_splits)
    then have "length (old @ [x]) = s_length sub" by (metis (no_types) add.commute diff_add_inverse2
        length_drop length_take min.absorb2 le_diff_conv2 add_leD1)
    then show ?thesis by simp
  qed
  then show n: "s_length sub = Suc (length old)" by simp
  show "copy_old_sub sub buf m = Inr (m(b \<mapsto> old @ CHR ''.'' # drop (s_length sub) bs))"
    using key
  proof
    assume k: "s_key sub = Some (b, 0)"
    then have "take (s_length sub) bs = old @ [x]" using old buf by (simp add: read_bytes_def)
    then have "take (length old) bs = old" using n buf(3) by (metis butlast_snoc butlast_take diff_Suc_1
        add_leD1)
    then show ?thesis using k buf n by (simp add: copy_old_sub_def write_bytes_def)
  next
    assume "\<exists>i. s_key sub = Some (p, i) \<and> p \<noteq> b"
    then obtain i where k: "s_key sub = Some (p, i)" "p \<noteq> b" by blast
    have "memcpy (Some (b, 0)) 0 (s_key sub) (s_length sub) m =
        Inr (m(b \<mapsto> (old @ [x]) @ drop (s_length sub) bs))"
      using buf n old [unfolded n] by (simp add: memcpy_def write_bytes_def)
    moreover have "length old \<le> length bs - Suc 0" using buf(3) n by simp
    ultimately show ?thesis using k buf n by (simp add: copy_old_sub_def write_bytes_def)
  qed
qed

lemma append_fits:
  assumes ok: "resize_ok H" and buf: "b_data buf = Some (b, 0)" "m b = Some bs" "length bs = b_length buf"
    and old: "read_bytes (s_key sub) (s_length sub) m = Inr (old @ [x])" "s_key sub = Some (b, 0)"
    and new: "read_bytes (Some (q, i)) n m = Inr new" "q \<noteq> b"
    and fits: "s_length sub + n + k \<le> b_length buf"
  shows "\<exists>m'. tcl_check (copy_old_sub sub buf m) (\<lambda>m. memcpy (b_data buf) (s_length sub) (Some (q, i)) n m) =
      Inr m' \<and> m' b = Some (old @ CHR ''.'' # new @ drop (s_length sub + n) bs) \<and> length new = n \<and>
      s_length sub = Suc (length old) \<and> (\<forall>p. p \<noteq> b \<longrightarrow> m' p = m p)"
proof -
  have room: "s_length sub + (n + k) \<le> length bs" using fits buf(3) by simp
  note cp = copy_old_ok [OF buf(1,2) room old(1) disjI1 [OF old(2)]]
  obtain qs where qs: "m q = Some qs" "i + n \<le> length qs" "new = take n (drop i qs)"
    using new(1) by (auto simp: read_bytes_def c_defined_def split: option.splits if_splits)
  then have len: "length new = n" by simp
  let ?m = "m(b \<mapsto> old @ CHR ''.'' # drop (s_length sub) bs)"
  have "memcpy (Some (b, 0)) (s_length sub) (Some (q, i)) n ?m =
      Inr (?m(b \<mapsto> old @ CHR ''.'' # new @ drop (s_length sub + n) bs))"
    using qs new(2) cp(2) room by (subst memcpy_blocks [of _ _ "old @ CHR ''.'' # drop (s_length sub) bs" _ qs])
      (auto simp: add.commute)
  then show ?thesis using cp len buf(1) by simp
qed

section \<open>Properties\<close>

text \<open>
  Appending a container subscript to a subscript held in a buffer with room for both
  yields the two texts joined by a dot, with the terminator of the second.
\<close>

theorem append_subscript_joins:
  assumes "resize_ok H" "b_data buf = Some (b, 0)" "m b = Some bs" "length bs = b_length buf"
    "read_bytes (s_key sub) (s_length sub) m = Inr (old @ [NUL])" "s_key sub = Some (b, 0)"
    "s_key add = Some (q, i)" "q \<noteq> b" "read_bytes (s_key add) (s_length add) m = Inr (new @ [NUL])"
    "s_length sub + s_length add \<le> b_length buf"
    "resize_buf H buf (b_data buf = Some (SCRATCH, 0)) (s_length sub + s_length add) m \<noteq> None"
  shows "\<exists>sub' buf' m'. append_subscript H sub add buf m = Inr (sub', buf', m') \<and>
    read_bytes (s_key sub') (s_length sub') m' = Inr (old @ ''.'' @ new @ [NUL])"
proof -
  from assms(11) obtain r where "resize_buf H buf (b_data buf = Some (SCRATCH, 0)) (s_length sub + s_length add) m = Some r"
    by blast
  then have r: "resize_buf H buf (b_data buf = Some (SCRATCH, 0)) (s_length sub + s_length add) m =
      Some (buf, b_data buf = Some (SCRATCH, 0), m)"
    using assms(1,10) unfolding resize_ok_def by (cases r) blast
  have fits: "s_length sub + s_length add + 0 \<le> b_length buf" using assms(10) by simp
  from append_fits [OF assms(1-6) assms(9) [unfolded assms(7)] assms(8) fits] obtain m' where
    m': "tcl_check (copy_old_sub sub buf m) (\<lambda>m. memcpy (b_data buf) (s_length sub) (Some (q, i)) (s_length add) m) = Inr m'"
    "m' b = Some (old @ CHR ''.'' # (new @ [NUL]) @ drop (s_length sub + s_length add) bs)"
    "length (new @ [NUL]) = s_length add" "s_length sub = Suc (length old)" by blast
  from m'(1) obtain m1 where "copy_old_sub sub buf m = Inr m1"
    "memcpy (b_data buf) (s_length sub) (Some (q, i)) (s_length add) m1 = Inr m'"
    by (auto simp: tcl_check_Inr_conv)
  then have "append_subscript H sub add buf m =
      Inr (\<lparr>s_key = b_data buf, s_length = s_length sub + s_length add\<rparr>, buf, m')"
    by (simp add: append_subscript_def r assms(7))
  moreover have "read_bytes (b_data buf) (s_length sub + s_length add) m' = Inr (old @ ''.'' @ new @ [NUL])"
    using m'(2,4) assms(2) m'(3) [symmetric] by (simp add: read_bytes_def)
  ultimately show ?thesis by simp
qed

text \<open>
  Appending a struct subscript does not: the terminator is written at the length of
  the new text instead of at the end, so the joined subscript has a NUL there and its
  last byte is whatever the buffer held.
\<close>

theorem append_struct_corrupts:
  assumes "resize_ok H" "b_data buf = Some (b, 0)" "m b = Some bs" "length bs = b_length buf"
    "read_bytes (s_key sub) (s_length sub) m = Inr (old @ [NUL])" "s_key sub = Some (b, 0)"
    "read_bytes (Some (q, i)) len m = Inr new" "q \<noteq> b"
    "s_length sub + len + 1 \<le> b_length buf"
    "resize_buf H buf c (s_length sub + len + 1) m \<noteq> None"
  shows "\<exists>sub' m'. ADLB_Parse_Struct_Subscript H (Some (q, i)) len buf sub c True m = Inr (buf, sub', c, m') \<and>
    read_bytes (s_key sub') (s_length sub') m' =
      Inr ((old @ ''.'' @ new @ [bs ! (s_length sub + len)])[len := NUL])"
proof -
  let ?n = "s_length sub + len + 1"
  from assms(10) obtain r where "resize_buf H buf c ?n m = Some r" by blast
  then have r: "resize_buf H buf c ?n m = Some (buf, c, m)"
    using assms(1,9) unfolding resize_ok_def by (cases r) blast
  from append_fits [OF assms(1-8) assms(9)] obtain m' where
    m': "tcl_check (copy_old_sub sub buf m) (\<lambda>m. memcpy (b_data buf) (s_length sub) (Some (q, i)) len m) = Inr m'"
    "m' b = Some (old @ CHR ''.'' # new @ drop (s_length sub + len) bs)"
    "length new = len" "s_length sub = Suc (length old)" by blast
  let ?t = "old @ CHR ''.'' # new @ drop (s_length sub + len) bs"
  have len: "length ?t = length bs" using m'(3,4) assms(4,9) by simp
  have wr: "write_bytes (Some (b, 0)) len [NUL] m' = Inr (m'(b \<mapsto> ?t[len := NUL]))"
    using m'(2-4) len assms(4,9) by (simp add: write_bytes_def upd_conv_take_nth_drop)
  from m'(1) obtain m1 where "copy_old_sub sub buf m = Inr m1"
    "memcpy (b_data buf) (s_length sub) (Some (q, i)) len m1 = Inr m'"
    by (auto simp: tcl_check_Inr_conv)
  then have "ADLB_Parse_Struct_Subscript H (Some (q, i)) len buf sub c True m =
      Inr (buf, \<lparr>s_key = b_data buf, s_length = ?n\<rparr>, c, m'(b \<mapsto> ?t[len := NUL]))"
    using m'(4) wr assms(2) r by (simp add: ADLB_Parse_Struct_Subscript_def)
  moreover have "take ?n (?t[len := NUL]) = (old @ ''.'' @ new @ [bs ! (s_length sub + len)])[len := NUL]"
  proof -
    have "s_length sub + len < length bs" using assms(4,9) by simp
    then have "drop (s_length sub + len) bs = bs ! (s_length sub + len) # drop ?n bs"
      by (simp add: Cons_nth_drop_Suc)
    then have "?t = (old @ ''.'' @ new @ [bs ! (s_length sub + len)]) @ drop ?n bs" by simp
    moreover have "?n = length (old @ ''.'' @ new @ [bs ! (s_length sub + len)])" using m'(3,4) by simp
    ultimately show ?thesis by (metis append_eq_conv_conj length_list_update list_update_append1 m'(4)
        less_add_Suc2 add.commute plus_1_eq_Suc)
  qed
  ultimately show ?thesis using assms(2,4,9) len
    by (simp add: read_bytes_def)
qed

definition sample_api :: "(nat \<times> nat) handle_api" where
  "sample_api = \<lparr>get_id = (\<lambda>obj. None), get_str = (\<lambda>obj. obj),
     int64_parse = (\<lambda>s. case strtol 10 s of Some (v, False, []) \<Rightarrow> Some v | _ \<Rightarrow> None),
     resize_buf = (\<lambda>buf c n m. if n \<le> b_length buf then Some (buf, c, m) else None),
     scratch_max = 16\<rparr>"

lemma sample_api_ok: "resize_ok sample_api"
  by (auto simp: resize_ok_def sample_api_def split: if_splits)

definition sample_mem :: mem where
  "sample_mem = [SCRATCH \<mapsto> ''12'' @ [NUL] @ ''_____________'', 7 \<mapsto> ''34'' @ [NUL]]"

lemmas sample_simps = sample_api_def sample_mem_def SCRATCH_def read_bytes_def tcl_adlb_scratch_buf_def

lemma append_subscript_joins_witness:
  "\<exists>sub' buf' m'. append_subscript sample_api \<lparr>s_key = Some (SCRATCH, 0), s_length = 3\<rparr>
      \<lparr>s_key = Some (7, 0), s_length = 3\<rparr> (tcl_adlb_scratch_buf 16) sample_mem = Inr (sub', buf', m') \<and>
    read_bytes (s_key sub') (s_length sub') m' = Inr (''12.34'' @ [NUL])"
  using append_subscript_joins [OF sample_api_ok, of "tcl_adlb_scratch_buf 16" SCRATCH sample_mem
      "''12'' @ [NUL] @ ''_____________''" "\<lparr>s_key = Some (SCRATCH, 0), s_length = 3\<rparr>" "''12''"
      "\<lparr>s_key = Some (7, 0), s_length = 3\<rparr>" 7 0 "''34''"]
  by (simp add: sample_simps)

lemma append_struct_corrupts_witness:
  "\<exists>sub' m'. ADLB_Parse_Struct_Subscript sample_api (Some (7, 0)) 2 (tcl_adlb_scratch_buf 16)
      \<lparr>s_key = Some (SCRATCH, 0), s_length = 3\<rparr> True True sample_mem =
      Inr (tcl_adlb_scratch_buf 16, sub', True, m') \<and>
    read_bytes (s_key sub') (s_length sub') m' = Inr (''12'' @ [NUL] @ ''34_'')"
  using append_struct_corrupts [OF sample_api_ok, of "tcl_adlb_scratch_buf 16" SCRATCH sample_mem
      "''12'' @ [NUL] @ ''_____________''" "\<lparr>s_key = Some (SCRATCH, 0), s_length = 3\<rparr>" "''12''"
      7 0 2 "''34''" True]
  by (simp add: sample_simps)

lemma copy_subs: "copy_subs subs out = out @ concat (map (\<lambda>s. CHR ''.'' # s) subs)"
  by (induction subs arbitrary: out) auto

lemma handle_len: "foldl (\<lambda>n sub. Suc (n + length sub)) k subs =
    k + length (concat (map (\<lambda>s. CHR ''.'' # s) subs))"
  by (induction subs arbitrary: k) auto

lemma subscript_struct:
  "ADLB_Subscript_Struct_Cmd (h # subs) = Inr (h @ concat (map (\<lambda>s. CHR ''.'' # s) subs))"
  by (simp add: ADLB_Subscript_Struct_Cmd_def ADLB_Subscript_Impl_def Let_def copy_subs handle_len)

text \<open>
  C28: Handles built by \<^verbatim>\<open>adlb::subscript_struct\<close> parse back. The handle of an id and
  subscripts parses to that id and the subscripts joined by dots with a terminator,
  whether it fits the scratch buffer or the parser has to allocate, and no other memory
  is disturbed that the resize leaves alone.
\<close>

theorem handle_roundtrip:
  assumes ok: "resize_ok H" and scratch: "m SCRATCH = Some bs" "length bs = scratch_max H"
    and obj: "get_id H obj = None" "get_str H obj = (q, length h)" "m q = Some (h @ [NUL])" "q \<noteq> SCRATCH"
    and built: "ADLB_Subscript_Struct_Cmd (idtext # sub # subs) = Inr h"
    and idtext: "CHR ''.'' \<notin> set idtext" "int64_parse H idtext = Some i"
    and resize: "resize_buf H (tcl_adlb_scratch_buf (scratch_max H)) True
      (length (sub @ concat (map (\<lambda>s. CHR ''.'' # s) subs)) + 1) m \<noteq> None"
  shows "\<exists>p m'. ADLB_Parse_Handle H obj True m = Inr (p, m') \<and> h_id p = i \<and>
    read_bytes (s_key (p_val (h_sub p))) (s_length (p_val (h_sub p))) m' =
      Inr (sub @ concat (map (\<lambda>s. CHR ''.'' # s) subs) @ [NUL])"
proof -
  let ?t = "sub @ concat (map (\<lambda>s. CHR ''.'' # s) subs)"
  have h: "h = idtext @ CHR ''.'' # ?t" using built by (simp add: subscript_struct)
  have ex: "ADLB_Extract_Handle H obj m = Inr (i, Some (q, length idtext + 1), length ?t)"
    using obj idtext by (simp add: ADLB_Extract_Handle_def h strchr_append)
  let ?buf = "tcl_adlb_scratch_buf (scratch_max H)"
  have buf: "buf_ok ?buf m" using scratch by (simp add: buf_ok_def tcl_adlb_scratch_buf_def)
  have q: "b_data ?buf \<noteq> Some (q, 0)" using obj(4) by (simp add: tcl_adlb_scratch_buf_def)
  have fits: "length idtext + 1 + length ?t \<le> length (h @ [NUL])" by (simp add: h)
  have plain: "\<not> False \<or> s_length ADLB_NO_SUB = 0" by simp
  obtain buf' sub' c' m' where
    run: "ADLB_Parse_Struct_Subscript H (Some (q, length idtext + 1)) (length ?t) ?buf ADLB_NO_SUB True False m =
      Inr (buf', sub', c', m')" and
    sb: "read_bytes (s_key sub') (s_length sub') m' =
      Inr (take (length ?t) (drop (length idtext + 1) (h @ [NUL])) @ [NUL])" and
    "s_key sub' = b_data buf'" "buf_ok buf' m'"
    by (rule parse_struct_plain [OF ok buf obj(3) fits q resize plain])
  show ?thesis
    using ex run sb by (simp add: ADLB_Parse_Handle_def h)
qed

lemma handle_roundtrip_witness:
  "\<exists>p m'. ADLB_Parse_Handle sample_api (9, 8) True
      (sample_mem(9 \<mapsto> ''12.34.56'' @ [NUL])) = Inr (p, m') \<and> h_id p = 12 \<and>
    read_bytes (s_key (p_val (h_sub p))) (s_length (p_val (h_sub p))) m' = Inr (''34.56'' @ [NUL])"
proof -
  have id: "int64_parse sample_api ''12'' = Some 12"
    by (simp add: sample_api_def strtol_def strtol_prefix_def isspace_def is_digit_def digit_value_def
        digits_value_def LONG_MAX_def LONG_MIN_def)
  have h: "ADLB_Subscript_Struct_Cmd [''12'', ''34'', ''56''] = Inr ''12.34.56''"
    by (simp add: subscript_struct)
  show ?thesis
    using handle_roundtrip [OF sample_api_ok _ _ _ _ _ _ h _ id, of "sample_mem(9 \<mapsto> ''12.34.56'' @ [NUL])"
        "''12'' @ [NUL] @ ''_____________''" "(9, 8)" 9]
    by (simp add: sample_simps)
qed

end
