(* ===== verification/Tcl_Api.thy ===== *)
theory Tcl_Api
  imports Turbine_Defs C_Lib "HOL-Library.AList" "HOL-Library.Char_ord" "HOL-Library.List_Lexorder"
begin

text \<open>
  What the commands of \<^verbatim>\<open>src/tcl\<close> have in common: the interface to the Tcl library and the
  shape of a command.

  A Tcl object is an element of a type \<open>'obj\<close> that the code reads and builds with the
  functions of the Tcl C API only; these are the fields of \<open>tcl_api\<close>. A conversion that
  returns \<^verbatim>\<open>TCL_ERROR\<close> is \<open>None\<close>. Reference counts of these objects are not modelled here.

  A command may fail after it has changed the state of ADLB, so it is a function from
  the state \<open>'w\<close> to a result or a fault, and the state after it.
\<close>

section \<open>The Tcl library\<close>

record ('obj, 'f) tcl_api =
  tcl_string :: "'obj \<Rightarrow> string"
  tcl_int :: "'obj \<Rightarrow> int option"
  tcl_wide :: "'obj \<Rightarrow> int option"
  tcl_long :: "'obj \<Rightarrow> int option"
  tcl_double :: "'obj \<Rightarrow> 'f option"
  tcl_boolean :: "'obj \<Rightarrow> bool option"
  tcl_list :: "'obj \<Rightarrow> 'obj list option"
  dict_entries :: "'obj \<Rightarrow> ('obj \<times> 'obj) list option"
  dict_find :: "'obj \<Rightarrow> 'obj \<Rightarrow> 'obj option option"
  dict_insert :: "'obj \<Rightarrow> 'obj \<Rightarrow> 'obj \<Rightarrow> 'obj option"
  eval_lsort :: "'obj list \<Rightarrow> 'obj list option"
  new_string :: "string \<Rightarrow> 'obj"
  new_wide :: "int \<Rightarrow> 'obj"
  new_double :: "'f \<Rightarrow> 'obj"
  new_boolean :: "bool \<Rightarrow> 'obj"
  new_list :: "'obj list \<Rightarrow> 'obj"
  new_dict :: "'obj"

text \<open>
  \<^verbatim>\<open>Tcl_NewIntObj\<close>, \<^verbatim>\<open>Tcl_NewLongObj\<close> and \<^verbatim>\<open>Tcl_NewWideIntObj\<close> all make an integer object
  and are one field, \<open>new_wide\<close>. What is relied on: objects give back what they were made
  from, integers as far as they fit 64 bits.
\<close>

definition tcl_ok :: "('obj, 'f, 'z) tcl_api_scheme \<Rightarrow> bool" where
  "tcl_ok A \<longleftrightarrow>
     (\<forall>s. tcl_string A (new_string A s) = s) \<and>
     (\<forall>xs. tcl_list A (new_list A xs) = Some xs) \<and>
     (\<forall>n. LONG_MIN \<le> n \<and> n \<le> LONG_MAX \<longrightarrow>
        tcl_wide A (new_wide A n) = Some n \<and> tcl_long A (new_wide A n) = Some n)"

lemma tcl_okD:
  assumes "tcl_ok A"
  shows "tcl_string A (new_string A s) = s" "tcl_list A (new_list A xs) = Some xs"
    "LONG_MIN \<le> n \<Longrightarrow> n \<le> LONG_MAX \<Longrightarrow> tcl_wide A (new_wide A n) = Some n"
    "LONG_MIN \<le> n \<Longrightarrow> n \<le> LONG_MAX \<Longrightarrow> tcl_long A (new_wide A n) = Some n"
  using assms unfolding tcl_ok_def by blast+

section \<open>Commands\<close>

type_synonym ('a, 'w) cmd = "'w \<Rightarrow> 'a res \<times> 'w"

definition cmd_do :: "'a res \<Rightarrow> ('a, 'w) cmd" where
  "cmd_do r w = (r, w)"

definition cmd_bind :: "('a, 'w) cmd \<Rightarrow> ('a \<Rightarrow> ('b, 'w) cmd) \<Rightarrow> ('b, 'w) cmd" where
  "cmd_bind m k w = (case m w of (Inl e, w') \<Rightarrow> (Inl e, w') | (Inr a, w') \<Rightarrow> k a w')"

text \<open>A call into the ADLB library, which cannot fail as such but returns a code.\<close>

definition cmd_call :: "('w \<Rightarrow> 'a \<times> 'w) \<Rightarrow> ('a, 'w) cmd" where
  "cmd_call f w = (let (a, w') = f w in (Inr a, w'))"

definition cmd_condition :: "bool \<Rightarrow> (unit, 'w) cmd" where
  "cmd_condition b = cmd_do (tcl_condition b (Inr ()))"

lemma cmd_simps [simp, res_simps]:
  "cmd_do (Inl e) w = (Inl e, w)"
  "cmd_do (Inr a) w = (Inr a, w)"
  "cmd_bind (cmd_do (Inl e)) k w = (Inl e, w)"
  "cmd_bind (cmd_do (Inr a)) k w = k a w"
  "cmd_bind (cmd_call f) k w = (let (a, w') = f w in k a w')"
  "cmd_bind (cmd_condition b) l w = (if b then l () w else (Inl Tcl_Error, w))"
  by (simp_all add: cmd_do_def cmd_bind_def cmd_call_def cmd_condition_def Let_def split: prod.split)

lemma cmd_bind_do: "cmd_bind (cmd_do r) k w = (case r of Inl e \<Rightarrow> (Inl e, w) | Inr a \<Rightarrow> k a w)"
  by (simp add: cmd_do_def cmd_bind_def split: sum.split)

lemma cmd_do_Pair: "cmd_do r = Pair r"
  by (rule ext) (simp add: cmd_do_def)

lemma cmd_bind_return: "cmd_bind (cmd_do (Inr a)) k = k a"
  by (rule ext) simp

lemma cmd_bind_assoc: "cmd_bind (cmd_bind m k) l = cmd_bind m (\<lambda>a. cmd_bind (k a) l)"
  by (rule ext) (simp add: cmd_bind_def split: prod.split sum.split)

lemma cmd_bind_eq: "m w = m' w \<Longrightarrow> cmd_bind m k w = cmd_bind m' k w"
  by (simp add: cmd_bind_def)

section \<open>Recursion through the error macros\<close>

lemma tcl_check_cong [fundef_cong]:
  "m = m' \<Longrightarrow> (\<And>v. m' = Inr v \<Longrightarrow> k v = k' v) \<Longrightarrow> tcl_check m k = tcl_check m' k'"
  by (cases m') simp_all

lemma tcl_condition_cong [fundef_cong]:
  "b = b' \<Longrightarrow> (b' \<Longrightarrow> k = k') \<Longrightarrow> tcl_condition b k = tcl_condition b' k'"
  by (cases b') simp_all

lemma c_assert_cong [fundef_cong]:
  "b = b' \<Longrightarrow> (b' \<Longrightarrow> k = k') \<Longrightarrow> c_assert b k = c_assert b' k'"
  by (cases b') simp_all

lemma c_defined_cong [fundef_cong]:
  "b = b' \<Longrightarrow> (b' \<Longrightarrow> k = k') \<Longrightarrow> c_defined b k = c_defined b' k'"
  by (cases b') simp_all

section \<open>Loops over an array\<close>

text \<open>A loop that calls a fallible function on every element and stops at the first error.\<close>

fun map_res :: "('a \<Rightarrow> 'b res) \<Rightarrow> 'a list \<Rightarrow> 'b list res" where
  "map_res f [] = Inr []"
| "map_res f (x # xs) = tcl_check (f x) (\<lambda>y. tcl_check (map_res f xs) (\<lambda>ys. Inr (y # ys)))"

lemma map_res_cong [fundef_cong]:
  "xs = ys \<Longrightarrow> (\<And>x. x \<in> set ys \<Longrightarrow> f x = g x) \<Longrightarrow> map_res f xs = map_res g ys"
  by (induction xs arbitrary: ys) auto

lemma map_res_Inr_conv:
  "map_res f xs = Inr ys \<longleftrightarrow> length ys = length xs \<and> (\<forall>i < length xs. f (xs ! i) = Inr (ys ! i))"
proof (induction xs arbitrary: ys)
  case (Cons x xs)
  have "map_res f (x # xs) = Inr ys \<longleftrightarrow> (\<exists>z zs. ys = z # zs \<and> f x = Inr z \<and> map_res f xs = Inr zs)"
    by (auto simp: tcl_check_Inr_conv)
  also have "\<dots> \<longleftrightarrow> length ys = length (x # xs) \<and> (\<forall>i < length (x # xs). f ((x # xs) ! i) = Inr (ys ! i))"
    by (cases ys) (auto simp: Cons.IH All_less_Suc2)
  finally show ?case .
qed auto

lemma map_res_Inl: "map_res f xs = Inl e \<Longrightarrow> \<exists>x \<in> set xs. f x = Inl e"
  by (induction xs) (auto simp: tcl_check_def split: sum.splits)

lemma map_res_all: "(\<And>x. x \<in> set xs \<Longrightarrow> f x = Inr (g x)) \<Longrightarrow> map_res f xs = Inr (map g xs)"
  by (induction xs) auto

section \<open>Tcl values\<close>

text \<open>
  A concrete instance of the interface, on which examples are evaluated: values that are
  strings, integers, lists or dictionaries, without Tcl's conversions between them.
\<close>

datatype val = V_str string | V_int int | V_list "val list" | V_dict "(val \<times> val) list"

fun val_string :: "val \<Rightarrow> string" where
  "val_string (V_str s) = s"
| "val_string _ = []"

definition val_tcl :: "(val, unit) tcl_api" where
  "val_tcl = \<lparr>
     tcl_string = val_string,
     tcl_int = (\<lambda>v. case v of V_int i \<Rightarrow> Some i | _ \<Rightarrow> None),
     tcl_wide = (\<lambda>v. case v of V_int i \<Rightarrow> Some i | _ \<Rightarrow> None),
     tcl_long = (\<lambda>v. case v of V_int i \<Rightarrow> Some i | _ \<Rightarrow> None),
     tcl_double = (\<lambda>v. Some ()),
     tcl_boolean = (\<lambda>v. case v of V_int i \<Rightarrow> Some (i \<noteq> 0) | _ \<Rightarrow> None),
     tcl_list = (\<lambda>v. case v of V_list vs \<Rightarrow> Some vs | _ \<Rightarrow> None),
     dict_entries = (\<lambda>v. case v of V_dict d \<Rightarrow> Some d | _ \<Rightarrow> None),
     dict_find = (\<lambda>v k. case v of V_dict d \<Rightarrow> Some (map_of d k) | _ \<Rightarrow> None),
     dict_insert = (\<lambda>v k x. case v of V_dict d \<Rightarrow> Some (V_dict (AList.update k x d)) | _ \<Rightarrow> None),
     eval_lsort = (\<lambda>vs. Some (sort_key val_string vs)),
     new_string = V_str, new_wide = V_int, new_double = (\<lambda>_. V_list []),
     new_boolean = (\<lambda>b. V_int (if b then 1 else 0)), new_list = V_list, new_dict = V_dict []\<rparr>"

lemma val_tcl_ok: "tcl_ok val_tcl"
  by (simp add: tcl_ok_def val_tcl_def)

end
