(* ===== verification/Adlb_Types.thy ===== *)
theory Adlb_Types
  imports Tcl_Api
begin

text \<open>
  Types of ADLB data in \<^verbatim>\<open>src/tcl/adlb/tcl-adlb.c\<close>: parsing of type names with what they
  need besides (key and value types of containers, member types of multisets), the
  creation of data and of struct types, and the flat representation of nested types with
  which values are packed.

  The names of types, the default properties and the calls that create data belong to
  ADLB and are parameters. The \<^verbatim>\<open>union\<close> \<^verbatim>\<open>adlb_type_extra\<close> with its flag \<^verbatim>\<open>valid\<close> is
  \<open>type_extra\<close>; reading a member that was not written is \<open>Undefined\<close>.
\<close>

section \<open>Data\<close>

datatype type_extra =
    Extra_None
  | Extra_Container adlb_type adlb_type
  | Extra_Multiset adlb_type
  | Extra_Struct int

record create_props =
  read_refcount :: int
  write_refcount :: int
  symbol :: "32 word"
  permanent :: bool
  release_write_refs :: bool

record create_spec =
  cs_id :: int
  cs_type :: adlb_type
  cs_extra :: type_extra
  cs_props :: create_props

datatype create_call =
    Create_integer | Create_float | Create_string | Create_blob | Create_ref
  | Create_struct int | Create_container adlb_type adlb_type | Create_multiset adlb_type

record ('obj, 'f) type_api = "('obj, 'f) tcl_api" +
  string_totype :: "string \<Rightarrow> (adlb_type \<times> type_extra) option"
  is_compound :: "adlb_type \<Rightarrow> bool"
  default_props :: create_props
  id_null :: int
  struct_type_null :: int

section \<open>Parsing types\<close>

definition adlb_type_from_string ::
    "('obj, 'f, 'z) type_api_scheme \<Rightarrow> string \<Rightarrow> (adlb_type \<times> type_extra) res" where
  "adlb_type_from_string A type_string = tcl_get (string_totype A type_string)"

definition adlb_type_from_obj_extra ::
    "('obj, 'f, 'z) type_api_scheme \<Rightarrow> 'obj \<Rightarrow> (adlb_type \<times> type_extra) res" where
  "adlb_type_from_obj_extra A obj = adlb_type_from_string A (tcl_string A obj)"

definition adlb_type_from_obj ::
    "('obj, 'f, 'z) type_api_scheme \<Rightarrow> 'obj \<Rightarrow> adlb_type res" where
  "adlb_type_from_obj A obj = tcl_check (adlb_type_from_obj_extra A obj) (\<lambda>(type, _). Inr type)"

text \<open>An element of an argument array.\<close>

definition arg :: "'obj list \<Rightarrow> nat \<Rightarrow> 'obj res" where
  "arg array ix = c_defined (ix < length array) (Inr (array ! ix))"

definition adlb_type_extra_from_array ::
    "('obj, 'f, 'z) type_api_scheme \<Rightarrow> 'obj list \<Rightarrow> nat \<Rightarrow> adlb_type \<Rightarrow> (type_extra \<times> nat) res" where
  "adlb_type_extra_from_array A array ix type =
     (case type of
        TYPE_CONTAINER \<Rightarrow>
          tcl_condition (length array > ix + 1)
            (tcl_check (adlb_type_from_obj A (array ! ix)) (\<lambda>key_type.
             tcl_check (adlb_type_from_obj A (array ! (ix + 1))) (\<lambda>val_type.
               Inr (Extra_Container key_type val_type, ix + 2))))
      | TYPE_MULTISET \<Rightarrow>
          tcl_condition (length array > ix)
            (tcl_check (adlb_type_from_obj A (array ! ix)) (\<lambda>val_type.
               Inr (Extra_Multiset val_type, ix + 1)))
      | _ \<Rightarrow> Inr (Extra_None, ix))"

text \<open>
  The caller's type variable is set before the extra information is parsed, and stays set
  when that fails. So besides the outcome (the type, the extra information and the next
  index, or a fault) there is the value of the caller's variable.
\<close>

definition adlb_type_from_array ::
    "('obj, 'f, 'z) type_api_scheme \<Rightarrow> 'obj list \<Rightarrow> nat \<Rightarrow> adlb_type \<Rightarrow>
      adlb_type \<times> (adlb_type \<times> type_extra \<times> nat) res" where
  "adlb_type_from_array A array ix type0 =
     (case tcl_check (arg array ix) (adlb_type_from_obj_extra A) of
        Inl e \<Rightarrow> (type0, Inl e)
      | Inr (type, extra) \<Rightarrow>
          (type,
           if extra = Extra_None
           then tcl_check (adlb_type_extra_from_array A array (ix + 1) type)
             (\<lambda>(extra, ix). Inr (type, extra, ix))
           else Inr (type, extra, ix + 1)))"

lemma extra_from_array_advances:
  "adlb_type_extra_from_array A array ix type = Inr (extra, ix') \<Longrightarrow> ix \<le> ix'"
  by (auto simp: adlb_type_extra_from_array_def res_Inr_convs split: adlb_type.splits)

lemma type_from_array_advances:
  "snd (adlb_type_from_array A array ix type0) = Inr (type, extra, ix') \<Longrightarrow> ix < ix'"
  by (fastforce simp: adlb_type_from_array_def res_Inr_convs dest: extra_from_array_advances
      split: sum.splits prod.splits if_splits)

section \<open>Creating data\<close>

definition turbine_release_write_rc_policy :: "('obj, 'f, 'z) type_api_scheme \<Rightarrow> adlb_type \<Rightarrow> bool" where
  "turbine_release_write_rc_policy A type = is_compound A type"

definition zero_props :: create_props where
  "zero_props = \<lparr>read_refcount = 0, write_refcount = 0, symbol = 0, permanent = False,
     release_write_refs = False\<rparr>"

text \<open>
  The optional arguments are parsed one after the other until one is bad: the properties
  set so far remain.
\<close>

fun optional_props ::
    "(('obj \<Rightarrow> create_props \<Rightarrow> create_props option) list) \<Rightarrow> 'obj list \<Rightarrow> create_props \<Rightarrow>
      create_props \<times> unit res" where
  "optional_props [] args props = (props, Inr ())"
| "optional_props (f # fs) [] props = (props, Inr ())"
| "optional_props (f # fs) (a # args) props =
     (case f a props of
        None \<Rightarrow> (props, Inl Tcl_Error)
      | Some props' \<Rightarrow> optional_props fs args props')"

definition props_parsers ::
    "('obj, 'f, 'z) type_api_scheme \<Rightarrow> ('obj \<Rightarrow> create_props \<Rightarrow> create_props option) list" where
  "props_parsers A =
     [\<lambda>obj props. map_option (\<lambda>n. props\<lparr>read_refcount := n\<rparr>) (tcl_int A obj),
      \<lambda>obj props. map_option (\<lambda>n. props\<lparr>write_refcount := n\<rparr>) (tcl_int A obj),
      \<lambda>obj props. map_option (\<lambda>n. props\<lparr>symbol := word_of_int n\<rparr>) (tcl_int A obj),
      \<lambda>obj props. map_option (\<lambda>b. props\<lparr>permanent := b\<rparr>) (tcl_boolean A obj)]"

text \<open>
  Besides the return code, the caller's variables: they start as \<open>spec\<close>, and are what the
  parser has set when it stops.
\<close>

definition extract_create_props ::
    "('obj, 'f, 'z) type_api_scheme \<Rightarrow> bool \<Rightarrow> nat \<Rightarrow> 'obj list \<Rightarrow> create_spec \<Rightarrow>
      create_spec \<times> unit res" where
  "extract_create_props A accept_id argstart objv spec0 =
     (let spec = spec0\<lparr>cs_props := zero_props\<rparr>;
          objc = length objv;
          types = (\<lambda>argpos spec.
            case adlb_type_from_array A objv argpos (cs_type spec) of
              (type, Inl e) \<Rightarrow> (spec\<lparr>cs_type := type, cs_extra := Extra_None\<rparr>, Inl e)
            | (_, Inr (type, extra, argpos)) \<Rightarrow>
                (let props = (default_props A)\<lparr>release_write_refs := turbine_release_write_rc_policy A type\<rparr>;
                     (props, rc) = optional_props (props_parsers A) (drop argpos objv) props in
                 (spec\<lparr>cs_type := type, cs_extra := extra, cs_props := props\<rparr>, rc))) in
      if accept_id
      then if int objc - int argstart \<ge> 2
           then case tcl_wide A (objv ! argstart) of
                  None \<Rightarrow> (spec, Inl Tcl_Error)
                | Some i \<Rightarrow> types (argstart + 1) (spec\<lparr>cs_id := i\<rparr>)
           else (spec, Inl Tcl_Error)
      else if int objc - int argstart \<ge> 1
           then types argstart (spec\<lparr>cs_id := id_null A\<rparr>)
           else (spec, Inl Tcl_Error))"

record 'w create_calls =
  adlb_create :: "create_call \<Rightarrow> int \<Rightarrow> create_props \<Rightarrow> 'w \<Rightarrow> (adlb_code \<times> int) \<times> 'w"
  adlb_multicreate :: "create_spec list \<Rightarrow> 'w \<Rightarrow> (adlb_code \<times> create_spec list) \<times> 'w"
  adlb_alloc_global :: "int \<Rightarrow> 'w \<Rightarrow> (adlb_code \<times> int) \<times> 'w"
  adlb_create_spec :: "create_spec \<Rightarrow> 'w \<Rightarrow> adlb_code \<times> 'w"
  adlb_locate :: "int \<Rightarrow> int"
  adlb_comm_rank :: int

text \<open>The \<^verbatim>\<open>switch\<close> of \<^verbatim>\<open>ADLB_Create_Cmd\<close>.\<close>

definition create_switch :: "('obj, 'f, 'z) type_api_scheme \<Rightarrow> adlb_type \<Rightarrow> type_extra \<Rightarrow> create_call res" where
  "create_switch A type type_extra =
     (case type of
        TYPE_INTEGER \<Rightarrow> Inr Create_integer
      | TYPE_FLOAT \<Rightarrow> Inr Create_float
      | TYPE_STRING \<Rightarrow> Inr Create_string
      | TYPE_BLOB \<Rightarrow> Inr Create_blob
      | TYPE_REF \<Rightarrow> Inr Create_ref
      | TYPE_STRUCT \<Rightarrow>
          (case type_extra of
             Extra_None \<Rightarrow> Inr (Create_struct (struct_type_null A))
           | Extra_Struct st \<Rightarrow> Inr (Create_struct st)
           | _ \<Rightarrow> Inl Undefined)
      | TYPE_CONTAINER \<Rightarrow>
          c_assert (type_extra \<noteq> Extra_None)
            (case type_extra of
               Extra_Container key val \<Rightarrow> Inr (Create_container key val)
             | _ \<Rightarrow> Inl Undefined)
      | TYPE_MULTISET \<Rightarrow>
          c_assert (type_extra \<noteq> Extra_None)
            (case type_extra of
               Extra_Multiset val \<Rightarrow> Inr (Create_multiset val)
             | _ \<Rightarrow> Inl Undefined)
      | TYPE_NULL \<Rightarrow> Inl Tcl_Error)"

text \<open>The code of \<open>extract_create_props\<close> is ignored, unless it is undefined behaviour.\<close>

definition ADLB_Create_Cmd ::
    "('obj, 'f, 'z) type_api_scheme \<Rightarrow> 'w create_calls \<Rightarrow> 'obj list \<Rightarrow> ('obj option, 'w) cmd" where
  "ADLB_Create_Cmd A C objv =
     (let (spec, rc) = extract_create_props A True 1 objv
            \<lparr>cs_id = id_null A, cs_type = TYPE_NULL, cs_extra = Extra_None, cs_props = zero_props\<rparr> in
      cmd_bind (cmd_do (c_defined (rc \<noteq> Inl Undefined) (Inr ()))) (\<lambda>_.
      cmd_bind (cmd_do (create_switch A (cs_type spec) (cs_extra spec))) (\<lambda>call.
      cmd_bind (cmd_call (adlb_create C call (cs_id spec) (cs_props spec))) (\<lambda>(rc, new_id).
      cmd_bind (cmd_condition (rc = ADLB_SUCCESS)) (\<lambda>_.
        cmd_do (Inr (if cs_id spec = id_null A then Some (new_wide A new_id) else None)))))))"

definition parse_variable_spec_list ::
    "('obj, 'f, 'z) type_api_scheme \<Rightarrow> 'obj \<Rightarrow> create_spec res" where
  "parse_variable_spec_list A lst =
     tcl_check (tcl_get (tcl_list A lst)) (\<lambda>elems.
       let (spec, rc) = extract_create_props A False 0 elems
             \<lparr>cs_id = id_null A, cs_type = TYPE_NULL, cs_extra = Extra_None, cs_props = zero_props\<rparr> in
       tcl_check rc (\<lambda>_. Inr spec))"

definition ADLB_Multicreate_Cmd ::
    "('obj, 'f, 'z) type_api_scheme \<Rightarrow> 'w create_calls \<Rightarrow> 'obj list \<Rightarrow> ('obj option, 'w) cmd" where
  "ADLB_Multicreate_Cmd A C objv =
     cmd_bind (cmd_do (map_res (parse_variable_spec_list A) (drop 1 objv))) (\<lambda>specs.
     cmd_bind (cmd_call (adlb_multicreate C specs)) (\<lambda>(rc, specs).
     cmd_bind (cmd_condition (rc = ADLB_SUCCESS)) (\<lambda>_.
       cmd_do (Inr (Some (new_list A (map (\<lambda>spec. new_wide A (cs_id spec)) specs)))))))"

text \<open>The loop of \<^verbatim>\<open>ADLB_Create_Globals_Cmd\<close>, from the \<open>i\<close>-th argument on.\<close>

fun create_globals ::
    "('obj, 'f, 'z) type_api_scheme \<Rightarrow> 'w create_calls \<Rightarrow> int \<Rightarrow> 'obj list \<Rightarrow> (int list, 'w) cmd" where
  "create_globals A C i [] = cmd_do (Inr [])"
| "create_globals A C i (lst # lsts) =
     cmd_bind (cmd_do (parse_variable_spec_list A lst)) (\<lambda>spec.
     let spec = spec\<lparr>cs_props := (cs_props spec)\<lparr>permanent := True\<rparr>, cs_id := i\<rparr> in
     cmd_bind
       (if adlb_locate C (cs_id spec) = adlb_comm_rank C
        then cmd_bind (cmd_call (adlb_create_spec C spec)) (\<lambda>ac. cmd_condition (ac = ADLB_SUCCESS))
        else cmd_do (Inr ())) (\<lambda>_.
     cmd_bind (create_globals A C (i + 1) lsts) (\<lambda>ids.
       cmd_do (Inr (cs_id spec # ids)))))"

definition ADLB_Create_Globals_Cmd ::
    "('obj, 'f, 'z) type_api_scheme \<Rightarrow> 'w create_calls \<Rightarrow> 'obj list \<Rightarrow> ('obj option, 'w) cmd" where
  "ADLB_Create_Globals_Cmd A C objv =
     cmd_bind (cmd_call (adlb_alloc_global C (int (length objv) - 1))) (\<lambda>(ac, start).
     cmd_bind (cmd_condition (ac = ADLB_SUCCESS)) (\<lambda>_.
     cmd_bind (create_globals A C start (drop 1 objv)) (\<lambda>ids.
       cmd_do (Inr (Some (new_list A (map (new_wide A) ids)))))))"

section \<open>Compound types\<close>

text \<open>
  The full type of a nested value, as a flat sequence: \<^verbatim>\<open>compound_type\<close> with its two
  arrays \<^verbatim>\<open>types\<close> and \<^verbatim>\<open>extras\<close>.
\<close>

type_synonym compound_type = "(adlb_type \<times> type_extra) list"

definition compound_type_next ::
    "compound_type \<Rightarrow> nat \<Rightarrow> (adlb_type \<times> type_extra \<times> nat) res" where
  "compound_type_next types ctype_pos =
     tcl_condition (ctype_pos < length types)
       (Inr (fst (types ! ctype_pos), snd (types ! ctype_pos), ctype_pos + 1))"

function compound_loop ::
    "('obj, 'f, 'z) type_api_scheme \<Rightarrow> 'obj list \<Rightarrow> nat \<Rightarrow> nat \<Rightarrow> compound_type \<Rightarrow>
      (compound_type \<times> nat) res" where
  "compound_loop A objv to_consume argpos types =
     (if to_consume = 0 then Inr (types, argpos)
      else tcl_condition (argpos < length objv)
        (tcl_check (adlb_type_from_obj_extra A (objv ! argpos)) (\<lambda>(curr, extra).
           case curr of
             TYPE_CONTAINER \<Rightarrow>
               c_assert (to_consume = 1)
                 (compound_loop A objv 2 (argpos + 1) (types @ [(curr, extra)]))
           | TYPE_MULTISET \<Rightarrow>
               c_assert (to_consume = 1)
                 (compound_loop A objv 1 (argpos + 1) (types @ [(curr, extra)]))
           | _ \<Rightarrow> compound_loop A objv (to_consume - 1) (argpos + 1) (types @ [(curr, extra)]))))"
  by pat_completeness auto
termination by (relation "measure (\<lambda>(A, objv, to_consume, argpos, types). length objv - argpos)") auto

declare compound_loop.simps [simp del]

definition get_compound_type ::
    "('obj, 'f, 'z) type_api_scheme \<Rightarrow> 'obj list \<Rightarrow> nat \<Rightarrow> (compound_type \<times> nat) res" where
  "get_compound_type A objv argpos = compound_loop A objv 1 argpos []"

section \<open>Struct types\<close>

text \<open>
  The names of the fields of each struct type, as Tcl objects: a table indexed by struct
  type whose entries are \<^verbatim>\<open>NULL\<close> until the type is declared.
\<close>

record 'obj field_name_objs =
  fn_objs :: "'obj list option list option"
  fn_size :: int

definition field_name_objs_init :: "'obj field_name_objs" where
  "field_name_objs_init = \<lparr>fn_objs = Some (replicate 64 None), fn_size = 64\<rparr>"

definition field_name_objs_add ::
    "'obj field_name_objs \<Rightarrow> int \<Rightarrow> 'obj list \<Rightarrow> 'obj field_name_objs res" where
  "field_name_objs_add N type field_names =
     tcl_check
       (if fn_size N \<le> type
        then tcl_check (c_int (fn_size N * 2)) (\<lambda>dbl.
          let new_size = (if dbl \<le> type then type else dbl);
              old = (case fn_objs N of None \<Rightarrow> [] | Some objs \<Rightarrow> objs) in
          Inr \<lparr>fn_objs = Some (old @ replicate (nat (new_size - fn_size N)) None), fn_size = new_size\<rparr>)
        else Inr N) (\<lambda>N.
     case fn_objs N of
       None \<Rightarrow> Inl Undefined
     | Some objs \<Rightarrow>
         c_defined (0 \<le> type \<and> nat type < length objs)
           (Inr (N\<lparr>fn_objs := Some (objs[nat type := Some field_names])\<rparr>)))"

text \<open>
  The objects whose references are released. \<open>field_count\<close> is the number of fields ADLB
  has for a type, if it knows the type.
\<close>

fun release_field_names ::
    "(nat \<Rightarrow> nat option) \<Rightarrow> nat \<Rightarrow> 'obj list option list \<Rightarrow> 'obj list res" where
  "release_field_names field_count i [] = Inr []"
| "release_field_names field_count i (None # objs) = release_field_names field_count (i + 1) objs"
| "release_field_names field_count i (Some name_arr # objs) =
     tcl_check (tcl_get (field_count i)) (\<lambda>n.
     c_defined (n \<le> length name_arr)
       (tcl_check (release_field_names field_count (i + 1) objs) (\<lambda>rest.
          Inr (take n name_arr @ rest))))"

definition field_name_objs_finalize ::
    "(nat \<Rightarrow> nat option) \<Rightarrow> 'obj field_name_objs \<Rightarrow> ('obj list \<times> 'obj field_name_objs) res" where
  "field_name_objs_finalize field_count N =
     (case fn_objs N of
        None \<Rightarrow> Inr ([], \<lparr>fn_objs = None, fn_size = 0\<rparr>)
      | Some objs \<Rightarrow>
          tcl_check (release_field_names field_count 0 objs) (\<lambda>released.
            Inr (released, \<lparr>fn_objs = None, fn_size = 0\<rparr>)))"

text \<open>
  The loop of \<^verbatim>\<open>ADLB_Declare_Struct_Type_Cmd\<close>. The arrays for names and types have room
  for half as many fields as the list has elements.
\<close>

function declare_fields ::
    "('obj, 'f, 'z) type_api_scheme \<Rightarrow> 'obj list \<Rightarrow> nat \<Rightarrow> (string \<times> adlb_type \<times> type_extra) list \<Rightarrow>
      (string \<times> adlb_type \<times> type_extra) list res" where
  "declare_fields A field_list ix decl =
     (if ix < length field_list
      then c_defined (length decl < length field_list div 2)
        (let name = tcl_string A (field_list ! ix) in
         tcl_condition (ix + 1 < length field_list)
           (tcl_check (snd (adlb_type_from_array A field_list (ix + 1) TYPE_NULL)) (\<lambda>(type, extra, ix').
              declare_fields A field_list ix' (decl @ [(name, type, extra)]))))
      else Inr decl)"
  by pat_completeness auto
termination
  by (relation "measure (\<lambda>(A, field_list, ix, decl). length field_list - ix)")
    (auto dest!: type_from_array_advances)

declare declare_fields.simps [simp del]

record 'w struct_calls =
  declare_struct_type :: "int \<Rightarrow> string \<Rightarrow> (string \<times> adlb_type \<times> type_extra) list \<Rightarrow> 'w \<Rightarrow> bool \<times> 'w"

text \<open>The state is the one of ADLB and the table of field names.\<close>

definition ADLB_Declare_Struct_Type_Cmd ::
    "('obj, 'f, 'z) type_api_scheme \<Rightarrow> 'w struct_calls \<Rightarrow> 'obj list \<Rightarrow>
      (unit, 'w \<times> 'obj field_name_objs) cmd" where
  "ADLB_Declare_Struct_Type_Cmd A S objv =
     cmd_bind (cmd_condition (length objv = 4)) (\<lambda>_.
     cmd_bind (cmd_do (tcl_get (tcl_int A (objv ! 1)))) (\<lambda>type_id.
     let type_name = tcl_string A (objv ! 2) in
     cmd_bind (cmd_do (tcl_get (tcl_list A (objv ! 3)))) (\<lambda>field_list.
     cmd_bind (cmd_do (declare_fields A field_list 0 [])) (\<lambda>decl.
     cmd_bind (\<lambda>(w, N). let (ok, w') = declare_struct_type S type_id type_name decl w in
                 (Inr ok, (w', N))) (\<lambda>ok.
     cmd_bind (cmd_condition ok) (\<lambda>_ (w, N).
       case field_name_objs_add N type_id (map (\<lambda>(name, _). new_string A name) decl) of
         Inl e \<Rightarrow> (Inl e, (w, N))
       | Inr N' \<Rightarrow> (Inr (), (w, N'))))))))"

definition ADLB_Is_Struct_Type_Cmd ::
    "('obj, 'f, 'z) type_api_scheme \<Rightarrow> 'obj list \<Rightarrow> bool res" where
  "ADLB_Is_Struct_Type_Cmd A objv =
     tcl_condition (length objv = 2)
       (tcl_check (adlb_type_from_obj_extra A (objv ! 1)) (\<lambda>(type, _).
          Inr (type = TYPE_STRUCT)))"

section \<open>Targets of tasks\<close>

datatype adlb_target_strictness = ADLB_TGT_STRICT_HARD | ADLB_TGT_STRICT_SOFT
datatype adlb_target_accuracy = ADLB_TGT_ACCRY_RANK | ADLB_TGT_ACCRY_NODE

definition adlb_parse_strictness ::
    "('obj, 'f, 'z) tcl_api_scheme \<Rightarrow> 'obj \<Rightarrow> adlb_target_strictness res" where
  "adlb_parse_strictness A obj =
     (if tcl_string A obj = ''HARD'' then Inr ADLB_TGT_STRICT_HARD
      else if tcl_string A obj = ''SOFT'' then Inr ADLB_TGT_STRICT_SOFT
      else Inl Tcl_Error)"

definition adlb_parse_accuracy ::
    "('obj, 'f, 'z) tcl_api_scheme \<Rightarrow> 'obj \<Rightarrow> adlb_target_accuracy res" where
  "adlb_parse_accuracy A obj =
     (if tcl_string A obj = ''RANK'' then Inr ADLB_TGT_ACCRY_RANK
      else if tcl_string A obj = ''NODE'' then Inr ADLB_TGT_ACCRY_NODE
      else Inl Tcl_Error)"

section \<open>An instance for examples\<close>

definition val_types :: "(val, unit) type_api" where
  "val_types = tcl_api.extend val_tcl \<lparr>
     string_totype = (\<lambda>s. if s = ''integer'' then Some (TYPE_INTEGER, Extra_None)
       else if s = ''string'' then Some (TYPE_STRING, Extra_None)
       else if s = ''container'' then Some (TYPE_CONTAINER, Extra_None)
       else if s = ''multiset'' then Some (TYPE_MULTISET, Extra_None)
       else None),
     is_compound = (\<lambda>t. t \<in> {TYPE_CONTAINER, TYPE_MULTISET, TYPE_STRUCT}),
     default_props = \<lparr>read_refcount = 1, write_refcount = 1, symbol = 0, permanent = False,
       release_write_refs = False\<rparr>,
     id_null = 0, struct_type_null = -1\<rparr>"

lemma val_types_sel [simp]:
  "tcl_string val_types = val_string"
  "tcl_int val_types v = (case v of V_int i \<Rightarrow> Some i | _ \<Rightarrow> None)"
  "tcl_wide val_types v = (case v of V_int i \<Rightarrow> Some i | _ \<Rightarrow> None)"
  "tcl_list val_types v = (case v of V_list vs \<Rightarrow> Some vs | _ \<Rightarrow> None)"
  "new_wide val_types = V_int" "new_list val_types = V_list" "new_string val_types = V_str"
  "string_totype val_types ''integer'' = Some (TYPE_INTEGER, Extra_None)"
  "string_totype val_types ''string'' = Some (TYPE_STRING, Extra_None)"
  "string_totype val_types ''container'' = Some (TYPE_CONTAINER, Extra_None)"
  "string_totype val_types ''multiset'' = Some (TYPE_MULTISET, Extra_None)"
  "is_compound val_types t = (t \<in> {TYPE_CONTAINER, TYPE_MULTISET, TYPE_STRUCT})"
  "id_null val_types = 0"
  by (simp_all add: val_types_def val_tcl_def tcl_api.extend_def)

text \<open>Creation that hands out ids and keeps the specifications in order.\<close>

definition val_creates :: "create_spec list create_calls" where
  "val_creates = \<lparr>
     adlb_create = (\<lambda>call i props w. ((ADLB_SUCCESS, if i = 0 then 100 else i), w)),
     adlb_multicreate = (\<lambda>specs w. ((ADLB_SUCCESS, specs), w @ specs)),
     adlb_alloc_global = (\<lambda>n w. ((ADLB_SUCCESS, 10), w)),
     adlb_create_spec = (\<lambda>spec w. (ADLB_SUCCESS, w @ [spec])),
     adlb_locate = (\<lambda>i. i mod 2), adlb_comm_rank = 1\<rparr>"

section \<open>What compound types mean\<close>

text \<open>
  The specification of the flat representation: the arguments of a nested type are the
  fringe of a tree. Keys are never compound.
\<close>

datatype 'obj type_tree =
    Simple 'obj
  | Cont 'obj 'obj "'obj type_tree"
  | Mset 'obj "'obj type_tree"

fun fringe :: "'obj type_tree \<Rightarrow> 'obj list" where
  "fringe (Simple x) = [x]"
| "fringe (Cont c k v) = c # k # fringe v"
| "fringe (Mset m v) = m # fringe v"

abbreviation compound_kinds :: "adlb_type set" where
  "compound_kinds \<equiv> {TYPE_CONTAINER, TYPE_MULTISET}"

definition has_type :: "('obj, 'f, 'z) type_api_scheme \<Rightarrow> 'obj \<Rightarrow> adlb_type set \<Rightarrow> bool" where
  "has_type A x S = (case adlb_type_from_obj A x of Inr ty \<Rightarrow> ty \<in> S | Inl _ \<Rightarrow> False)"

fun tree_ok :: "('obj, 'f, 'z) type_api_scheme \<Rightarrow> 'obj type_tree \<Rightarrow> bool" where
  "tree_ok A (Simple x) = has_type A x (- compound_kinds)"
| "tree_ok A (Cont c k v) = (has_type A c {TYPE_CONTAINER} \<and> has_type A k (- compound_kinds) \<and> tree_ok A v)"
| "tree_ok A (Mset m v) = (has_type A m {TYPE_MULTISET} \<and> tree_ok A v)"

definition type_entry :: "('obj, 'f, 'z) type_api_scheme \<Rightarrow> 'obj \<Rightarrow> adlb_type \<times> type_extra" where
  "type_entry A x = the (string_totype A (tcl_string A x))"

lemmas from_obj_defs = adlb_type_from_obj_def adlb_type_from_obj_extra_def adlb_type_from_string_def

lemma has_type_conv:
  "has_type A x S \<longleftrightarrow> (\<exists>ty ex. adlb_type_from_obj_extra A x = Inr (ty, ex) \<and> type_entry A x = (ty, ex) \<and> ty \<in> S)"
  by (cases "string_totype A (tcl_string A x)")
    (auto simp: has_type_def from_obj_defs type_entry_def)

text \<open>One round of the loop, by the type of the argument.\<close>

lemma compound_loop_simple:
  "0 < n \<Longrightarrow> argpos < length objv \<Longrightarrow> has_type A (objv ! argpos) (- compound_kinds) \<Longrightarrow>
    compound_loop A objv n argpos types =
      compound_loop A objv (n - 1) (Suc argpos) (types @ [type_entry A (objv ! argpos)])"
  by (subst compound_loop.simps) (auto simp: has_type_conv split: adlb_type.splits)

lemma compound_loop_container:
  "argpos < length objv \<Longrightarrow> has_type A (objv ! argpos) {TYPE_CONTAINER} \<Longrightarrow>
    compound_loop A objv (Suc 0) argpos types =
      compound_loop A objv 2 (Suc argpos) (types @ [type_entry A (objv ! argpos)])"
  by (subst compound_loop.simps) (auto simp: has_type_conv)

lemma compound_loop_multiset:
  "argpos < length objv \<Longrightarrow> has_type A (objv ! argpos) {TYPE_MULTISET} \<Longrightarrow>
    compound_loop A objv (Suc 0) argpos types =
      compound_loop A objv (Suc 0) (Suc argpos) (types @ [type_entry A (objv ! argpos)])"
  by (subst compound_loop.simps) (auto simp: has_type_conv)

lemma compound_loop_key_compound:
  "argpos < length objv \<Longrightarrow> has_type A (objv ! argpos) compound_kinds \<Longrightarrow>
    compound_loop A objv 2 argpos types = Inl Abort"
  by (subst compound_loop.simps) (auto simp: has_type_conv)

lemma compound_loop_end:
  "compound_loop A objv 0 argpos types = Inr (types, argpos)"
  "0 < n \<Longrightarrow> length objv \<le> argpos \<Longrightarrow> compound_loop A objv n argpos types = Inl Tcl_Error"
  by (subst compound_loop.simps; simp)+

lemma compound_loop_untyped:
  "0 < n \<Longrightarrow> argpos < length objv \<Longrightarrow> \<not> has_type A (objv ! argpos) UNIV \<Longrightarrow>
    \<exists>e. compound_loop A objv n argpos types = Inl e"
  by (subst compound_loop.simps)
    (cases "adlb_type_from_obj_extra A (objv ! argpos)", auto simp: has_type_def adlb_type_from_obj_def)

lemma compound_loop_fringe:
  "tree_ok A t \<Longrightarrow> compound_loop A (pre @ fringe t @ rest) 1 (length pre) types =
     Inr (types @ map (type_entry A) (fringe t), length pre + length (fringe t))"
proof (induction t arbitrary: pre types)
  case (Simple x)
  then show ?case by (simp add: compound_loop_simple compound_loop_end)
next
  case (Cont c k v)
  have "compound_loop A (pre @ fringe (Cont c k v) @ rest) 1 (length pre) types =
    compound_loop A ((pre @ [c, k]) @ fringe v @ rest) 1 (length (pre @ [c, k]))
      (types @ [type_entry A c, type_entry A k])"
    using Cont.prems
    by (simp add: compound_loop_container compound_loop_simple nth_append)
  with Cont.IH [of "pre @ [c, k]"] Cont.prems show ?case by simp
next
  case (Mset m v)
  have "compound_loop A (pre @ fringe (Mset m v) @ rest) 1 (length pre) types =
    compound_loop A ((pre @ [m]) @ fringe v @ rest) 1 (length (pre @ [m])) (types @ [type_entry A m])"
    using Mset.prems by (simp add: compound_loop_multiset nth_append)
  with Mset.IH [of "pre @ [m]"] Mset.prems show ?case by simp
qed

lemma has_type_cases:
  obtains "has_type A x {TYPE_CONTAINER}" | "has_type A x {TYPE_MULTISET}"
    | "has_type A x (- compound_kinds)" | "\<not> has_type A x UNIV"
  by (cases "adlb_type_from_obj A x") (auto simp: has_type_def)

lemma compound_loop_sound:
  "compound_loop A objv 1 argpos types = Inr (types', pos) \<Longrightarrow>
     \<exists>t rest. tree_ok A t \<and> drop argpos objv = fringe t @ rest"
proof (induction "length objv - argpos" arbitrary: argpos types rule: less_induct)
  case less
  have arg: "argpos < length objv"
    using less.prems compound_loop_end(2) [of 1 objv argpos A types] by (cases "argpos < length objv") auto
  then have drop: "drop argpos objv = objv ! argpos # drop (argpos + 1) objv"
    by (simp add: Cons_nth_drop_Suc)
  show ?case
  proof (cases rule: has_type_cases [of A "objv ! argpos"])
    case 1
    let ?ts = "types @ [type_entry A (objv ! argpos)]"
    from less.prems 1 arg have two: "compound_loop A objv 2 (argpos + 1) ?ts = Inr (types', pos)"
      by (simp add: compound_loop_container)
    have key: "argpos + 1 < length objv"
      using two compound_loop_end(2) [of 2 objv "argpos + 1" A ?ts]
      by (cases "argpos + 1 < length objv") auto
    have simple: "has_type A (objv ! (argpos + 1)) (- compound_kinds)"
      using two key compound_loop_untyped [OF _ key, of 2 A ?ts] compound_loop_key_compound [OF key, of A ?ts]
      by (cases rule: has_type_cases [of A "objv ! (argpos + 1)"]) (auto simp: has_type_conv)
    from compound_loop_simple [OF _ key simple, of 2 ?ts] two
    have "compound_loop A objv 1 (argpos + 2) (?ts @ [type_entry A (objv ! (argpos + 1))]) = Inr (types', pos)"
      by simp
    moreover have "length objv - (argpos + 2) < length objv - argpos" using arg by linarith
    ultimately obtain t rest where
      "tree_ok A t" "drop (argpos + 2) objv = fringe t @ rest" using less.hyps by blast
    moreover have "drop (argpos + 1) objv = objv ! (argpos + 1) # drop (argpos + 2) objv"
      using key by (simp add: Cons_nth_drop_Suc)
    ultimately have "tree_ok A (Cont (objv ! argpos) (objv ! (argpos + 1)) t) \<and>
      drop argpos objv = fringe (Cont (objv ! argpos) (objv ! (argpos + 1)) t) @ rest"
      using drop 1 simple by simp
    then show ?thesis by blast
  next
    case 2
    with less.prems arg have "compound_loop A objv 1 (argpos + 1) (types @ [type_entry A (objv ! argpos)]) =
      Inr (types', pos)" by (simp add: compound_loop_multiset)
    moreover have "length objv - (argpos + 1) < length objv - argpos" using arg by linarith
    ultimately obtain t rest where
      "tree_ok A t" "drop (argpos + 1) objv = fringe t @ rest" using less.hyps by blast
    then have "tree_ok A (Mset (objv ! argpos) t) \<and> drop argpos objv = fringe (Mset (objv ! argpos) t) @ rest"
      using drop 2 by simp
    then show ?thesis by blast
  next
    case 3
    then have "tree_ok A (Simple (objv ! argpos)) \<and>
      drop argpos objv = fringe (Simple (objv ! argpos)) @ drop (argpos + 1) objv"
      using drop by simp
    then show ?thesis by blast
  next
    case 4
    then show ?thesis using compound_loop_untyped [OF _ arg 4, of 1 types] less.prems by simp
  qed
qed

text \<open>
  C29: The flat representation of nested types. \<^verbatim>\<open>get_compound_type\<close> succeeds exactly when the
  arguments from \<open>argpos\<close> on start with the fringe of a tree of types whose keys are not
  compound; it then returns the types on the fringe in order and consumes nothing else.
\<close>

theorem compound_type_fringe:
  "get_compound_type A objv argpos = Inr (types, pos) \<longleftrightarrow>
     (\<exists>t rest. tree_ok A t \<and> drop argpos objv = fringe t @ rest \<and>
        types = map (type_entry A) (fringe t) \<and> pos = argpos + length (fringe t))"
proof -
  have parse: "get_compound_type A objv argpos =
      Inr (map (type_entry A) (fringe t), argpos + length (fringe t))"
    if "tree_ok A t" "drop argpos objv = fringe t @ rest" for t rest
  proof -
    have "fringe t \<noteq> []" by (cases t) auto
    then have "argpos < length objv" using that(2) by (metis append_is_Nil_conv drop_all not_le)
    then have "objv = take argpos objv @ fringe t @ rest" "length (take argpos objv) = argpos"
      using that(2) append_take_drop_id [of argpos objv] by simp_all
    then show ?thesis
      using compound_loop_fringe [OF that(1), of "take argpos objv" rest "[]"]
      by (simp add: get_compound_type_def)
  qed
  show ?thesis
  proof
    assume run: "get_compound_type A objv argpos = Inr (types, pos)"
    then obtain t rest where "tree_ok A t" "drop argpos objv = fringe t @ rest"
      using compound_loop_sound [of A objv argpos "[]" types pos] by (auto simp: get_compound_type_def)
    with parse [OF this] run show "\<exists>t rest. tree_ok A t \<and> drop argpos objv = fringe t @ rest \<and>
        types = map (type_entry A) (fringe t) \<and> pos = argpos + length (fringe t)" by auto
  qed (use parse in auto)
qed

text \<open>
  A container whose key type is itself a container or multiset is not rejected: it
  fails an assertion and stops the process.
\<close>

theorem compound_key_aborts:
  assumes "has_type A c {TYPE_CONTAINER}" "has_type A k compound_kinds"
  shows "get_compound_type A (pre @ c # k # rest) (length pre) = Inl Abort"
  using assms
  by (simp add: get_compound_type_def compound_loop_container compound_loop_key_compound nth_append)

lemma compound_key_aborts_witness:
  "get_compound_type val_types [V_str ''cmd'', V_str ''container'', V_str ''container'', V_str ''integer'',
     V_str ''integer'', V_str ''integer''] 1 = Inl Abort"
  using compound_key_aborts [of val_types "V_str ''container''" "V_str ''container''" "[V_str ''cmd'']"
      "[V_str ''integer'', V_str ''integer'', V_str ''integer'']"]
  by (simp add: has_type_def from_obj_defs)

section \<open>Creation: what the commands do\<close>

lemma extra_from_array_append:
  "adlb_type_extra_from_array A array ix type = Inr r \<Longrightarrow>
     adlb_type_extra_from_array A (array @ xs) ix type = Inr r"
  by (auto simp: adlb_type_extra_from_array_def res_Inr_convs nth_append split: adlb_type.splits)

lemma type_from_array_append:
  assumes "adlb_type_from_array A array ix type0 = (type1, Inr r)"
  shows "adlb_type_from_array A (array @ xs) ix type0 = (type1, Inr r)"
proof -
  from assms obtain type extra where
    from_obj: "tcl_check (arg array ix) (adlb_type_from_obj_extra A) = Inr (type, extra)"
    by (auto simp: adlb_type_from_array_def split: sum.splits)
  then have ix: "ix < length array" by (simp add: arg_def res_Inr_convs)
  then have arg: "arg (array @ xs) ix = arg array ix" by (simp add: arg_def nth_append)
  show ?thesis
    using assms unfolding adlb_type_from_array_def arg from_obj
    by (auto simp: res_Inr_convs dest: extra_from_array_append [of A array _ _ _ xs] split: if_splits)
qed

text \<open>
  A bad option is not an error. When the id and the type have been parsed,
  \<^verbatim>\<open>adlb::create\<close> with a read reference count that is no integer does exactly what it does
  without that argument and everything after it: the datum is created with the default
  properties.
\<close>

theorem create_bad_option_ignored:
  assumes "2 < length objv" "tcl_wide A (objv ! 1) = Some i"
    and "adlb_type_from_array A objv 2 TYPE_NULL = (ty, Inr (type, extra, length objv))"
    and "tcl_int A bad = None"
  shows "ADLB_Create_Cmd A C (objv @ bad # rest) w = ADLB_Create_Cmd A C objv w"
proof -
  let ?spec = "\<lparr>cs_id = id_null A, cs_type = TYPE_NULL, cs_extra = Extra_None, cs_props = zero_props\<rparr>"
  let ?final = "?spec\<lparr>cs_id := i, cs_type := type, cs_extra := extra,
    cs_props := (default_props A)\<lparr>release_write_refs := turbine_release_write_rc_policy A type\<rparr>\<rparr>"
  have two: "2 = Suc (Suc 0)" by simp
  have "extract_create_props A True 1 objv ?spec = (?final, Inr ())"
    using assms(1-3) by (simp add: extract_create_props_def Let_def props_parsers_def two)
  moreover have "extract_create_props A True 1 (objv @ bad # rest) ?spec = (?final, Inl Tcl_Error)"
    using assms(1,2,4) type_from_array_append [OF assms(3), of "bad # rest"]
    by (simp add: extract_create_props_def Let_def props_parsers_def two nth_append)
  ultimately show ?thesis by (simp add: ADLB_Create_Cmd_def)
qed

lemma create_bad_option_ignored_witness:
  "ADLB_Create_Cmd val_types val_creates
     [V_str ''create'', V_int 0, V_str ''container'', V_str ''string'', V_str ''integer'', V_str ''many'', V_int 7] [] =
     (Inr (Some (V_int 100)), [])"
  using create_bad_option_ignored [of "[V_str ''create'', V_int 0, V_str ''container'', V_str ''string'', V_str ''integer'']"
      val_types 0 TYPE_CONTAINER TYPE_CONTAINER "Extra_Container TYPE_STRING TYPE_INTEGER" "V_str ''many''"
      val_creates "[V_int 7]" "[]"]
  by (simp add: adlb_type_from_array_def adlb_type_extra_from_array_def arg_def from_obj_defs 
      val_creates_def ADLB_Create_Cmd_def extract_create_props_def create_switch_def Let_def props_parsers_def
      numeral_2_eq_2 numeral_3_eq_3 eval_nat_numeral)

text \<open>The specification of \<^verbatim>\<open>adlb::create_globals\<close>: the data and the calls that create them.\<close>

fun global_specs :: "int \<Rightarrow> create_spec list \<Rightarrow> create_spec list" where
  "global_specs start [] = []"
| "global_specs start (spec # specs) =
     spec\<lparr>cs_id := start, cs_props := (cs_props spec)\<lparr>permanent := True\<rparr>\<rparr> # global_specs (start + 1) specs"

fun run_creates :: "'w create_calls \<Rightarrow> create_spec list \<Rightarrow> (unit, 'w) cmd" where
  "run_creates C [] = cmd_do (Inr ())"
| "run_creates C (spec # specs) =
     cmd_bind (cmd_call (adlb_create_spec C spec)) (\<lambda>ac.
     cmd_bind (cmd_condition (ac = ADLB_SUCCESS)) (\<lambda>_. run_creates C specs))"

abbreviation local_spec :: "'w create_calls \<Rightarrow> create_spec \<Rightarrow> bool" where
  "local_spec C spec \<equiv> adlb_locate C (cs_id spec) = adlb_comm_rank C"

lemma global_ids: "map cs_id (global_specs start specs) = [start .. start + int (length specs) - 1]"
proof (induction specs arbitrary: start)
  case (Cons spec specs)
  have "[start .. start + int (length (spec # specs)) - 1] =
      start # [start + 1 .. start + 1 + int (length specs) - 1]"
    by (simp add: upto_rec1)
  with Cons.IH [of "start + 1"] show ?case by simp
qed simp

lemma create_globals_spec:
  "map_res (parse_variable_spec_list A) lsts = Inr specs \<Longrightarrow>
     create_globals A C i lsts w =
       cmd_bind (run_creates C (filter (local_spec C) (global_specs i specs)))
         (\<lambda>_. cmd_do (Inr (map cs_id (global_specs i specs)))) w"
proof (induction lsts arbitrary: i specs w)
  case Nil
  then show ?case by (simp add: cmd_bind_def cmd_do_def)
next
  case (Cons lst lsts)
  then obtain spec specs' where specs: "parse_variable_spec_list A lst = Inr spec"
    "map_res (parse_variable_spec_list A) lsts = Inr specs'" "specs = spec # specs'"
    by (auto simp: tcl_check_Inr_conv)
  note IH = Cons.IH [OF specs(2), of "i + 1"]
  obtain ac w' where call: "adlb_create_spec C (spec\<lparr>cs_id := i,
      cs_props := (cs_props spec)\<lparr>permanent := True\<rparr>\<rparr>) w = (ac, w')" by fastforce
  have swap: "spec\<lparr>cs_props := p, cs_id := i\<rparr> = spec\<lparr>cs_id := i, cs_props := p\<rparr>" for p by simp
  show ?case
    using specs call
    by (auto simp: cmd_bind_def [of "create_globals A C (i + 1) lsts"] IH swap Let_def
        cmd_bind_def cmd_call_def cmd_condition_def cmd_do_def split: prod.splits sum.splits)
qed

text \<open>
  C30: Globals are created once. With well-formed specifications, \<^verbatim>\<open>adlb::create_globals\<close>
  returns consecutive ids from the start of the range reserved; of these data the process
  creates exactly those that \<^verbatim>\<open>ADLB_Locate\<close> places on its own rank, as permanent, in order,
  so that with every rank running the command each datum is created on one of them only.
\<close>

theorem create_globals_once:
  assumes "map_res (parse_variable_spec_list A) (drop 1 objv) = Inr specs"
    and "adlb_alloc_global C (int (length objv) - 1) w = ((ADLB_SUCCESS, start), w1)"
  shows "ADLB_Create_Globals_Cmd A C objv w =
    cmd_bind (run_creates C (filter (local_spec C) (global_specs start specs)))
      (\<lambda>_. cmd_do (Inr (Some (new_list A (map (new_wide A) [start .. start + int (length specs) - 1]))))) w1"
proof -
  note run = cmd_bind_eq [where m = "create_globals A C start (drop 1 objv)"
      and m' = "cmd_bind (run_creates C (filter (local_spec C) (global_specs start specs)))
        (\<lambda>_. cmd_do (Inr (map cs_id (global_specs start specs))))", OF create_globals_spec [OF assms(1)]]
  show ?thesis
    using assms(2)
    by (simp add: ADLB_Create_Globals_Cmd_def run [simplified] cmd_bind_assoc cmd_bind_return
        global_ids [simplified]) (simp add: cmd_do_Pair)
qed

lemma create_globals_once_witness:
  "\<exists>spec. ADLB_Create_Globals_Cmd val_types val_creates
      [V_str ''cmd'', V_list [V_str ''integer''], V_list [V_str ''string'']] [] =
     (Inr (Some (V_list [V_int 10, V_int 11])), [spec]) \<and> cs_id spec = 11 \<and> permanent (cs_props spec)"
  using create_globals_once [of val_types "[V_str ''cmd'', V_list [V_str ''integer''], V_list [V_str ''string'']]" _
      val_creates "[]" 10 "[]"]
  by (simp add: parse_variable_spec_list_def adlb_type_from_array_def adlb_type_extra_from_array_def arg_def
      from_obj_defs  val_creates_def extract_create_props_def Let_def props_parsers_def
      upto_rec1 cmd_bind_assoc)

section \<open>Struct types: what declarations do\<close>

text \<open>A type that takes no arguments besides its name.\<close>

definition plain_type :: "('obj, 'f, 'z) type_api_scheme \<Rightarrow> 'obj \<Rightarrow> bool" where
  "plain_type A t \<longleftrightarrow> has_type A t UNIV \<and>
     (has_type A t compound_kinds \<longrightarrow> snd (type_entry A t) \<noteq> Extra_None)"

lemma plain_type_from_array:
  assumes "plain_type A (array ! ix)" "ix < length array"
  shows "snd (adlb_type_from_array A array ix type0) =
    Inr (fst (type_entry A (array ! ix)), snd (type_entry A (array ! ix)), ix + 1)"
proof -
  from assms(1) obtain ty ex where t: "adlb_type_from_obj_extra A (array ! ix) = Inr (ty, ex)"
    "type_entry A (array ! ix) = (ty, ex)" by (auto simp: plain_type_def has_type_conv)
  have "ty \<notin> compound_kinds \<or> ex \<noteq> Extra_None"
    using assms(1) t by (auto simp: plain_type_def has_type_conv)
  then show ?thesis
    using t assms(2)
    by (auto simp: adlb_type_from_array_def arg_def adlb_type_extra_from_array_def split: adlb_type.splits)
qed

fun pair_list :: "('obj \<times> 'obj) list \<Rightarrow> 'obj list" where
  "pair_list [] = []"
| "pair_list ((n, t) # ps) = n # t # pair_list ps"

lemma length_pair_list [simp]: "length (pair_list ps) = 2 * length ps"
  by (induction ps rule: pair_list.induct) auto

lemma declare_fields_pairs:
  assumes "\<forall>(n, t) \<in> set ps. plain_type A t" "length decl = length done0"
    "length tl1 \<le> 1"
  shows "declare_fields A (pair_list done0 @ pair_list ps @ tl1) (2 * length done0) decl =
    declare_fields A (pair_list (done0 @ ps) @ tl1) (2 * (length done0 + length ps))
      (decl @ map (\<lambda>(n, t). (tcl_string A n, type_entry A t)) ps)"
  using assms
proof (induction ps arbitrary: done0 decl)
  case Nil
  then show ?case by simp
next
  case (Cons p ps)
  obtain n t where p: "p = (n, t)" by fastforce
  have pairs: "pair_list (done0 @ [(n, t)]) = pair_list done0 @ [n, t]" for done0
    by (induction done0 rule: pair_list.induct) auto
  let ?l = "pair_list done0 @ pair_list (p # ps) @ tl1"
  have nth: "?l ! (2 * length done0) = n" "?l ! (2 * length done0 + 1) = t"
    by (simp_all add: p nth_append)
  have "declare_fields A ?l (2 * length done0) decl = declare_fields A ?l (2 * length done0 + 2)
      (decl @ [(tcl_string A n, type_entry A t)])"
    using Cons.prems plain_type_from_array [of A ?l "2 * length done0 + 1"] nth p
    by (subst declare_fields.simps) (auto simp: Let_def)
  with Cons.IH [of "decl @ [(tcl_string A n, type_entry A t)]" "done0 @ [(n, t)]"] Cons.prems
  show ?case by (simp add: p pairs)
qed

text \<open>
  The field list of a struct type. A list of names each followed by a type without
  arguments declares these fields in order. A list with one more name at the end is not
  rejected before the name is written past the end of the arrays for names and types,
  which have room for half the list.
\<close>

theorem declare_fields_odd:
  assumes "\<forall>(n, t) \<in> set ps. plain_type A t"
  shows "declare_fields A (pair_list ps) 0 [] =
      Inr (map (\<lambda>(n, t). (tcl_string A n, type_entry A t)) ps) \<and>
    declare_fields A (pair_list ps @ [name]) 0 [] = Inl Undefined"
  using declare_fields_pairs [OF assms, of "[]" "[]" "[]"] declare_fields_pairs [OF assms, of "[]" "[]" "[name]"]
  by (simp add: declare_fields.simps)

lemma declare_fields_odd_witness:
  "declare_fields val_types [V_str ''x'', V_str ''integer''] 0 [] = Inr [(''x'', TYPE_INTEGER, Extra_None)] \<and>
   declare_fields val_types [V_str ''x'', V_str ''integer'', V_str ''y''] 0 [] = Inl Undefined"
  using declare_fields_odd [of "[(V_str ''x'', V_str ''integer'')]" val_types "V_str ''y''"]
  by (simp add: plain_type_def has_type_def type_entry_def from_obj_defs)

text \<open>
  Growing the table of field names. A struct type within the table, or within twice
  its size, gets its entry and leaves the others alone; from twice the size on the table
  is grown to exactly the index of the type and the entry is written behind its end.
\<close>

theorem field_names_growth:
  assumes "fn_objs N = Some objs" "fn_size N = int (length objs)" "0 \<le> type"
    "int (length objs) * 2 \<le> INT_MAX"
  shows "field_name_objs_add N type names =
    (if type < int (length objs) then Inr (N\<lparr>fn_objs := Some (objs[nat type := Some names])\<rparr>)
     else if type < 2 * int (length objs)
     then Inr \<lparr>fn_objs = Some ((objs @ replicate (length objs) None)[nat type := Some names]),
            fn_size = 2 * int (length objs)\<rparr>
     else Inl Undefined)"
proof -
  have "int_ok (int (length objs) * 2)" using assms(4) by (simp add: int_ok_def INT_MIN_def)
  then show ?thesis
    using assms by (auto simp: field_name_objs_add_def Let_def nat_less_iff)
qed

lemma field_names_growth_witness:
  "field_name_objs_add (field_name_objs_init :: val field_name_objs) 128 [V_str ''x''] = Inl Undefined"
  using field_names_growth [of "field_name_objs_init :: val field_name_objs" "replicate 64 None" 128 "[V_str ''x'']"]
  by (simp add: field_name_objs_init_def INT_MAX_def)

text \<open>What is released at the end is what was stored, if ADLB knows the types by the same counts.\<close>

lemma release_all_names:
  assumes "\<forall>i < length objs. \<forall>ns. objs ! i = Some ns \<longrightarrow> fc (k + i) = Some (length ns)"
  shows "release_field_names fc k objs = Inr (concat (map (case_option [] id) objs))"
  using assms
proof (induction objs arbitrary: k)
  case (Cons obj objs)
  have "release_field_names fc (k + 1) objs = Inr (concat (map (case_option [] id) objs))"
    using Cons.prems by (intro Cons.IH) (auto simp: add.assoc dest: spec [of _ "Suc _"])
  moreover have "\<forall>ns. obj = Some ns \<longrightarrow> fc k = Some (length ns)" using Cons.prems by force
  ultimately show ?case by (cases obj) auto
qed simp

end
