(* ===== verification/Adlb_Api.thy ===== *)
theory Adlb_Api
  imports Tcl_Api Handles C_Utils
begin

text \<open>
  What the commands of \<^verbatim>\<open>src/tcl/adlb/tcl-adlb.c\<close> that work on stored data have in common:
  the ADLB calls, the heap in which blobs live, the state a command works on and
  the parsing of its first arguments, a handle and possibly a subscript, by the functions
  of \<^verbatim>\<open>Handles\<close>.
\<close>

section \<open>ADLB\<close>

record adlb_refc =
  rc_read :: int
  rc_write :: int

record adlb_retrieve_refc =
  decr_self :: adlb_refc
  incr_referand :: adlb_refc

text \<open>
  The calls, on ADLB's state. Data is given and returned as bytes; a subscript is its
  bytes with the terminator, or \<open>None\<close> for \<^verbatim>\<open>ADLB_NO_SUB\<close>.
\<close>

record 'w adlb_api =
  no_refc :: adlb_refc
  read_refc :: adlb_refc
  write_refc :: adlb_refc
  retrieve_no_refc :: adlb_retrieve_refc
  has_sub :: "string option \<Rightarrow> bool"
  adlb_data_max :: int
  adlb_retrieve :: "int \<Rightarrow> string option \<Rightarrow> adlb_retrieve_refc \<Rightarrow> 'w \<Rightarrow>
    (adlb_code \<times> adlb_type \<times> string) \<times> 'w"
  adlb_store :: "int \<Rightarrow> string option \<Rightarrow> adlb_type \<Rightarrow> string \<Rightarrow> adlb_refc \<Rightarrow> adlb_refc \<Rightarrow> 'w \<Rightarrow>
    adlb_code \<times> 'w"
  adlb_exists :: "int \<Rightarrow> string option \<Rightarrow> adlb_refc \<Rightarrow> 'w \<Rightarrow> (adlb_code \<times> bool) \<times> 'w"
  adlb_refcount_get :: "int \<Rightarrow> adlb_refc \<Rightarrow> 'w \<Rightarrow> (adlb_code \<times> adlb_refc) \<times> 'w"

section \<open>The heap\<close>

text \<open>
  Blocks that \<^verbatim>\<open>malloc\<close> returned, by address. Addresses are not reused, so using a
  block after it was freed is always noticed. The null pointer is 0. Blobs point to the
  start of a block.
\<close>

record heap =
  h_blocks :: "int \<rightharpoonup> string"
  h_next :: int

definition heap_ok :: "heap \<Rightarrow> bool" where
  "heap_ok h \<longleftrightarrow> 0 < h_next h \<and> (\<forall>p \<in> dom (h_blocks h). 0 < p \<and> p < h_next h)"

definition malloc :: "string \<Rightarrow> heap \<Rightarrow> int \<times> heap" where
  "malloc bs h = (h_next h, h\<lparr>h_blocks := (h_blocks h)(h_next h \<mapsto> bs), h_next := h_next h + 1\<rparr>)"

definition free :: "int \<Rightarrow> heap \<Rightarrow> heap res" where
  "free p h =
     (if p = 0 then Inr h
      else c_defined (h_blocks h p \<noteq> None) (Inr (h\<lparr>h_blocks := (h_blocks h)(p := None)\<rparr>)))"

definition heap_read :: "int \<Rightarrow> int \<Rightarrow> heap \<Rightarrow> string res" where
  "heap_read p n h =
     (if n = 0 then Inr []
      else case h_blocks h p of
        None \<Rightarrow> Inl Undefined
      | Some bs \<Rightarrow> c_defined (0 \<le> n \<and> n \<le> int (length bs)) (Inr (take (nat n) bs)))"

lemma heap_ok_malloc: "heap_ok h \<Longrightarrow> heap_ok (snd (malloc bs h))"
  by (auto simp: heap_ok_def malloc_def) (meson domI order.strict_implies_order)

lemma heap_ok_fresh: "heap_ok h \<Longrightarrow> h_blocks h (h_next h) = None \<and> h_next h \<noteq> 0"
  by (auto simp: heap_ok_def dom_def)

lemma heap_ok_free: "heap_ok h \<Longrightarrow> free p h = Inr h' \<Longrightarrow> heap_ok h'"
  by (auto simp: heap_ok_def free_def c_defined_Inr_conv split: if_splits)

lemma free_malloc:
  assumes "heap_ok h"
  shows "free (h_next h) (snd (malloc bs h)) = Inr (h\<lparr>h_next := h_next h + 1\<rparr>)"
proof -
  have "(h_blocks h)(h_next h := None) = h_blocks h"
    using heap_ok_fresh [OF assms] by auto
  then show ?thesis using heap_ok_fresh [OF assms] by (simp add: free_def malloc_def)
qed

section \<open>The state of a command\<close>

record ('w, 't) adlb_world =
  aw_adlb :: 'w
  aw_heap :: heap
  aw_cache :: 't

definition adlb_call :: "('w \<Rightarrow> 'a \<times> 'w) \<Rightarrow> ('a, ('w, 't) adlb_world) cmd" where
  "adlb_call f w = (let (a, w') = f (aw_adlb w) in (Inr a, w\<lparr>aw_adlb := w'\<rparr>))"

definition heap_call :: "(heap \<Rightarrow> 'a \<times> heap) \<Rightarrow> ('a, ('w, 't) adlb_world) cmd" where
  "heap_call f w = (let (a, h) = f (aw_heap w) in (Inr a, w\<lparr>aw_heap := h\<rparr>))"

definition heap_do :: "(heap \<Rightarrow> heap res) \<Rightarrow> (unit, ('w, 't) adlb_world) cmd" where
  "heap_do f w = (case f (aw_heap w) of Inl e \<Rightarrow> (Inl e, w) | Inr h \<Rightarrow> (Inr (), w\<lparr>aw_heap := h\<rparr>))"

definition heap_get :: "(heap \<Rightarrow> 'a res) \<Rightarrow> ('a, ('w, 't) adlb_world) cmd" where
  "heap_get f w = (f (aw_heap w), w)"

lemma world_cmds [simp]:
  "cmd_bind (adlb_call f) k w = (let (a, w') = f (aw_adlb w) in k a (w\<lparr>aw_adlb := w'\<rparr>))"
  "cmd_bind (heap_call g) l w = (let (a, h) = g (aw_heap w) in l a (w\<lparr>aw_heap := h\<rparr>))"
  "cmd_bind (heap_do d) m w = (case d (aw_heap w) of Inl e \<Rightarrow> (Inl e, w) | Inr h \<Rightarrow> m () (w\<lparr>aw_heap := h\<rparr>))"
  "cmd_bind (heap_get r) n w = (case r (aw_heap w) of Inl e \<Rightarrow> (Inl e, w) | Inr a \<Rightarrow> n a w)"
  by (simp_all add: cmd_bind_def adlb_call_def heap_call_def heap_do_def heap_get_def Let_def
      split: prod.split sum.split)

section \<open>Handles as arguments\<close>

text \<open>
  The bytes of a parsed subscript. \<open>m\<close> is the memory with the strings of the arguments and
  the scratch buffer when the command starts; what the parsers leave in it is not looked
  at again.
\<close>

definition sub_value :: "adlb_subscript \<Rightarrow> mem \<Rightarrow> string option res" where
  "sub_value sub m =
     (if s_key sub = None then Inr None
      else tcl_check (read_bytes (s_key sub) (s_length sub) m) (\<lambda>bs. Inr (Some bs)))"

definition parse_handle_arg :: "'obj handle_api \<Rightarrow> mem \<Rightarrow> 'obj \<Rightarrow> (int \<times> string option) res" where
  "parse_handle_arg H m obj =
     tcl_check (ADLB_Parse_Handle H obj True m) (\<lambda>(handle, m).
     tcl_check (sub_value (p_val (h_sub handle)) m) (\<lambda>sub. Inr (h_id handle, sub)))"

definition parse_handle_sub_arg ::
    "'obj handle_api \<Rightarrow> mem \<Rightarrow> adlb_subscript_kind \<Rightarrow> 'obj \<Rightarrow> 'obj \<Rightarrow> (int \<times> string option) res" where
  "parse_handle_sub_arg H m sub_kind obj sub_obj =
     tcl_check (ADLB_Parse_Handle H obj True m) (\<lambda>(handle, m).
     tcl_check (ADLB_Parse_Subscript H sub_obj sub_kind (h_sub handle) True True m) (\<lambda>(sub, m).
     tcl_check (sub_value (p_val sub) m) (\<lambda>sub. Inr (h_id handle, sub))))"

text \<open>An optional integer argument.\<close>

definition opt_int :: "('obj, 'f, 'z) tcl_api_scheme \<Rightarrow> 'obj list \<Rightarrow> nat \<Rightarrow> int \<Rightarrow> (int \<times> nat) res" where
  "opt_int A objv argpos deflt =
     (if argpos < length objv
      then tcl_check (tcl_get (tcl_int A (objv ! argpos))) (\<lambda>n. Inr (n, argpos + 1))
      else Inr (deflt, argpos))"

section \<open>An instance for examples\<close>

text \<open>Handles that are plain ids, and a store of whole data without reference counts.\<close>

definition val_handles :: "val handle_api" where
  "val_handles = \<lparr>get_id = (\<lambda>v. case v of V_int i \<Rightarrow> Some i | _ \<Rightarrow> None), get_str = (\<lambda>v. (0, 0)),
     int64_parse = (\<lambda>s. None), resize_buf = (\<lambda>buf c n m. if n \<le> b_length buf then Some (buf, c, m) else None),
     scratch_max = 16\<rparr>"

definition val_adlb :: "(int \<rightharpoonup> adlb_type \<times> string) adlb_api" where
  "val_adlb = \<lparr>
     no_refc = \<lparr>rc_read = 0, rc_write = 0\<rparr>, read_refc = \<lparr>rc_read = 1, rc_write = 0\<rparr>,
     write_refc = \<lparr>rc_read = 0, rc_write = 1\<rparr>,
     retrieve_no_refc = \<lparr>decr_self = \<lparr>rc_read = 0, rc_write = 0\<rparr>, incr_referand = \<lparr>rc_read = 0, rc_write = 0\<rparr>\<rparr>,
     has_sub = (\<lambda>s. s \<noteq> None), adlb_data_max = 1000,
     adlb_retrieve = (\<lambda>i s r w. (case w i of None \<Rightarrow> (ADLB_NOTHING, TYPE_NULL, [])
       | Some (t, d) \<Rightarrow> (ADLB_SUCCESS, t, d), w)),
     adlb_store = (\<lambda>i s t d r r' w. (ADLB_SUCCESS, w(i \<mapsto> (t, d)))),
     adlb_exists = (\<lambda>i s r w. ((ADLB_SUCCESS, w i \<noteq> None), w)),
     adlb_refcount_get = (\<lambda>i r w. ((ADLB_SUCCESS, \<lparr>rc_read = 1, rc_write = 0\<rparr>), w))\<rparr>"

lemma val_handle_arg: "parse_handle_arg val_handles m (V_int i) = Inr (i, None)"
  by (simp add: parse_handle_arg_def ADLB_Parse_Handle_def ADLB_Extract_Handle_def val_handles_def
      sub_value_def ADLB_NO_SUB_def)

definition val_world :: "'t \<Rightarrow> (int \<rightharpoonup> adlb_type \<times> string, 't) adlb_world" where
  "val_world cache = \<lparr>aw_adlb = [7 \<mapsto> (TYPE_BLOB, ''abc'')], aw_heap = \<lparr>h_blocks = Map.empty, h_next = 1\<rparr>,
     aw_cache = cache\<rparr>"

end
