(* ===== verification/Blobs.thy ===== *)
theory Blobs
  imports Adlb_Api
begin

text \<open>
  Blobs in \<^verbatim>\<open>src/tcl/adlb/tcl-adlb.c\<close>: the Tcl representation (a list of a pointer, a length
  and, for a blob retrieved from the store, its handle), conversions, and the cache that
  maps a datum to the local copy of its blob until \<^verbatim>\<open>adlb::blob_free\<close>.

  A pointer that no block starts at is \<open>Undefined\<close> to use, as is freeing a block
  twice. The bytes of integers are those of a little-endian machine with 4-byte \<^verbatim>\<open>int\<close>
  and 8-byte \<^verbatim>\<open>int64_t\<close>; those of a \<^verbatim>\<open>double\<close> are a parameter.
\<close>

section \<open>Bytes\<close>

definition int_bytes :: "nat \<Rightarrow> int \<Rightarrow> string" where
  "int_bytes n i = map (\<lambda>k. char_of (nat (i div 256 ^ k mod 256))) [0..<n]"

lemma length_int_bytes [simp]: "length (int_bytes n i) = n"
  by (simp add: int_bytes_def)

lemma int_bytes_inj:
  assumes "int_bytes n i = int_bytes n j" "0 < n" "- (2 ^ (8 * n - 1)) \<le> i" "i < 2 ^ (8 * n - 1)"
    "- (2 ^ (8 * n - 1)) \<le> j" "j < 2 ^ (8 * n - 1)"
  shows "i = j"
proof -
  have digit: "i div 256 ^ k mod 256 = j div 256 ^ k mod 256" if "k < n" for k
  proof -
    have "int_bytes n i ! k = int_bytes n j ! k" using assms(1) by simp
    then have "char_of (nat (i div 256 ^ k mod 256)) = (char_of (nat (j div 256 ^ k mod 256)) :: char)"
      using that by (simp add: int_bytes_def)
    then have "of_char (char_of (nat (i div 256 ^ k mod 256)) :: char) =
        (of_char (char_of (nat (j div 256 ^ k mod 256)) :: char) :: nat)" by simp
    moreover have "nat (x mod 256) < 256" for x :: int by (simp add: nat_less_iff)
    ultimately have "nat (i div 256 ^ k mod 256) = nat (j div 256 ^ k mod 256)"
      by (simp only: of_char_of mod_less)
    then show ?thesis by (simp add: eq_nat_nat_iff)
  qed
  have low: "i mod 256 ^ m = j mod 256 ^ m" if "m \<le> n" for m
    using that
  proof (induction m)
    case (Suc m)
    have "x mod 256 ^ Suc m = 256 ^ m * (x div 256 ^ m mod 256) + x mod 256 ^ m" for x :: int
      by (metis mod_mult2_eq power_Suc2 zmod_zmult2_eq zero_le_numeral zero_le_power add.commute mult.commute)
    with Suc digit [of m] show ?case by simp
  qed simp
  have "(256 :: int) ^ n = 2 ^ (8 * n)" by (simp add: power_mult)
  also have "\<dots> = 2 * 2 ^ (8 * n - 1)" using assms(2) by (cases "8 * n") auto
  finally have "(256 :: int) ^ n = 2 * 2 ^ (8 * n - 1)" .
  moreover have "i mod 256 ^ n = j mod 256 ^ n" using low by simp
  then have "256 ^ n dvd i - j" by (simp add: mod_eq_dvd_iff)
  ultimately have "\<bar>i - j\<bar> < 256 ^ n \<and> 256 ^ n dvd i - j" using assms by linarith
  then show ?thesis using zdvd_imp_le [of "256 ^ n" "\<bar>i - j\<bar>"] by auto
qed

section \<open>The Tcl representation\<close>

definition build_tcl_blob :: "('obj, 'f, 'z) tcl_api_scheme \<Rightarrow> int \<Rightarrow> int \<Rightarrow> 'obj option \<Rightarrow> 'obj" where
  "build_tcl_blob A data len handle =
     new_list A ([new_wide A data, new_wide A len] @ (case handle of None \<Rightarrow> [] | Some h \<Rightarrow> [h]))"

definition extract_tcl_blob ::
    "('obj, 'f, 'z) tcl_api_scheme \<Rightarrow> 'obj \<Rightarrow> (int \<times> int \<times> 'obj option) res" where
  "extract_tcl_blob A obj =
     tcl_check (tcl_get (tcl_list A obj)) (\<lambda>elems.
     tcl_condition (length elems = 2 \<or> length elems = 3)
       (tcl_check (tcl_get (tcl_long A (elems ! 0))) (\<lambda>value.
        tcl_check (tcl_get (tcl_wide A (elems ! 1))) (\<lambda>len.
          Inr (value, len, if length elems = 2 then None else Some (elems ! 2))))))"

section \<open>Conversions\<close>

definition ADLB_Blob_From_String_Cmd ::
    "('obj, 'f, 'z) tcl_api_scheme \<Rightarrow> 'obj list \<Rightarrow> ('obj, ('w, 't) adlb_world) cmd" where
  "ADLB_Blob_From_String_Cmd A objv =
     cmd_bind (cmd_condition (length objv = 2)) (\<lambda>_.
     let data = tcl_string A (objv ! 1); len = length data + 1 in
     cmd_bind (heap_call (malloc (data @ [NUL]))) (\<lambda>blob.
       cmd_do (Inr (new_list A [new_wide A blob, new_wide A (int len)]))))"

definition ADLB_Blob_To_String_Cmd ::
    "('obj, 'f, 'z) tcl_api_scheme \<Rightarrow> 'obj list \<Rightarrow> ('obj, ('w, 't) adlb_world) cmd" where
  "ADLB_Blob_To_String_Cmd A objv =
     cmd_bind (cmd_condition (length objv = 2)) (\<lambda>_.
     cmd_bind (cmd_do (extract_tcl_blob A (objv ! 1))) (\<lambda>(value, len, _).
     let len64 = uint (word_of_int len :: 64 word) in
     cmd_bind (cmd_condition (len64 < INT_MAX)) (\<lambda>_.
     cmd_bind (cmd_do (c_defined (0 < len64) (Inr ()))) (\<lambda>_.
     cmd_bind (heap_get (heap_read value len64)) (\<lambda>bytes.
     cmd_bind (cmd_condition (last bytes = NUL)) (\<lambda>_.
       cmd_do (Inr (new_string A (butlast bytes)))))))))"

text \<open>
  The loop that converts the elements of a list into the allocated block, whose bytes are
  indeterminate until they are written. When an element cannot be converted, the command
  returns at once and the block stays allocated.
\<close>

definition put_bytes :: "int \<Rightarrow> nat \<Rightarrow> string \<Rightarrow> heap \<Rightarrow> unit \<times> heap" where
  "put_bytes p pos bs h = ((), case h_blocks h p of None \<Rightarrow> h
     | Some old \<Rightarrow> h\<lparr>h_blocks := (h_blocks h)(p \<mapsto> take pos old @ bs @ drop (pos + length bs) old)\<rparr>)"

fun fill_blob :: "('obj \<Rightarrow> string res) \<Rightarrow> int \<Rightarrow> nat \<Rightarrow> 'obj list \<Rightarrow> (unit, ('w, 't) adlb_world) cmd" where
  "fill_blob conv blob pos [] = cmd_do (Inr ())"
| "fill_blob conv blob pos (obj # objs) =
     cmd_bind (cmd_do (conv obj)) (\<lambda>bs.
     cmd_bind (heap_call (put_bytes blob pos bs)) (\<lambda>_. fill_blob conv blob (pos + length bs) objs))"

definition ADLB_Blob_From_Int_List_Cmd ::
    "('obj, 'f, 'z) tcl_api_scheme \<Rightarrow> 'obj list \<Rightarrow> ('obj, ('w, 't) adlb_world) cmd" where
  "ADLB_Blob_From_Int_List_Cmd A objv =
     cmd_bind (cmd_condition (length objv = 2)) (\<lambda>_.
     cmd_bind (cmd_do (tcl_get (tcl_list A (objv ! 1)))) (\<lambda>objs.
     cmd_bind (heap_call (malloc (replicate (length objs * 4) NUL))) (\<lambda>blob.
     cmd_bind (fill_blob (\<lambda>obj. tcl_check (tcl_get (tcl_int A obj)) (\<lambda>v. Inr (int_bytes 4 v))) blob 0 objs) (\<lambda>_.
       cmd_do (Inr (build_tcl_blob A blob (int (length objs) * 4) None))))))"

definition ADLB_Blob_From_Float_List_Cmd ::
    "('obj, 'f, 'z) tcl_api_scheme \<Rightarrow> ('f \<Rightarrow> string) \<Rightarrow> 'obj list \<Rightarrow> ('obj, ('w, 't) adlb_world) cmd" where
  "ADLB_Blob_From_Float_List_Cmd A double_bytes objv =
     cmd_bind (cmd_condition (length objv = 2)) (\<lambda>_.
     cmd_bind (cmd_do (tcl_get (tcl_list A (objv ! 1)))) (\<lambda>objs.
     cmd_bind (heap_call (malloc (replicate (length objs * 8) NUL))) (\<lambda>blob.
     cmd_bind (fill_blob (\<lambda>obj. tcl_check (tcl_get (tcl_double A obj)) (\<lambda>v. Inr (double_bytes v))) blob 0 objs) (\<lambda>_.
       cmd_do (Inr (build_tcl_blob A blob (int (length objs) * 8) None))))))"

section \<open>The blob cache\<close>

definition blob_cache_key :: "'w adlb_api \<Rightarrow> int \<Rightarrow> string option \<Rightarrow> string" where
  "blob_cache_key D td sub =
     (if has_sub D sub then int_bytes 8 td @ (case sub of None \<Rightarrow> [] | Some s \<Rightarrow> s)
      else int_bytes 8 td)"

definition cache_blob ::
    "('t, string, int) table_api \<Rightarrow> 'w adlb_api \<Rightarrow> int \<Rightarrow> string option \<Rightarrow> int \<Rightarrow>
      (unit, ('w, 't) adlb_world) cmd" where
  "cache_blob T D td sub blob w =
     (Inr (), w\<lparr>aw_cache := tbl_add T (aw_cache w) (blob_cache_key D td sub) blob\<rparr>)"

text \<open>The result says whether the blob was found in the cache.\<close>

definition uncache_blob ::
    "('t, string, int) table_api \<Rightarrow> 'w adlb_api \<Rightarrow> int \<Rightarrow> string option \<Rightarrow>
      (bool, ('w, 't) adlb_world) cmd" where
  "uncache_blob T D td sub w =
     (case tbl_remove T (aw_cache w) (blob_cache_key D td sub) of
        None \<Rightarrow> (Inr False, w)
      | Some (blob, cache) \<Rightarrow>
          cmd_bind (heap_do (free blob)) (\<lambda>_. cmd_do (Inr True)) (w\<lparr>aw_cache := cache\<rparr>))"

fun free_blobs :: "(string \<times> int) list \<Rightarrow> heap \<Rightarrow> heap res" where
  "free_blobs [] h = Inr h"
| "free_blobs ((_, blob) # items) h = tcl_check (free blob h) (free_blobs items)"

definition blob_cache_finalize ::
    "('t, string, int) table_api \<Rightarrow> (unit, ('w, 't) adlb_world) cmd" where
  "blob_cache_finalize T w =
     (case free_blobs (tbl_items T (aw_cache w)) (aw_heap w) of
        Inl e \<Rightarrow> (Inl e, w)
      | Inr h \<Rightarrow> (Inr (), w\<lparr>aw_heap := h, aw_cache := tbl_free T (aw_cache w)\<rparr>))"

definition ADLB_Retrieve_Blob_Impl ::
    "('obj, 'f, 'z) tcl_api_scheme \<Rightarrow> 'obj handle_api \<Rightarrow> ('t, string, int) table_api \<Rightarrow> 'w adlb_api \<Rightarrow>
      mem \<Rightarrow> bool \<Rightarrow> 'obj list \<Rightarrow> ('obj, ('w, 't) adlb_world) cmd" where
  "ADLB_Retrieve_Blob_Impl A H T D m decr objv =
     cmd_bind (cmd_condition (length objv = (if decr then 3 else 2))) (\<lambda>_.
     cmd_bind (cmd_do (parse_handle_arg H m (objv ! 1))) (\<lambda>(td, sub).
     cmd_bind (cmd_do (if decr then tcl_get (tcl_int A (objv ! 2))
                       else Inr (rc_read (decr_self (retrieve_no_refc D))))) (\<lambda>amount.
     let refcounts = (retrieve_no_refc D)\<lparr>decr_self := (decr_self (retrieve_no_refc D))\<lparr>rc_read := amount\<rparr>\<rparr> in
     cmd_bind (adlb_call (adlb_retrieve D td sub refcounts)) (\<lambda>(rc, type, data).
     cmd_bind (cmd_condition (rc = ADLB_SUCCESS)) (\<lambda>_.
     cmd_bind (cmd_condition (type = TYPE_BLOB)) (\<lambda>_.
     cmd_bind (heap_call (malloc data)) (\<lambda>blob.
     cmd_bind (cache_blob T D td sub blob) (\<lambda>_.
       cmd_do (Inr (build_tcl_blob A blob (int (length data)) (Some (objv ! 1))))))))))))"

definition ADLB_Retrieve_Blob_Cmd ::
    "('obj, 'f, 'z) tcl_api_scheme \<Rightarrow> 'obj handle_api \<Rightarrow> ('t, string, int) table_api \<Rightarrow> 'w adlb_api \<Rightarrow>
      mem \<Rightarrow> 'obj list \<Rightarrow> ('obj, ('w, 't) adlb_world) cmd" where
  "ADLB_Retrieve_Blob_Cmd A H T D m objv = ADLB_Retrieve_Blob_Impl A H T D m False objv"

definition ADLB_Retrieve_Blob_Decr_Cmd ::
    "('obj, 'f, 'z) tcl_api_scheme \<Rightarrow> 'obj handle_api \<Rightarrow> ('t, string, int) table_api \<Rightarrow> 'w adlb_api \<Rightarrow>
      mem \<Rightarrow> 'obj list \<Rightarrow> ('obj, ('w, 't) adlb_world) cmd" where
  "ADLB_Retrieve_Blob_Decr_Cmd A H T D m objv = ADLB_Retrieve_Blob_Impl A H T D m True objv"

definition ADLB_Blob_Free_Cmd ::
    "'obj handle_api \<Rightarrow> ('t, string, int) table_api \<Rightarrow> 'w adlb_api \<Rightarrow>
      mem \<Rightarrow> 'obj list \<Rightarrow> (unit, ('w, 't) adlb_world) cmd" where
  "ADLB_Blob_Free_Cmd H T D m objv =
     cmd_bind (cmd_condition (length objv = 2)) (\<lambda>_.
     cmd_bind (cmd_do (parse_handle_arg H m (objv ! 1))) (\<lambda>(td, sub).
     cmd_bind (uncache_blob T D td sub) (\<lambda>found.
       cmd_condition found)))"

definition ADLB_Local_Blob_Free_Cmd ::
    "('obj, 'f, 'z) tcl_api_scheme \<Rightarrow> 'obj handle_api \<Rightarrow> ('t, string, int) table_api \<Rightarrow> 'w adlb_api \<Rightarrow>
      mem \<Rightarrow> 'obj list \<Rightarrow> (unit, ('w, 't) adlb_world) cmd" where
  "ADLB_Local_Blob_Free_Cmd A H T D m objv =
     cmd_bind (cmd_condition (length objv = 2)) (\<lambda>_.
     cmd_bind (cmd_do (extract_tcl_blob A (objv ! 1))) (\<lambda>(value, len, handle_obj).
     case handle_obj of
       None \<Rightarrow> heap_do (free value)
     | Some handle_obj \<Rightarrow>
         cmd_bind (cmd_do (parse_handle_arg H m handle_obj)) (\<lambda>(td, sub).
         cmd_bind (uncache_blob T D td sub) (\<lambda>cached.
           if cached then cmd_do (Inr ()) else heap_do (free value)))))"

section \<open>Storing blobs\<close>

definition ADLB_Store_Blob_Cmd ::
    "('obj, 'f, 'z) tcl_api_scheme \<Rightarrow> 'w adlb_api \<Rightarrow> 'obj list \<Rightarrow> (unit, ('w, 't) adlb_world) cmd" where
  "ADLB_Store_Blob_Cmd A D objv =
     cmd_bind (cmd_condition (length objv = 4 \<or> length objv = 5)) (\<lambda>_.
     cmd_bind (cmd_do (tcl_get (tcl_wide A (objv ! 1)))) (\<lambda>td.
     cmd_bind (cmd_do (tcl_get (tcl_long A (objv ! 2)))) (\<lambda>pointer.
     cmd_bind (cmd_do (tcl_get (tcl_int A (objv ! 3)))) (\<lambda>len.
     cmd_bind (cmd_do (if length objv = 5 then tcl_get (tcl_int A (objv ! 4))
                       else Inr (rc_write (write_refc D)))) (\<lambda>decr.
     cmd_bind (heap_get (heap_read pointer len)) (\<lambda>data.
     cmd_bind (adlb_call (adlb_store D td None TYPE_BLOB data ((write_refc D)\<lparr>rc_write := decr\<rparr>)
                 (no_refc D))) (\<lambda>rc.
       cmd_condition (rc = ADLB_SUCCESS))))))))"

text \<open>The two commands that store a list of numbers, through the transfer buffer of \<open>xfer_len\<close> bytes.\<close>

definition ADLB_Blob_store_floats_Cmd ::
    "('obj, 'f, 'z) tcl_api_scheme \<Rightarrow> 'w adlb_api \<Rightarrow> int \<Rightarrow> ('f \<Rightarrow> string) \<Rightarrow> 'obj list \<Rightarrow>
      (unit, ('w, 't) adlb_world) cmd" where
  "ADLB_Blob_store_floats_Cmd A D xfer_len double_bytes objv =
     cmd_bind (cmd_condition (length objv = 3 \<or> length objv = 4)) (\<lambda>_.
     cmd_bind (cmd_do (tcl_get (tcl_wide A (objv ! 1)))) (\<lambda>td.
     cmd_bind (cmd_do (tcl_get (tcl_list A (objv ! 2)))) (\<lambda>objs.
     cmd_bind (cmd_condition (int (length objs) * 8 \<le> adlb_data_max D)) (\<lambda>_.
     cmd_bind (cmd_do (map_res (\<lambda>obj. tcl_get (tcl_double A obj)) objs)) (\<lambda>vals.
     cmd_bind (cmd_do (c_defined (int (length objs) * 8 \<le> xfer_len) (Inr ()))) (\<lambda>_.
     cmd_bind (cmd_do (if length objv = 4 then tcl_get (tcl_int A (objv ! 3))
                       else Inr (rc_write (write_refc D)))) (\<lambda>decr.
     cmd_bind (adlb_call (adlb_store D td None TYPE_BLOB (concat (map double_bytes vals))
                 ((write_refc D)\<lparr>rc_write := decr\<rparr>) (no_refc D))) (\<lambda>rc.
       cmd_condition (rc = ADLB_SUCCESS)))))))))"

definition ADLB_Blob_store_ints_Cmd ::
    "('obj, 'f, 'z) tcl_api_scheme \<Rightarrow> 'w adlb_api \<Rightarrow> int \<Rightarrow> 'obj list \<Rightarrow>
      (unit, ('w, 't) adlb_world) cmd" where
  "ADLB_Blob_store_ints_Cmd A D xfer_len objv =
     cmd_bind (cmd_condition (length objv = 3 \<or> length objv = 4)) (\<lambda>_.
     cmd_bind (cmd_do (tcl_get (tcl_wide A (objv ! 1)))) (\<lambda>td.
     cmd_bind (cmd_do (tcl_get (tcl_list A (objv ! 2)))) (\<lambda>objs.
     cmd_bind (cmd_do (c_int (int (length objs) * 4))) (\<lambda>bytes.
     cmd_bind (cmd_condition (bytes \<le> adlb_data_max D)) (\<lambda>_.
     cmd_bind (cmd_do (map_res (\<lambda>obj. tcl_get (tcl_int A obj)) objs)) (\<lambda>vals.
     cmd_bind (cmd_do (c_defined (bytes \<le> xfer_len) (Inr ()))) (\<lambda>_.
     cmd_bind (cmd_do (if length objv = 4 then tcl_get (tcl_int A (objv ! 3))
                       else Inr (rc_write (write_refc D)))) (\<lambda>decr.
     cmd_bind (adlb_call (adlb_store D td None TYPE_BLOB (concat (map (int_bytes 4) vals))
                 ((write_refc D)\<lparr>rc_write := decr\<rparr>) (no_refc D))) (\<lambda>rc.
       cmd_condition (rc = ADLB_SUCCESS))))))))))"

section \<open>What the commands do\<close>

lemma uint_word64: "0 \<le> x \<Longrightarrow> x < 18446744073709551616 \<Longrightarrow> uint (word_of_int x :: 64 word) = x"
  by (simp add: uint_word_of_int)

text \<open>
  A list with an element that is no integer leaves the block allocated, with nothing
  that refers to it: the code behind \<^verbatim>\<open>TCL_CHECK\<close> does not free it.
\<close>

lemma fill_blob_keeps:
  "h_blocks (aw_heap w) p \<noteq> None \<Longrightarrow>
    (\<exists>h. snd (fill_blob conv p pos objs w) = w\<lparr>aw_heap := h\<rparr> \<and> dom (h_blocks h) = dom (h_blocks (aw_heap w)))"
proof (induction objs arbitrary: pos w)
  case Nil
  then show ?case by (simp add: cmd_do_def) (metis adlb_world.surjective adlb_world.update_convs(2))
next
  case (Cons obj objs)
  from Cons.prems obtain old where old: "h_blocks (aw_heap w) p = Some old" by blast
  show ?case
  proof (cases "conv obj")
    case (Inl e)
    then show ?thesis by (simp add: cmd_bind_def cmd_do_def) (metis adlb_world.surjective adlb_world.update_convs(2))
  next
    case (Inr bs)
    let ?w = "w\<lparr>aw_heap := snd (put_bytes p pos bs (aw_heap w))\<rparr>"
    have "h_blocks (aw_heap ?w) p \<noteq> None" "dom (h_blocks (aw_heap ?w)) = dom (h_blocks (aw_heap w))"
      using old by (auto simp: put_bytes_def)
    moreover have "fill_blob conv p pos (obj # objs) w = fill_blob conv p (pos + length bs) objs ?w"
      using Inr by (simp add: cmd_bind_do split: prod.split)
    ultimately show ?thesis using Cons.IH [of ?w "pos + length bs"] by auto
  qed
qed

lemma fill_blob_fails:
  "obj \<in> set objs \<Longrightarrow> conv obj = Inl e \<Longrightarrow> (\<And>x e'. conv x = Inl e' \<Longrightarrow> e' = e) \<Longrightarrow>
    fst (fill_blob conv p pos objs w) = Inl e"
proof (induction objs arbitrary: pos w)
  case (Cons x objs)
  show ?case
  proof (cases "conv x")
    case (Inl e')
    with Cons.prems(3) show ?thesis by (simp add: cmd_bind_do)
  next
    case (Inr bs)
    with Cons.prems(1,2) have "obj \<in> set objs" by auto
    with Cons.IH [OF _ Cons.prems(2,3)] Inr show ?thesis by (simp add: cmd_bind_do split: prod.split)
  qed
next
  case Nil
  from Nil.prems(1) show ?case by simp
qed

theorem blob_from_list_leak:
  assumes "tcl_list A l = Some objs" "obj \<in> set objs" "tcl_int A obj = None"
  shows "\<exists>h. ADLB_Blob_From_Int_List_Cmd A [c, l] w = (Inl Tcl_Error, w\<lparr>aw_heap := h\<rparr>) \<and>
    dom (h_blocks h) = insert (h_next (aw_heap w)) (dom (h_blocks (aw_heap w)))"
proof -
  let ?conv = "\<lambda>obj. tcl_check (tcl_get (tcl_int A obj)) (\<lambda>v. Inr (int_bytes 4 v))"
  let ?p = "h_next (aw_heap w)" and ?w = "w\<lparr>aw_heap := snd (malloc (replicate (length objs * 4) NUL) (aw_heap w))\<rparr>"
  obtain h where h: "snd (fill_blob ?conv ?p 0 objs ?w) = ?w\<lparr>aw_heap := h\<rparr>" "dom (h_blocks h) = dom (h_blocks (aw_heap ?w))"
    using fill_blob_keeps [of ?w ?p ?conv 0 objs] by (auto simp: malloc_def)
  have "e = Tcl_Error" if "?conv x = Inl e" for x e
    using that by (auto simp: tcl_get_def tcl_check_def split: option.splits)
  moreover have "?conv obj = Inl Tcl_Error" using assms(3) by (simp add: tcl_get_def)
  ultimately have "fst (fill_blob ?conv ?p 0 objs ?w) = Inl Tcl_Error"
    using fill_blob_fails [OF assms(2), of ?conv Tcl_Error] by blast
  with h(1) have "fill_blob ?conv ?p 0 objs ?w = (Inl Tcl_Error, w\<lparr>aw_heap := h\<rparr>)" by (simp add: prod_eq_iff)
  with h(2) assms(1) show ?thesis
    by (auto simp: ADLB_Blob_From_Int_List_Cmd_def cmd_bind_def cmd_condition_def cmd_do_def heap_call_def malloc_def tcl_get_def)
qed

text \<open>
  A string made into a blob with \<^verbatim>\<open>adlb::blob_from_string\<close> is given back by
  \<^verbatim>\<open>adlb::blob_to_string\<close>.
\<close>

theorem blob_string_roundtrip:
  assumes A: "tcl_ok A" and len: "int (length str) + 1 < INT_MAX"
    and h: "heap_ok (aw_heap w)" "h_next (aw_heap w) \<le> LONG_MAX"
  shows "\<exists>blob w'. ADLB_Blob_From_String_Cmd A [c, new_string A str] w = (Inr blob, w') \<and>
    ADLB_Blob_To_String_Cmd A [c', blob] w' = (Inr (new_string A str), w')"
proof -
  let ?p = "h_next (aw_heap w)"
  have p: "LONG_MIN \<le> ?p" using h(1) by (simp add: heap_ok_def LONG_MIN_def)
  obtain l where l: "int (length str) + 1 = l" "1 + int (length str) = l" by simp
  have l_range: "0 < l" "l < INT_MAX" "LONG_MIN \<le> l" "l \<le> LONG_MAX"
    using len l by (simp_all add: LONG_MIN_def LONG_MAX_def INT_MAX_def)
  have ext: "extract_tcl_blob A (new_list A [new_wide A ?p, new_wide A l]) = Inr (?p, l, None)"
    using tcl_okD [OF A] p l_range h(2) by (simp add: extract_tcl_blob_def)
  have word: "uint (word_of_int l :: 64 word) = l"
    using l_range by (simp add: uint_word64 INT_MAX_def)
  have bytes: "heap_read ?p l (snd (malloc (str @ [NUL]) (aw_heap w))) = Inr (str @ [NUL])"
    using l l_range by (auto simp: heap_read_def malloc_def c_defined_def nat_add_distrib)
  have "ADLB_Blob_From_String_Cmd A [c, new_string A str] w =
      (Inr (new_list A [new_wide A ?p, new_wide A l]), w\<lparr>aw_heap := snd (malloc (str @ [NUL]) (aw_heap w))\<rparr>)"
    using tcl_okD(1) [OF A] l by (simp add: ADLB_Blob_From_String_Cmd_def malloc_def)
  moreover have "ADLB_Blob_To_String_Cmd A [c', new_list A [new_wide A ?p, new_wide A l]]
      (w\<lparr>aw_heap := snd (malloc (str @ [NUL]) (aw_heap w))\<rparr>) =
      (Inr (new_string A str), w\<lparr>aw_heap := snd (malloc (str @ [NUL]) (aw_heap w))\<rparr>)"
    using l_range by (simp add: ADLB_Blob_To_String_Cmd_def ext word bytes)
  ultimately show ?thesis by blast
qed

lemma blob_string_roundtrip_witness:
  "\<exists>blob w'. ADLB_Blob_From_String_Cmd val_tcl [V_str ''cmd'', V_str ''hello'']
      \<lparr>aw_adlb = (), aw_heap = \<lparr>h_blocks = Map.empty, h_next = 1\<rparr>, aw_cache = ()\<rparr> = (Inr blob, w') \<and>
    ADLB_Blob_To_String_Cmd val_tcl [V_str ''cmd'', blob] w' = (Inr (V_str ''hello''), w')"
  using blob_string_roundtrip [OF val_tcl_ok, of "''hello''"
      "\<lparr>aw_adlb = (), aw_heap = \<lparr>h_blocks = Map.empty, h_next = 1\<rparr>, aw_cache = ()\<rparr>" "V_str ''cmd''" "V_str ''cmd''"]
  by (simp add: INT_MAX_def LONG_MAX_def heap_ok_def val_tcl_def)

text \<open>
  \<^verbatim>\<open>adlb::blob_to_string\<close> of an empty blob, such as one made from an empty list,
  reads the byte before the blob.
\<close>

theorem blob_to_string_empty:
  assumes "tcl_ok A" "LONG_MIN \<le> p" "p \<le> LONG_MAX"
  shows "ADLB_Blob_To_String_Cmd A [c, build_tcl_blob A p 0 None] w = (Inl Undefined, w)"
  using tcl_okD [OF assms(1)] assms(2,3)
  by (simp add: ADLB_Blob_To_String_Cmd_def build_tcl_blob_def extract_tcl_blob_def LONG_MIN_def
      LONG_MAX_def INT_MAX_def)

lemma blob_to_string_empty_witness:
  "ADLB_Blob_To_String_Cmd val_tcl [V_str ''cmd'', V_list [V_int 5, V_int 0]]
     \<lparr>aw_adlb = (), aw_heap = \<lparr>h_blocks = [5 \<mapsto> []], h_next = 6\<rparr>, aw_cache = ()\<rparr> =
   (Inl Undefined, \<lparr>aw_adlb = (), aw_heap = \<lparr>h_blocks = [5 \<mapsto> []], h_next = 6\<rparr>, aw_cache = ()\<rparr>)"
  using blob_to_string_empty [OF val_tcl_ok, of 5 "V_str ''cmd''"]
  by (simp add: build_tcl_blob_def val_tcl_def LONG_MIN_def LONG_MAX_def)

text \<open>
  The key of the blob cache identifies the datum and the subscript.
\<close>

theorem blob_cache_key_inj:
  assumes key: "blob_cache_key D i s = blob_cache_key D j t"
    and sub: "\<forall>u. has_sub D u \<longleftrightarrow> u \<noteq> None" "s \<noteq> Some []" "t \<noteq> Some []"
    and range: "LONG_MIN \<le> i" "i \<le> LONG_MAX" "LONG_MIN \<le> j" "j \<le> LONG_MAX"
  shows "i = j \<and> s = t"
proof -
  have take: "take 8 (blob_cache_key D i s) = int_bytes 8 i" "drop 8 (blob_cache_key D i s) = case_option [] id s"
    for i s using sub(1) by (auto simp: blob_cache_key_def split: option.split)
  have "int_bytes 8 i = int_bytes 8 j" using take(1) [of i s] take(1) [of j t] key by simp
  then have "i = j" using range by (intro int_bytes_inj [of 8]) (auto simp: LONG_MIN_def LONG_MAX_def)
  moreover have "case_option [] id s = case_option [] id t"
    using take(2) [of i s] take(2) [of j t] key by simp
  then have "s = t" using sub(2,3) by (auto split: option.splits)
  ultimately show ?thesis by simp
qed

lemma blob_cache_key_inj_witness:
  "blob_cache_key val_adlb 5 (Some ''a'') = blob_cache_key val_adlb 5 (Some ''a'') \<and>
   blob_cache_key val_adlb 5 (Some ''a'') \<noteq> blob_cache_key val_adlb 5 None"
  using blob_cache_key_inj [of val_adlb 5 "Some ''a''" 5 None]
  by (auto simp: val_adlb_def LONG_MIN_def LONG_MAX_def)

section \<open>Ownership of cached blobs\<close>

text \<open>
  The commands that move blobs in and out of the cache. A blob that is cached is not
  retrieved again: the table would hold two entries for its key.
\<close>

inductive blob_step ::
    "('obj, 'f, 'z) tcl_api_scheme \<Rightarrow> 'obj handle_api \<Rightarrow> ('t, string, int) table_api \<Rightarrow> 'w adlb_api \<Rightarrow>
      mem \<Rightarrow> ('w, 't) adlb_world \<Rightarrow> ('w, 't) adlb_world \<Rightarrow> bool"
  for A :: "('obj, 'f, 'z) tcl_api_scheme" and H :: "'obj handle_api"
    and T :: "('t, string, int) table_api" and D :: "'w adlb_api" and m :: mem where
  retrieve:
    "(\<And>td sub. parse_handle_arg H m (objv ! 1) = Inr (td, sub) \<Longrightarrow>
        tbl_search T (aw_cache w) (blob_cache_key D td sub) = None) \<Longrightarrow>
      ADLB_Retrieve_Blob_Impl A H T D m decr objv w = (r, w') \<Longrightarrow> blob_step A H T D m w w'"
| free_cached:
    "ADLB_Blob_Free_Cmd H T D m objv w = (r', w') \<Longrightarrow> blob_step A H T D m w w'"

definition blob_inv :: "('t, string, int) table_api \<Rightarrow> (int \<rightharpoonup> string) \<Rightarrow> ('w, 't) adlb_world \<Rightarrow> bool" where
  "blob_inv T B w \<longleftrightarrow> heap_ok (aw_heap w) \<and>
     (\<forall>k p. tbl_search T (aw_cache w) k = Some p \<longrightarrow> B p = None \<and> h_blocks (aw_heap w) p \<noteq> None) \<and>
     (\<forall>k k' p. tbl_search T (aw_cache w) k = Some p \<longrightarrow> tbl_search T (aw_cache w) k' = Some p \<longrightarrow> k = k') \<and>
     (\<forall>p. p \<notin> ran (tbl_search T (aw_cache w)) \<longrightarrow> h_blocks (aw_heap w) p = B p)"

lemma blob_inv_adlb [simp]: "blob_inv T B (w\<lparr>aw_adlb := x\<rparr>) = blob_inv T B w"
  by (simp add: blob_inv_def)

lemma blob_inv_add:
  assumes T: "table_ok T" and wf: "blob_inv T B w" and k: "tbl_search T (aw_cache w) k = None"
  shows "blob_inv T B (w\<lparr>aw_heap := snd (malloc bs (aw_heap w)),
    aw_cache := tbl_add T (aw_cache w) k (h_next (aw_heap w))\<rparr>)"
proof -
  let ?p = "h_next (aw_heap w)"
  have fresh: "h_blocks (aw_heap w) ?p = None"
    using heap_ok_fresh wf unfolding blob_inv_def by blast
  then have nr: "\<And>k'. tbl_search T (aw_cache w) k' \<noteq> Some ?p" using wf unfolding blob_inv_def by blast
  then have "B ?p = None" using fresh wf unfolding blob_inv_def ran_def by fastforce
  moreover have "heap_ok (snd (malloc bs (aw_heap w)))"
    using wf by (simp add: blob_inv_def heap_ok_malloc)
  moreover have "ran ((tbl_search T (aw_cache w))(k \<mapsto> ?p)) = insert ?p (ran (tbl_search T (aw_cache w)))"
    using k by (rule ran_map_upd)
  ultimately show ?thesis
    using wf nr fresh unfolding blob_inv_def
    by (auto simp: table_okD(4) [OF T k] malloc_def split: if_splits)
qed

lemma blob_inv_live:
  assumes "blob_inv T B w" "tbl_search T (aw_cache w) k = Some p"
  shows "B p = None" "h_blocks (aw_heap w) p \<noteq> None" "p \<noteq> 0"
proof -
  show "B p = None" and live: "h_blocks (aw_heap w) p \<noteq> None"
    using assms unfolding blob_inv_def by blast+
  then have "p \<in> dom (h_blocks (aw_heap w))" by auto
  then show "p \<noteq> 0" using assms(1) unfolding blob_inv_def heap_ok_def by fastforce
qed

lemma ran_delete_inj:
  assumes "m k = Some p" "\<And>k'. m k' = Some p \<Longrightarrow> k' = k"
  shows "ran (m(k := None)) = ran m - {p}"
proof -
  have "q \<in> ran (m(k := None)) \<longleftrightarrow> (\<exists>k'. k' \<noteq> k \<and> m k' = Some q)" for q by (auto simp: ran_def)
  moreover have "q \<in> ran m - {p} \<longleftrightarrow> (\<exists>k'. k' \<noteq> k \<and> m k' = Some q)" for q
    unfolding ran_def by (simp, metis assms option.inject)
  ultimately show ?thesis by blast
qed

lemma blob_inv_remove:
  assumes T: "table_ok T" and wf: "blob_inv T B w"
    and rem: "tbl_remove T (aw_cache w) k = Some (p, cache)"
  shows "\<exists>h. free p (aw_heap w) = Inr h \<and> blob_inv T B (w\<lparr>aw_cache := cache, aw_heap := h\<rparr>)"
proof -
  have "tbl_search T (aw_cache w) k \<noteq> None" using rem table_okD(5) [OF T] by fastforce
  then obtain q where q: "tbl_search T (aw_cache w) k = Some q" by blast
  from table_ok_remove [OF T q] rem have k: "tbl_search T (aw_cache w) k = Some p"
    "tbl_search T cache = (tbl_search T (aw_cache w))(k := None)" using q by auto
  have live: "h_blocks (aw_heap w) p \<noteq> None" "p \<noteq> 0" "B p = None"
    using blob_inv_live [OF wf k(1)] by blast+
  then have fr: "free p (aw_heap w) = Inr ((aw_heap w)\<lparr>h_blocks := (h_blocks (aw_heap w))(p := None)\<rparr>)"
    by (simp add: free_def)
  have heap: "heap_ok ((aw_heap w)\<lparr>h_blocks := (h_blocks (aw_heap w))(p := None)\<rparr>)"
    using wf fr heap_ok_free unfolding blob_inv_def by blast
  have uniq: "tbl_search T (aw_cache w) k' = Some p \<Longrightarrow> k' = k" for k'
    using wf k(1) unfolding blob_inv_def by blast
  have ran: "ran (tbl_search T cache) = ran (tbl_search T (aw_cache w)) - {p}"
    unfolding k(2) using k(1) uniq by (rule ran_delete_inj)
  have "h_blocks (aw_heap w) q \<noteq> None \<and> B q = None \<and> q \<noteq> p" if "tbl_search T cache k' = Some q" for k' q
    using that uniq blob_inv_live [OF wf, of k' q] unfolding k(2) by (cases "k' = k") auto
  moreover have "k' = k''" if "tbl_search T cache k' = Some q" "tbl_search T cache k'' = Some q" for k' k'' q
    using that wf unfolding k(2) blob_inv_def by (metis fun_upd_apply option.distinct(1))
  moreover have "((h_blocks (aw_heap w))(p := None)) q = B q" if "q \<notin> ran (tbl_search T cache)" for q
    using that wf live(3) unfolding ran blob_inv_def by auto
  ultimately have "blob_inv T B (w\<lparr>aw_cache := cache,
      aw_heap := (aw_heap w)\<lparr>h_blocks := (h_blocks (aw_heap w))(p := None)\<rparr>\<rparr>)"
    using heap by (simp add: blob_inv_def)
  with fr show ?thesis by blast
qed

text \<open>What a retrieval does to the world, whether it succeeds or not.\<close>

lemma retrieve_world:
  assumes "ADLB_Retrieve_Blob_Impl A H T D m decr objv w = (r, w')"
  shows "(\<exists>x. w' = w\<lparr>aw_adlb := x\<rparr>) \<or>
    (\<exists>x td sub data. parse_handle_arg H m (objv ! 1) = Inr (td, sub) \<and>
      w' = w\<lparr>aw_adlb := x, aw_heap := snd (malloc data (aw_heap w)),
        aw_cache := tbl_add T (aw_cache w) (blob_cache_key D td sub) (h_next (aw_heap w))\<rparr>)"
    (is "?keep w' \<or> ?add")
proof -
  have keep: "?keep w" by (rule exI [of _ "aw_adlb w"]) simp
  show ?thesis
  proof (cases "parse_handle_arg H m (objv ! 1)")
    case (Inl e)
    with assms have "w' = w" by (simp add: ADLB_Retrieve_Blob_Impl_def split: if_splits)
    with keep show ?thesis by blast
  next
    case (Inr x)
    obtain td sub where x: "x = (td, sub)" by fastforce
    from assms keep show ?thesis
      unfolding ADLB_Retrieve_Blob_Impl_def Inr x
      by (fastforce simp: cmd_bind_do Let_def cache_blob_def malloc_def cmd_bind_def [of "cache_blob T D _ _ _"]
          split: prod.splits if_splits sum.splits)
  qed
qed

lemma free_world:
  assumes "ADLB_Blob_Free_Cmd H T D m objv w = (r, w')"
  shows "w' = w \<or> (\<exists>td sub. w' = snd (uncache_blob T D td sub w))"
proof -
  have "w' = snd (uncache_blob T D td sub w)"
    if "cmd_bind (uncache_blob T D td sub) cmd_condition w = (r, w')" for td sub
    using that by (auto simp: cmd_bind_def cmd_condition_def cmd_do_def split: prod.splits sum.splits)
  then show ?thesis
    using assms unfolding ADLB_Blob_Free_Cmd_def
    by (cases "parse_handle_arg H m (objv ! 1)") (auto split: prod.splits if_splits)
qed

lemma blob_inv_uncache:
  assumes "table_ok T" "blob_inv T B w"
  shows "blob_inv T B (snd (uncache_blob T D td sub w))"
proof (cases "tbl_remove T (aw_cache w) (blob_cache_key D td sub)")
  case (Some x)
  obtain p cache where "x = (p, cache)" by fastforce
  with blob_inv_remove [OF assms] Some show ?thesis by (fastforce simp: uncache_blob_def)
qed (use assms in \<open>simp add: uncache_blob_def\<close>)

lemma blob_inv_step:
  assumes T: "table_ok T" and step: "blob_step A H T D m w w'" and wf: "blob_inv T B w"
  shows "blob_inv T B w'"
  using step
proof cases
  case (retrieve objv decr r)
  from retrieve_world [OF retrieve(2)] show ?thesis
  proof (elim disjE exE conjE)
    fix x td sub data
    assume "parse_handle_arg H m (objv ! 1) = Inr (td, sub)"
    with retrieve(1) have k: "tbl_search T (aw_cache w) (blob_cache_key D td sub) = None" by blast
    assume w': "w' = w\<lparr>aw_adlb := x, aw_heap := snd (malloc data (aw_heap w)),
        aw_cache := tbl_add T (aw_cache w) (blob_cache_key D td sub) (h_next (aw_heap w))\<rparr>"
    show ?thesis using blob_inv_add [of T B "w\<lparr>aw_adlb := x\<rparr>", OF T _ _] wf k w' by simp
  qed (use wf in simp)
next
  case (free_cached objv r)
  from free_world [OF free_cached(1)] show ?thesis
    using wf blob_inv_uncache [OF T wf] by blast
qed

lemma free_blobs_all:
  assumes "distinct (map snd items)" "\<forall>p \<in> set (map snd items). p \<noteq> 0 \<and> h_blocks h p \<noteq> None"
  shows "free_blobs items h = Inr (h\<lparr>h_blocks := h_blocks h |` (- set (map snd items))\<rparr>)"
  using assms
proof (induction items arbitrary: h)
  case (Cons item items)
  obtain k p where item: "item = (k, p)" by fastforce
  let ?h = "h\<lparr>h_blocks := (h_blocks h)(p := None)\<rparr>"
  have "\<forall>q \<in> set (map snd items). q \<noteq> 0 \<and> h_blocks ?h q \<noteq> None"
    using Cons.prems item by auto
  then have "free_blobs items ?h = Inr (?h\<lparr>h_blocks := h_blocks ?h |` (- set (map snd items))\<rparr>)"
    using Cons.prems(1) by (intro Cons.IH) simp_all
  moreover have "(h_blocks h)(p := None) |` (- set (map snd items)) = h_blocks h |` (- set (map snd (item # items)))"
    by (auto simp: restrict_map_def item fun_eq_iff)
  moreover have "free p h = Inr ?h" using Cons.prems(2) item by (simp add: free_def)
  ultimately show ?case by (simp add: item)
qed (simp add: restrict_map_def)



end
