(* ===== verification/Serialize.thy ===== *)
theory Serialize
  imports Adlb_Types Blobs
begin

text \<open>
  Serialisation in \<^verbatim>\<open>src/tcl/adlb/tcl-adlb.c\<close>: Tcl objects to the packed binary form in which
  ADLB stores data, and back. Scalars and structs go through a \<^verbatim>\<open>adlb_datum_storage\<close>,
  which ADLB packs; containers and multisets are packed entry by entry into a growing
  buffer.

  The packing routines of ADLB are fields of \<open>pack_api\<close>. The recursion of the C code
  is over the nesting of data: where it follows the types it is bounded by them; for
  structs, and for unpacking, it is bounded by a fuel argument, and \<open>Unfinished\<close> when that
  is too small. The release of temporary storage is not modelled.
\<close>

section \<open>The packing library\<close>

datatype 'f storage =
    S_Int int
  | S_Ref int
  | S_Float 'f
  | S_String string
  | S_Blob string
  | S_Struct int "'f storage option list"

record outbuf =
  ob_data :: string
  ob_caller :: bool
  ob_pos :: nat

record ('obj, 'f) pack_api = "('obj, 'f) type_api" +
  data_max :: int
  vint_max :: nat
  vint_encode :: "nat \<Rightarrow> string"
  pack_pad_size :: "adlb_type \<Rightarrow> bool"
  init_buf :: "string option \<Rightarrow> nat \<Rightarrow> (string \<times> bool) option"
  resize_out :: "string \<Rightarrow> bool \<Rightarrow> nat \<Rightarrow> (string \<times> bool) option"
  append_buffer :: "adlb_type \<Rightarrow> string \<Rightarrow> bool \<Rightarrow> outbuf \<Rightarrow> outbuf option"
  pack_container_hdr :: "int \<Rightarrow> adlb_type \<Rightarrow> adlb_type \<Rightarrow> outbuf \<Rightarrow> outbuf option"
  pack_multiset_hdr :: "int \<Rightarrow> adlb_type \<Rightarrow> outbuf \<Rightarrow> outbuf option"
  adlb_pack :: "'f storage \<Rightarrow> adlb_type \<Rightarrow> string option"
  unpack_integer :: "string \<Rightarrow> int option"
  unpack_ref :: "string \<Rightarrow> int option"
  unpack_float :: "string \<Rightarrow> 'f option"
  unpack_string :: "string \<Rightarrow> string option"
  unpack_blob :: "string \<Rightarrow> string option"
  unpack_container_hdr :: "string \<Rightarrow> nat \<Rightarrow> (int \<times> adlb_type \<times> adlb_type \<times> nat) option"
  unpack_container_entry :: "adlb_type \<Rightarrow> adlb_type \<Rightarrow> string \<Rightarrow> nat \<Rightarrow> (string \<times> string \<times> nat) option"
  unpack_multiset_hdr :: "string \<Rightarrow> nat \<Rightarrow> (int \<times> adlb_type \<times> nat) option"
  unpack_multiset_entry :: "adlb_type \<Rightarrow> string \<Rightarrow> nat \<Rightarrow> (string \<times> nat) option"
  lookup_struct :: "int \<Rightarrow> (string \<times> adlb_type \<times> type_extra) list option"
  field_objs :: "'obj field_name_objs"
  sizeof_hdr :: nat
  sizeof_offset :: nat
  hdr_type :: "string \<Rightarrow> int"
  hdr_offset :: "string \<Rightarrow> nat \<Rightarrow> nat"

text \<open>A loop over a list that updates a state and stops at the first error.\<close>

fun fold_res :: "('a \<Rightarrow> 's \<Rightarrow> 's res) \<Rightarrow> 'a list \<Rightarrow> 's \<Rightarrow> 's res" where
  "fold_res f [] s = Inr s"
| "fold_res f (x # xs) s = tcl_check (f x s) (fold_res f xs)"

lemma fold_res_cong [fundef_cong]:
  "xs = ys \<Longrightarrow> s = t \<Longrightarrow> (\<And>x s. x \<in> set ys \<Longrightarrow> f x s = g x s) \<Longrightarrow> fold_res f xs s = fold_res g ys t"
proof (induction xs arbitrary: ys s t)
  case (Cons x xs)
  then show ?case by (cases "g x t") auto
qed auto

section \<open>From Tcl objects to storage\<close>

text \<open>The entry of a struct type in the table of field names; the accesses are checked with assertions.\<close>

definition struct_field_names :: "'obj field_name_objs \<Rightarrow> int \<Rightarrow> 'obj list res" where
  "struct_field_names N st =
     c_assert (st < fn_size N)
       (case fn_objs N of
          None \<Rightarrow> Inl Undefined
        | Some objs \<Rightarrow>
            c_defined (0 \<le> st \<and> nat st < length objs)
              (case objs ! nat st of None \<Rightarrow> Inl Abort | Some names \<Rightarrow> Inr names))"

definition struct_type_of :: "type_extra \<Rightarrow> int res" where
  "struct_type_of extra = (case extra of Extra_Struct st \<Rightarrow> Inr st | _ \<Rightarrow> Inl Undefined)"

text \<open>\<open>conv\<close> is the recursive call of \<^verbatim>\<open>adlb_tclobj2datum\<close>.\<close>

definition tcl_dict_to_adlb_struct ::
    "('obj, 'f, 'z) pack_api_scheme \<Rightarrow> (adlb_type \<Rightarrow> type_extra \<Rightarrow> 'obj \<Rightarrow> 'f storage res) \<Rightarrow>
      'obj \<Rightarrow> int \<Rightarrow> 'f storage res" where
  "tcl_dict_to_adlb_struct A conv dict struct_type =
     tcl_check (tcl_get (lookup_struct A struct_type)) (\<lambda>field_types.
     tcl_check (struct_field_names (field_objs A) struct_type) (\<lambda>field_names.
     tcl_check (map_res (\<lambda>i.
         tcl_check (arg field_names i) (\<lambda>name.
         tcl_check (tcl_get (dict_find A dict name)) (\<lambda>val.
           case val of
             Some v \<Rightarrow> tcl_check (conv (fst (snd (field_types ! i))) (snd (snd (field_types ! i))) v)
               (\<lambda>field. Inr (Some field))
           | None \<Rightarrow> Inr None))) [0..<length field_types]) (\<lambda>fields.
       Inr (S_Struct struct_type fields))))"

fun adlb_tclobj2datum ::
    "('obj, 'f, 'z) pack_api_scheme \<Rightarrow> heap \<Rightarrow> nat \<Rightarrow> adlb_type \<Rightarrow> type_extra \<Rightarrow> 'obj \<Rightarrow> 'f storage res" where
  "adlb_tclobj2datum A h fuel type extra obj =
     (case type of
        TYPE_INTEGER \<Rightarrow> tcl_check (tcl_get (tcl_wide A obj)) (\<lambda>i. Inr (S_Int i))
      | TYPE_REF \<Rightarrow> tcl_check (tcl_get (tcl_wide A obj)) (\<lambda>i. Inr (S_Ref i))
      | TYPE_FLOAT \<Rightarrow> tcl_check (tcl_get (tcl_double A obj)) (\<lambda>f. Inr (S_Float f))
      | TYPE_STRING \<Rightarrow>
          tcl_condition (int (length (tcl_string A obj)) + 1 \<le> data_max A)
            (Inr (S_String (tcl_string A obj @ [NUL])))
      | TYPE_BLOB \<Rightarrow>
          tcl_check (extract_tcl_blob A obj) (\<lambda>(value, len, _).
          tcl_check (heap_read value len h) (\<lambda>bytes. Inr (S_Blob bytes)))
      | TYPE_STRUCT \<Rightarrow>
          tcl_condition (extra \<noteq> Extra_None)
            (tcl_check (struct_type_of extra) (\<lambda>st.
               case fuel of
                 0 \<Rightarrow> Inl Unfinished
               | Suc n \<Rightarrow>
                   tcl_dict_to_adlb_struct A (\<lambda>type extra v. adlb_tclobj2datum A h n type extra v) obj st))
      | _ \<Rightarrow> Inl Tcl_Error)"

declare adlb_tclobj2datum.simps [simp del]

section \<open>From Tcl objects to bytes\<close>

definition write_at :: "nat \<Rightarrow> string \<Rightarrow> outbuf \<Rightarrow> outbuf res" where
  "write_at pos xs out =
     c_defined (pos + length xs \<le> length (ob_data out))
       (Inr (out\<lparr>ob_data := take pos (ob_data out) @ xs @ drop (pos + length xs) (ob_data out)\<rparr>))"

text \<open>\<open>app\<close> is the recursive call of \<^verbatim>\<open>adlb_tclobj_bin_append\<close>, with a length prefix, from a position in the types on.\<close>

definition tcl_append_key_val ::
    "('obj, 'f, 'z) pack_api_scheme \<Rightarrow> (nat \<Rightarrow> 'obj \<Rightarrow> outbuf \<Rightarrow> outbuf res) \<Rightarrow> nat \<Rightarrow> adlb_type \<Rightarrow>
      'obj \<Rightarrow> 'obj \<Rightarrow> outbuf \<Rightarrow> outbuf res" where
  "tcl_append_key_val A app ctype_pos key_type key val out =
     tcl_check (tcl_get (append_buffer A key_type (tcl_string A key @ [NUL]) True out)) (\<lambda>out.
       app (ctype_pos - 1) val out)"

definition tcl_dict_to_packed_container ::
    "('obj, 'f, 'z) pack_api_scheme \<Rightarrow> (nat \<Rightarrow> 'obj \<Rightarrow> outbuf \<Rightarrow> outbuf res) \<Rightarrow> compound_type \<Rightarrow> nat \<Rightarrow>
      'obj \<Rightarrow> bool \<Rightarrow> outbuf \<Rightarrow> outbuf res" where
  "tcl_dict_to_packed_container A app types ctype_pos dict canonicalize out =
     tcl_check (tcl_get (dict_entries A dict)) (\<lambda>entries.
     tcl_check (compound_type_next types ctype_pos) (\<lambda>(key_type, key_extra, ctype_pos).
     tcl_check (compound_type_next types ctype_pos) (\<lambda>(val_type, val_extra, ctype_pos).
     tcl_check (tcl_get (pack_container_hdr A (int (length entries)) key_type val_type out)) (\<lambda>out.
       if canonicalize
       then tcl_check (tcl_get (eval_lsort A (map fst entries))) (\<lambda>dict_keys.
         fold_res (\<lambda>key out.
           tcl_check (tcl_get (dict_find A dict key)) (\<lambda>val.
             case val of
               None \<Rightarrow> Inl Undefined
             | Some v \<Rightarrow> tcl_append_key_val A app ctype_pos key_type key v out)) dict_keys out)
       else fold_res (\<lambda>(key, val) out. tcl_append_key_val A app ctype_pos key_type key val out)
         entries out))))"

definition tcl_list_to_packed_multiset ::
    "('obj, 'f, 'z) pack_api_scheme \<Rightarrow> (nat \<Rightarrow> 'obj \<Rightarrow> outbuf \<Rightarrow> outbuf res) \<Rightarrow> compound_type \<Rightarrow> nat \<Rightarrow>
      'obj \<Rightarrow> bool \<Rightarrow> outbuf \<Rightarrow> outbuf res" where
  "tcl_list_to_packed_multiset A app types ctype_pos lst canonicalize out =
     tcl_check (tcl_get (tcl_list A lst)) (\<lambda>elems.
     tcl_check (if canonicalize then tcl_get (eval_lsort A elems) else Inr elems) (\<lambda>elems.
     tcl_check (compound_type_next types ctype_pos) (\<lambda>(elem_type, elem_extra, ctype_pos).
     tcl_check (tcl_get (pack_multiset_hdr A (int (length elems)) elem_type out)) (\<lambda>out.
       fold_res (\<lambda>elem out. app (ctype_pos - 1) elem out) elems out))))"

text \<open>The recursive calls are for later positions in the types.\<close>

lemma tcl_append_key_val_cong:
  "(\<And>v out. app (p - 1) v out = app' (p - 1) v out) \<Longrightarrow>
    tcl_append_key_val A app p kt key val out = tcl_append_key_val A app' p kt key val out"
  by (simp add: tcl_append_key_val_def)

lemma packed_container_cong [fundef_cong]:
  assumes "A = A'" "types = types'" "pos = pos'" "dict = dict'" "canon = canon'" "out = out'"
    and "\<And>v out. pos' + 1 < length types' \<Longrightarrow> app (pos' + 1) v out = app' (pos' + 1) v out"
  shows "tcl_dict_to_packed_container A app types pos dict canon out =
    tcl_dict_to_packed_container A' app' types' pos' dict' canon' out'"
  using assms
  by (auto simp: tcl_dict_to_packed_container_def compound_type_next_def tcl_condition_def
      tcl_append_key_val_def intro!: tcl_check_cong fold_res_cong split: option.split)

lemma packed_multiset_cong [fundef_cong]:
  assumes "A = A'" "types = types'" "pos = pos'" "lst = lst'" "canon = canon'" "out = out'"
    and "\<And>v out. pos' < length types' \<Longrightarrow> app pos' v out = app' pos' v out"
  shows "tcl_list_to_packed_multiset A app types pos lst canon out =
    tcl_list_to_packed_multiset A' app' types' pos' lst' canon' out'"
  using assms
  by (auto simp: tcl_list_to_packed_multiset_def compound_type_next_def tcl_condition_def
      intro!: tcl_check_cong fold_res_cong)

lemma compound_type_next_pos:
  "compound_type_next types pos = Inr (type, extra, pos') \<Longrightarrow> pos' = pos + 1 \<and> pos < length types"
  by (auto simp: compound_type_next_def res_Inr_convs)

function adlb_tclobj_bin_append ::
    "('obj, 'f, 'z) pack_api_scheme \<Rightarrow> heap \<Rightarrow> nat \<Rightarrow> compound_type \<Rightarrow> bool \<Rightarrow> nat \<Rightarrow> 'obj \<Rightarrow> bool \<Rightarrow> outbuf \<Rightarrow>
      outbuf res" where
  "adlb_tclobj_bin_append A h fuel types canonicalize ctype_pos obj prefix_len out =
     tcl_check (compound_type_next types ctype_pos) (\<lambda>(type, extra, ctype_pos').
       if pack_pad_size A type
       then let start_pos = ob_pos out in
         tcl_check
           (if prefix_len
            then tcl_check (tcl_get (resize_out A (ob_data out) (ob_caller out) (start_pos + vint_max A)))
              (\<lambda>(data, caller).
                tcl_check (write_at start_pos (replicate (vint_max A) NUL)
                    (out\<lparr>ob_data := data, ob_caller := caller\<rparr>)) (\<lambda>out.
                  Inr (out\<lparr>ob_pos := start_pos + vint_max A\<rparr>)))
            else Inr out) (\<lambda>out.
         tcl_check
           (if type = TYPE_CONTAINER
            then tcl_dict_to_packed_container A
              (\<lambda>p v out. adlb_tclobj_bin_append A h fuel types canonicalize p v True out)
              types ctype_pos' obj canonicalize out
            else if type = TYPE_MULTISET
            then tcl_list_to_packed_multiset A
              (\<lambda>p v out. adlb_tclobj_bin_append A h fuel types canonicalize p v True out)
              types ctype_pos' obj canonicalize out
            else Inl Tcl_Error) (\<lambda>out.
           if prefix_len
           then write_at start_pos (vint_encode A (ob_pos out - start_pos - vint_max A)) out
           else Inr out))
       else
         tcl_check (adlb_tclobj2datum A h fuel type extra obj) (\<lambda>tmp.
         tcl_check (tcl_get (adlb_pack A tmp type)) (\<lambda>packed.
           tcl_get (append_buffer A TYPE_NULL packed prefix_len out))))"
  by pat_completeness auto
termination
  by (relation "measure (\<lambda>(A, h, fuel, types, canon, pos, obj, prefix, out). length types - pos)")
    (auto dest!: compound_type_next_pos)

declare adlb_tclobj_bin_append.simps [simp del]

text \<open>The argument \<^verbatim>\<open>prefix_len\<close> is not used.\<close>

definition adlb_tclobj_bin_append2 ::
    "('obj, 'f, 'z) pack_api_scheme \<Rightarrow> heap \<Rightarrow> nat \<Rightarrow> adlb_type \<Rightarrow> type_extra \<Rightarrow> bool \<Rightarrow> 'obj \<Rightarrow> bool \<Rightarrow> outbuf \<Rightarrow>
      outbuf res" where
  "adlb_tclobj_bin_append2 A h fuel type extra canonicalize obj prefix_len out =
     adlb_tclobj_bin_append A h fuel [(type, extra)] canonicalize 0 obj False out"

definition adlb_tclobj2bin_compound ::
    "('obj, 'f, 'z) pack_api_scheme \<Rightarrow> heap \<Rightarrow> nat \<Rightarrow> compound_type \<Rightarrow> 'obj \<Rightarrow> bool \<Rightarrow> string option \<Rightarrow>
      string res" where
  "adlb_tclobj2bin_compound A h fuel types obj canonicalize caller_buffer =
     tcl_check (tcl_get (init_buf A caller_buffer 2048)) (\<lambda>(data, caller).
     tcl_check (adlb_tclobj_bin_append A h fuel types canonicalize 0 obj False
         \<lparr>ob_data = data, ob_caller = caller, ob_pos = 0\<rparr>) (\<lambda>packed.
       Inr (take (ob_pos packed) (ob_data packed))))"

definition adlb_tclobj2bin ::
    "('obj, 'f, 'z) pack_api_scheme \<Rightarrow> heap \<Rightarrow> nat \<Rightarrow> adlb_type \<Rightarrow> type_extra \<Rightarrow> 'obj \<Rightarrow> bool \<Rightarrow> string option \<Rightarrow>
      string res" where
  "adlb_tclobj2bin A h fuel type extra obj canonicalize caller_buffer =
     (if type = TYPE_CONTAINER \<or> type = TYPE_MULTISET
      then tcl_check (tcl_get (init_buf A caller_buffer 128)) (\<lambda>(data, caller).
        tcl_check (adlb_tclobj_bin_append2 A h fuel type extra canonicalize obj False
            \<lparr>ob_data = data, ob_caller = caller, ob_pos = 0\<rparr>) (\<lambda>buf.
          Inr (take (ob_pos buf) (ob_data buf))))
      else tcl_check (adlb_tclobj2datum A h fuel type extra obj) (\<lambda>tmp.
        tcl_get (adlb_pack A tmp type)))"

section \<open>From bytes to Tcl objects\<close>

text \<open>
  \<open>conv\<close> is the recursive call of \<^verbatim>\<open>adlb_datum2tclobj\<close>; it may allocate blobs on the heap.
  Sizes are 64-bit: the length of a field, the difference of two offsets in the
  header, wraps around when they are out of order, and so does the sum that is checked
  against the length of the data.
\<close>

definition struct_field_length :: "(string \<Rightarrow> nat \<Rightarrow> nat) \<Rightarrow> string \<Rightarrow> nat \<Rightarrow> nat \<Rightarrow> nat" where
  "struct_field_length offsets data field_count i =
     (let data_offset = offsets data i + 1 in
      if i = field_count - 1 then length data - data_offset
      else (offsets data (i + 1) + 2 ^ 64 - data_offset) mod 2 ^ 64)"

definition packed_struct_to_tcl_dict ::
    "('obj, 'f, 'z) pack_api_scheme \<Rightarrow>
      (adlb_type \<Rightarrow> type_extra \<Rightarrow> string \<Rightarrow> heap \<Rightarrow> ('obj \<times> heap) res) \<Rightarrow>
      string \<Rightarrow> type_extra \<Rightarrow> heap \<Rightarrow> ('obj \<times> heap) res" where
  "packed_struct_to_tcl_dict A conv data extra h =
     tcl_condition (length data \<ge> sizeof_hdr A)
       (tcl_check (if extra = Extra_None then Inr (hdr_type A data) else struct_type_of extra) (\<lambda>expected.
        tcl_condition (hdr_type A data = expected)
          (tcl_check (tcl_get (lookup_struct A (hdr_type A data))) (\<lambda>field_types.
           tcl_condition (length data \<ge> sizeof_hdr A + sizeof_offset A * length field_types)
             (tcl_check (struct_field_names (field_objs A) (hdr_type A data)) (\<lambda>field_names.
              fold_res (\<lambda>i (result_dict, h).
                let offset = hdr_offset A data i in
                c_defined (offset < length data)
                  (if data ! offset = NUL then Inr (result_dict, h)
                   else let data_offset = offset + 1;
                            field_length = struct_field_length (hdr_offset A) data (length field_types) i in
                     tcl_condition ((data_offset + field_length) mod 2 ^ 64 \<le> length data)
                       (c_assert (int field_length \<le> data_max A)
                         (c_defined (data_offset + field_length \<le> length data)
                           (tcl_check (conv (fst (snd (field_types ! i))) (snd (snd (field_types ! i)))
                               (take field_length (drop data_offset data)) h) (\<lambda>(field_obj, h).
                            tcl_check (arg field_names i) (\<lambda>name.
                            tcl_check (tcl_get (dict_insert A result_dict name field_obj)) (\<lambda>result_dict.
                              Inr (result_dict, h)))))))))
                [0..<length field_types] (new_dict A, h)))))))"

text \<open>
  The loop over the entries of a container. An entry that ADLB cannot unpack ends the
  loop with the entries so far, because the code jumps to its exit with the return
  code still \<^verbatim>\<open>TCL_OK\<close>; the other errors are errors.
\<close>

fun unpack_entries ::
    "('obj, 'f, 'z) pack_api_scheme \<Rightarrow>
      (adlb_type \<Rightarrow> type_extra \<Rightarrow> string \<Rightarrow> heap \<Rightarrow> ('obj \<times> heap) res) \<Rightarrow>
      adlb_type \<Rightarrow> adlb_type \<Rightarrow> string \<Rightarrow> nat \<Rightarrow> nat \<Rightarrow> 'obj \<Rightarrow> heap \<Rightarrow> ('obj \<times> heap) res" where
  "unpack_entries A conv key_type val_type data 0 pos dict h = Inr (dict, h)"
| "unpack_entries A conv key_type val_type data (Suc n) pos dict h =
     (case unpack_container_entry A key_type val_type data pos of
        None \<Rightarrow> Inr (dict, h)
      | Some (key, val, pos) \<Rightarrow>
          tcl_check (conv val_type Extra_None val h) (\<lambda>(val_obj, h).
          c_defined (key \<noteq> [])
            (tcl_check (tcl_get (dict_insert A dict (new_string A (butlast key)) val_obj)) (\<lambda>dict.
               unpack_entries A conv key_type val_type data n pos dict h))))"

text \<open>Bytes left over at the end are not an error either, for the same reason.\<close>

definition packed_container_to_dict ::
    "('obj, 'f, 'z) pack_api_scheme \<Rightarrow>
      (adlb_type \<Rightarrow> type_extra \<Rightarrow> string \<Rightarrow> heap \<Rightarrow> ('obj \<times> heap) res) \<Rightarrow>
      string \<Rightarrow> type_extra \<Rightarrow> heap \<Rightarrow> ('obj \<times> heap) res" where
  "packed_container_to_dict A conv data extra h =
     tcl_check (tcl_get (unpack_container_hdr A data 0)) (\<lambda>(entries, key_type, val_type, pos).
     tcl_check
       (case extra of
          Extra_None \<Rightarrow> Inr ()
        | Extra_Container k v \<Rightarrow>
            tcl_condition (val_type = v) (tcl_condition (key_type = k) (Inr ()))
        | _ \<Rightarrow> Inl Undefined) (\<lambda>_.
       unpack_entries A conv key_type val_type data (nat entries) pos (new_dict A) h))"

text \<open>
  In the loop over the elements of a multiset an element that cannot be unpacked ends the loop
  with the return code still \<^verbatim>\<open>TCL_OK\<close>, and the list is built from an array that is not
  filled.
\<close>

fun unpack_elems ::
    "('obj, 'f, 'z) pack_api_scheme \<Rightarrow>
      (adlb_type \<Rightarrow> type_extra \<Rightarrow> string \<Rightarrow> heap \<Rightarrow> ('obj \<times> heap) res) \<Rightarrow>
      adlb_type \<Rightarrow> string \<Rightarrow> nat \<Rightarrow> nat \<Rightarrow> 'obj list \<Rightarrow> heap \<Rightarrow> ('obj list \<times> heap) res" where
  "unpack_elems A conv elem_type data 0 pos arr h = Inr (arr, h)"
| "unpack_elems A conv elem_type data (Suc n) pos arr h =
     (case unpack_multiset_entry A elem_type data pos of
        None \<Rightarrow> Inl Undefined
      | Some (elem, pos) \<Rightarrow>
          tcl_check (conv elem_type Extra_None elem h) (\<lambda>(obj, h).
            unpack_elems A conv elem_type data n pos (arr @ [obj]) h))"

definition packed_multiset_to_list ::
    "('obj, 'f, 'z) pack_api_scheme \<Rightarrow>
      (adlb_type \<Rightarrow> type_extra \<Rightarrow> string \<Rightarrow> heap \<Rightarrow> ('obj \<times> heap) res) \<Rightarrow>
      string \<Rightarrow> type_extra \<Rightarrow> heap \<Rightarrow> ('obj \<times> heap) res" where
  "packed_multiset_to_list A conv data extra h =
     tcl_check (tcl_get (unpack_multiset_hdr A data 0)) (\<lambda>(entries, elem_type, pos).
     tcl_check
       (case extra of
          Extra_None \<Rightarrow> Inr ()
        | Extra_Multiset v \<Rightarrow> tcl_condition (elem_type = v) (Inr ())
        | _ \<Rightarrow> Inl Undefined) (\<lambda>_.
     c_assert (0 \<le> entries)
       (tcl_check (unpack_elems A conv elem_type data (nat entries) pos [] h) (\<lambda>(arr, h).
          Inr (new_list A arr, h)))))"

fun adlb_datum2tclobj ::
    "('obj, 'f, 'z) pack_api_scheme \<Rightarrow> nat \<Rightarrow> adlb_type \<Rightarrow> type_extra \<Rightarrow> string \<Rightarrow> heap \<Rightarrow>
      ('obj \<times> heap) res" where
  "adlb_datum2tclobj A fuel type extra data h =
     c_assert (int (length data) \<le> data_max A)
       (case type of
          TYPE_INTEGER \<Rightarrow> tcl_check (tcl_get (unpack_integer A data)) (\<lambda>i. Inr (new_wide A i, h))
        | TYPE_REF \<Rightarrow> tcl_check (tcl_get (unpack_ref A data)) (\<lambda>i. Inr (new_wide A i, h))
        | TYPE_FLOAT \<Rightarrow> tcl_check (tcl_get (unpack_float A data)) (\<lambda>f. Inr (new_double A f, h))
        | TYPE_STRING \<Rightarrow>
            tcl_check (tcl_get (unpack_string A data)) (\<lambda>str.
              c_defined (str \<noteq> []) (Inr (new_string A (butlast str), h)))
        | TYPE_BLOB \<Rightarrow>
            tcl_check (tcl_get (unpack_blob A data)) (\<lambda>bytes.
              let (value, h) = malloc bytes h in
              Inr (build_tcl_blob A value (int (length bytes)) None, h))
        | TYPE_NULL \<Rightarrow> Inl Tcl_Error
        | _ \<Rightarrow>
            (case fuel of
               0 \<Rightarrow> Inl Unfinished
             | Suc n \<Rightarrow>
                 (let conv = (\<lambda>type extra data h. adlb_datum2tclobj A n type extra data h) in
                  if type = TYPE_STRUCT then packed_struct_to_tcl_dict A conv data extra h
                  else if type = TYPE_CONTAINER then packed_container_to_dict A conv data extra h
                  else packed_multiset_to_list A conv data extra h)))"

declare adlb_datum2tclobj.simps [simp del]

end
