(* ===== verification/Serialize_Correct.thy ===== *)
theory Serialize_Correct
  imports Serialize
begin

text \<open>
  What serialisation guarantees: values made of integers, references, floats, strings,
  containers and multisets, nested to any depth, are unpacked to what was packed. The
  specification is a format: the bytes of a value as a function of the value and its
  types. Packing appends these bytes, unpacking inverts them. What is relied on in the
  packing routines of ADLB and in Tcl's dictionaries are the predicates \<open>pack_ok\<close> and
  \<open>dict_ok\<close>; an instance of both is given at the end.
\<close>

section \<open>Values and their format\<close>

datatype 'f aval =
    A_Int int
  | A_Ref int
  | A_Float 'f
  | A_Str string
  | A_Dict "(string \<times> 'f aval) list"
  | A_List "'f aval list"

text \<open>A Tcl object stands for a value.\<close>

lemmas [fundef_cong] = list.rel_cong

fun rep :: "('obj, 'f, 'z) tcl_api_scheme \<Rightarrow> 'f aval \<Rightarrow> 'obj \<Rightarrow> bool" where
  "rep A (A_Int i) obj = (tcl_wide A obj = Some i \<and> LONG_MIN \<le> i \<and> i \<le> LONG_MAX)"
| "rep A (A_Ref i) obj = (tcl_wide A obj = Some i \<and> LONG_MIN \<le> i \<and> i \<le> LONG_MAX)"
| "rep A (A_Float f) obj = (tcl_double A obj = Some f)"
| "rep A (A_Str s) obj = (tcl_string A obj = s)"
| "rep A (A_Dict kvs) obj = (case dict_entries A obj of None \<Rightarrow> False
     | Some es \<Rightarrow> list_all2 (\<lambda>kv e. tcl_string A (fst e) = fst kv \<and> rep A (snd kv) (snd e)) kvs es)"
| "rep A (A_List vs) obj = (case tcl_list A obj of None \<Rightarrow> False
     | Some xs \<Rightarrow> list_all2 (\<lambda>v x. rep A v x) vs xs)"

text \<open>A value has the type that starts at a position of a compound type.\<close>

fun typed :: "('obj, 'f, 'z) pack_api_scheme \<Rightarrow> compound_type \<Rightarrow> nat \<Rightarrow> 'f aval \<Rightarrow> bool" where
  "typed A types pos (A_Int i) = (pos < length types \<and> fst (types ! pos) = TYPE_INTEGER)"
| "typed A types pos (A_Ref i) = (pos < length types \<and> fst (types ! pos) = TYPE_REF)"
| "typed A types pos (A_Float f) = (pos < length types \<and> fst (types ! pos) = TYPE_FLOAT)"
| "typed A types pos (A_Str s) = (pos < length types \<and> fst (types ! pos) = TYPE_STRING)"
| "typed A types pos (A_Dict kvs) = (pos + 2 < length types \<and> fst (types ! pos) = TYPE_CONTAINER \<and>
     \<not> pack_pad_size A (fst (types ! (pos + 1))) \<and> distinct (map fst kvs) \<and>
     (\<forall>kv \<in> set kvs. typed A types (pos + 2) (snd kv)))"
| "typed A types pos (A_List vs) = (pos + 1 < length types \<and> fst (types ! pos) = TYPE_MULTISET \<and>
     (\<forall>v \<in> set vs. typed A types (pos + 1) v))"

text \<open>The headers of containers and multisets.\<close>

record pack_format =
  f_container :: "int \<Rightarrow> adlb_type \<Rightarrow> adlb_type \<Rightarrow> string"
  f_multiset :: "int \<Rightarrow> adlb_type \<Rightarrow> string"

text \<open>An entry is its length and its bytes; the length of a compound entry is padded.\<close>

definition sized :: "('obj, 'f, 'z) pack_api_scheme \<Rightarrow> string \<Rightarrow> string" where
  "sized A bs = vint_encode A (length bs) @ bs"

definition entry :: "('obj, 'f, 'z) pack_api_scheme \<Rightarrow> adlb_type \<Rightarrow> string \<Rightarrow> string" where
  "entry A type bs =
     (if pack_pad_size A type
      then vint_encode A (length bs) @ replicate (vint_max A - length (vint_encode A (length bs))) NUL @ bs
      else sized A bs)"

fun format_value ::
    "('obj, 'f, 'z) pack_api_scheme \<Rightarrow> pack_format \<Rightarrow> compound_type \<Rightarrow> nat \<Rightarrow> 'f aval \<Rightarrow> string" where
  "format_value A F types pos (A_Int i) = the (adlb_pack A (S_Int i) TYPE_INTEGER)"
| "format_value A F types pos (A_Ref i) = the (adlb_pack A (S_Ref i) TYPE_REF)"
| "format_value A F types pos (A_Float f) = the (adlb_pack A (S_Float f) TYPE_FLOAT)"
| "format_value A F types pos (A_Str s) = the (adlb_pack A (S_String (s @ [NUL])) TYPE_STRING)"
| "format_value A F types pos (A_Dict kvs) =
     f_container F (int (length kvs)) (fst (types ! (pos + 1))) (fst (types ! (pos + 2))) @
     concat (map (\<lambda>kv. sized A (fst kv @ [NUL]) @
       entry A (fst (types ! (pos + 2))) (format_value A F types (pos + 2) (snd kv))) kvs)"
| "format_value A F types pos (A_List vs) =
     f_multiset F (int (length vs)) (fst (types ! (pos + 1))) @
     concat (map (\<lambda>v. entry A (fst (types ! (pos + 1))) (format_value A F types (pos + 1) v)) vs)"

fun depth :: "'f aval \<Rightarrow> nat" where
  "depth (A_Dict kvs) = Suc (foldr (\<lambda>kv d. max (depth (snd kv)) d) kvs 0)"
| "depth (A_List vs) = Suc (foldr (\<lambda>v d. max (depth v) d) vs 0)"
| "depth _ = 0"

section \<open>What is relied on\<close>

text \<open>A buffer is extended by some bytes behind its position; what is before is kept.\<close>

definition out_ok :: "outbuf \<Rightarrow> bool" where
  "out_ok out \<longleftrightarrow> ob_pos out \<le> length (ob_data out)"

definition appends :: "outbuf \<Rightarrow> string \<Rightarrow> outbuf \<Rightarrow> bool" where
  "appends out bs out' \<longleftrightarrow> out_ok out' \<and> ob_pos out' = ob_pos out + length bs \<and>
     take (ob_pos out') (ob_data out') = take (ob_pos out) (ob_data out) @ bs"

text \<open>Sizes are 64-bit.\<close>

definition small :: "string \<Rightarrow> bool" where
  "small bs \<longleftrightarrow> length bs < 2 ^ 64"

lemma small_le: "small bs \<Longrightarrow> length as \<le> length bs \<Longrightarrow> small as"
  by (simp add: small_def)

definition scalars_ok :: "('obj, 'f, 'z) pack_api_scheme \<Rightarrow> bool" where
  "scalars_ok A \<longleftrightarrow>
     (\<forall>i. LONG_MIN \<le> i \<and> i \<le> LONG_MAX \<longrightarrow> (\<exists>bs. adlb_pack A (S_Int i) TYPE_INTEGER = Some bs \<and> unpack_integer A bs = Some i)) \<and>
     (\<forall>i. LONG_MIN \<le> i \<and> i \<le> LONG_MAX \<longrightarrow> (\<exists>bs. adlb_pack A (S_Ref i) TYPE_REF = Some bs \<and> unpack_ref A bs = Some i)) \<and>
     (\<forall>f. \<exists>bs. adlb_pack A (S_Float f) TYPE_FLOAT = Some bs \<and> unpack_float A bs = Some f) \<and>
     (\<forall>s. \<exists>bs. adlb_pack A (S_String s) TYPE_STRING = Some bs \<and> unpack_string A bs = Some s)"

definition append_ok :: "('obj, 'f, 'z) pack_api_scheme \<Rightarrow> pack_format \<Rightarrow> bool" where
  "append_ok A F \<longleftrightarrow>
     (\<forall>n < 2 ^ 64. length (vint_encode A n) \<le> vint_max A) \<and>
     (\<forall>type bs prefix out out'. \<not> pack_pad_size A type \<longrightarrow> small bs \<longrightarrow> out_ok out \<longrightarrow>
        append_buffer A type bs prefix out = Some out' \<longrightarrow>
        appends out (if prefix then sized A bs else bs) out') \<and>
     (\<forall>n kt vt out out'. 0 \<le> n \<longrightarrow> out_ok out \<longrightarrow> pack_container_hdr A n kt vt out = Some out' \<longrightarrow>
        appends out (f_container F n kt vt) out') \<and>
     (\<forall>n vt out out'. 0 \<le> n \<longrightarrow> out_ok out \<longrightarrow> pack_multiset_hdr A n vt out = Some out' \<longrightarrow>
        appends out (f_multiset F n vt) out') \<and>
     (\<forall>data c n data' c'. resize_out A data c n = Some (data', c') \<longrightarrow>
        n \<le> length data' \<and> length data \<le> length data' \<and> take (length data) data' = data)"

definition unpack_ok :: "('obj, 'f, 'z) pack_api_scheme \<Rightarrow> pack_format \<Rightarrow> bool" where
  "unpack_ok A F \<longleftrightarrow>
     (\<forall>n kt vt rest. 0 \<le> n \<longrightarrow> unpack_container_hdr A (f_container F n kt vt @ rest) 0 =
        Some (n, kt, vt, length (f_container F n kt vt))) \<and>
     (\<forall>kt vt pre key val rest. \<not> pack_pad_size A kt \<longrightarrow> small key \<longrightarrow> small val \<longrightarrow>
        unpack_container_entry A kt vt (pre @ sized A key @ entry A vt val @ rest) (length pre) =
          Some (key, val, length (pre @ sized A key @ entry A vt val))) \<and>
     (\<forall>n vt rest. 0 \<le> n \<longrightarrow> unpack_multiset_hdr A (f_multiset F n vt @ rest) 0 =
        Some (n, vt, length (f_multiset F n vt))) \<and>
     (\<forall>vt pre val rest. small val \<longrightarrow> unpack_multiset_entry A vt (pre @ entry A vt val @ rest) (length pre) =
          Some (val, length (pre @ entry A vt val)))"

definition pack_ok :: "('obj, 'f, 'z) pack_api_scheme \<Rightarrow> pack_format \<Rightarrow> bool" where
  "pack_ok A F \<longleftrightarrow> scalars_ok A \<and> append_ok A F \<and> unpack_ok A F \<and>
     (\<forall>type. pack_pad_size A type \<longleftrightarrow> type \<in> compound_kinds)"

definition dict_ok :: "('obj, 'f, 'z) tcl_api_scheme \<Rightarrow> bool" where
  "dict_ok A \<longleftrightarrow> tcl_ok A \<and> (\<forall>f. tcl_double A (new_double A f) = Some f) \<and>
     dict_entries A (new_dict A) = Some [] \<and>
     (\<forall>d es k v. dict_entries A d = Some es \<longrightarrow> tcl_string A k \<notin> tcl_string A ` fst ` set es \<longrightarrow>
        (\<exists>d'. dict_insert A d k v = Some d' \<and> dict_entries A d' = Some (es @ [(k, v)])))"

lemma length_format_entry:
  "length bs \<le> length (entry A vt bs)" "length bs \<le> length (sized A bs)"
  by (auto simp: entry_def sized_def)

lemma concat_member_length: "x \<in> set xs \<Longrightarrow> length (f x) \<le> length (concat (map f xs))"
  by (induction xs) auto

lemma format_entry_small:
  assumes "small (format_value A F types pos (A_Dict kvs))" "kv \<in> set kvs"
  shows "small (fst kv @ [NUL])" "small (format_value A F types (pos + 2) (snd kv))"
proof -
  let ?f = "\<lambda>kv. sized A (fst kv @ [NUL]) @
    entry A (fst (types ! (pos + 2))) (format_value A F types (pos + 2) (snd kv))"
  have "length (?f kv) \<le> length (format_value A F types pos (A_Dict kvs))"
    using concat_member_length [OF assms(2), of ?f] by simp
  moreover have "length (fst kv @ [NUL]) \<le> length (?f kv)"
    "length (format_value A F types (pos + 2) (snd kv)) \<le> length (?f kv)"
    using length_format_entry(2) [of "fst kv @ [NUL]" A]
      length_format_entry(1) [of "format_value A F types (pos + 2) (snd kv)" A "fst (types ! (pos + 2))"]
    by (simp_all only: length_append; linarith)+
  ultimately show "small (fst kv @ [NUL])" "small (format_value A F types (pos + 2) (snd kv))"
    using small_le [OF assms(1)] le_trans by blast+
qed

lemma format_elem_small:
  assumes "small (format_value A F types pos (A_List vs))" "v \<in> set vs"
  shows "small (format_value A F types (pos + 1) v)"
  using small_le [OF assms(1)] concat_member_length [OF assms(2),
      of "\<lambda>v. entry A (fst (types ! (pos + 1))) (format_value A F types (pos + 1) v)"]
    length_format_entry(1) [of "format_value A F types (pos + 1) v" A "fst (types ! (pos + 1))"]
  by simp

section \<open>Packing appends the format\<close>

lemma appends_trans: "appends a xs b \<Longrightarrow> appends b ys c \<Longrightarrow> appends a (xs @ ys) c"
  unfolding appends_def by (metis add.assoc append.assoc length_append)

lemma appends_ok: "appends a xs b \<Longrightarrow> out_ok b"
  by (simp add: appends_def)

lemma appends_refl: "out_ok a \<Longrightarrow> appends a [] a"
  by (simp add: appends_def)

lemma appends_fold:
  assumes "\<And>x out out'. x \<in> set xs \<Longrightarrow> out_ok out \<Longrightarrow> step x out = Inr out' \<Longrightarrow> appends out (bytes x) out'"
    and "out_ok out" "fold_res step xs out = Inr out'"
  shows "appends out (concat (map bytes xs)) out'"
  using assms
proof (induction xs arbitrary: out)
  case (Cons x xs)
  then obtain mid where mid: "step x out = Inr mid" "fold_res step xs mid = Inr out'"
    by (auto simp: tcl_check_Inr_conv)
  have first: "appends out (bytes x) mid" using Cons.prems mid(1) by simp
  have "appends mid (concat (map bytes xs)) out'"
    using Cons.prems(1) appends_ok [OF first] mid(2) by (intro Cons.IH) auto
  with first show ?case by (auto intro: appends_trans)
qed (auto intro: appends_refl)

text \<open>Reserving the place for a padded length, and filling it in afterwards.\<close>

lemma appends_reserve:
  assumes F: "append_ok A F" and out: "out_ok out"
    and run: "tcl_check (tcl_get (resize_out A (ob_data out) (ob_caller out) (ob_pos out + vint_max A)))
      (\<lambda>(data, caller). tcl_check (write_at (ob_pos out) (replicate (vint_max A) NUL)
          (out\<lparr>ob_data := data, ob_caller := caller\<rparr>)) (\<lambda>o1. Inr (o1\<lparr>ob_pos := ob_pos out + vint_max A\<rparr>))) = Inr out1"
  shows "appends out (replicate (vint_max A) NUL) out1"
proof -
  from run obtain data caller where
    resize: "resize_out A (ob_data out) (ob_caller out) (ob_pos out + vint_max A) = Some (data, caller)"
    by (auto simp: res_Inr_convs)
  with F have data: "ob_pos out + vint_max A \<le> length data" "length (ob_data out) \<le> length data"
    "take (length (ob_data out)) data = ob_data out"
    unfolding append_ok_def by blast+
  have pre: "take (ob_pos out) data = take (ob_pos out) (ob_data out)"
    using data(3) out unfolding out_ok_def by (metis min.absorb1 take_take)
  show ?thesis
    using run resize data(1) out by (auto simp: write_at_def appends_def out_ok_def pre)
qed

lemma appends_fill:
  assumes "append_ok A F" "appends out (replicate (vint_max A) NUL) out1" "appends out1 bs out2" "small bs"
    and "write_at (ob_pos out) (vint_encode A (length bs)) out2 = Inr out3"
  shows "appends out (vint_encode A (length bs) @
    replicate (vint_max A - length (vint_encode A (length bs))) NUL @ bs) out3"
proof -
  let ?v = "vint_encode A (length bs)" and ?p = "ob_pos out"
  have v: "length ?v \<le> vint_max A" using assms(1,4) unfolding append_ok_def small_def by blast
  let ?d = "ob_data out2"
  have d: "take (?p + vint_max A + length bs) ?d = take ?p (ob_data out) @ replicate (vint_max A) NUL @ bs"
    "?p + vint_max A + length bs \<le> length ?d" "ob_pos out2 = ?p + vint_max A + length bs"
    using assms(2,3) by (auto simp: appends_def out_ok_def)
  have p: "length (take ?p (ob_data out)) = ?p"
    using arg_cong [OF d(1), of length] d(2) by simp
  have out3: "ob_data out3 = take ?p ?d @ ?v @ drop (?p + length ?v) ?d" "ob_pos out3 = ob_pos out2"
    using assms(5) by (auto simp: write_at_def c_defined_Inr_conv)
  have "take ?p ?d = take ?p (take (?p + vint_max A + length bs) ?d)" by simp
  then have pre: "take ?p ?d = take ?p (ob_data out)" using d(1) p by simp
  have "take (vint_max A + length bs - length ?v) (drop (?p + length ?v) ?d) =
      drop (?p + length ?v) (take (?p + vint_max A + length bs) ?d)"
    using v by (simp add: take_drop add.commute add.left_commute)
  also have "\<dots> = replicate (vint_max A - length ?v) NUL @ bs"
    using v p by (simp add: d(1))
  finally have mid: "take (vint_max A + length bs - length ?v) (drop (?p + length ?v) ?d) =
      replicate (vint_max A - length ?v) NUL @ bs" .
  have final: "take (?p + vint_max A + length bs) (ob_data out3) =
      take ?p (ob_data out) @ ?v @ replicate (vint_max A - length ?v) NUL @ bs"
    using v p mid by (simp add: out3 pre)
  have "ob_pos out3 \<le> length (ob_data out3)"
    using v d(2,3) p by (simp add: out3 pre)
  with final v show ?thesis
    unfolding appends_def out_ok_def out3(2) d(3) by simp
qed

lemma appends_sized_entry:
  assumes F: "append_ok A F" and pad: "pack_pad_size A type" and out: "out_ok out" and bs: "small bs"
    and run: "tcl_check
      (if prefix
       then tcl_check (tcl_get (resize_out A (ob_data out) (ob_caller out) (ob_pos out + vint_max A)))
         (\<lambda>(data, caller). tcl_check (write_at (ob_pos out) (replicate (vint_max A) NUL)
             (out\<lparr>ob_data := data, ob_caller := caller\<rparr>)) (\<lambda>o1. Inr (o1\<lparr>ob_pos := ob_pos out + vint_max A\<rparr>)))
       else Inr out) (\<lambda>o1. tcl_check (inner o1) (\<lambda>o2.
         if prefix then write_at (ob_pos out) (vint_encode A (ob_pos o2 - ob_pos out - vint_max A)) o2
         else Inr o2)) = Inr out'"
    and inner: "\<And>o1 o2. out_ok o1 \<Longrightarrow> inner o1 = Inr o2 \<Longrightarrow> appends o1 bs o2"
  shows "appends out (if prefix then entry A type bs else bs) out'"
proof (cases prefix)
  case False
  with run inner [OF out] show ?thesis by (auto simp: tcl_check_Inr_conv)
next
  case True
  with run obtain o1 o2 where
    res: "tcl_check (tcl_get (resize_out A (ob_data out) (ob_caller out) (ob_pos out + vint_max A)))
      (\<lambda>(data, caller). tcl_check (write_at (ob_pos out) (replicate (vint_max A) NUL)
          (out\<lparr>ob_data := data, ob_caller := caller\<rparr>)) (\<lambda>o1. Inr (o1\<lparr>ob_pos := ob_pos out + vint_max A\<rparr>))) = Inr o1"
    and step: "inner o1 = Inr o2"
    and fill: "write_at (ob_pos out) (vint_encode A (ob_pos o2 - ob_pos out - vint_max A)) o2 = Inr out'"
    by (subst (asm) tcl_check_Inr_conv) (auto simp: tcl_check_Inr_conv [of "inner _"])
  note reserved = appends_reserve [OF F out res]
  note packed = inner [OF appends_ok [OF reserved] step]
  have "ob_pos o2 - ob_pos out - vint_max A = length bs" using reserved packed by (simp add: appends_def)
  with fill True pad appends_fill [OF F reserved packed bs] show ?thesis by (simp add: entry_def)
qed

lemma append_okD:
  assumes "append_ok A F"
  shows "\<not> pack_pad_size A type \<Longrightarrow> small bs \<Longrightarrow> out_ok out \<Longrightarrow> append_buffer A type bs prefix out = Some out' \<Longrightarrow>
      appends out (if prefix then sized A bs else bs) out'"
    "0 \<le> n \<Longrightarrow> out_ok out \<Longrightarrow> pack_container_hdr A n kt vt out = Some out' \<Longrightarrow> appends out (f_container F n kt vt) out'"
    "0 \<le> n \<Longrightarrow> out_ok out \<Longrightarrow> pack_multiset_hdr A n vt out = Some out' \<Longrightarrow> appends out (f_multiset F n vt) out'"
  using assms unfolding append_ok_def by blast+

text \<open>The storage of a scalar.\<close>

fun storage_of :: "'f aval \<Rightarrow> 'f storage" where
  "storage_of (A_Int i) = S_Int i"
| "storage_of (A_Ref i) = S_Ref i"
| "storage_of (A_Float f) = S_Float f"
| "storage_of (A_Str s) = S_String (s @ [NUL])"
| "storage_of _ = S_String []"

definition scalar :: "'f aval \<Rightarrow> bool" where
  "scalar v \<longleftrightarrow> (case v of A_Dict _ \<Rightarrow> False | A_List _ \<Rightarrow> False | _ \<Rightarrow> True)"

lemma scalar_datum:
  assumes "rep A v obj" "typed A types pos v" "scalar v"
    and "adlb_tclobj2datum A h fuel (fst (types ! pos)) ex obj = Inr tmp"
  shows "tmp = storage_of v"
  using assms
  by (cases v) (auto simp: scalar_def adlb_tclobj2datum.simps [of A h fuel] res_Inr_convs)

lemma scalar_format:
  assumes "scalar v" "typed A types pos v" "adlb_pack A (storage_of v) (fst (types ! pos)) = Some bs"
  shows "format_value A F types pos v = bs"
  using assms by (cases v) (auto simp: scalar_def)

lemma scalar_append:
  assumes P: "pack_ok A F" and v: "rep A v obj" "typed A types pos v" "scalar v" and out: "out_ok out"
    and small: "small (format_value A F types pos v)"
    and run: "adlb_tclobj_bin_append A h fuel types False pos obj prefix out = Inr out'"
  shows "appends out (if prefix then entry A (fst (types ! pos)) (format_value A F types pos v)
    else format_value A F types pos v) out'"
proof -
  have ty: "fst (types ! pos) \<notin> compound_kinds" "pos < length types" using v by (cases v; simp add: scalar_def)+
  then have pad: "\<not> pack_pad_size A (fst (types ! pos))" "\<not> pack_pad_size A TYPE_NULL"
    using P by (auto simp: pack_ok_def)
  obtain tmp packed where
    "adlb_tclobj2datum A h fuel (fst (types ! pos)) (snd (types ! pos)) obj = Inr tmp"
    "adlb_pack A tmp (fst (types ! pos)) = Some packed"
    "append_buffer A TYPE_NULL packed prefix out = Some out'"
    using run pad ty(2)
    by (subst (asm) adlb_tclobj_bin_append.simps) (auto simp: compound_type_next_def res_Inr_convs)
  moreover from this scalar_datum [OF v] have "format_value A F types pos v = packed"
    using scalar_format [OF v(3,2)] by blast
  ultimately show ?thesis
    using append_okD(1) [of A F TYPE_NULL packed out prefix out'] P pad out small
    by (cases prefix) (auto simp: pack_ok_def entry_def)
qed

lemma append_key_val:
  assumes P: "pack_ok A F" and kt: "\<not> pack_pad_size A kt" and out: "out_ok out"
    and small: "small (tcl_string A key @ [NUL])"
    and run: "tcl_append_key_val A app pos kt key val out = Inr out'"
    and val: "\<And>o1 o2. out_ok o1 \<Longrightarrow> app (pos - 1) val o1 = Inr o2 \<Longrightarrow> appends o1 bs o2"
  shows "appends out (sized A (tcl_string A key @ [NUL]) @ bs) out'"
proof -
  from run obtain mid where "append_buffer A kt (tcl_string A key @ [NUL]) True out = Some mid"
    "app (pos - 1) val mid = Inr out'"
    by (auto simp: tcl_append_key_val_def res_Inr_convs)
  then show ?thesis
    using append_okD(1) [of A F kt _ out True mid] P kt out small val appends_ok appends_trans
    unfolding pack_ok_def by (metis (full_types))
qed

lemma list_all2_fold:
  assumes "list_all2 R vs xs"
    and "\<And>v x out out'. v \<in> set vs \<Longrightarrow> R v x \<Longrightarrow> out_ok out \<Longrightarrow> step x out = Inr out' \<Longrightarrow> appends out (bytes v) out'"
    and "out_ok out" "fold_res step xs out = Inr out'"
  shows "appends out (concat (map bytes vs)) out'"
  using assms
proof (induction arbitrary: out rule: list_all2_induct)
  case (Cons v vs x xs)
  then obtain mid where mid: "step x out = Inr mid" "fold_res step xs mid = Inr out'"
    by (auto simp: tcl_check_Inr_conv)
  have first: "appends out (bytes v) mid" using Cons.prems(1) [of v x] Cons.hyps(1) Cons.prems(2) mid(1) by simp
  have "appends mid (concat (map bytes vs)) out'"
    using Cons.prems(1) appends_ok [OF first] mid(2) by (intro Cons.IH) auto
  with first show ?case by (auto intro: appends_trans)
qed (auto intro: appends_refl)

abbreviation reserve :: "('obj, 'f, 'z) pack_api_scheme \<Rightarrow> bool \<Rightarrow> outbuf \<Rightarrow> outbuf res" where
  "reserve A prefix out \<equiv>
     (if prefix
      then tcl_check (tcl_get (resize_out A (ob_data out) (ob_caller out) (ob_pos out + vint_max A)))
        (\<lambda>(data, caller). tcl_check (write_at (ob_pos out) (replicate (vint_max A) NUL)
            (out\<lparr>ob_data := data, ob_caller := caller\<rparr>)) (\<lambda>o1. Inr (o1\<lparr>ob_pos := ob_pos out + vint_max A\<rparr>)))
      else Inr out)"

lemma bin_append_compound:
  assumes "pos < length types" "pack_pad_size A (fst (types ! pos))"
  shows "fst (types ! pos) = TYPE_CONTAINER \<Longrightarrow>
      adlb_tclobj_bin_append A h fuel types canon pos obj prefix out =
      tcl_check (reserve A prefix out) (\<lambda>o1. tcl_check (tcl_dict_to_packed_container A
          (\<lambda>p v out. adlb_tclobj_bin_append A h fuel types canon p v True out) types (pos + 1) obj canon o1)
        (\<lambda>o2. if prefix then write_at (ob_pos out) (vint_encode A (ob_pos o2 - ob_pos out - vint_max A)) o2
           else Inr o2))"
    and "fst (types ! pos) = TYPE_MULTISET \<Longrightarrow>
      adlb_tclobj_bin_append A h fuel types canon pos obj prefix out =
      tcl_check (reserve A prefix out) (\<lambda>o1. tcl_check (tcl_list_to_packed_multiset A
          (\<lambda>p v out. adlb_tclobj_bin_append A h fuel types canon p v True out) types (pos + 1) obj canon o1)
        (\<lambda>o2. if prefix then write_at (ob_pos out) (vint_encode A (ob_pos o2 - ob_pos out - vint_max A)) o2
           else Inr o2))"
  using assms
  by (subst adlb_tclobj_bin_append.simps, simp add: compound_type_next_def Let_def)+

text \<open>The two compound cases of the next lemma, with its induction hypothesis for the members.\<close>

lemma bin_append_format_dict:
  assumes P: "pack_ok A F"
    and IH: "\<And>kv obj pos out prefix out'. kv \<in> set kvs \<Longrightarrow> rep A (snd kv) obj \<Longrightarrow> typed A types pos (snd kv) \<Longrightarrow>
      out_ok out \<Longrightarrow> small (format_value A F types pos (snd kv)) \<Longrightarrow>
      adlb_tclobj_bin_append A h fuel types False pos obj prefix out = Inr out' \<Longrightarrow>
      appends out (if prefix then entry A (fst (types ! pos)) (format_value A F types pos (snd kv))
        else format_value A F types pos (snd kv)) out'"
    and prems: "rep A (A_Dict kvs) obj" "typed A types pos (A_Dict kvs)" "out_ok out"
      "small (format_value A F types pos (A_Dict kvs))"
      "adlb_tclobj_bin_append A h fuel types False pos obj prefix out = Inr out'"
  shows "appends out (if prefix then entry A (fst (types ! pos)) (format_value A F types pos (A_Dict kvs))
      else format_value A F types pos (A_Dict kvs)) out'"
proof -
  let ?app = "\<lambda>p v out. adlb_tclobj_bin_append A h fuel types False p v True out"
  let ?kt = "fst (types ! (pos + 1))" and ?vt = "fst (types ! (pos + 2))"
  have F: "append_ok A F" using P by (simp add: pack_ok_def)
  have ty: "pos + 2 < length types" "fst (types ! pos) = TYPE_CONTAINER" "\<not> pack_pad_size A ?kt"
    "pack_pad_size A TYPE_CONTAINER"
    using prems(2) P by (auto simp: pack_ok_def)
  from prems(1) obtain es where es: "dict_entries A obj = Some es"
    "list_all2 (\<lambda>kv e. tcl_string A (fst e) = fst kv \<and> rep A (snd kv) (snd e)) kvs es"
    by (auto split: option.splits)
  have inner: "appends o1 (format_value A F types pos (A_Dict kvs)) o2"
    if o1: "out_ok o1" and run: "tcl_dict_to_packed_container A ?app types (pos + 1) obj False o1 = Inr o2" for o1 o2
  proof -
    from run es(1) ty(1) obtain hd where
      hd: "pack_container_hdr A (int (length es)) ?kt ?vt o1 = Some hd" and
      fold: "fold_res (\<lambda>(key, val) out. tcl_append_key_val A ?app (pos + 3) ?kt key val out) es hd = Inr o2"
      by (auto simp: tcl_dict_to_packed_container_def compound_type_next_def res_Inr_convs numeral_3_eq_3
          numeral_2_eq_2)
    have "appends o1 (f_container F (int (length es)) ?kt ?vt) hd"
      using append_okD(2) [OF F _ o1 hd] by simp
    moreover have "appends hd (concat (map (\<lambda>kv. sized A (fst kv @ [NUL]) @
        entry A ?vt (format_value A F types (pos + 2) (snd kv))) kvs)) o2"
    proof (rule list_all2_fold [OF es(2) _ appends_ok [OF calculation] fold])
      fix kv e out out'
      assume kv: "kv \<in> set kvs" "tcl_string A (fst e) = fst kv \<and> rep A (snd kv) (snd e)" and out: "out_ok out"
        and step: "(case e of (key, val) \<Rightarrow> \<lambda>out. tcl_append_key_val A ?app (pos + 3) ?kt key val out) out = Inr out'"
      note IH = IH [OF kv(1), of "snd e" "pos + 2" _ True]
      have ty': "typed A types (pos + 2) (snd kv)" using prems(2) kv(1) by auto
      note le = format_entry_small [OF prems(4) kv(1)]
      have "appends out (sized A (tcl_string A (fst e) @ [NUL]) @
          entry A ?vt (format_value A F types (pos + 2) (snd kv))) out'"
        by (rule append_key_val [OF P ty(3) out, of "fst e" ?app "pos + 3" "snd e"])
          (use step IH kv(2) ty' le in \<open>auto split: prod.splits\<close>)
      with kv(2) show "appends out (sized A (fst kv @ [NUL]) @
          entry A ?vt (format_value A F types (pos + 2) (snd kv))) out'" by simp
    qed
    ultimately show ?thesis
      using list_all2_lengthD [OF es(2)] by (auto dest: appends_trans)
  qed
  show ?thesis
    unfolding ty(2)
    by (rule appends_sized_entry [OF F ty(4) prems(3,4) _ inner])
      (use prems(5) bin_append_compound(1) [of pos types A] ty in simp_all)
qed

lemma bin_append_format_list:
  assumes P: "pack_ok A F"
    and IH: "\<And>v obj pos out prefix out'. v \<in> set vs \<Longrightarrow> rep A (v) obj \<Longrightarrow> typed A types pos (v) \<Longrightarrow>
      out_ok out \<Longrightarrow> small (format_value A F types pos (v)) \<Longrightarrow>
      adlb_tclobj_bin_append A h fuel types False pos obj prefix out = Inr out' \<Longrightarrow>
      appends out (if prefix then entry A (fst (types ! pos)) (format_value A F types pos (v))
        else format_value A F types pos (v)) out'"
    and prems: "rep A (A_List vs) obj" "typed A types pos (A_List vs)" "out_ok out"
      "small (format_value A F types pos (A_List vs))"
      "adlb_tclobj_bin_append A h fuel types False pos obj prefix out = Inr out'"
  shows "appends out (if prefix then entry A (fst (types ! pos)) (format_value A F types pos (A_List vs))
      else format_value A F types pos (A_List vs)) out'"
proof -
  let ?app = "\<lambda>p v out. adlb_tclobj_bin_append A h fuel types False p v True out"
  let ?vt = "fst (types ! (pos + 1))"
  have F: "append_ok A F" using P by (simp add: pack_ok_def)
  have ty: "pos + 1 < length types" "fst (types ! pos) = TYPE_MULTISET" "pack_pad_size A TYPE_MULTISET"
    using prems(2) P by (auto simp: pack_ok_def)
  from prems(1) obtain xs where xs: "tcl_list A obj = Some xs" "list_all2 (\<lambda>v x. rep A v x) vs xs"
    by (auto split: option.splits)
  have inner: "appends o1 (format_value A F types pos (A_List vs)) o2"
    if o1: "out_ok o1" and run: "tcl_list_to_packed_multiset A ?app types (pos + 1) obj False o1 = Inr o2" for o1 o2
  proof -
    from run xs(1) ty(1) obtain hd where
      hd: "pack_multiset_hdr A (int (length xs)) ?vt o1 = Some hd" and
      fold: "fold_res (\<lambda>elem out. ?app (pos + 1) elem out) xs hd = Inr o2"
      by (auto simp: tcl_list_to_packed_multiset_def compound_type_next_def res_Inr_convs)
    have "appends o1 (f_multiset F (int (length xs)) ?vt) hd" using append_okD(3) [OF F _ o1 hd] by simp
    moreover have "appends hd (concat (map (\<lambda>v. entry A ?vt (format_value A F types (pos + 1) v)) vs)) o2"
    proof (rule list_all2_fold [OF xs(2) _ appends_ok [OF calculation] fold])
      fix v x out out'
      assume "v \<in> set vs" "rep A v x" "out_ok out" "?app (pos + 1) x out = Inr out'"
      with IH [of v x "pos + 1" out True out'] prems(2) format_elem_small [OF prems(4)]
      show "appends out (entry A ?vt (format_value A F types (pos + 1) v)) out'" by simp
    qed
    ultimately show ?thesis
      using list_all2_lengthD [OF xs(2)] by (auto dest: appends_trans)
  qed
  show ?thesis
    unfolding ty(2)
    by (rule appends_sized_entry [OF F ty(3) prems(3,4) _ inner])
      (use prems(5) bin_append_compound(2) [of pos types A] ty in simp_all)
qed

lemma bin_append_format:
  assumes P: "pack_ok A F"
  shows "rep A v obj \<Longrightarrow> typed A types pos v \<Longrightarrow> out_ok out \<Longrightarrow>
    small (format_value A F types pos v) \<Longrightarrow>
    adlb_tclobj_bin_append A h fuel types False pos obj prefix out = Inr out' \<Longrightarrow>
    appends out (if prefix then entry A (fst (types ! pos)) (format_value A F types pos v)
      else format_value A F types pos v) out'"
proof (induction v arbitrary: pos obj out prefix out')
  case (A_Dict kvs)
  show ?case
    by (rule bin_append_format_dict [OF P _ A_Dict.prems])
      (rule A_Dict.IH, assumption, auto simp: snds.simps prod_eq_iff)
next
  case (A_List vs)
  show ?case by (rule bin_append_format_list [OF P A_List.IH A_List.prems])
qed (rule scalar_append [OF P], assumption, assumption, simp add: scalar_def, assumption, assumption, assumption)+

section \<open>Unpacking inverts the format\<close>

lemma unpack_okD:
  assumes "unpack_ok A F"
  shows "0 \<le> n \<Longrightarrow> unpack_container_hdr A (f_container F n kt vt @ rest) 0 = Some (n, kt, vt, length (f_container F n kt vt))"
    "\<not> pack_pad_size A kt \<Longrightarrow> small key \<Longrightarrow> small val \<Longrightarrow>
      unpack_container_entry A kt vt (pre @ sized A key @ entry A vt val @ rest) (length pre) =
        Some (key, val, length (pre @ sized A key @ entry A vt val))"
    "0 \<le> n \<Longrightarrow> unpack_multiset_hdr A (f_multiset F n vt @ rest) 0 = Some (n, vt, length (f_multiset F n vt))"
    "small val \<Longrightarrow> unpack_multiset_entry A vt (pre @ entry A vt val @ rest) (length pre) =
        Some (val, length (pre @ entry A vt val))"
  using assms unfolding unpack_ok_def by blast+

lemma scalars_okD:
  assumes "scalars_ok A"
  shows "LONG_MIN \<le> i \<Longrightarrow> i \<le> LONG_MAX \<Longrightarrow> unpack_integer A (the (adlb_pack A (S_Int i) TYPE_INTEGER)) = Some i"
    "LONG_MIN \<le> i \<Longrightarrow> i \<le> LONG_MAX \<Longrightarrow> unpack_ref A (the (adlb_pack A (S_Ref i) TYPE_REF)) = Some i"
    "unpack_float A (the (adlb_pack A (S_Float f) TYPE_FLOAT)) = Some f"
    "unpack_string A (the (adlb_pack A (S_String s) TYPE_STRING)) = Some s"
  using assms unfolding scalars_ok_def by (metis option.sel)+

lemma dict_okD:
  assumes "dict_ok A"
  shows "tcl_ok A" "tcl_double A (new_double A f) = Some f" "dict_entries A (new_dict A) = Some []"
    "dict_entries A d = Some es \<Longrightarrow> tcl_string A k \<notin> tcl_string A ` fst ` set es \<Longrightarrow>
      \<exists>d'. dict_insert A d k v = Some d' \<and> dict_entries A d' = Some (es @ [(k, v)])"
  using assms unfolding dict_ok_def by blast+

text \<open>The entries of a container and the elements of a multiset, given what unpacking does on each.\<close>

lemma unpack_entries_format:
  assumes U: "unpack_ok A F" and D: "dict_ok A" and kt: "\<not> pack_pad_size A kt"
    and conv: "\<And>kv h. kv \<in> set kvs \<Longrightarrow> \<exists>obj. conv vt Extra_None (bytes kv) h = Inr (obj, h) \<and> R (snd kv) obj"
    and keys: "distinct (map fst kvs)"
    and sizes: "\<And>kv. kv \<in> set kvs \<Longrightarrow> small (fst kv @ [NUL]) \<and> small (bytes kv)"
    and d: "dict_entries A dict = Some es" "tcl_string A ` fst ` set es \<inter> fst ` set kvs = {}"
    and data: "data = pre @ concat (map (\<lambda>kv. sized A (fst kv @ [NUL]) @ entry A vt (bytes kv)) kvs)"
  shows "\<exists>dict' new. unpack_entries A conv kt vt data (length kvs) (length pre) dict h = Inr (dict', h) \<and>
    dict_entries A dict' = Some (es @ new) \<and>
    list_all2 (\<lambda>kv e. tcl_string A (fst e) = fst kv \<and> R (snd kv) (snd e)) kvs new"
  using conv keys sizes d data
proof (induction kvs arbitrary: dict es pre)
  case (Cons kv kvs)
  let ?e = "sized A (fst kv @ [NUL]) @ entry A vt (bytes kv)"
  let ?rest = "concat (map (\<lambda>kv. sized A (fst kv @ [NUL]) @ entry A vt (bytes kv)) kvs)"
  let ?k = "new_string A (fst kv)"
  have key: "tcl_string A ?k = fst kv" by (simp add: tcl_okD [OF dict_okD(1) [OF D]])
  have ent: "unpack_container_entry A kt vt data (length pre) = Some (fst kv @ [NUL], bytes kv, length (pre @ ?e))"
    using unpack_okD(2) [OF U kt, of "fst kv @ [NUL]" "bytes kv" vt pre ?rest] Cons.prems(3) [of kv]
    by (simp add: Cons.prems(6))
  obtain obj where obj: "conv vt Extra_None (bytes kv) h = Inr (obj, h)" "R (snd kv) obj"
    using Cons.prems(1) [of kv h] by auto
  have "tcl_string A ?k \<notin> tcl_string A ` fst ` set es" using Cons.prems(5) key by auto
  from dict_okD(4) [OF D Cons.prems(4) this] obtain dict1 where
    ins: "dict_insert A dict ?k obj = Some dict1" "dict_entries A dict1 = Some (es @ [(?k, obj)])" by blast
  have "\<exists>dict' new. unpack_entries A conv kt vt data (length kvs) (length (pre @ ?e)) dict1 h = Inr (dict', h) \<and>
    dict_entries A dict' = Some ((es @ [(?k, obj)]) @ new) \<and>
    list_all2 (\<lambda>kv e. tcl_string A (fst e) = fst kv \<and> R (snd kv) (snd e)) kvs new"
  proof (rule Cons.IH)
    show "dict_entries A dict1 = Some (es @ [(?k, obj)])" by (rule ins(2))
    show "tcl_string A ` fst ` set (es @ [(?k, obj)]) \<inter> fst ` set kvs = {}"
      using Cons.prems(2,5) key by auto
  qed (use Cons.prems in auto)
  then obtain dict' new where "unpack_entries A conv kt vt data (length kvs) (length (pre @ ?e)) dict1 h = Inr (dict', h)"
    "dict_entries A dict' = Some (es @ (?k, obj) # new)"
    "list_all2 (\<lambda>kv e. tcl_string A (fst e) = fst kv \<and> R (snd kv) (snd e)) kvs new" by auto
  then show ?case
    using ent obj ins(1) key by (intro exI [of _ dict'] exI [of _ "(?k, obj) # new"]) simp
qed auto

lemma unpack_elems_format:
  assumes U: "unpack_ok A F"
    and conv: "\<And>v h. v \<in> set vs \<Longrightarrow> \<exists>obj. conv vt Extra_None (bytes v) h = Inr (obj, h) \<and> R v obj"
    and sizes: "\<And>v. v \<in> set vs \<Longrightarrow> small (bytes v)"
    and data: "data = pre @ concat (map (\<lambda>v. entry A vt (bytes v)) vs)"
  shows "\<exists>new. unpack_elems A conv vt data (length vs) (length pre) arr h = Inr (arr @ new, h) \<and> list_all2 R vs new"
  using conv sizes data
proof (induction vs arbitrary: arr pre)
  case (Cons v vs)
  have ent: "unpack_multiset_entry A vt data (length pre) = Some (bytes v, length (pre @ entry A vt (bytes v)))"
    using unpack_okD(4) [OF U, of "bytes v" vt pre] Cons.prems(2) [of v] by (simp add: Cons.prems(3))
  obtain obj where obj: "conv vt Extra_None (bytes v) h = Inr (obj, h)" "R v obj"
    using Cons.prems(1) [of v h] by auto
  obtain new where "unpack_elems A conv vt data (length vs) (length (pre @ entry A vt (bytes v))) (arr @ [obj]) h =
      Inr ((arr @ [obj]) @ new, h)" "list_all2 R vs new"
    using Cons.IH [of "pre @ entry A vt (bytes v)" "arr @ [obj]"] Cons.prems by auto
  then show ?case using ent obj by (intro exI [of _ "obj # new"]) simp
qed auto

lemma foldr_max_le: "foldr (\<lambda>x d. max (g x) d) xs (0 :: nat) \<le> n \<longleftrightarrow> (\<forall>x \<in> set xs. g x \<le> n)"
  by (induction xs) auto

text \<open>The two compound cases of the next lemma, with its induction hypothesis for the members.\<close>

lemma unpack_format_dict:
  assumes P: "pack_ok A F" and D: "dict_ok A"
    and IH: "\<And>kv pos fuel h. kv \<in> set kvs \<Longrightarrow> typed A types pos (snd kv) \<Longrightarrow> \<exists>obj. rep A (snd kv) obj \<Longrightarrow>
        depth (snd kv) \<le> fuel \<Longrightarrow> int (length (format_value A F types pos (snd kv))) \<le> data_max A \<Longrightarrow>
        small (format_value A F types pos (snd kv)) \<Longrightarrow>
        \<exists>obj. adlb_datum2tclobj A fuel (fst (types ! pos)) Extra_None (format_value A F types pos (snd kv)) h =
          Inr (obj, h) \<and> rep A (snd kv) obj"
    and prems: "typed A types pos (A_Dict kvs)" "\<exists>obj. rep A (A_Dict kvs) obj" "depth (A_Dict kvs) \<le> fuel"
      "int (length (format_value A F types pos (A_Dict kvs))) \<le> data_max A"
      "small (format_value A F types pos (A_Dict kvs))"
  shows "\<exists>obj. adlb_datum2tclobj A fuel (fst (types ! pos)) Extra_None (format_value A F types pos (A_Dict kvs)) h = Inr (obj, h) \<and>
      rep A (A_Dict kvs) obj"
proof -
  let ?kt = "fst (types ! (pos + 1))" and ?vt = "fst (types ! (pos + 2))"
  let ?bytes = "\<lambda>kv. format_value A F types (pos + 2) (snd kv)"
  let ?hdr = "f_container F (int (length kvs)) ?kt ?vt"
  obtain n where n: "fuel = Suc n" "\<forall>kv \<in> set kvs. depth (snd kv) \<le> n"
    using prems(3) by (cases fuel) (auto simp: foldr_max_le)
  let ?conv = "\<lambda>type extra data h. adlb_datum2tclobj A n type extra data h"
  have U: "unpack_ok A F" and kt: "\<not> pack_pad_size A ?kt" and keys: "distinct (map fst kvs)"
    using P prems(1) by (auto simp: pack_ok_def)
  obtain es where es: "list_all2 (\<lambda>kv e. tcl_string A (fst e) = fst kv \<and> rep A (snd kv) (snd e)) kvs es"
    using prems(2) by (auto split: option.splits)
  have conv: "\<exists>obj. ?conv ?vt Extra_None (?bytes kv) h = Inr (obj, h) \<and> rep A (snd kv) obj" if kv: "kv \<in> set kvs" for kv h
  proof (rule IH [OF kv])
    show "typed A types (pos + 2) (snd kv)" using prems(1) kv by auto
    show "\<exists>obj. rep A (snd kv) obj" using es kv by (auto simp: list_all2_conv_all_nth in_set_conv_nth)
    show "depth (snd kv) \<le> n" using n(2) kv by blast
    have "length (?bytes kv) \<le> length (format_value A F types pos (A_Dict kvs))"
      using concat_member_length [OF kv, of "\<lambda>kv. sized A (fst kv @ [NUL]) @ entry A ?vt (?bytes kv)"]
        length_format_entry(1) [of "?bytes kv" A ?vt] by simp
    then show "int (length (?bytes kv)) \<le> data_max A" using prems(4) by linarith
    show "small (?bytes kv)" by (rule format_entry_small(2) [OF prems(5) kv])
  qed
  obtain dict' new where "unpack_entries A ?conv ?kt ?vt (format_value A F types pos (A_Dict kvs)) (length kvs)
      (length ?hdr) (new_dict A) h = Inr (dict', h)" "dict_entries A dict' = Some ([] @ new)"
    "list_all2 (\<lambda>kv e. tcl_string A (fst e) = fst kv \<and> rep A (snd kv) (snd e)) kvs new"
    using unpack_entries_format [where conv = ?conv and bytes = ?bytes and R = "rep A" and kvs = kvs and vt = ?vt
        and pre = ?hdr, OF U D kt conv keys _ dict_okD(3) [OF D]] format_entry_small [OF prems(5)]
    by fastforce
  then show ?thesis
    using prems(1,4) n(1) unpack_okD(1) [OF U, of "int (length kvs)" ?kt ?vt]
    by (subst adlb_datum2tclobj.simps) (auto simp: packed_container_to_dict_def)
qed

lemma unpack_format_list:
  assumes P: "pack_ok A F" and D: "dict_ok A"
    and IH: "\<And>v pos fuel h. v \<in> set vs \<Longrightarrow> typed A types pos (v) \<Longrightarrow> \<exists>obj. rep A (v) obj \<Longrightarrow>
        depth (v) \<le> fuel \<Longrightarrow> int (length (format_value A F types pos (v))) \<le> data_max A \<Longrightarrow>
        small (format_value A F types pos (v)) \<Longrightarrow>
        \<exists>obj. adlb_datum2tclobj A fuel (fst (types ! pos)) Extra_None (format_value A F types pos (v)) h =
          Inr (obj, h) \<and> rep A (v) obj"
    and prems: "typed A types pos (A_List vs)" "\<exists>obj. rep A (A_List vs) obj" "depth (A_List vs) \<le> fuel"
      "int (length (format_value A F types pos (A_List vs))) \<le> data_max A"
      "small (format_value A F types pos (A_List vs))"
  shows "\<exists>obj. adlb_datum2tclobj A fuel (fst (types ! pos)) Extra_None (format_value A F types pos (A_List vs)) h = Inr (obj, h) \<and>
      rep A (A_List vs) obj"
proof -
  let ?vt = "fst (types ! (pos + 1))"
  let ?bytes = "\<lambda>v. format_value A F types (pos + 1) v"
  let ?hdr = "f_multiset F (int (length vs)) ?vt"
  obtain n where n: "fuel = Suc n" "\<forall>v \<in> set vs. depth v \<le> n"
    using prems(3) by (cases fuel) (auto simp: foldr_max_le)
  let ?conv = "\<lambda>type extra data h. adlb_datum2tclobj A n type extra data h"
  have U: "unpack_ok A F" using P by (simp add: pack_ok_def)
  obtain xs where xs: "list_all2 (\<lambda>v x. rep A v x) vs xs"
    using prems(2) by (auto split: option.splits)
  have conv: "\<exists>obj. ?conv ?vt Extra_None (?bytes v) h = Inr (obj, h) \<and> rep A v obj" if v: "v \<in> set vs" for v h
  proof (rule IH [OF v])
    show "typed A types (pos + 1) v" using prems(1) v by auto
    show "\<exists>obj. rep A v obj" using xs v by (auto simp: list_all2_conv_all_nth in_set_conv_nth)
    show "depth v \<le> n" using n(2) v by blast
    have "length (?bytes v) \<le> length (format_value A F types pos (A_List vs))"
      using concat_member_length [OF v, of "\<lambda>v. entry A ?vt (?bytes v)"]
        length_format_entry(1) [of "?bytes v" A ?vt] by simp
    then show "int (length (?bytes v)) \<le> data_max A" using prems(4) by linarith
    show "small (?bytes v)" by (rule format_elem_small [OF prems(5) v])
  qed
  obtain new where "unpack_elems A ?conv ?vt (format_value A F types pos (A_List vs)) (length vs)
      (length ?hdr) [] h = Inr ([] @ new, h)" "list_all2 (rep A) vs new"
    using unpack_elems_format [where conv = ?conv and bytes = ?bytes and R = "rep A" and vs = vs and vt = ?vt
        and pre = ?hdr, OF U conv] format_elem_small [OF prems(5)]
    by fastforce
  then show ?thesis
    using prems(1,4) n(1) unpack_okD(3) [OF U, of "int (length vs)" ?vt]
      tcl_okD(2) [OF dict_okD(1) [OF D]]
    by (subst adlb_datum2tclobj.simps) (auto simp: packed_multiset_to_list_def)
qed

lemma unpack_format:
  assumes P: "pack_ok A F" and D: "dict_ok A"
  notes scal = scalars_okD [OF P [unfolded pack_ok_def, THEN conjunct1]]
    and obj = tcl_okD [OF dict_okD(1) [OF D]] dict_okD(2) [OF D]
  shows "typed A types pos v \<Longrightarrow> (\<exists>obj. rep A v obj) \<Longrightarrow> depth v \<le> fuel \<Longrightarrow>
    int (length (format_value A F types pos v)) \<le> data_max A \<Longrightarrow> small (format_value A F types pos v) \<Longrightarrow>
    \<exists>obj. adlb_datum2tclobj A fuel (fst (types ! pos)) Extra_None (format_value A F types pos v) h = Inr (obj, h) \<and>
      rep A v obj"
proof (induction v arbitrary: pos fuel h)
  case (A_Int i)
  then show ?case by (subst adlb_datum2tclobj.simps) (auto simp: scal obj)
next
  case (A_Ref i)
  then show ?case by (subst adlb_datum2tclobj.simps) (auto simp: scal obj)
next
  case (A_Float f)
  then show ?case by (subst adlb_datum2tclobj.simps) (auto simp: scal obj)
next
  case (A_Str s)
  then show ?case by (subst adlb_datum2tclobj.simps) (auto simp: scal obj)
next
  case (A_Dict kvs)
  show ?case
    by (rule unpack_format_dict [OF P D _ A_Dict.prems])
      (rule A_Dict.IH, assumption, auto simp: snds.simps prod_eq_iff)
next
  case (A_List vs)
  show ?case by (rule unpack_format_list [OF P D A_List.IH A_List.prems])
qed

text \<open>
  A Tcl object that stands for a nested value of some compound type, packed with
  \<^verbatim>\<open>adlb_tclobj2bin_compound\<close>, unpacks with \<^verbatim>\<open>adlb_datum2tclobj\<close> to an object that stands
  for the same value; the recursion needs no more fuel than the value is deep.
\<close>

lemma serialize_value:
  assumes "pack_ok A F" "dict_ok A" "rep A v obj" "typed A types 0 v"
    and packed: "adlb_tclobj2bin_compound A h0 fuel0 types obj False caller_buffer = Inr bytes"
    and small: "int (length (format_value A F types 0 v)) \<le> data_max A" "data_max A < 2 ^ 64"
    and "depth v \<le> fuel"
  shows "\<exists>obj'. adlb_datum2tclobj A fuel (fst (types ! 0)) Extra_None bytes h = Inr (obj', h) \<and> rep A v obj'"
proof -
  have "int (length (format_value A F types 0 v)) < 2 ^ 64" using small by simp
  then have sm: "small (format_value A F types 0 v)" by (simp add: small_def)
  from packed obtain data caller out where
    "init_buf A caller_buffer 2048 = Some (data, caller)" and
    run: "adlb_tclobj_bin_append A h0 fuel0 types False 0 obj False
      \<lparr>ob_data = data, ob_caller = caller, ob_pos = 0\<rparr> = Inr out" and
    bytes: "bytes = take (ob_pos out) (ob_data out)"
    by (auto simp: adlb_tclobj2bin_compound_def res_Inr_convs)
  have "appends \<lparr>ob_data = data, ob_caller = caller, ob_pos = 0\<rparr> (format_value A F types 0 v) out"
    using bin_append_format [OF assms(1,3,4) _ sm run] by (simp add: out_ok_def)
  then have "take (ob_pos out) (ob_data out) = take 0 data @ format_value A F types 0 v"
    unfolding appends_def outbuf.simps by (elim conjE)
  then have "bytes = format_value A F types 0 v" by (simp add: bytes)
  with unpack_format [OF assms(1,2,4) _ assms(8) small(1) sm] assms(3) show ?thesis by blast
qed

section \<open>An instance\<close>

text \<open>
  A format for examples: counts in unary, lengths in eight bytes, padded to nine.
\<close>

fun bytes_nat :: "string \<Rightarrow> nat" where
  "bytes_nat [] = 0"
| "bytes_nat (c # cs) = of_char c + 256 * bytes_nat cs"

definition nat_bytes :: "nat \<Rightarrow> nat \<Rightarrow> string" where
  "nat_bytes m n = map (\<lambda>k. char_of (n div 256 ^ k mod 256)) [0..<m]"

lemma length_nat_bytes [simp]: "length (nat_bytes m n) = m"
  by (simp add: nat_bytes_def)

lemma nat_bytes_Suc: "nat_bytes (Suc m) n = char_of (n mod 256) # nat_bytes m (n div 256)"
proof -
  have "map (\<lambda>k. char_of (n div 256 ^ k mod 256)) (map Suc [0..<m]) =
      map (\<lambda>k. char_of (n div 256 div 256 ^ k mod 256) :: char) [0..<m]"
    by (simp add: comp_def div_mult2_eq)
  then show ?thesis by (simp add: nat_bytes_def upt_conv_Cons map_Suc_upt del: upt_Suc)
qed

lemma bytes_nat_nat_bytes: "n < 256 ^ m \<Longrightarrow> bytes_nat (nat_bytes m n) = n"
proof (induction m arbitrary: n)
  case (Suc m)
  then have "n div 256 < 256 ^ m" by (simp add: less_mult_imp_div_less mult.commute)
  with Suc.IH show ?case by (simp add: nat_bytes_Suc)
qed (simp add: nat_bytes_def)

definition unary :: "int \<Rightarrow> string" where
  "unary n = (if n < 0 then ''-'' else ''+'') @ replicate (nat \<bar>n\<bar>) (CHR ''1'') @ ''.''"

definition un_unary :: "string \<Rightarrow> int \<times> nat" where
  "un_unary s = (let d = length (takeWhile (\<lambda>c. c = CHR ''1'') (tl s)) in
     (if hd s = CHR ''-'' then - int d else int d, d + 2))"

lemma un_unary: "un_unary (unary n @ rest) = (n, length (unary n))"
  by (auto simp: un_unary_def unary_def takeWhile_append takeWhile_replicate)

fun type_char :: "adlb_type \<Rightarrow> char" where
  "type_char TYPE_INTEGER = CHR ''i''"
| "type_char TYPE_FLOAT = CHR ''f''"
| "type_char TYPE_STRING = CHR ''s''"
| "type_char TYPE_BLOB = CHR ''b''"
| "type_char TYPE_REF = CHR ''r''"
| "type_char TYPE_CONTAINER = CHR ''c''"
| "type_char TYPE_MULTISET = CHR ''m''"
| "type_char TYPE_STRUCT = CHR ''t''"
| "type_char TYPE_NULL = CHR ''n''"

definition char_type :: "char \<Rightarrow> adlb_type" where
  "char_type c = (case find (\<lambda>t. type_char t = c) [TYPE_INTEGER, TYPE_FLOAT, TYPE_STRING, TYPE_BLOB,
     TYPE_REF, TYPE_CONTAINER, TYPE_MULTISET, TYPE_STRUCT] of Some t \<Rightarrow> t | None \<Rightarrow> TYPE_NULL)"

lemma char_type_type_char [simp]: "char_type (type_char t) = t"
  by (cases t) (simp_all add: char_type_def)

definition out_append :: "string \<Rightarrow> outbuf \<Rightarrow> outbuf" where
  "out_append bs out = out\<lparr>ob_data := take (ob_pos out) (ob_data out) @ bs, ob_pos := ob_pos out + length bs\<rparr>"

lemma appends_out_append: "out_ok out \<Longrightarrow> appends out bs (out_append bs out)"
  by (simp add: appends_def out_ok_def out_append_def)

definition get_sized :: "nat \<Rightarrow> string \<Rightarrow> nat \<Rightarrow> string \<times> nat" where
  "get_sized skip data pos =
     (let n = bytes_nat (take 8 (drop pos data)) in (take n (drop (pos + skip) data), pos + skip + n))"

lemma get_sized:
  assumes "length bs < 256 ^ 8" "8 \<le> skip"
  shows "get_sized skip (pre @ nat_bytes 8 (length bs) @ replicate (skip - 8) c @ bs @ rest) (length pre) =
    (bs, length pre + skip + length bs)"
proof -
  have "drop (length pre + skip) (pre @ nat_bytes 8 (length bs) @ replicate (skip - 8) c @ bs @ rest) = bs @ rest"
    using assms(2) by simp
  then show ?thesis using assms(1) by (simp add: get_sized_def bytes_nat_nat_bytes Let_def)
qed

definition val_pack :: "(val, unit) pack_api" where
  "val_pack = type_api.extend val_types \<lparr>
     data_max = 1000, vint_max = 9, vint_encode = nat_bytes 8,
     pack_pad_size = (\<lambda>t. t \<in> {TYPE_CONTAINER, TYPE_MULTISET}),
     init_buf = (\<lambda>cb n. Some ([], False)),
     resize_out = (\<lambda>data c n. Some (data @ replicate n NUL, False)),
     append_buffer = (\<lambda>t bs prefix out. Some (out_append (if prefix then nat_bytes 8 (length bs) @ bs else bs) out)),
     pack_container_hdr = (\<lambda>n kt vt out. Some (out_append (unary n @ [type_char kt, type_char vt]) out)),
     pack_multiset_hdr = (\<lambda>n vt out. Some (out_append (unary n @ [type_char vt]) out)),
     adlb_pack = (\<lambda>st t. case st of S_Int i \<Rightarrow> Some (unary i) | S_Ref i \<Rightarrow> Some (unary i)
       | S_Float f \<Rightarrow> Some [] | S_String s \<Rightarrow> Some s | S_Blob s \<Rightarrow> Some s | S_Struct t fs \<Rightarrow> None),
     unpack_integer = (\<lambda>s. Some (fst (un_unary s))), unpack_ref = (\<lambda>s. Some (fst (un_unary s))),
     unpack_float = (\<lambda>s. Some ()), unpack_string = Some, unpack_blob = Some,
     unpack_container_hdr = (\<lambda>data pos. let (n, k) = un_unary (drop pos data) in
       if length data < pos + k + 2 then None
       else Some (n, char_type (data ! (pos + k)), char_type (data ! (pos + k + 1)), pos + k + 2)),
     unpack_container_entry = (\<lambda>kt vt data pos. if length data < pos + 8 then None else
       let (key, pos) = get_sized 8 data pos;
           (val, pos) = get_sized (if vt \<in> {TYPE_CONTAINER, TYPE_MULTISET} then 9 else 8) data pos in
       Some (key, val, pos)),
     unpack_multiset_hdr = (\<lambda>data pos. let (n, k) = un_unary (drop pos data) in
       if length data < pos + k + 1 then None
       else Some (n, char_type (data ! (pos + k)), pos + k + 1)),
     unpack_multiset_entry = (\<lambda>vt data pos. if length data < pos + 8 then None else
       Some (get_sized (if vt \<in> {TYPE_CONTAINER, TYPE_MULTISET} then 9 else 8) data pos)),
     lookup_struct = (\<lambda>t. None), field_objs = field_name_objs_init,
     sizeof_hdr = 0, sizeof_offset = 0, hdr_type = (\<lambda>s. 0), hdr_offset = (\<lambda>s i. 0)\<rparr>"

definition val_format :: pack_format where
  "val_format = \<lparr>f_container = (\<lambda>n kt vt. unary n @ [type_char kt, type_char vt]),
     f_multiset = (\<lambda>n vt. unary n @ [type_char vt])\<rparr>"

lemmas val_pack_defs = val_pack_def type_api.extend_def val_types_def val_tcl_def tcl_api.extend_def

lemma val_pack_sel [simp]:
  "vint_max val_pack = 9" "vint_encode val_pack = nat_bytes 8"
  "pack_pad_size val_pack t = (t \<in> {TYPE_CONTAINER, TYPE_MULTISET})"
  "data_max val_pack = 1000"
  "tcl_string val_pack = val_string"
  "tcl_list val_pack v = (case v of V_list vs \<Rightarrow> Some vs | _ \<Rightarrow> None)"
  "tcl_wide val_pack v = (case v of V_int i \<Rightarrow> Some i | _ \<Rightarrow> None)"
  "dict_entries val_pack v = (case v of V_dict d \<Rightarrow> Some d | _ \<Rightarrow> None)"
  by (simp_all add: val_pack_defs)

lemma update_absent: "k \<notin> fst ` set es \<Longrightarrow> AList.update k v es = es @ [(k, v)]"
  by (induction es) auto

lemma val_dict_ok: "dict_ok val_pack"
proof -
  have "\<exists>d'. dict_insert val_pack d k v = Some d' \<and> dict_entries val_pack d' = Some (es @ [(k, v)])"
    if "dict_entries val_pack d = Some es" "val_string k \<notin> val_string ` fst ` set es" for d es k v
  proof -
    have "k \<notin> fst ` set es" using that(2) by auto
    then show ?thesis using that(1) by (auto simp: val_pack_defs update_absent split: val.splits)
  qed
  moreover have "tcl_ok val_pack" using val_tcl_ok by (simp add: tcl_ok_def val_pack_defs)
  ultimately show ?thesis by (simp add: dict_ok_def) (simp add: val_pack_defs)
qed

lemma entry_val:
  "entry val_pack t bs = nat_bytes 8 (length bs) @ replicate ((if t \<in> {TYPE_CONTAINER, TYPE_MULTISET} then 9 else 8) - 8) NUL @ bs"
  by (simp add: entry_def sized_def)

lemma sized_val: "sized val_pack bs = nat_bytes 8 (length bs) @ replicate (8 - 8) NUL @ bs"
  by (simp add: sized_def)

lemma val_unpack_ok: "unpack_ok val_pack val_format"
proof -
  have p: "(256 :: nat) ^ 8 = 2 ^ 64" by simp
  have get: "get_sized 8 (pre @ sized val_pack bs @ rest) (length pre) = (bs, length (pre @ sized val_pack bs))"
    "get_sized (if t \<in> {TYPE_CONTAINER, TYPE_MULTISET} then 9 else 8) (pre @ entry val_pack t bs @ rest) (length pre) =
      (bs, length (pre @ entry val_pack t bs))" if "small bs" for pre bs rest t
    using get_sized [of bs 8 pre NUL rest] get_sized [of bs 9 pre NUL rest] that
    by (simp_all add: sized_val entry_val small_def)
  have "unpack_container_entry val_pack kt vt (pre @ sized val_pack key @ entry val_pack vt val @ rest) (length pre) =
      Some (key, val, length (pre @ sized val_pack key @ entry val_pack vt val))"
    if "small key" "small val" for kt vt pre key val rest
  proof -
    have "get_sized 8 (pre @ sized val_pack key @ entry val_pack vt val @ rest) (length pre) =
        (key, length (pre @ sized val_pack key))" using get(1) [OF that(1)] by simp
    moreover have "get_sized (if vt \<in> {TYPE_CONTAINER, TYPE_MULTISET} then 9 else 8)
        (pre @ sized val_pack key @ entry val_pack vt val @ rest) (length (pre @ sized val_pack key)) =
        (val, length (pre @ sized val_pack key @ entry val_pack vt val))"
      using get(2) [OF that(2), of vt "pre @ sized val_pack key" rest] by simp
    moreover have "\<not> length (pre @ sized val_pack key @ entry val_pack vt val @ rest) < length pre + 8"
      by (simp add: sized_def)
    ultimately show ?thesis by (simp add: val_pack_def type_api.extend_def split del: if_split)
  qed
  moreover have "unpack_multiset_entry val_pack vt (pre @ entry val_pack vt val @ rest) (length pre) =
      Some (val, length (pre @ entry val_pack vt val))" if "small val" for vt pre val rest
  proof -
    have "\<not> length (pre @ entry val_pack vt val @ rest) < length pre + 8" by (simp add: entry_val)
    then show ?thesis
      using get(2) [OF that, of vt pre rest] by (simp add: val_pack_def type_api.extend_def split del: if_split)
  qed
  ultimately show ?thesis
    by (simp add: unpack_ok_def) (simp add: val_pack_def type_api.extend_def val_format_def un_unary nth_append)
qed

lemma val_pack_ok: "pack_ok val_pack val_format"
proof -
  have "append_ok val_pack val_format"
    by (auto simp: append_ok_def sized_def) (auto simp: val_pack_def type_api.extend_def val_format_def appends_out_append)
  moreover have "scalars_ok val_pack"
    using un_unary [of _ "[]"] by (simp add: scalars_ok_def val_pack_def type_api.extend_def)
  ultimately show ?thesis using val_unpack_ok by (simp add: pack_ok_def)
qed

definition sample_types :: compound_type where
  "sample_types = [(TYPE_CONTAINER, Extra_None), (TYPE_STRING, Extra_None), (TYPE_MULTISET, Extra_None),
     (TYPE_INTEGER, Extra_None)]"

definition sample_dict :: val where
  "sample_dict = V_dict [(V_str ''k'', V_list [V_int 5, V_int (- 2)])]"

definition empty_heap :: heap where "empty_heap = \<lparr>h_blocks = Map.empty, h_next = 1\<rparr>"

lemma val_pack_calls [simp]:
  "init_buf val_pack cb n = Some ([], False)"
  "resize_out val_pack data c n = Some (data @ replicate n NUL, False)"
  "append_buffer val_pack t bs prefix out = Some (out_append (if prefix then nat_bytes 8 (length bs) @ bs else bs) out)"
  "pack_container_hdr val_pack k kt vt out = Some (out_append (unary k @ [type_char kt, type_char vt]) out)"
  "pack_multiset_hdr val_pack k vt out = Some (out_append (unary k @ [type_char vt]) out)"
  "adlb_pack val_pack (S_Int i) TYPE_INTEGER = Some (unary i)"
  by (simp_all add: val_pack_def type_api.extend_def)

lemma out_ok_append [simp]: "out_ok out \<Longrightarrow> out_ok (out_append bs out)"
  by (simp add: out_ok_def out_append_def)

lemma val_compound_packs:
  assumes out: "out_ok out" and inner: "\<And>o1. out_ok o1 \<Longrightarrow> \<exists>o2. inner o1 = Inr o2 \<and> out_ok o2 \<and> ob_pos o1 \<le> ob_pos o2"
  shows "\<exists>out'. tcl_check (reserve val_pack prefix out) (\<lambda>o1. tcl_check (inner o1) (\<lambda>o2.
      if prefix then write_at (ob_pos out) (nat_bytes 8 (ob_pos o2 - ob_pos out - 9)) o2 else Inr o2)) = Inr out' \<and>
    out_ok out' \<and> ob_pos out \<le> ob_pos out'"
proof (cases prefix)
  case False
  with inner [OF out] show ?thesis by auto
next
  case True
  obtain o1 where o1: "reserve val_pack True out = Inr o1" "out_ok o1" "ob_pos o1 = ob_pos out + 9"
    using out by (auto simp: write_at_def out_ok_def c_defined_def)
  from inner [OF o1(2)] obtain o2 where o2: "inner o1 = Inr o2" "out_ok o2" "ob_pos o1 \<le> ob_pos o2" by blast
  with True o1 show ?thesis by (auto simp: write_at_def out_ok_def c_defined_def)
qed

lemma sample_types_nth [simp]:
  "length sample_types = 4" "fst (sample_types ! 0) = TYPE_CONTAINER" "fst (sample_types ! Suc 0) = TYPE_STRING"
  "fst (sample_types ! 2) = TYPE_MULTISET" "fst (sample_types ! 3) = TYPE_INTEGER"
  by (simp_all add: sample_types_def)

lemma sample_packs:
  "\<exists>bytes. adlb_tclobj2bin_compound val_pack empty_heap 0 sample_types sample_dict False None = Inr bytes"
proof -
  let ?app = "adlb_tclobj_bin_append val_pack empty_heap 0 sample_types False"
  have int: "?app 3 (V_int i) True out = Inr (out_append (nat_bytes 8 (length (unary i)) @ unary i) out)" for i out
    by (subst adlb_tclobj_bin_append.simps)
      (simp add: compound_type_next_def adlb_tclobj2datum.simps)
  have elems: "\<exists>out'. ?app 2 (V_list [V_int i, V_int j]) True out = Inr out' \<and> out_ok out' \<and> ob_pos out \<le> ob_pos out'"
    if out: "out_ok out" for i j out
  proof -
    have "\<exists>o2. tcl_list_to_packed_multiset val_pack (\<lambda>p v out. ?app p v True out) sample_types 3
        (V_list [V_int i, V_int j]) False o1 = Inr o2 \<and> out_ok o2 \<and> ob_pos o1 \<le> ob_pos o2" if "out_ok o1" for o1
      using that by (simp add: tcl_list_to_packed_multiset_def compound_type_next_def int)
        (simp add: out_append_def)
    from val_compound_packs [OF out this, of True] show ?thesis
      by (simp add: bin_append_compound(2) numeral_3_eq_3 [symmetric])
  qed
  have "\<exists>o2. tcl_dict_to_packed_container val_pack (\<lambda>p v out. ?app p v True out) sample_types 1
      sample_dict False o1 = Inr o2 \<and> out_ok o2 \<and> ob_pos o1 \<le> ob_pos o2" if "out_ok o1" for o1
  proof -
    let ?o = "out_append (nat_bytes 8 2 @ ''k'' @ [NUL]) (out_append (unary 1 @ [type_char TYPE_STRING, type_char TYPE_MULTISET]) o1)"
    from that have "out_ok ?o" by simp
    from elems [OF this, of 5 "- 2"] obtain o2 where
      "?app 2 (V_list [V_int 5, V_int (- 2)]) True ?o = Inr o2" "out_ok o2" "ob_pos ?o \<le> ob_pos o2" by blast
    moreover from this(3) have "ob_pos o1 \<le> ob_pos o2" by (simp add: out_append_def)
    ultimately show ?thesis
      by (simp add: tcl_dict_to_packed_container_def compound_type_next_def sample_dict_def
          tcl_append_key_val_def numeral_2_eq_2 [symmetric] numeral_3_eq_3 [symmetric])
  qed
  from val_compound_packs [OF _ this, of "\<lparr>ob_data = [], ob_caller = False, ob_pos = 0\<rparr>" False] show ?thesis
    by (auto simp: adlb_tclobj2bin_compound_def bin_append_compound(1) out_ok_def)
qed

lemma sample_value:
  "rep val_pack (A_Dict [(''k'', A_List [A_Int 5, A_Int (- 2)])]) sample_dict"
  "typed val_pack sample_types 0 (A_Dict [(''k'', A_List [A_Int 5, A_Int (- 2)])])"
  "int (length (format_value val_pack val_format sample_types 0 (A_Dict [(''k'', A_List [A_Int 5, A_Int (- 2)])]))) \<le>
    data_max val_pack"
proof -
  show "rep val_pack (A_Dict [(''k'', A_List [A_Int 5, A_Int (- 2)])]) sample_dict"
    by (simp add: sample_dict_def LONG_MIN_def LONG_MAX_def)
  show "typed val_pack sample_types 0 (A_Dict [(''k'', A_List [A_Int 5, A_Int (- 2)])])"
    by (simp add: sample_types_def numeral_2_eq_2)
  show "int (length (format_value val_pack val_format sample_types 0 (A_Dict [(''k'', A_List [A_Int 5, A_Int (- 2)])]))) \<le>
      data_max val_pack"
    by (simp add: sample_types_def entry_val sized_def val_format_def unary_def)
qed

end
