(* ===== verification/Serialize_Canonical.thy ===== *)
theory Serialize_Canonical
  imports Serialize_Correct "HOL-Library.Multiset"
begin

text \<open>
  Two further sides of serialisation. With \<^verbatim>\<open>canonicalize\<close> set, as for the keys of checkpoints,
  the bytes of a container or a multiset of strings do not depend on the order in which
  its dictionary or list was built; those of a multiset of other elements may. And what happens with data that cannot be packed or unpacked.
\<close>

section \<open>Canonical packing\<close>

text \<open>What is relied on in Tcl's \<^verbatim>\<open>lsort\<close> and \<^verbatim>\<open>Tcl_DictObjGet\<close>.\<close>

definition sort_ok :: "('obj, 'f, 'z) tcl_api_scheme \<Rightarrow> bool" where
  "sort_ok A \<longleftrightarrow>
     (\<forall>ks ks'. eval_lsort A ks = Some ks' \<longrightarrow> mset ks' = mset ks \<and> sorted (map (tcl_string A) ks')) \<and>
     (\<forall>d es k v. dict_entries A d = Some es \<longrightarrow> distinct (map (\<lambda>e. tcl_string A (fst e)) es) \<longrightarrow>
        (k, v) \<in> set es \<longrightarrow> dict_find A d k = Some (Some v))"

text \<open>
  The canonical form of a value: the entries of every container in the order of their keys,
  and the elements of every multiset in the order of their texts. The latter makes sense
  where the elements are strings: \<^verbatim>\<open>lsort\<close> sees the text of an object, and only for a string
  is this determined by the value.
\<close>

fun text_of :: "'f aval \<Rightarrow> string" where
  "text_of (A_Str s) = s"
| "text_of _ = []"

fun canon :: "'f aval \<Rightarrow> 'f aval" where
  "canon (A_Dict kvs) = A_Dict (sort_key fst (map (\<lambda>kv. (fst kv, canon (snd kv))) kvs))"
| "canon (A_List vs) = A_List (sort_key text_of vs)"
| "canon v = v"

fun is_str :: "'f aval \<Rightarrow> bool" where
  "is_str (A_Str s) \<longleftrightarrow> True"
| "is_str _ \<longleftrightarrow> False"

fun string_lists :: "'f aval \<Rightarrow> bool" where
  "string_lists (A_Dict kvs) \<longleftrightarrow> (\<forall>kv \<in> set kvs. string_lists (snd kv))"
| "string_lists (A_List vs) \<longleftrightarrow> (\<forall>v \<in> set vs. is_str v)"
| "string_lists _ \<longleftrightarrow> True"

lemma map_sort_key: "map f (sort_key f xs) = sort (map f xs)"
  by (metis mset_map mset_sort properties_for_sort sorted_sort_key)

lemma canon_scalar: "scalar v \<Longrightarrow> canon v = v"
  by (cases v) (simp_all add: scalar_def)

lemma typed_fst: "typed A types pos v \<Longrightarrow> pos < length types"
  by (cases v) auto

lemma scalar_append_canon:
  assumes P: "pack_ok A F" and v: "rep A v obj" "typed A types pos v" "scalar v" and out: "out_ok out"
    and small: "small (format_value A F types pos (canon v))"
    and run: "adlb_tclobj_bin_append A h fuel types True pos obj prefix out = Inr out'"
  shows "appends out (if prefix then entry A (fst (types ! pos)) (format_value A F types pos (canon v))
    else format_value A F types pos (canon v)) out'"
proof -
  have "\<not> pack_pad_size A (fst (types ! pos))" "pos < length types"
    using P v(2,3) by (cases v; simp add: scalar_def pack_ok_def)+
  then have "adlb_tclobj_bin_append A h fuel types False pos obj prefix out = Inr out'"
    using run by (subst adlb_tclobj_bin_append.simps, subst (asm) adlb_tclobj_bin_append.simps)
      (simp add: compound_type_next_def)
  with scalar_append [OF P v out _ this] small show ?thesis unfolding canon_scalar [OF v(3)] by blast
qed

text \<open>Canonical packing appends the format of the canonical form.\<close>

text \<open>The sorted keys name the entries of the value in the order of its canonical form.\<close>

lemma sorted_dict_keys:
  assumes S: "sort_ok A" and ks: "eval_lsort A (map fst es) = Some ks"
    and keys: "map (\<lambda>e. tcl_string A (fst e)) es = map fst kvs"
  shows "list_all2 (\<lambda>kv k. tcl_string A k = fst kv \<and> k \<in> fst ` set es)
    (sort_key fst (map (\<lambda>kv. (fst kv, f (snd kv))) kvs)) ks"
proof -
  have mset: "mset ks = mset (map fst es)" and sorted: "sorted (map (tcl_string A) ks)"
    using S ks unfolding sort_ok_def by blast+
  have "mset (map (tcl_string A) ks) = mset (map (tcl_string A) (map fst es))"
    using mset by (simp only: mset_map)
  also have "map (tcl_string A) (map fst es) = map fst kvs" using keys by (simp add: comp_def)
  finally have perm: "mset (map (tcl_string A) ks) = mset (map fst kvs)" .
  have "map fst (sort_key fst (map (\<lambda>kv. (fst kv, f (snd kv))) kvs)) = sort (map fst kvs)"
    by (simp add: map_sort_key comp_def)
  also have "\<dots> = map (tcl_string A) ks" by (rule properties_for_sort [OF perm sorted])
  finally show ?thesis
    using mset_eq_setD [OF mset]
    by (simp add: list_all2_conv_all_nth list_eq_iff_nth_eq) (metis list.set_map nth_mem set_mset_mset)
qed

lemma dict_find_member:
  assumes S: "sort_ok A" and es: "dict_entries A obj = Some es"
      "list_all2 (\<lambda>kv e. tcl_string A (fst e) = fst kv \<and> rep A (snd kv) (snd e)) kvs es"
    and d: "distinct (map fst kvs)" and kv: "kv \<in> set kvs" "tcl_string A k = fst kv" "k \<in> fst ` set es"
  obtains x where "dict_find A obj k = Some (Some x)" "rep A (snd kv) x"
proof -
  have keys: "map (\<lambda>e. tcl_string A (fst e)) es = map fst kvs"
    using es(2) by (auto simp: list_all2_conv_all_nth intro: nth_equalityI)
  from kv(3) obtain x where x: "(k, x) \<in> set es" by auto
  then obtain i where i: "i < length es" "es ! i = (k, x)" by (metis in_set_conv_nth)
  have len: "length kvs = length es" using list_all2_lengthD [OF es(2)] .
  have "rep A (snd (kvs ! i)) x" "fst (kvs ! i) = tcl_string A k" "kvs ! i \<in> set kvs"
    using list_all2_nthD2 [OF es(2) i(1)] i len by auto
  moreover have "inj_on fst (set kvs)" using d by (simp add: distinct_map)
  then have "kvs ! i = kv"
    by (rule inj_onD) (use calculation(2,3) kv in simp_all)
  ultimately have "rep A (snd kv) x" by simp
  moreover have "dict_find A obj k = Some (Some x)"
    using S es(1) x d unfolding sort_ok_def keys [symmetric] by blast
  ultimately show thesis by (rule that [rotated])
qed

text \<open>The dictionary case of the next lemma, with its induction hypothesis for the members.\<close>

lemma bin_append_canon_dict:
  assumes P: "pack_ok A F" and S: "sort_ok A"
    and IH: "\<And>kv obj pos out prefix out'. kv \<in> set kvs \<Longrightarrow> rep A (snd kv) obj \<Longrightarrow> typed A types pos (snd kv) \<Longrightarrow>
      string_lists (snd kv) \<Longrightarrow> out_ok out \<Longrightarrow> small (format_value A F types pos (canon (snd kv))) \<Longrightarrow>
      adlb_tclobj_bin_append A h fuel types True pos obj prefix out = Inr out' \<Longrightarrow>
      appends out (if prefix then entry A (fst (types ! pos)) (format_value A F types pos (canon (snd kv)))
        else format_value A F types pos (canon (snd kv))) out'"
    and prems: "rep A (A_Dict kvs) obj" "typed A types pos (A_Dict kvs)" "string_lists (A_Dict kvs)" "out_ok out"
      "small (format_value A F types pos (canon (A_Dict kvs)))"
      "adlb_tclobj_bin_append A h fuel types True pos obj prefix out = Inr out'"
  shows "appends out (if prefix then entry A (fst (types ! pos)) (format_value A F types pos (canon (A_Dict kvs)))
      else format_value A F types pos (canon (A_Dict kvs))) out'"
proof -
  let ?app = "\<lambda>p v out. adlb_tclobj_bin_append A h fuel types True p v True out"
  let ?kt = "fst (types ! (pos + 1))" and ?vt = "fst (types ! (pos + 2))"
  let ?kvs = "sort_key fst (map (\<lambda>kv. (fst kv, canon (snd kv))) kvs)"
  have F: "append_ok A F" using P by (simp add: pack_ok_def)
  have ty: "pos + 2 < length types" "fst (types ! pos) = TYPE_CONTAINER" "\<not> pack_pad_size A ?kt"
    "pack_pad_size A TYPE_CONTAINER" "distinct (map fst kvs)"
    using prems(2) P by (auto simp: pack_ok_def)
  from prems(1) obtain es where es: "dict_entries A obj = Some es"
    "list_all2 (\<lambda>kv e. tcl_string A (fst e) = fst kv \<and> rep A (snd kv) (snd e)) kvs es"
    by (auto split: option.splits)
  have keys: "map (\<lambda>e. tcl_string A (fst e)) es = map fst kvs"
    using es(2) by (auto simp: list_all2_conv_all_nth intro: nth_equalityI)
  have inner: "appends o1 (format_value A F types pos (canon (A_Dict kvs))) o2"
    if o1: "out_ok o1" and run: "tcl_dict_to_packed_container A ?app types (pos + 1) obj True o1 = Inr o2" for o1 o2
  proof -
    from run es(1) ty(1) obtain hd ks where
      hd: "pack_container_hdr A (int (length es)) ?kt ?vt o1 = Some hd" and
      ks: "eval_lsort A (map fst es) = Some ks" and
      fold: "fold_res (\<lambda>key out. tcl_check (tcl_get (dict_find A obj key))
        (case_option (Inl Undefined) (\<lambda>v. tcl_append_key_val A ?app (pos + 3) ?kt key v out))) ks hd = Inr o2"
      by (auto simp: tcl_dict_to_packed_container_def compound_type_next_def res_Inr_convs numeral_3_eq_3
          numeral_2_eq_2)
    note order = sorted_dict_keys [OF S ks keys, of canon]
    have "appends o1 (f_container F (int (length es)) ?kt ?vt) hd"
      using append_okD(2) [OF F _ o1 hd] by simp
    moreover have "appends hd (concat (map (\<lambda>kv. sized A (fst kv @ [NUL]) @
        entry A ?vt (format_value A F types (pos + 2) (snd kv))) ?kvs)) o2"
    proof (rule list_all2_fold [OF order _ appends_ok [OF calculation] fold])
      fix kv k out out'
      assume kv: "kv \<in> set ?kvs" "tcl_string A k = fst kv \<and> k \<in> fst ` set es" and out: "out_ok out"
        and step: "tcl_check (tcl_get (dict_find A obj k))
          (case_option (Inl Undefined) (\<lambda>v. tcl_append_key_val A ?app (pos + 3) ?kt k v out)) = Inr out'"
      from kv(1) obtain kv0 where kv0: "kv0 \<in> set kvs" "kv = (fst kv0, canon (snd kv0))" by auto
      obtain x where find: "dict_find A obj k = Some (Some x)" and r: "rep A (snd kv0) x"
        by (rule dict_find_member [OF S es ty(5) kv0(1), of k]) (use kv(2) kv0(2) in simp_all)
      note IH = IH [OF kv0(1) r, of "pos + 2" _ True]
      have ty': "typed A types (pos + 2) (snd kv0)" "string_lists (snd kv0)" using prems(2,3) kv0(1) by auto
      have "small (format_value A F types pos (A_Dict ?kvs))" using prems(5) by simp
      note le = format_entry_small [OF this kv(1)]
      have "appends out (sized A (tcl_string A k @ [NUL]) @
          entry A ?vt (format_value A F types (pos + 2) (snd kv))) out'"
        by (rule append_key_val [OF P ty(3) out, of k ?app "pos + 3" x])
          (use step IH kv(2) ty' le kv0(2) find in \<open>auto split: prod.splits\<close>)
      with kv(2) show "appends out (sized A (fst kv @ [NUL]) @
          entry A ?vt (format_value A F types (pos + 2) (snd kv))) out'" by simp
    qed
    ultimately show ?thesis
      using list_all2_lengthD [OF es(2)] by (auto dest: appends_trans)
  qed
  show ?thesis
    unfolding ty(2)
    by (rule appends_sized_entry [OF F ty(4) prems(4,5) _ inner])
      (use prems(6) bin_append_compound(1) [of pos types A] ty in simp_all)
qed

lemma is_str_rep: "is_str v \<Longrightarrow> rep A v k \<longleftrightarrow> tcl_string A k = text_of v"
  by (cases v) simp_all

lemma is_str_scalar: "is_str v \<Longrightarrow> scalar v \<and> canon v = v"
  by (cases v) (simp_all add: scalar_def)

text \<open>The sorted elements of a multiset of strings are those of its canonical form.\<close>

lemma sorted_list_elems:
  assumes S: "sort_ok A" and ks: "eval_lsort A xs = Some ks"
    and vs: "list_all2 (rep A) vs xs" "\<forall>v \<in> set vs. is_str v"
  shows "list_all2 (\<lambda>v k. v \<in> set vs \<and> rep A v k) (sort_key text_of vs) ks"
proof -
  have mset: "mset ks = mset xs" and sorted: "sorted (map (tcl_string A) ks)"
    using S ks unfolding sort_ok_def by blast+
  have "map (tcl_string A) xs = map text_of vs"
    using vs by (induction rule: list_all2_induct) (auto simp: is_str_rep)
  then have perm: "mset (map (tcl_string A) ks) = mset (map text_of vs)" using mset by (metis mset_map)
  have "map text_of (sort_key text_of vs) = map (tcl_string A) ks"
    unfolding map_sort_key by (rule properties_for_sort [OF perm sorted])
  moreover from this have "length (sort_key text_of vs) = length ks" by (rule map_eq_imp_length_eq)
  moreover have "rep A v k" if "v \<in> set vs" "text_of v = tcl_string A k" for v k
    using vs(2) that is_str_rep by metis
  ultimately show ?thesis
    unfolding list_all2_conv_all_nth by (metis nth_map nth_mem set_sort)
qed

lemma bin_append_canon_list:
  assumes P: "pack_ok A F" and S: "sort_ok A"
    and prems: "rep A (A_List vs) obj" "typed A types pos (A_List vs)" "string_lists (A_List vs)" "out_ok out"
      "small (format_value A F types pos (canon (A_List vs)))"
      "adlb_tclobj_bin_append A h fuel types True pos obj prefix out = Inr out'"
  shows "appends out (if prefix then entry A (fst (types ! pos)) (format_value A F types pos (canon (A_List vs)))
      else format_value A F types pos (canon (A_List vs))) out'"
proof -
  let ?app = "\<lambda>p v out. adlb_tclobj_bin_append A h fuel types True p v True out"
  let ?vt = "fst (types ! (pos + 1))" and ?vs = "sort_key text_of vs"
  have F: "append_ok A F" using P by (simp add: pack_ok_def)
  have ty: "pos + 1 < length types" "fst (types ! pos) = TYPE_MULTISET" "pack_pad_size A TYPE_MULTISET"
    using prems(2) P by (auto simp: pack_ok_def)
  from prems(1) obtain xs where xs: "tcl_list A obj = Some xs" "list_all2 (rep A) vs xs"
    by (auto split: option.splits)
  have inner: "appends o1 (format_value A F types pos (canon (A_List vs))) o2"
    if o1: "out_ok o1" and run: "tcl_list_to_packed_multiset A ?app types (pos + 1) obj True o1 = Inr o2" for o1 o2
  proof -
    from run xs(1) ty(1) obtain hd ks where
      ks: "eval_lsort A xs = Some ks" and
      hd: "pack_multiset_hdr A (int (length ks)) ?vt o1 = Some hd" and
      fold: "fold_res (\<lambda>elem out. ?app (pos + 1) elem out) ks hd = Inr o2"
      by (auto simp: tcl_list_to_packed_multiset_def compound_type_next_def res_Inr_convs)
    have order: "list_all2 (\<lambda>v k. v \<in> set vs \<and> rep A v k) ?vs ks"
      by (rule sorted_list_elems [OF S ks xs(2)]) (use prems(3) in simp)
    have "appends o1 (f_multiset F (int (length ks)) ?vt) hd" using append_okD(3) [OF F _ o1 hd] by simp
    moreover have "appends hd (concat (map (\<lambda>v. entry A ?vt (format_value A F types (pos + 1) v)) ?vs)) o2"
    proof (rule list_all2_fold [OF order _ appends_ok [OF calculation] fold])
      fix v x out out'
      assume v: "v \<in> set ?vs" "v \<in> set vs \<and> rep A v x" and out: "out_ok out" and step: "?app (pos + 1) x out = Inr out'"
      have ty': "typed A types (pos + 1) v" and "scalar v" "canon v = v" using prems(2,3) v(2) is_str_scalar by auto
      with scalar_append_canon [OF P conjunct2 [OF v(2)] ty' _ out _ step] format_elem_small [of A F types pos ?vs v] prems(5) v(1)
      show "appends out (entry A ?vt (format_value A F types (pos + 1) v)) out'" by simp
    qed
    ultimately show ?thesis
      using list_all2_lengthD [OF order] by (auto dest: appends_trans)
  qed
  show ?thesis
    unfolding ty(2)
    by (rule appends_sized_entry [OF F ty(3) prems(4,5) _ inner])
      (use prems(6) bin_append_compound(2) [of pos types A] ty in simp_all)
qed

lemma bin_append_canon:
  assumes P: "pack_ok A F" and S: "sort_ok A"
  shows "rep A v obj \<Longrightarrow> typed A types pos v \<Longrightarrow> string_lists v \<Longrightarrow> out_ok out \<Longrightarrow>
    small (format_value A F types pos (canon v)) \<Longrightarrow>
    adlb_tclobj_bin_append A h fuel types True pos obj prefix out = Inr out' \<Longrightarrow>
    appends out (if prefix then entry A (fst (types ! pos)) (format_value A F types pos (canon v))
      else format_value A F types pos (canon v)) out'"
proof (induction v arbitrary: pos obj out prefix out')
  case (A_Dict kvs)
  show ?case
    by (rule bin_append_canon_dict [OF P S _ A_Dict.prems])
      (rule A_Dict.IH, assumption, auto simp: snds.simps prod_eq_iff)
next
  case (A_List vs)
  show ?case by (rule bin_append_canon_list [OF P S A_List.prems])
qed (rule scalar_append_canon [OF P], assumption, assumption, simp add: scalar_def, assumption, assumption, assumption)+

lemma packs_canon:
  assumes P: "pack_ok A F" and S: "sort_ok A"
    and v: "rep A v obj" "typed A types 0 v" "string_lists v" "small (format_value A F types 0 (canon v))"
    and packed: "adlb_tclobj2bin_compound A h fuel types obj True buf = Inr bytes"
  shows "bytes = format_value A F types 0 (canon v)"
proof -
  from packed obtain data caller out where
    run: "adlb_tclobj_bin_append A h fuel types True 0 obj False
      \<lparr>ob_data = data, ob_caller = caller, ob_pos = 0\<rparr> = Inr out" and
    bytes: "bytes = take (ob_pos out) (ob_data out)"
    by (auto simp: adlb_tclobj2bin_compound_def res_Inr_convs)
  have "appends \<lparr>ob_data = data, ob_caller = caller, ob_pos = 0\<rparr> (format_value A F types 0 (canon v)) out"
    using bin_append_canon [OF P S v(1-3) _ v(4) run] by (simp add: out_ok_def)
  then have "take (ob_pos out) (ob_data out) = take 0 data @ format_value A F types 0 (canon v)"
    unfolding appends_def outbuf.simps by (elim conjE)
  then show ?thesis by (simp add: bytes)
qed

text \<open>
  C32: For values of integers, references, floats and strings, dictionaries of them nested to
  any depth, and multisets of strings, the bytes of a canonically packed container depend
  only on which entries the dictionaries and which elements the multisets hold, not on the
  order in which these were inserted: two objects whose values have the same canonical form
  pack to the same bytes. A checkpoint is found again under a key that was built in another
  order. Multisets of anything but strings are excluded, and have to be: see the lemma
  \<^verbatim>\<open>multiset_of_integers_not_canonical\<close> below.
\<close>

theorem canonical_packing:
  assumes P: "pack_ok A F" and S: "sort_ok A"
    and v: "rep A v obj" "typed A types 0 v" "string_lists v"
    and w: "rep A w obj'" "typed A types 0 w" "string_lists w"
    and eq: "canon v = canon w" and small: "int (length (format_value A F types 0 (canon v))) < 2 ^ 64"
    and packed: "adlb_tclobj2bin_compound A h fuel types obj True buf = Inr bytes"
      "adlb_tclobj2bin_compound A h' fuel' types obj' True buf' = Inr bytes'"
  shows "bytes = bytes'"
proof -
  have sm: "small (format_value A F types 0 (canon v))" using small by (simp add: small_def)
  have "bytes = format_value A F types 0 (canon v)"
    using packs_canon [OF P S v sm packed(1)] .
  moreover have "bytes' = format_value A F types 0 (canon w)"
    using packs_canon [OF P S w _ packed(2)] sm eq by simp
  ultimately show ?thesis using eq by simp
qed

definition flat_types :: compound_type where
  "flat_types = [(TYPE_CONTAINER, Extra_None), (TYPE_STRING, Extra_None), (TYPE_INTEGER, Extra_None)]"

lemma flat_types_nth [simp]:
  "length flat_types = 3" "fst (flat_types ! 0) = TYPE_CONTAINER" "fst (flat_types ! Suc 0) = TYPE_STRING"
  "fst (flat_types ! 2) = TYPE_INTEGER" "fst (flat_types ! Suc (Suc 0)) = TYPE_INTEGER"
  by (simp_all add: flat_types_def)

lemma val_sort_ok: "sort_ok val_pack"
proof -
  have "map_of d k = Some v" if "distinct (map (\<lambda>e. val_string (fst e)) d)" "(k, v) \<in> set d" for d k and v :: val
  proof -
    have "distinct (map fst d)" using that(1) by (auto simp: distinct_map inj_on_def)
    with that(2) show ?thesis by simp
  qed
  then show ?thesis
    by (auto simp: sort_ok_def val_pack_defs mset_sort sorted_sort_key split: val.splits)
qed

text \<open>Two dictionaries with the same entries and the same multisets in different order.\<close>

definition bag_types :: compound_type where
  "bag_types = [(TYPE_CONTAINER, Extra_None), (TYPE_STRING, Extra_None), (TYPE_MULTISET, Extra_None),
     (TYPE_STRING, Extra_None)]"

lemma bag_types_nth [simp]:
  "length bag_types = 4" "fst (bag_types ! 0) = TYPE_CONTAINER" "fst (bag_types ! Suc 0) = TYPE_STRING"
  "fst (bag_types ! 2) = TYPE_MULTISET" "fst (bag_types ! 3) = TYPE_STRING"
  by (simp_all add: bag_types_def)

lemma val_pack_string: "adlb_pack val_pack (S_String s) t = Some s"
  by (simp add: val_pack_defs)

lemma bag_packs:
  assumes "kvs = [(V_str ''a'', V_list [V_str x, V_str y]), (V_str ''b'', V_list [V_str z, V_str z])] \<or>
    kvs = [(V_str ''b'', V_list [V_str z, V_str z]), (V_str ''a'', V_list [V_str x, V_str y])]"
    and short: "length x < 1000" "length y < 1000" "length z < 1000"
  shows "\<exists>bytes. adlb_tclobj2bin_compound val_pack empty_heap 0 bag_types (V_dict kvs) True None = Inr bytes"
proof -
  let ?app = "adlb_tclobj_bin_append val_pack empty_heap 0 bag_types True"
  have sel: "eval_lsort val_pack vs = Some (sort_key val_string vs)"
    "dict_find val_pack (V_dict d) k = Some (map_of d k)" for vs d k
    by (simp_all add: val_pack_defs)
  have str: "\<exists>out'. ?app 3 (V_str s) True out = Inr out' \<and> out_ok out' \<and> ob_pos out \<le> ob_pos out'"
    if "out_ok out" "length s < 1000" for s out
    using that by (subst adlb_tclobj_bin_append.simps)
      (simp add: compound_type_next_def adlb_tclobj2datum.simps val_pack_string tcl_condition_def, simp add: out_append_def)
  have two: "\<exists>o2. tcl_list_to_packed_multiset val_pack (\<lambda>p v out. ?app p v True out) bag_types 3
      (V_list [V_str s, V_str t]) True o1 = Inr o2 \<and> out_ok o2 \<and> ob_pos o1 \<le> ob_pos o2" if o1: "out_ok o1" "length s < 1000" "length t < 1000" for s t o1
  proof -
    let ?o = "out_append (unary 2 @ [type_char TYPE_STRING]) o1"
    have o: "out_ok ?o" "ob_pos o1 \<le> ob_pos ?o" using o1(1) by simp_all (simp add: out_append_def)
    let ?p = "if t < s then t else s" and ?q = "if t < s then s else t"
    have l: "length ?p < 1000" "length ?q < 1000" using o1(2,3) by simp_all
    obtain o2 where o2: "?app 3 (V_str ?p) True ?o = Inr o2" "out_ok o2" "ob_pos ?o \<le> ob_pos o2"
      using str [OF o(1) l(1)] by blast
    obtain o3 where o3: "?app 3 (V_str ?q) True o2 = Inr o3" "out_ok o3" "ob_pos o2 \<le> ob_pos o3"
      using str [OF o2(2) l(2)] by blast
    have "sort_key val_string [V_str s, V_str t] = [V_str ?p, V_str ?q]" by auto
    with o(2) o2 o3 show ?thesis
      by (simp add: tcl_list_to_packed_multiset_def compound_type_next_def sel del: sort_key_simps if_split)
  qed
  have elems: "\<exists>out'. ?app 2 (V_list [V_str s, V_str t]) True out = Inr out' \<and> out_ok out' \<and> ob_pos out \<le> ob_pos out'"
    if "out_ok out" "length s < 1000" "length t < 1000" for s t out
    using val_compound_packs [OF that(1) two [OF _ that(2,3)], of True] by (simp add: bin_append_compound(2) numeral_3_eq_3 [symmetric])
  have "\<exists>o2. tcl_dict_to_packed_container val_pack (\<lambda>p v out. ?app p v True out) bag_types 1
      (V_dict kvs) True o1 = Inr o2 \<and> out_ok o2 \<and> ob_pos o1 \<le> ob_pos o2" if o1: "out_ok o1" for o1
  proof -
    let ?a = "\<lambda>k out. out_append (nat_bytes 8 2 @ [k, NUL]) out"
    let ?o = "?a (CHR ''a'') (out_append (unary 2 @ [type_char TYPE_STRING, type_char TYPE_MULTISET]) o1)"
    have o: "out_ok ?o" "ob_pos o1 \<le> ob_pos ?o" using o1 by simp_all (simp add: out_append_def)
    obtain o2 where o2: "?app 2 (V_list [V_str x, V_str y]) True ?o = Inr o2" "out_ok o2" "ob_pos ?o \<le> ob_pos o2"
      using elems [OF o(1) short(1,2)] by blast
    then have b: "out_ok (?a (CHR ''b'') o2)" "ob_pos o2 \<le> ob_pos (?a (CHR ''b'') o2)" by simp_all (simp add: out_append_def)
    obtain o3 where "?app 2 (V_list [V_str z, V_str z]) True (?a (CHR ''b'') o2) = Inr o3" "out_ok o3" "ob_pos (?a (CHR ''b'') o2) \<le> ob_pos o3"
      using elems [OF b(1) short(3,3)] by blast
    with o2 o(2) b(2) assms(1) show ?thesis
      by (auto simp: tcl_dict_to_packed_container_def compound_type_next_def sel
          tcl_append_key_val_def numeral_2_eq_2 [symmetric] numeral_3_eq_3 [symmetric])
  qed
  from val_compound_packs [OF _ this, of "\<lparr>ob_data = [], ob_caller = False, ob_pos = 0\<rparr>" False] show ?thesis
    by (auto simp: adlb_tclobj2bin_compound_def bin_append_compound(1) out_ok_def)
qed

lemma canonical_packing_witness:
  "\<exists>bytes. adlb_tclobj2bin_compound val_pack empty_heap 0 bag_types
      (V_dict [(V_str ''a'', V_list [V_str ''x'', V_str ''y'']), (V_str ''b'', V_list [V_str ''z'', V_str ''z''])]) True None = Inr bytes \<and>
    adlb_tclobj2bin_compound val_pack empty_heap 0 bag_types
      (V_dict [(V_str ''b'', V_list [V_str ''z'', V_str ''z'']), (V_str ''a'', V_list [V_str ''y'', V_str ''x''])]) True None = Inr bytes"
proof -
  let ?v = "A_Dict [(''a'', A_List [A_Str ''x'', A_Str ''y'']), (''b'', A_List [A_Str ''z'', A_Str ''z''])] :: unit aval"
  let ?w = "A_Dict [(''b'', A_List [A_Str ''z'', A_Str ''z'']), (''a'', A_List [A_Str ''y'', A_Str ''x''])] :: unit aval"
  let ?x = "V_dict [(V_str ''a'', V_list [V_str ''x'', V_str ''y'']), (V_str ''b'', V_list [V_str ''z'', V_str ''z''])]"
  let ?y = "V_dict [(V_str ''b'', V_list [V_str ''z'', V_str ''z'']), (V_str ''a'', V_list [V_str ''y'', V_str ''x''])]"
  obtain bytes bytes' where packed: "adlb_tclobj2bin_compound val_pack empty_heap 0 bag_types ?x True None = Inr bytes"
    "adlb_tclobj2bin_compound val_pack empty_heap 0 bag_types ?y True None = Inr bytes'"
    using bag_packs [OF disjI1 [OF refl], of "''x''" "''y''" "''z''"] bag_packs [OF disjI2 [OF refl], of "''y''" "''x''" "''z''"]
    by auto
  have "rep val_pack ?v ?x" "rep val_pack ?w ?y" by simp_all
  moreover have "typed val_pack bag_types 0 ?v" "typed val_pack bag_types 0 ?w"
    by (simp_all add: numeral_2_eq_2 bag_types_def)
  moreover have "canon ?v = canon ?w" by simp
  moreover have "int (length (format_value val_pack val_format bag_types 0 (canon ?v))) < 2 ^ 64"
    by (simp add: entry_val sized_val val_format_def unary_def numeral_2_eq_2 [symmetric] val_pack_string bag_types_def)
  ultimately have "bytes = bytes'"
    by (intro canonical_packing [where v = ?v and w = ?w, OF val_pack_ok val_sort_ok _ _ _ _ _ _ _ _ packed])
      simp_all
  with packed show ?thesis by blast
qed

text \<open>
  Packing a multiset canonically sorts the texts of its elements, not what they stand for.
  The list of 5 and 1 is packed in two ways when 5 is also written 05: one text comes before
  the text of 1, the other behind it.
\<close>

definition spelled_pack :: "(val, unit) pack_api" where
  "spelled_pack = val_pack\<lparr>tcl_wide := (\<lambda>v. case v of V_int i \<Rightarrow> Some i
     | V_str s \<Rightarrow> map_option fst (strtol 10 s) | _ \<Rightarrow> None)\<rparr>"

definition int_list_types :: compound_type where
  "int_list_types = [(TYPE_MULTISET, Extra_None), (TYPE_INTEGER, Extra_None)]"

lemma multiset_of_integers_not_canonical:
  shows "rep spelled_pack (A_List [A_Int 5, A_Int 1]) (V_list [V_str ''05'', V_str ''1''])"
    and "rep spelled_pack (A_List [A_Int 5, A_Int 1]) (V_list [V_str ''5'', V_str ''1''])"
    and "adlb_tclobj2bin_compound spelled_pack empty_heap 0 int_list_types (V_list [V_str ''05'', V_str ''1'']) True None \<noteq>
      adlb_tclobj2bin_compound spelled_pack empty_heap 0 int_list_types (V_list [V_str ''5'', V_str ''1'']) True None"
proof -
  have read: "tcl_wide spelled_pack (V_str ''05'') = Some 5" "tcl_wide spelled_pack (V_str ''5'') = Some 5"
    "tcl_wide spelled_pack (V_str ''1'') = Some 1"
  proof -
    have "map_option fst (strtol 10 ''05'') = Some 5" "map_option fst (strtol 10 ''5'') = Some 5"
      "map_option fst (strtol 10 ''1'') = Some 1" by code_simp+
    then show "tcl_wide spelled_pack (V_str ''05'') = Some 5" "tcl_wide spelled_pack (V_str ''5'') = Some 5"
      "tcl_wide spelled_pack (V_str ''1'') = Some 1" by (simp_all add: spelled_pack_def)
  qed
  have tl: "tcl_list spelled_pack v = (case v of V_list vs \<Rightarrow> Some vs | _ \<Rightarrow> None)" for v
    by (simp add: spelled_pack_def)
  show "rep spelled_pack (A_List [A_Int 5, A_Int 1]) (V_list [V_str ''05'', V_str ''1''])"
    "rep spelled_pack (A_List [A_Int 5, A_Int 1]) (V_list [V_str ''5'', V_str ''1''])"
    by (simp_all add: tl read LONG_MIN_def LONG_MAX_def)
  have sel: "pack_pad_size spelled_pack = pack_pad_size val_pack" "init_buf spelled_pack = init_buf val_pack"
    "append_buffer spelled_pack = append_buffer val_pack" "pack_multiset_hdr spelled_pack = pack_multiset_hdr val_pack"
    "adlb_pack spelled_pack = adlb_pack val_pack" "eval_lsort spelled_pack vs = Some (sort_key val_string vs)" for vs
    by (simp_all add: spelled_pack_def val_pack_defs)
  have int: "adlb_tclobj_bin_append spelled_pack empty_heap 0 int_list_types True (Suc 0) v True out =
      Inr (out_append (nat_bytes 8 (length (unary i)) @ unary i) out)" if "tcl_wide spelled_pack v = Some i" for v i out
    using that by (subst adlb_tclobj_bin_append.simps)
      (simp add: compound_type_next_def adlb_tclobj2datum.simps int_list_types_def sel)
  have "nat_bytes 8 7 \<noteq> nat_bytes 8 (Suc (Suc (Suc 0)))"
    using bytes_nat_nat_bytes [of 7 8] bytes_nat_nat_bytes [of "Suc (Suc (Suc 0))" 8] by force
  then show "adlb_tclobj2bin_compound spelled_pack empty_heap 0 int_list_types (V_list [V_str ''05'', V_str ''1'']) True None \<noteq>
      adlb_tclobj2bin_compound spelled_pack empty_heap 0 int_list_types (V_list [V_str ''5'', V_str ''1'']) True None"
    by (simp add: adlb_tclobj2bin_compound_def bin_append_compound(2) int_list_types_def sel tl
        tcl_list_to_packed_multiset_def compound_type_next_def int [unfolded int_list_types_def] read)
      (simp add: out_append_def unary_def)
qed

section \<open>Data that is not packed or unpacked\<close>

text \<open>
  \<^verbatim>\<open>adlb_tclobj2bin\<close> cannot pack a container or a multiset: it hands on the outermost type only,
  so the types of the elements are missing, even of an empty container.
\<close>

theorem tclobj2bin_compound_fails:
  "adlb_tclobj2bin A h fuel TYPE_CONTAINER extra obj canonicalize buf = Inl Tcl_Error \<and>
   adlb_tclobj2bin A h fuel TYPE_MULTISET extra obj canonicalize buf = Inl Tcl_Error"
proof -
  have "adlb_tclobj_bin_append A h fuel [(type, extra)] canonicalize 0 obj False out = Inl Tcl_Error"
    if "type \<in> {TYPE_CONTAINER, TYPE_MULTISET}" for type out
    using that
    by (subst adlb_tclobj_bin_append.simps)
      (auto simp: compound_type_next_def tcl_dict_to_packed_container_def tcl_list_to_packed_multiset_def
        adlb_tclobj2datum.simps tcl_get_def split: option.split)
  then show ?thesis
    by (auto simp: adlb_tclobj2bin_def adlb_tclobj_bin_append2_def tcl_get_def split: option.split)
qed

text \<open>
  C33: A packed container that ends before the number of entries its header gives is not an
  error for the caller: \<^verbatim>\<open>adlb_datum2tclobj\<close> returns the entries before the damage as if they
  were all.
\<close>

theorem container_truncated:
  assumes hdr: "unpack_container_hdr A data 0 = Some (int (length kvs) + n, kt, vt, pos)" "0 < n"
    and kvs: "\<And>i. i < length kvs \<Longrightarrow>
        unpack_container_entry A kt vt data (ps ! i) = Some (fst (kvs ! i) @ [NUL], snd (kvs ! i), ps ! (i + 1))"
    and ps: "length ps = length kvs + 1" "ps ! 0 = pos"
    and val: "\<And>k v h. (k, v) \<in> set kvs \<Longrightarrow> adlb_datum2tclobj A fuel vt Extra_None v h = Inr (f v, h)"
    and damage: "unpack_container_entry A kt vt data (ps ! length kvs) = None"
    and D: "dict_ok A" "distinct (map fst kvs)" and max: "int (length data) \<le> data_max A"
  shows "\<exists>d. adlb_datum2tclobj A (Suc fuel) TYPE_CONTAINER Extra_None data h = Inr (d, h) \<and>
    dict_entries A d = Some (map (\<lambda>(k, v). (new_string A k, f v)) kvs)"
proof -
  let ?conv = "\<lambda>type extra data h. adlb_datum2tclobj A fuel type extra data h"
  let ?es = "\<lambda>i. map (\<lambda>(k, v). (new_string A k, f v)) (take i kvs)"
  have "\<exists>d'. unpack_entries A ?conv kt vt data (length kvs - i + nat n) (ps ! i) d h = Inr (d', h) \<and>
      dict_entries A d' = Some (?es (length kvs))"
    if "i \<le> length kvs" "dict_entries A d = Some (?es i)" for i d
    using that
  proof (induction "length kvs - i" arbitrary: i d)
    case 0
    moreover from hdr(2) obtain m where "nat n = Suc m" by (metis nat_eq_iff2 not0_implies_Suc zero_less_nat_eq less_irrefl)
    ultimately show ?case using damage by simp
  next
    case (Suc x)
    then have i: "i < length kvs" by simp
    obtain k v where kv: "kvs ! i = (k, v)" by (cases "kvs ! i")
    then have mem: "(k, v) \<in> set kvs" using i by (metis nth_mem)
    have "k \<notin> fst ` set (take i kvs)"
    proof
      assume "k \<in> fst ` set (take i kvs)"
      then obtain j where "j < i" "fst (kvs ! j) = k" using i by (auto simp: in_set_conv_nth)
      then show False using D(2) i kv nth_eq_iff_index_eq [OF D(2), of j i] by simp
    qed
    moreover have "tcl_string A ` fst ` set (?es i) = fst ` set (take i kvs)"
      by (simp add: image_image case_prod_beta tcl_okD(1) [OF dict_okD(1) [OF D(1)]])
    ultimately have "tcl_string A (new_string A k) \<notin> tcl_string A ` fst ` set (?es i)"
      using tcl_okD(1) [OF dict_okD(1) [OF D(1)]] by simp
    with D(1) Suc.prems(2) obtain d' where d': "dict_insert A d (new_string A k) (f v) = Some d'"
      "dict_entries A d' = Some (?es i @ [(new_string A k, f v)])" unfolding dict_ok_def by blast
    have "?es (Suc i) = ?es i @ [(new_string A k, f v)]" using i kv by (simp add: take_Suc_conv_app_nth)
    moreover have "x = length kvs - Suc i" using Suc.hyps(2) by simp
    ultimately obtain d2 where
      d2: "unpack_entries A ?conv kt vt data (length kvs - Suc i + nat n) (ps ! Suc i) d' h = Inr (d2, h)"
        "dict_entries A d2 = Some (?es (length kvs))"
      using Suc.hyps(1) [of "Suc i" d'] d'(2) i by auto
    have "length kvs - i + nat n = Suc (length kvs - Suc i + nat n)" using i by simp
    then show ?case using kvs [OF i] kv val [OF mem] d' d2 by simp
  qed
  from this [of 0 "new_dict A"] obtain d where
    "unpack_entries A ?conv kt vt data (length kvs + nat n) pos (new_dict A) h = Inr (d, h)"
    "dict_entries A d = Some (?es (length kvs))" using dict_okD [OF D(1)] ps(2) by auto
  moreover have "nat (int (length kvs) + n) = length kvs + nat n" using hdr(2) by simp
  ultimately show ?thesis
    using max hdr(1) by (subst adlb_datum2tclobj.simps) (simp add: packed_container_to_dict_def Let_def)
qed

text \<open>A container that claims two entries and holds one.\<close>

definition short_data :: string where
  "short_data = f_container val_format 2 TYPE_STRING TYPE_INTEGER @ sized val_pack (''k'' @ [NUL]) @
     entry val_pack TYPE_INTEGER (unary 5)"

lemma container_truncated_witness:
  "\<exists>d. adlb_datum2tclobj val_pack 1 TYPE_CONTAINER Extra_None short_data empty_heap = Inr (d, empty_heap) \<and>
    dict_entries val_pack d = Some [(V_str ''k'', V_int 5)]"
proof -
  let ?hd = "f_container val_format 2 TYPE_STRING TYPE_INTEGER" and ?kvs = "[(''k'', unary 5)]"
  have hdr: "unpack_container_hdr val_pack short_data 0 =
      Some (int (length ?kvs) + 1, TYPE_STRING, TYPE_INTEGER, length ?hd)"
    using unpack_okD(1) [OF val_unpack_ok, of 2] by (simp add: short_data_def)
  have "unpack_container_entry val_pack TYPE_STRING TYPE_INTEGER (?hd @ sized val_pack (''k'' @ [NUL]) @
      entry val_pack TYPE_INTEGER (unary 5) @ []) (length ?hd) =
      Some (''k'' @ [NUL], unary 5, length (?hd @ sized val_pack (''k'' @ [NUL]) @ entry val_pack TYPE_INTEGER (unary 5)))"
    by (rule unpack_okD(2) [OF val_unpack_ok]) (simp_all add: small_def unary_def)
  then have ent: "unpack_container_entry val_pack TYPE_STRING TYPE_INTEGER short_data (length ?hd) =
      Some (''k'' @ [NUL], unary 5, length short_data)" by (simp add: short_data_def)
  have end_pos: "unpack_container_entry val_pack TYPE_STRING TYPE_INTEGER short_data (length short_data) = None"
    by (simp add: val_pack_defs)
  have int: "adlb_datum2tclobj val_pack 0 TYPE_INTEGER Extra_None (unary 5) h = Inr (V_int 5, h)" for h
    using un_unary [of 5 "[]"] by (simp add: adlb_datum2tclobj.simps val_pack_defs unary_def)
  have max: "int (length short_data) \<le> data_max val_pack"
    by (simp add: short_data_def entry_val sized_val val_format_def unary_def)
  show ?thesis
    using container_truncated [OF hdr _ _ _ _ _ _ val_dict_ok _ max,
        of "[length ?hd, length short_data]" 0 "\<lambda>_. V_int 5" empty_heap] ent end_pos int
    by (simp add: val_pack_defs)
qed

text \<open>
  A packed multiset with an element that cannot be unpacked is worse: the function
  reports success with a list made from an array that was not filled.
\<close>

theorem multiset_truncated:
  assumes "unpack_multiset_hdr A data 0 = Some (n, vt, pos)" "0 < n"
    and "unpack_multiset_entry A vt data pos = None" "int (length data) \<le> data_max A"
  shows "adlb_datum2tclobj A (Suc fuel) TYPE_MULTISET Extra_None data h = Inl Undefined"
proof -
  from assms(2) obtain m where "nat n = Suc m" by (cases "nat n") auto
  with assms show ?thesis
    by (subst adlb_datum2tclobj.simps) (simp add: packed_multiset_to_list_def)
qed

lemma multiset_truncated_witness:
  "adlb_datum2tclobj val_pack 1 TYPE_MULTISET Extra_None (f_multiset val_format 1 TYPE_INTEGER) empty_heap =
    Inl Undefined"
proof -
  let ?hd = "f_multiset val_format 1 TYPE_INTEGER"
  have "unpack_multiset_hdr val_pack ?hd 0 = Some (1, TYPE_INTEGER, length ?hd)"
    using unpack_okD(3) [OF val_unpack_ok, of 1 TYPE_INTEGER "[]"] by simp
  moreover have "unpack_multiset_entry val_pack TYPE_INTEGER ?hd (length ?hd) = None"
    by (simp add: val_pack_defs)
  moreover have "int (length ?hd) \<le> data_max val_pack" by (simp add: val_format_def unary_def)
  ultimately show ?thesis using multiset_truncated [of val_pack ?hd 1 TYPE_INTEGER _ 0 empty_heap] by simp
qed

text \<open>
  C34: The offsets in the header of a packed struct are not checked to be in order. When the
  second field starts before the first, the length of the first wraps around below zero,
  passes the check against the length of the data because the sum wraps around again, and
  fails an assertion.
\<close>

theorem struct_offsets_wrap:
  assumes hdr: "sizeof_hdr A + sizeof_offset A * 2 \<le> length data"
    and st: "lookup_struct A (hdr_type A data) = Some [f0, f1]"
      "struct_field_names (field_objs A) (hdr_type A data) = Inr names"
    and off: "hdr_offset A data 1 \<le> hdr_offset A data 0" "hdr_offset A data 0 < length data"
      "data ! hdr_offset A data 0 \<noteq> NUL"
    and size: "int (length data) \<le> data_max A" "data_max A + int (length data) < 2 ^ 64"
  shows "adlb_datum2tclobj A (Suc fuel) TYPE_STRUCT Extra_None data h = Inl Abort"
proof -
  let ?o = "hdr_offset A data"
  have len: "struct_field_length (hdr_offset A) data 2 0 = 2 ^ 64 + ?o 1 - (?o 0 + 1)"
    using off(1,2) size by (simp add: struct_field_length_def Let_def)
  have "?o 0 + 1 + struct_field_length (hdr_offset A) data 2 0 = 2 ^ 64 + ?o 1" using len off(2) size by simp
  then have pass: "(?o 0 + 1 + struct_field_length (hdr_offset A) data 2 0) mod 2 ^ 64 \<le> length data"
    using off(1,2) size by simp
  have large: "\<not> int (struct_field_length (hdr_offset A) data 2 0) \<le> data_max A" using len off(2) size by simp
  show ?thesis
    using hdr st off(2,3) size(1) pass large
    by (subst adlb_datum2tclobj.simps) (simp add: packed_struct_to_tcl_dict_def Let_def upt_rec numeral_2_eq_2)
qed

definition two_fields :: "(val, unit) pack_api" where
  "two_fields = val_pack\<lparr>lookup_struct := (\<lambda>_. Some [(''a'', TYPE_INTEGER, Extra_None), (''b'', TYPE_INTEGER, Extra_None)]),
     field_objs := \<lparr>fn_objs = Some [Some [V_str ''a'', V_str ''b'']], fn_size = 1\<rparr>,
     sizeof_hdr := 1, sizeof_offset := 1, hdr_type := (\<lambda>_. 0),
     hdr_offset := (\<lambda>data i. of_char (data ! (i + 1)))\<rparr>"

lemma struct_offsets_wrap_witness:
  "adlb_datum2tclobj two_fields 1 TYPE_STRUCT Extra_None [CHR 0x00, CHR 0x03, CHR 0x03, CHR 0x01] empty_heap = Inl Abort"
  using struct_offsets_wrap [of two_fields "[CHR 0x00, CHR 0x03, CHR 0x03, CHR 0x01]"
      "(''a'', TYPE_INTEGER, Extra_None)" "(''b'', TYPE_INTEGER, Extra_None)" "[V_str ''a'', V_str ''b'']" 0 empty_heap]
  by (simp add: two_fields_def struct_field_names_def val_pack_def type_api.extend_def NUL_def of_char_def)

end
