(* ===== verification/Data_Cmds.thy ===== *)
theory Data_Cmds
  imports Serialize
begin

text \<open>
  The commands of \<^verbatim>\<open>src/tcl/adlb/tcl-adlb.c\<close> that work on stored data: store and retrieve,
  insert, lookup and enumerate for containers, nested creation, locks, types and reference
  counts. ADLB is an argument, as are its packing functions. \<open>xfer\<close> is the content of
  the transfer buffer when the command starts. What ADLB knows only other clients can
  change: a loop that polls it takes fuel.
\<close>

section \<open>ADLB\<close>

record 'w data_api = "'w adlb_api" +
  adlb_insert_atomic :: "int \<Rightarrow> string option \<Rightarrow> adlb_retrieve_refc \<Rightarrow> bool \<Rightarrow> 'w \<Rightarrow>
    (adlb_code \<times> bool \<times> (adlb_type \<times> string) option) \<times> 'w"
  adlb_create_datum :: "int \<Rightarrow> adlb_type \<Rightarrow> type_extra \<Rightarrow> create_props \<Rightarrow> 'w \<Rightarrow> (adlb_code \<times> int) \<times> 'w"
  adlb_enumerate :: "int \<Rightarrow> int \<Rightarrow> int \<Rightarrow> adlb_refc \<Rightarrow> bool \<Rightarrow> bool \<Rightarrow> 'w \<Rightarrow>
    (adlb_code \<times> string \<times> int \<times> adlb_type) \<times> 'w"
  adlb_subscribe :: "int \<Rightarrow> string option \<Rightarrow> int \<Rightarrow> 'w \<Rightarrow> (adlb_code \<times> int) \<times> 'w"
  adlb_lock :: "int \<Rightarrow> 'w \<Rightarrow> (adlb_code \<times> bool) \<times> 'w"
  adlb_unlock :: "int \<Rightarrow> 'w \<Rightarrow> adlb_code \<times> 'w"
  adlb_unique :: "'w \<Rightarrow> (adlb_code \<times> int) \<times> 'w"
  adlb_typeof :: "int \<Rightarrow> 'w \<Rightarrow> (adlb_code \<times> adlb_type) \<times> 'w"
  adlb_container_typeof :: "int \<Rightarrow> 'w \<Rightarrow> (adlb_code \<times> adlb_type \<times> adlb_type) \<times> 'w"
  adlb_container_reference :: "int \<Rightarrow> string option \<Rightarrow> int \<Rightarrow> string option \<Rightarrow> adlb_type \<Rightarrow> adlb_refc \<Rightarrow>
    int \<Rightarrow> 'w \<Rightarrow> adlb_code \<times> 'w"
  adlb_container_size :: "int \<Rightarrow> adlb_refc \<Rightarrow> 'w \<Rightarrow> (adlb_code \<times> int) \<times> 'w"
  adlb_refcount_incr :: "int \<Rightarrow> adlb_refc \<Rightarrow> 'w \<Rightarrow> adlb_code \<times> 'w"
  adlb_read_refcount_enable :: "'w \<Rightarrow> adlb_code \<times> 'w"
  type_tostring :: "adlb_type \<Rightarrow> string"
  pack_ref :: "int \<Rightarrow> string option"
  unpack_buffer :: "adlb_type \<Rightarrow> string \<Rightarrow> nat \<Rightarrow> (string \<times> nat) option"

text \<open>
  \<^verbatim>\<open>ADLB_Insert_atomic\<close> tells whether the entry was created and, when it was given a
  buffer (the boolean argument), the value if there is one.
\<close>

section \<open>What the commands share\<close>

text \<open>Optional reference counts, the readers first.\<close>

definition opt_refcs ::
    "('obj, 'f, 'z) tcl_api_scheme \<Rightarrow> 'obj list \<Rightarrow> nat \<Rightarrow> adlb_refc \<Rightarrow> (adlb_refc \<times> nat) res" where
  "opt_refcs A objv argpos decr =
     tcl_check (opt_int A objv argpos (rc_read decr)) (\<lambda>(r, argpos).
     tcl_check (opt_int A objv argpos (rc_write decr)) (\<lambda>(w, argpos).
       Inr (decr\<lparr>rc_read := r, rc_write := w\<rparr>, argpos)))"

text \<open>The writers first.\<close>

definition opt_refcs_w ::
    "('obj, 'f, 'z) tcl_api_scheme \<Rightarrow> 'obj list \<Rightarrow> nat \<Rightarrow> adlb_refc \<Rightarrow> (adlb_refc \<times> nat) res" where
  "opt_refcs_w A objv argpos decr =
     tcl_check (opt_int A objv argpos (rc_write decr)) (\<lambda>(w, argpos).
     tcl_check (opt_int A objv argpos (rc_read decr)) (\<lambda>(r, argpos).
       Inr (decr\<lparr>rc_write := w, rc_read := r\<rparr>, argpos)))"

text \<open>The counts of \<^verbatim>\<open>adlb::insert_atomic\<close> and of nested creation: referand, then self.\<close>

definition opt_retrieve_refcs ::
    "('obj, 'f, 'z) tcl_api_scheme \<Rightarrow> 'obj list \<Rightarrow> nat \<Rightarrow> adlb_retrieve_refc \<Rightarrow>
      (adlb_retrieve_refc \<times> nat) res" where
  "opt_retrieve_refcs A objv argpos refcounts =
     tcl_check (opt_refcs A objv argpos (incr_referand refcounts)) (\<lambda>(referand, argpos).
     tcl_check (opt_refcs_w A objv argpos (decr_self refcounts)) (\<lambda>(self, argpos).
       Inr (refcounts\<lparr>incr_referand := referand, decr_self := self\<rparr>, argpos)))"

definition datum_obj ::
    "('obj, 'f, 'z) pack_api_scheme \<Rightarrow> nat \<Rightarrow> adlb_type \<Rightarrow> type_extra \<Rightarrow> string \<Rightarrow>
      ('obj, ('w, 't) adlb_world) cmd" where
  "datum_obj A fuel type extra data w =
     (case adlb_datum2tclobj A fuel type extra data (aw_heap w) of
        Inl e \<Rightarrow> (Inl e, w)
      | Inr (obj, h) \<Rightarrow> (Inr obj, w\<lparr>aw_heap := h\<rparr>))"

section \<open>Existence\<close>

definition ADLB_Exists_Impl ::
    "('obj, 'f, 'z) tcl_api_scheme \<Rightarrow> 'obj handle_api \<Rightarrow> ('w, 'y) adlb_api_scheme \<Rightarrow> mem \<Rightarrow>
      adlb_subscript_kind \<Rightarrow> 'obj list \<Rightarrow> ('obj, ('w, 't) adlb_world) cmd" where
  "ADLB_Exists_Impl A H D m sub_kind objv =
     (let min_args = (if sub_kind = ADLB_SUB_NONE then 2 else 3) in
     cmd_bind (cmd_condition (min_args \<le> length objv)) (\<lambda>_.
     cmd_bind (cmd_do (if sub_kind = ADLB_SUB_NONE then parse_handle_arg H m (objv ! 1)
                       else parse_handle_sub_arg H m sub_kind (objv ! 1) (objv ! 2))) (\<lambda>(td, sub).
     cmd_bind (cmd_do (opt_refcs A objv min_args (no_refc D))) (\<lambda>(decr, argpos).
     cmd_bind (cmd_condition (argpos = length objv)) (\<lambda>_.
     cmd_bind (adlb_call (adlb_exists D td sub decr)) (\<lambda>(rc, b).
     cmd_bind (cmd_condition (rc = ADLB_SUCCESS)) (\<lambda>_.
       cmd_do (Inr (new_boolean A b)))))))))"

definition ADLB_Exists_Cmd ::
    "('obj, 'f, 'z) tcl_api_scheme \<Rightarrow> 'obj handle_api \<Rightarrow> ('w, 'y) adlb_api_scheme \<Rightarrow> mem \<Rightarrow>
      'obj list \<Rightarrow> ('obj, ('w, 't) adlb_world) cmd" where
  "ADLB_Exists_Cmd A H D m objv = ADLB_Exists_Impl A H D m ADLB_SUB_NONE objv"

definition ADLB_Exists_Sub_Cmd ::
    "('obj, 'f, 'z) tcl_api_scheme \<Rightarrow> 'obj handle_api \<Rightarrow> ('w, 'y) adlb_api_scheme \<Rightarrow> mem \<Rightarrow>
      'obj list \<Rightarrow> ('obj, ('w, 't) adlb_world) cmd" where
  "ADLB_Exists_Sub_Cmd A H D m objv = ADLB_Exists_Impl A H D m ADLB_SUB_CONTAINER objv"

definition ADLB_Closed_Cmd ::
    "('obj, 'f, 'z) tcl_api_scheme \<Rightarrow> 'obj handle_api \<Rightarrow> ('w, 'y) adlb_api_scheme \<Rightarrow> mem \<Rightarrow>
      'obj list \<Rightarrow> ('obj, ('w, 't) adlb_world) cmd" where
  "ADLB_Closed_Cmd A H D m objv =
     cmd_bind (cmd_condition (2 \<le> length objv)) (\<lambda>_.
     cmd_bind (cmd_do (parse_handle_arg H m (objv ! 1))) (\<lambda>(td, sub).
     cmd_bind (cmd_do (opt_refcs A objv 2 (no_refc D))) (\<lambda>(decr, argpos).
     cmd_bind (cmd_condition (argpos = length objv)) (\<lambda>_.
     cmd_bind (adlb_call (adlb_refcount_get D td decr)) (\<lambda>(rc, curr_refcounts).
     cmd_bind (cmd_condition (rc = ADLB_SUCCESS)) (\<lambda>_.
       cmd_do (Inr (new_boolean A (rc_write curr_refcounts = 0)))))))))"

section \<open>Storing and retrieving\<close>

definition ADLB_Store_Cmd ::
    "('obj, 'f, 'z) pack_api_scheme \<Rightarrow> 'obj handle_api \<Rightarrow> ('w, 'y) adlb_api_scheme \<Rightarrow> mem \<Rightarrow> string \<Rightarrow> nat \<Rightarrow>
      'obj list \<Rightarrow> (unit, ('w, 't) adlb_world) cmd" where
  "ADLB_Store_Cmd A H D m xfer fuel objv =
     cmd_bind (cmd_condition (4 \<le> length objv)) (\<lambda>_.
     cmd_bind (cmd_do (parse_handle_arg H m (objv ! 1))) (\<lambda>(td, sub).
     cmd_bind (cmd_do (adlb_type_from_obj_extra A (objv ! 2))) (\<lambda>(type, extra).
     cmd_bind
       (if type = TYPE_CONTAINER \<or> type = TYPE_MULTISET
        then cmd_bind (cmd_do (get_compound_type A objv 2)) (\<lambda>(compound_type, argpos).
          cmd_bind (cmd_do (arg objv argpos)) (\<lambda>obj.
          cmd_bind (heap_get (\<lambda>h. adlb_tclobj2bin_compound A h fuel compound_type obj False (Some xfer))) (\<lambda>data.
            cmd_do (Inr (data, argpos + 1)))))
        else cmd_bind (heap_get (\<lambda>h. adlb_tclobj2bin A h fuel type extra (objv ! 3) False (Some xfer))) (\<lambda>data.
            cmd_do (Inr (data, 4)))) (\<lambda>(data, argpos).
     cmd_bind (cmd_do (opt_refcs_w A objv argpos (write_refc D))) (\<lambda>(decr, argpos).
     cmd_bind (cmd_do (opt_refcs A objv argpos (read_refc D))) (\<lambda>(store_refcounts, argpos).
     cmd_bind (cmd_condition (argpos = length objv)) (\<lambda>_.
     cmd_bind (adlb_call (adlb_store D td sub type data decr store_refcounts)) (\<lambda>store_rc.
       cmd_condition (store_rc = ADLB_SUCCESS)))))))))"

definition ADLB_Retrieve_Impl ::
    "('obj, 'f, 'z) pack_api_scheme \<Rightarrow> 'obj handle_api \<Rightarrow> ('w, 'y) adlb_api_scheme \<Rightarrow> mem \<Rightarrow> nat \<Rightarrow> bool \<Rightarrow>
      'obj list \<Rightarrow> ('obj, ('w, 't) adlb_world) cmd" where
  "ADLB_Retrieve_Impl A H D m fuel decr objv =
     cmd_bind (cmd_condition (if decr then length objv = 3 \<or> length objv = 4
                              else length objv = 2 \<or> length objv = 3)) (\<lambda>_.
     cmd_bind (cmd_do (parse_handle_arg H m (objv ! 1))) (\<lambda>(td, sub).
     cmd_bind (cmd_do (if decr then tcl_get (tcl_int A (objv ! 2)) else Inr 0)) (\<lambda>decr_amount.
     let argpos = (if decr then 3 else 2) in
     cmd_bind (cmd_do (if argpos < length objv then adlb_type_from_obj_extra A (objv ! argpos)
                       else Inr (TYPE_NULL, Extra_None))) (\<lambda>(given_type, extra).
     let refcounts = (retrieve_no_refc D)\<lparr>decr_self :=
           (decr_self (retrieve_no_refc D))\<lparr>rc_read := decr_amount\<rparr>\<rparr> in
     cmd_bind (adlb_call (adlb_retrieve D td sub refcounts)) (\<lambda>(ret_rc, type, data).
     cmd_bind (cmd_condition (ret_rc = ADLB_SUCCESS)) (\<lambda>_.
     cmd_bind (cmd_condition (\<not> (given_type \<noteq> TYPE_NULL \<and> given_type \<noteq> type))) (\<lambda>_.
       datum_obj A fuel type extra data)))))))"

definition ADLB_Retrieve_Cmd ::
    "('obj, 'f, 'z) pack_api_scheme \<Rightarrow> 'obj handle_api \<Rightarrow> ('w, 'y) adlb_api_scheme \<Rightarrow> mem \<Rightarrow> nat \<Rightarrow>
      'obj list \<Rightarrow> ('obj, ('w, 't) adlb_world) cmd" where
  "ADLB_Retrieve_Cmd A H D m fuel objv = ADLB_Retrieve_Impl A H D m fuel False objv"

definition ADLB_Retrieve_Decr_Cmd ::
    "('obj, 'f, 'z) pack_api_scheme \<Rightarrow> 'obj handle_api \<Rightarrow> ('w, 'y) adlb_api_scheme \<Rightarrow> mem \<Rightarrow> nat \<Rightarrow>
      'obj list \<Rightarrow> ('obj, ('w, 't) adlb_world) cmd" where
  "ADLB_Retrieve_Decr_Cmd A H D m fuel objv = ADLB_Retrieve_Impl A H D m fuel True objv"

definition ADLB_Acquire_Ref_Impl ::
    "('obj, 'f, 'z) pack_api_scheme \<Rightarrow> 'obj handle_api \<Rightarrow> ('w, 'y) adlb_api_scheme \<Rightarrow> mem \<Rightarrow> nat \<Rightarrow> bool \<Rightarrow>
      adlb_subscript_kind \<Rightarrow> 'obj list \<Rightarrow> ('obj, ('w, 't) adlb_world) cmd" where
  "ADLB_Acquire_Ref_Impl A H D m fuel write_ref sub_kind objv =
     (let expected_args = 5 + (if sub_kind \<noteq> ADLB_SUB_NONE then 1 else 0) + (if write_ref then 1 else 0);
          argpos = (if sub_kind \<noteq> ADLB_SUB_NONE then 3 else 2) in
     cmd_bind (cmd_condition (length objv = expected_args)) (\<lambda>_.
     cmd_bind (cmd_do (if sub_kind = ADLB_SUB_NONE then parse_handle_arg H m (objv ! 1)
                       else parse_handle_sub_arg H m sub_kind (objv ! 1) (objv ! 2))) (\<lambda>(td, sub).
     cmd_bind (cmd_do (adlb_type_from_obj_extra A (objv ! argpos))) (\<lambda>(expected_type, extra).
     cmd_bind (cmd_do (tcl_get (tcl_int A (objv ! (argpos + 1))))) (\<lambda>incr_read.
     cmd_bind (cmd_do (if write_ref then tcl_get (tcl_int A (objv ! (argpos + 2)))
                       else Inr (rc_write (incr_referand (retrieve_no_refc D))))) (\<lambda>incr_write.
     cmd_bind (cmd_do (tcl_get (tcl_int A (objv ! (if write_ref then argpos + 3 else argpos + 2))))) (\<lambda>decr_read.
     let refcounts = (retrieve_no_refc D)\<lparr>
           incr_referand := (incr_referand (retrieve_no_refc D))\<lparr>rc_read := incr_read, rc_write := incr_write\<rparr>,
           decr_self := (decr_self (retrieve_no_refc D))\<lparr>rc_read := decr_read\<rparr>\<rparr> in
     cmd_bind (adlb_call (adlb_retrieve D td sub refcounts)) (\<lambda>(ac, type, data).
     cmd_bind (cmd_condition (ac = ADLB_SUCCESS)) (\<lambda>_.
     cmd_bind (cmd_condition (expected_type = type)) (\<lambda>_.
       datum_obj A fuel type extra data))))))))))"

definition ADLB_Acquire_Ref_Cmd ::
    "('obj, 'f, 'z) pack_api_scheme \<Rightarrow> 'obj handle_api \<Rightarrow> ('w, 'y) adlb_api_scheme \<Rightarrow> mem \<Rightarrow> nat \<Rightarrow>
      'obj list \<Rightarrow> ('obj, ('w, 't) adlb_world) cmd" where
  "ADLB_Acquire_Ref_Cmd A H D m fuel objv = ADLB_Acquire_Ref_Impl A H D m fuel False ADLB_SUB_NONE objv"

definition ADLB_Acquire_Write_Ref_Cmd ::
    "('obj, 'f, 'z) pack_api_scheme \<Rightarrow> 'obj handle_api \<Rightarrow> ('w, 'y) adlb_api_scheme \<Rightarrow> mem \<Rightarrow> nat \<Rightarrow>
      'obj list \<Rightarrow> ('obj, ('w, 't) adlb_world) cmd" where
  "ADLB_Acquire_Write_Ref_Cmd A H D m fuel objv = ADLB_Acquire_Ref_Impl A H D m fuel True ADLB_SUB_NONE objv"

definition ADLB_Acquire_Sub_Ref_Cmd ::
    "('obj, 'f, 'z) pack_api_scheme \<Rightarrow> 'obj handle_api \<Rightarrow> ('w, 'y) adlb_api_scheme \<Rightarrow> mem \<Rightarrow> nat \<Rightarrow>
      'obj list \<Rightarrow> ('obj, ('w, 't) adlb_world) cmd" where
  "ADLB_Acquire_Sub_Ref_Cmd A H D m fuel objv = ADLB_Acquire_Ref_Impl A H D m fuel False ADLB_SUB_CONTAINER objv"

definition ADLB_Acquire_Sub_Write_Ref_Cmd ::
    "('obj, 'f, 'z) pack_api_scheme \<Rightarrow> 'obj handle_api \<Rightarrow> ('w, 'y) adlb_api_scheme \<Rightarrow> mem \<Rightarrow> nat \<Rightarrow>
      'obj list \<Rightarrow> ('obj, ('w, 't) adlb_world) cmd" where
  "ADLB_Acquire_Sub_Write_Ref_Cmd A H D m fuel objv =
     ADLB_Acquire_Ref_Impl A H D m fuel True ADLB_SUB_CONTAINER objv"

end
