(* ===== verification/Container_Cmds.thy ===== *)
theory Container_Cmds
  imports Data_Cmds
begin

text \<open>
  The commands of \<^verbatim>\<open>src/tcl/adlb/tcl-adlb.c\<close> for the entries of containers and structs
  (enumerate, insert, lookup, references, nested creation), and the small commands on
  locks, types and reference counts.
\<close>

section \<open>Enumeration\<close>

definition set_enumerate_params :: "string \<Rightarrow> (bool \<times> bool) res" where
  "set_enumerate_params token =
     (if token = ''subscripts'' then Inr (True, False)
      else if token = ''members'' then Inr (False, True)
      else if token = ''dict'' then Inr (True, True)
      else if token = ''count'' then Inr (False, False)
      else Inl Tcl_Error)"

text \<open>
  The loop over the records. The result so far is the dictionary, or the list of keys or
  of values.
\<close>

fun enumerate_records ::
    "('obj, 'f, 'z) pack_api_scheme \<Rightarrow> ('w, 'y) data_api_scheme \<Rightarrow> nat \<Rightarrow> bool \<Rightarrow> bool \<Rightarrow> adlb_type \<Rightarrow>
      string \<Rightarrow> nat \<Rightarrow> nat \<Rightarrow> 'obj \<Rightarrow> 'obj list \<Rightarrow> heap \<Rightarrow> (('obj \<times> 'obj list) \<times> heap) res" where
  "enumerate_records A D fuel include_keys include_vals val_type data 0 pos dict list_buf h =
     Inr ((dict, list_buf), h)"
| "enumerate_records A D fuel include_keys include_vals val_type data (Suc n) pos dict list_buf h =
     tcl_check
       (if include_keys
        then tcl_check (tcl_get (unpack_buffer D TYPE_NULL data pos)) (\<lambda>(key_data, pos).
          c_defined (key_data \<noteq> []) (Inr (new_string A (butlast key_data), pos)))
        else Inr (new_dict A, pos)) (\<lambda>(key, pos).
     tcl_check
       (if include_vals
        then tcl_check (tcl_get (unpack_buffer D val_type data pos)) (\<lambda>(val_data, pos).
          tcl_check (adlb_datum2tclobj A fuel val_type Extra_None val_data h) (\<lambda>(val, h).
            Inr (val, pos, h)))
        else Inr (new_dict A, pos, h)) (\<lambda>(val, pos, h).
     tcl_check
       (if include_keys \<and> include_vals
        then tcl_check (tcl_get (dict_insert A dict key val)) (\<lambda>dict. Inr (dict, list_buf))
        else if include_keys then Inr (dict, list_buf @ [key])
        else c_assert include_vals (Inr (dict, list_buf @ [val]))) (\<lambda>(dict, list_buf).
       enumerate_records A D fuel include_keys include_vals val_type data n pos dict list_buf h)))"

definition enumerate_object ::
    "('obj, 'f, 'z) pack_api_scheme \<Rightarrow> ('w, 'y) data_api_scheme \<Rightarrow> nat \<Rightarrow> bool \<Rightarrow> bool \<Rightarrow>
      string \<Rightarrow> int \<Rightarrow> adlb_type \<Rightarrow> heap \<Rightarrow> ('obj \<times> heap) res" where
  "enumerate_object A D fuel include_keys include_vals data records val_type h =
     (if \<not> include_keys \<and> \<not> include_vals then Inr (new_wide A records, h)
      else c_defined (0 \<le> records \<or> include_keys \<and> include_vals)
        (tcl_check (enumerate_records A D fuel include_keys include_vals val_type data (nat records) 0
            (new_dict A) [] h) (\<lambda>((dict, list_buf), h).
          Inr (if include_keys \<and> include_vals then dict else new_list A list_buf, h))))"

definition ADLB_Enumerate_Cmd ::
    "('obj, 'f, 'z) pack_api_scheme \<Rightarrow> ('w, 'y) data_api_scheme \<Rightarrow> nat \<Rightarrow> 'obj list \<Rightarrow>
      ('obj, ('w, 't) adlb_world) cmd" where
  "ADLB_Enumerate_Cmd A D fuel objv =
     cmd_bind (cmd_condition (5 \<le> length objv)) (\<lambda>_.
     cmd_bind (cmd_do (tcl_get (tcl_wide A (objv ! 1)))) (\<lambda>container_id.
     let token = tcl_string A (objv ! 2) in
     cmd_bind (cmd_do (if tcl_string A (objv ! 3) \<noteq> ''all'' then tcl_get (tcl_int A (objv ! 3))
                       else Inr (- 1))) (\<lambda>count.
     cmd_bind (cmd_do (tcl_get (tcl_int A (objv ! 4)))) (\<lambda>offset.
     cmd_bind (cmd_do (opt_refcs A objv 5 (no_refc D))) (\<lambda>(decr, argpos).
     cmd_bind (cmd_condition (argpos = length objv)) (\<lambda>_.
     cmd_bind (cmd_do (set_enumerate_params token)) (\<lambda>(include_keys, include_vals).
     cmd_bind (adlb_call (adlb_enumerate D container_id count offset decr include_keys include_vals))
       (\<lambda>(rc, data, records, val_type).
     cmd_bind (cmd_condition (rc = ADLB_SUCCESS)) (\<lambda>_ w.
       case enumerate_object A D fuel include_keys include_vals data records val_type (aw_heap w) of
         Inl e \<Rightarrow> (Inl e, w)
       | Inr (obj, h) \<Rightarrow> (Inr obj, w\<lparr>aw_heap := h\<rparr>))))))))))"

section \<open>Inserting\<close>

text \<open>
  The number of arguments is checked to be at least 4, but the fifth is read.
\<close>

definition ADLB_Insert_Impl ::
    "('obj, 'f, 'z) pack_api_scheme \<Rightarrow> 'obj handle_api \<Rightarrow> ('w, 'y) adlb_api_scheme \<Rightarrow> mem \<Rightarrow> string \<Rightarrow> nat \<Rightarrow>
      adlb_subscript_kind \<Rightarrow> 'obj list \<Rightarrow> (unit, ('w, 't) adlb_world) cmd" where
  "ADLB_Insert_Impl A H D m xfer fuel sub_kind objv =
     cmd_bind (cmd_condition (4 \<le> length objv)) (\<lambda>_.
     cmd_bind (cmd_do (parse_handle_sub_arg H m sub_kind (objv ! 1) (objv ! 2))) (\<lambda>(td, sub).
     cmd_bind (cmd_condition (has_sub D sub)) (\<lambda>_.
     let member_obj = objv ! 3 in
     cmd_bind (cmd_do (arg objv 4)) (\<lambda>type_obj.
     cmd_bind (cmd_do (adlb_type_from_obj_extra A type_obj)) (\<lambda>(type, extra).
     cmd_bind (heap_get (\<lambda>h. adlb_tclobj2bin A h fuel type extra member_obj False (Some xfer))) (\<lambda>member.
     cmd_bind (cmd_do (opt_refcs_w A objv 5 (no_refc D))) (\<lambda>(decr, argpos).
     cmd_bind (cmd_condition (argpos = length objv)) (\<lambda>_.
     cmd_bind (adlb_call (adlb_store D td sub type member decr (read_refc D))) (\<lambda>rc.
       cmd_condition (rc = ADLB_SUCCESS))))))))))"

definition ADLB_Insert_Cmd ::
    "('obj, 'f, 'z) pack_api_scheme \<Rightarrow> 'obj handle_api \<Rightarrow> ('w, 'y) adlb_api_scheme \<Rightarrow> mem \<Rightarrow> string \<Rightarrow> nat \<Rightarrow>
      'obj list \<Rightarrow> (unit, ('w, 't) adlb_world) cmd" where
  "ADLB_Insert_Cmd A H D m xfer fuel objv = ADLB_Insert_Impl A H D m xfer fuel ADLB_SUB_CONTAINER objv"

definition ADLB_Struct_Insert_Cmd ::
    "('obj, 'f, 'z) pack_api_scheme \<Rightarrow> 'obj handle_api \<Rightarrow> ('w, 'y) adlb_api_scheme \<Rightarrow> mem \<Rightarrow> string \<Rightarrow> nat \<Rightarrow>
      'obj list \<Rightarrow> (unit, ('w, 't) adlb_world) cmd" where
  "ADLB_Struct_Insert_Cmd A H D m xfer fuel objv = ADLB_Insert_Impl A H D m xfer fuel ADLB_SUB_STRUCT objv"

definition ADLB_Insert_Atomic_Cmd ::
    "('obj, 'f, 'z) tcl_api_scheme \<Rightarrow> 'obj handle_api \<Rightarrow> ('w, 'y) data_api_scheme \<Rightarrow> mem \<Rightarrow>
      'obj list \<Rightarrow> ('obj, ('w, 't) adlb_world) cmd" where
  "ADLB_Insert_Atomic_Cmd A H D m objv =
     cmd_bind (cmd_condition (3 \<le> length objv)) (\<lambda>_.
     cmd_bind (cmd_do (parse_handle_sub_arg H m ADLB_SUB_CONTAINER (objv ! 1) (objv ! 2))) (\<lambda>(td, sub).
     cmd_bind (cmd_do (opt_retrieve_refcs A objv 3 (retrieve_no_refc D))) (\<lambda>(refcounts, argpos).
     cmd_bind (cmd_condition (argpos = length objv)) (\<lambda>_.
     cmd_bind (adlb_call (adlb_insert_atomic D td sub refcounts False)) (\<lambda>(rc, b, _).
     cmd_bind (cmd_condition (rc = ADLB_SUCCESS)) (\<lambda>_.
       cmd_do (Inr (new_boolean A b))))))))"

section \<open>Looking up\<close>

text \<open>The loop that polls until something is there, when it is asked to.\<close>

fun retrieve_spin ::
    "('w, 'y) adlb_api_scheme \<Rightarrow> int \<Rightarrow> string option \<Rightarrow> adlb_retrieve_refc \<Rightarrow> bool \<Rightarrow> nat \<Rightarrow>
      (adlb_code \<times> adlb_type \<times> string, ('w, 't) adlb_world) cmd" where
  "retrieve_spin D td sub refcounts spin 0 = cmd_do (Inl Unfinished)"
| "retrieve_spin D td sub refcounts spin (Suc n) =
     cmd_bind (adlb_call (adlb_retrieve D td sub refcounts)) (\<lambda>(rc, type, data).
       if spin \<and> rc = ADLB_NOTHING then retrieve_spin D td sub refcounts spin n
       else cmd_do (Inr (rc, type, data)))"

text \<open>The order of the optional counts is the order of the code.\<close>

definition ADLB_Lookup_Impl ::
    "('obj, 'f, 'z) pack_api_scheme \<Rightarrow> 'obj handle_api \<Rightarrow> ('w, 'y) adlb_api_scheme \<Rightarrow> mem \<Rightarrow> nat \<Rightarrow> nat \<Rightarrow>
      adlb_subscript_kind \<Rightarrow> bool \<Rightarrow> 'obj list \<Rightarrow> ('obj, ('w, 't) adlb_world) cmd" where
  "ADLB_Lookup_Impl A H D m fuel polls sub_kind spin objv =
     cmd_bind (cmd_condition (3 \<le> length objv)) (\<lambda>_.
     cmd_bind (cmd_do (parse_handle_sub_arg H m sub_kind (objv ! 1) (objv ! 2))) (\<lambda>(td, sub).
     cmd_bind (cmd_condition (has_sub D sub)) (\<lambda>_.
     let none = retrieve_no_refc D in
     cmd_bind (cmd_do (opt_int A objv 3 (rc_read (decr_self none)))) (\<lambda>(decr_read, argpos).
     cmd_bind (cmd_do (opt_int A objv argpos (rc_read (incr_referand none)))) (\<lambda>(incr_read, argpos).
     cmd_bind (cmd_do (opt_int A objv argpos (rc_write (decr_self none)))) (\<lambda>(decr_write, argpos).
     cmd_bind (cmd_do (opt_int A objv argpos (rc_write (incr_referand none)))) (\<lambda>(incr_write, argpos).
     cmd_bind (cmd_condition (argpos = length objv)) (\<lambda>_.
     let refcounts = none\<lparr>decr_self := (decr_self none)\<lparr>rc_read := decr_read, rc_write := decr_write\<rparr>,
           incr_referand := (incr_referand none)\<lparr>rc_read := incr_read, rc_write := incr_write\<rparr>\<rparr> in
     cmd_bind (retrieve_spin D td sub refcounts spin polls) (\<lambda>(rc, type, data).
     cmd_bind (cmd_condition (rc = ADLB_SUCCESS)) (\<lambda>_.
     cmd_bind (cmd_do (c_assert (type \<noteq> TYPE_NULL) (Inr ()))) (\<lambda>_.
       datum_obj A fuel type Extra_None data)))))))))))"

definition ADLB_Lookup_Cmd ::
    "('obj, 'f, 'z) pack_api_scheme \<Rightarrow> 'obj handle_api \<Rightarrow> ('w, 'y) adlb_api_scheme \<Rightarrow> mem \<Rightarrow> nat \<Rightarrow> nat \<Rightarrow>
      'obj list \<Rightarrow> ('obj, ('w, 't) adlb_world) cmd" where
  "ADLB_Lookup_Cmd A H D m fuel polls objv = ADLB_Lookup_Impl A H D m fuel polls ADLB_SUB_CONTAINER False objv"

definition ADLB_Struct_Lookup_Cmd ::
    "('obj, 'f, 'z) pack_api_scheme \<Rightarrow> 'obj handle_api \<Rightarrow> ('w, 'y) adlb_api_scheme \<Rightarrow> mem \<Rightarrow> nat \<Rightarrow> nat \<Rightarrow>
      'obj list \<Rightarrow> ('obj, ('w, 't) adlb_world) cmd" where
  "ADLB_Struct_Lookup_Cmd A H D m fuel polls objv = ADLB_Lookup_Impl A H D m fuel polls ADLB_SUB_STRUCT False objv"

definition ADLB_Lookup_Spin_Cmd ::
    "('obj, 'f, 'z) pack_api_scheme \<Rightarrow> 'obj handle_api \<Rightarrow> ('w, 'y) adlb_api_scheme \<Rightarrow> mem \<Rightarrow> nat \<Rightarrow> nat \<Rightarrow>
      'obj list \<Rightarrow> ('obj, ('w, 't) adlb_world) cmd" where
  "ADLB_Lookup_Spin_Cmd A H D m fuel polls objv = ADLB_Lookup_Impl A H D m fuel polls ADLB_SUB_CONTAINER True objv"

section \<open>References\<close>

text \<open>
  The second handle is parsed into storage of its own while the first may be in the scratch
  buffer; both are read when ADLB is called.
\<close>

definition ADLB_Reference_Impl ::
    "('obj, 'f, 'z) type_api_scheme \<Rightarrow> 'obj handle_api \<Rightarrow> ('w, 'y) data_api_scheme \<Rightarrow> mem \<Rightarrow>
      adlb_subscript_kind \<Rightarrow> 'obj list \<Rightarrow> (unit, ('w, 't) adlb_world) cmd" where
  "ADLB_Reference_Impl A H D m sub_kind objv =
     cmd_bind (cmd_condition (5 \<le> length objv \<and> length objv \<le> 8)) (\<lambda>_.
     cmd_bind (cmd_do (ADLB_Parse_Handle H (objv ! 1) True m)) (\<lambda>(handle, m).
     cmd_bind (cmd_do (ADLB_Parse_Subscript H (objv ! 2) sub_kind (h_sub handle) True True m)) (\<lambda>(sub, m).
     cmd_bind (cmd_do (sub_value (p_val sub) m)) (\<lambda>sub_bytes.
     cmd_bind (cmd_condition (has_sub D sub_bytes)) (\<lambda>_.
     cmd_bind (cmd_do (ADLB_Parse_Handle H (objv ! 3) False m)) (\<lambda>(ref_handle, m).
     cmd_bind (cmd_do (adlb_type_from_obj_extra A (objv ! 4))) (\<lambda>(ref_type, _).
     cmd_bind (cmd_do (opt_int A objv 5 1)) (\<lambda>(ref_write_decr, argpos).
     cmd_bind (cmd_do (opt_refcs A objv argpos (read_refc D))) (\<lambda>(transfer_rc, argpos).
     cmd_bind (cmd_do (sub_value (p_val sub) m)) (\<lambda>sub_bytes.
     cmd_bind (cmd_do (sub_value (p_val (h_sub ref_handle)) m)) (\<lambda>ref_bytes.
     cmd_bind (adlb_call (adlb_container_reference D (h_id handle) sub_bytes (h_id ref_handle) ref_bytes
         ref_type transfer_rc ref_write_decr)) (\<lambda>rc.
       cmd_condition (rc = ADLB_SUCCESS)))))))))))))"

definition ADLB_Container_Reference_Cmd ::
    "('obj, 'f, 'z) type_api_scheme \<Rightarrow> 'obj handle_api \<Rightarrow> ('w, 'y) data_api_scheme \<Rightarrow> mem \<Rightarrow>
      'obj list \<Rightarrow> (unit, ('w, 't) adlb_world) cmd" where
  "ADLB_Container_Reference_Cmd A H D m objv = ADLB_Reference_Impl A H D m ADLB_SUB_CONTAINER objv"

definition ADLB_Struct_Reference_Cmd ::
    "('obj, 'f, 'z) type_api_scheme \<Rightarrow> 'obj handle_api \<Rightarrow> ('w, 'y) data_api_scheme \<Rightarrow> mem \<Rightarrow>
      'obj list \<Rightarrow> (unit, ('w, 't) adlb_world) cmd" where
  "ADLB_Struct_Reference_Cmd A H D m objv = ADLB_Reference_Impl A H D m ADLB_SUB_STRUCT objv"

section \<open>Nested creation\<close>

text \<open>\<^verbatim>\<open>2 << 24\<close>\<close>

definition nested_init_count :: int where "nested_init_count = 33554432"

text \<open>Polling for a value that another client is about to store.\<close>

fun nested_wait ::
    "('w, 'y) adlb_api_scheme \<Rightarrow> int \<Rightarrow> string option \<Rightarrow> adlb_retrieve_refc \<Rightarrow> nat \<Rightarrow>
      (adlb_type \<times> string) option \<Rightarrow> (adlb_type \<times> string, ('w, 't) adlb_world) cmd" where
  "nested_wait D td sub refcounts n (Some v) = cmd_do (Inr v)"
| "nested_wait D td sub refcounts 0 None = cmd_do (Inl Unfinished)"
| "nested_wait D td sub refcounts (Suc n) None =
     cmd_bind (adlb_call (adlb_retrieve D td sub refcounts)) (\<lambda>(ac, type, data).
     cmd_bind (cmd_condition (ac = ADLB_SUCCESS \<or> ac = ADLB_NOTHING)) (\<lambda>_.
       nested_wait D td sub refcounts n (if ac = ADLB_SUCCESS then Some (type, data) else None)))"

text \<open>The branch that creates the datum and stores a reference to it.\<close>

definition nested_create ::
    "('obj, 'f, 'z) type_api_scheme \<Rightarrow> ('w, 'y) data_api_scheme \<Rightarrow> int \<Rightarrow> string option \<Rightarrow> adlb_retrieve_refc \<Rightarrow>
      adlb_type \<Rightarrow> type_extra \<Rightarrow> ('obj, ('w, 't) adlb_world) cmd" where
  "nested_create A D td sub refcounts type type_extra =
     cmd_bind (cmd_do (c_int (nested_init_count + rc_read (incr_referand refcounts)))) (\<lambda>reads.
     cmd_bind (cmd_do (c_int (nested_init_count + rc_write (incr_referand refcounts)))) (\<lambda>writes.
     let props = (default_props A)\<lparr>release_write_refs := turbine_release_write_rc_policy A type,
           read_refcount := reads, write_refcount := writes\<rparr> in
     cmd_bind (adlb_call (adlb_create_datum D (id_null A) type type_extra props)) (\<lambda>(ac, new_id).
     cmd_bind (cmd_condition (ac = ADLB_SUCCESS)) (\<lambda>_.
     cmd_bind (cmd_do (tcl_get (pack_ref D new_id))) (\<lambda>packed.
     cmd_bind (adlb_call (adlb_store D td sub TYPE_REF packed (decr_self refcounts)
         \<lparr>rc_read = nested_init_count, rc_write = nested_init_count\<rparr>)) (\<lambda>ac.
     cmd_bind (cmd_condition (ac = ADLB_SUCCESS)) (\<lambda>_.
       cmd_do (Inr (new_wide A new_id)))))))))"

text \<open>
  What follows the parsing of the arguments. When the insertion fails, the code retrieves the
  value to make a better message and fails in any case. At the end the return code of the
  conversion is ignored; its result is a null pointer when it failed.
\<close>

definition nested_result :: "('obj, 'f, 'z) pack_api_scheme \<Rightarrow> adlb_type \<times> string \<Rightarrow> ('obj, ('w, 't) adlb_world) cmd" where
  "nested_result A v w =
     (if fst v \<noteq> TYPE_REF then (Inl Tcl_Error, w)
      else case datum_obj A 0 TYPE_REF Extra_None (snd v) w of
        (Inl Tcl_Error, w) \<Rightarrow> (Inl Undefined, w)
      | (r, w) \<Rightarrow> (r, w))"

definition nested_body ::
    "('obj, 'f, 'z) pack_api_scheme \<Rightarrow> ('w, 'y) data_api_scheme \<Rightarrow> nat \<Rightarrow> int \<Rightarrow> string option \<Rightarrow>
      adlb_retrieve_refc \<Rightarrow> adlb_type \<Rightarrow> type_extra \<Rightarrow> ('obj, ('w, 't) adlb_world) cmd" where
  "nested_body A D polls td sub refcounts type type_extra =
     cmd_bind (adlb_call (adlb_insert_atomic D td sub refcounts True)) (\<lambda>(ac, created, val).
       if ac \<noteq> ADLB_SUCCESS
       then cmd_bind (adlb_call (adlb_retrieve D td sub (retrieve_no_refc D))) (\<lambda>_. cmd_do (Inl Tcl_Error))
       else if created then nested_create A D td sub refcounts type type_extra
       else cmd_bind (nested_wait D td sub refcounts polls val) (nested_result A))"

definition ADLB_Create_Nested_Impl ::
    "('obj, 'f, 'z) pack_api_scheme \<Rightarrow> 'obj handle_api \<Rightarrow> ('w, 'y) data_api_scheme \<Rightarrow> mem \<Rightarrow> nat \<Rightarrow>
      adlb_type \<Rightarrow> adlb_subscript_kind \<Rightarrow> 'obj list \<Rightarrow> ('obj, ('w, 't) adlb_world) cmd" where
  "ADLB_Create_Nested_Impl A H D m polls type sub_kind objv =
     cmd_bind (cmd_condition (4 \<le> length objv)) (\<lambda>_.
     cmd_bind (cmd_do (parse_handle_sub_arg H m sub_kind (objv ! 1) (objv ! 2))) (\<lambda>(td, sub).
     cmd_bind (cmd_condition (has_sub D sub)) (\<lambda>_.
     cmd_bind (cmd_do (if type = TYPE_NULL then snd (adlb_type_from_array A objv 3 type)
         else tcl_check (adlb_type_extra_from_array A objv 3 type) (\<lambda>(type_extra, argpos).
           Inr (type, type_extra, argpos)))) (\<lambda>(type, type_extra, argpos).
     cmd_bind (cmd_do (opt_retrieve_refcs A objv argpos (retrieve_no_refc D))) (\<lambda>(refcounts, argpos).
     cmd_bind (cmd_condition (argpos = length objv)) (\<lambda>_.
       nested_body A D polls td sub refcounts type type_extra))))))"

definition ADLB_Create_Nested_Cmd ::
    "('obj, 'f, 'z) pack_api_scheme \<Rightarrow> 'obj handle_api \<Rightarrow> ('w, 'y) data_api_scheme \<Rightarrow> mem \<Rightarrow> nat \<Rightarrow>
      'obj list \<Rightarrow> ('obj, ('w, 't) adlb_world) cmd" where
  "ADLB_Create_Nested_Cmd A H D m polls objv =
     ADLB_Create_Nested_Impl A H D m polls TYPE_NULL ADLB_SUB_CONTAINER objv"

definition ADLB_Create_Nested_Container_Cmd ::
    "('obj, 'f, 'z) pack_api_scheme \<Rightarrow> 'obj handle_api \<Rightarrow> ('w, 'y) data_api_scheme \<Rightarrow> mem \<Rightarrow> nat \<Rightarrow>
      'obj list \<Rightarrow> ('obj, ('w, 't) adlb_world) cmd" where
  "ADLB_Create_Nested_Container_Cmd A H D m polls objv =
     ADLB_Create_Nested_Impl A H D m polls TYPE_CONTAINER ADLB_SUB_CONTAINER objv"

definition ADLB_Create_Nested_Bag_Cmd ::
    "('obj, 'f, 'z) pack_api_scheme \<Rightarrow> 'obj handle_api \<Rightarrow> ('w, 'y) data_api_scheme \<Rightarrow> mem \<Rightarrow> nat \<Rightarrow>
      'obj list \<Rightarrow> ('obj, ('w, 't) adlb_world) cmd" where
  "ADLB_Create_Nested_Bag_Cmd A H D m polls objv =
     ADLB_Create_Nested_Impl A H D m polls TYPE_MULTISET ADLB_SUB_CONTAINER objv"

definition ADLB_Struct_Create_Nested_Cmd ::
    "('obj, 'f, 'z) pack_api_scheme \<Rightarrow> 'obj handle_api \<Rightarrow> ('w, 'y) data_api_scheme \<Rightarrow> mem \<Rightarrow> nat \<Rightarrow>
      'obj list \<Rightarrow> ('obj, ('w, 't) adlb_world) cmd" where
  "ADLB_Struct_Create_Nested_Cmd A H D m polls objv =
     ADLB_Create_Nested_Impl A H D m polls TYPE_NULL ADLB_SUB_STRUCT objv"

definition ADLB_Struct_Create_Nested_Container_Cmd ::
    "('obj, 'f, 'z) pack_api_scheme \<Rightarrow> 'obj handle_api \<Rightarrow> ('w, 'y) data_api_scheme \<Rightarrow> mem \<Rightarrow> nat \<Rightarrow>
      'obj list \<Rightarrow> ('obj, ('w, 't) adlb_world) cmd" where
  "ADLB_Struct_Create_Nested_Container_Cmd A H D m polls objv =
     ADLB_Create_Nested_Impl A H D m polls TYPE_CONTAINER ADLB_SUB_STRUCT objv"

definition ADLB_Struct_Create_Nested_Bag_Cmd ::
    "('obj, 'f, 'z) pack_api_scheme \<Rightarrow> 'obj handle_api \<Rightarrow> ('w, 'y) data_api_scheme \<Rightarrow> mem \<Rightarrow> nat \<Rightarrow>
      'obj list \<Rightarrow> ('obj, ('w, 't) adlb_world) cmd" where
  "ADLB_Struct_Create_Nested_Bag_Cmd A H D m polls objv =
     ADLB_Create_Nested_Impl A H D m polls TYPE_MULTISET ADLB_SUB_STRUCT objv"

end
