(* ===== verification/Val_Store.thy ===== *)
theory Val_Store
  imports Data_Cmds Serialize_Correct
begin

text \<open>
  An instance of ADLB for examples: a store of entries, free, reserved or with a value, with
  reference counts that the refcount calls change and retrieval ignores.
\<close>

datatype entry_slot = Reserved | Value adlb_type string

record val_store =
  vs_slots :: "int \<times> string option \<Rightarrow> entry_slot option"
  vs_refs :: "int \<Rightarrow> int \<times> int"
  vs_next :: int

definition val_store0 :: val_store where
  "val_store0 = \<lparr>vs_slots = (\<lambda>_. None), vs_refs = (\<lambda>_. (1, 1)), vs_next = 1\<rparr>"

definition val_data :: "val_store data_api" where
  "val_data = \<lparr>
     no_refc = \<lparr>rc_read = 0, rc_write = 0\<rparr>, read_refc = \<lparr>rc_read = 1, rc_write = 0\<rparr>,
     write_refc = \<lparr>rc_read = 0, rc_write = 1\<rparr>,
     retrieve_no_refc = \<lparr>decr_self = \<lparr>rc_read = 0, rc_write = 0\<rparr>, incr_referand = \<lparr>rc_read = 0, rc_write = 0\<rparr>\<rparr>,
     has_sub = (\<lambda>s. s \<noteq> None), adlb_data_max = 1000,
     adlb_retrieve = (\<lambda>td sub rf s. (case vs_slots s (td, sub) of
         Some (Value t d) \<Rightarrow> (ADLB_SUCCESS, t, d) | _ \<Rightarrow> (ADLB_NOTHING, TYPE_NULL, []), s)),
     adlb_store = (\<lambda>td sub t d rc rc' s. case vs_slots s (td, sub) of
         Some (Value _ _) \<Rightarrow> (ADLB_ERROR, s)
       | _ \<Rightarrow> (ADLB_SUCCESS, s\<lparr>vs_slots := (vs_slots s)((td, sub) \<mapsto> Value t d)\<rparr>)),
     adlb_exists = (\<lambda>td sub rc s. ((ADLB_SUCCESS, vs_slots s (td, sub) \<noteq> None), s)),
     adlb_refcount_get = (\<lambda>td rc s. ((ADLB_SUCCESS, \<lparr>rc_read = fst (vs_refs s td), rc_write = snd (vs_refs s td)\<rparr>), s)),
     adlb_insert_atomic = (\<lambda>td sub rf want s. case vs_slots s (td, sub) of
         None \<Rightarrow> ((ADLB_SUCCESS, True, None), s\<lparr>vs_slots := (vs_slots s)((td, sub) \<mapsto> Reserved)\<rparr>)
       | Some Reserved \<Rightarrow> ((ADLB_SUCCESS, False, None), s)
       | Some (Value t d) \<Rightarrow> ((ADLB_SUCCESS, False, if want then Some (t, d) else None), s)),
     adlb_create_datum = (\<lambda>i t ex props s. ((ADLB_SUCCESS, max 1 (vs_next s)), s\<lparr>vs_next := max 1 (vs_next s) + 1\<rparr>)),
     adlb_enumerate = (\<lambda>td count offset rc keys vals s. ((ADLB_SUCCESS, [], 0, TYPE_NULL), s)),
     adlb_subscribe = (\<lambda>td sub wt s. ((ADLB_SUCCESS, 1), s)),
     adlb_lock = (\<lambda>td s. ((ADLB_SUCCESS, True), s)), adlb_unlock = (\<lambda>td s. (ADLB_SUCCESS, s)),
     adlb_unique = (\<lambda>s. ((ADLB_SUCCESS, vs_next s), s\<lparr>vs_next := vs_next s + 1\<rparr>)),
     adlb_typeof = (\<lambda>td s. ((ADLB_SUCCESS, TYPE_INTEGER), s)),
     adlb_container_typeof = (\<lambda>td s. ((ADLB_SUCCESS, TYPE_STRING, TYPE_INTEGER), s)),
     adlb_container_reference = (\<lambda>td sub td' sub' t rc w s. (ADLB_SUCCESS, s)),
     adlb_container_size = (\<lambda>td rc s. ((ADLB_SUCCESS, 0), s)),
     adlb_refcount_incr = (\<lambda>td change s. (ADLB_SUCCESS, s\<lparr>vs_refs := (vs_refs s)(td :=
       (fst (vs_refs s td) + rc_read change, snd (vs_refs s td) + rc_write change))\<rparr>)),
     adlb_read_refcount_enable = (\<lambda>s. (ADLB_SUCCESS, s)),
     type_tostring = (\<lambda>t. [type_char t]),
     pack_ref = (\<lambda>i. Some (unary i)),
     unpack_buffer = (\<lambda>t data pos. if length data < pos + 8 then None
       else Some (get_sized (if t \<in> {TYPE_CONTAINER, TYPE_MULTISET} then 9 else 8) data pos))\<rparr>"

lemma val_data_sel [simp]:
  "no_refc val_data = \<lparr>rc_read = 0, rc_write = 0\<rparr>"
  "read_refc val_data = \<lparr>rc_read = 1, rc_write = 0\<rparr>"
  "write_refc val_data = \<lparr>rc_read = 0, rc_write = 1\<rparr>"
  "retrieve_no_refc val_data = \<lparr>decr_self = \<lparr>rc_read = 0, rc_write = 0\<rparr>, incr_referand = \<lparr>rc_read = 0, rc_write = 0\<rparr>\<rparr>"
  "has_sub val_data = (\<lambda>s. s \<noteq> None)"
  "adlb_data_max val_data = 1000"
  "adlb_retrieve val_data = (\<lambda>td sub rf s. (case vs_slots s (td, sub) of Some (Value t d) \<Rightarrow> (ADLB_SUCCESS, t, d) | _ \<Rightarrow> (ADLB_NOTHING, TYPE_NULL, []), s))"
  "adlb_store val_data = (\<lambda>td sub t d rc rc' s. case vs_slots s (td, sub) of Some (Value _ _) \<Rightarrow> (ADLB_ERROR, s) | _ \<Rightarrow> (ADLB_SUCCESS, s\<lparr>vs_slots := (vs_slots s)((td, sub) \<mapsto> Value t d)\<rparr>))"
  "adlb_exists val_data = (\<lambda>td sub rc s. ((ADLB_SUCCESS, vs_slots s (td, sub) \<noteq> None), s))"
  "adlb_refcount_get val_data = (\<lambda>td rc s. ((ADLB_SUCCESS, \<lparr>rc_read = fst (vs_refs s td), rc_write = snd (vs_refs s td)\<rparr>), s))"
  "adlb_insert_atomic val_data = (\<lambda>td sub rf want s. case vs_slots s (td, sub) of None \<Rightarrow> ((ADLB_SUCCESS, True, None), s\<lparr>vs_slots := (vs_slots s)((td, sub) \<mapsto> Reserved)\<rparr>) | Some Reserved \<Rightarrow> ((ADLB_SUCCESS, False, None), s) | Some (Value t d) \<Rightarrow> ((ADLB_SUCCESS, False, if want then Some (t, d) else None), s))"
  "adlb_create_datum val_data = (\<lambda>i t ex props s. ((ADLB_SUCCESS, max 1 (vs_next s)), s\<lparr>vs_next := max 1 (vs_next s) + 1\<rparr>))"
  "adlb_enumerate val_data = (\<lambda>td count offset rc keys vals s. ((ADLB_SUCCESS, [], 0, TYPE_NULL), s))"
  "adlb_subscribe val_data = (\<lambda>td sub wt s. ((ADLB_SUCCESS, 1), s))"
  "adlb_lock val_data = (\<lambda>td s. ((ADLB_SUCCESS, True), s))"
  "adlb_unlock val_data = (\<lambda>td s. (ADLB_SUCCESS, s))"
  "adlb_unique val_data = (\<lambda>s. ((ADLB_SUCCESS, vs_next s), s\<lparr>vs_next := vs_next s + 1\<rparr>))"
  "adlb_typeof val_data = (\<lambda>td s. ((ADLB_SUCCESS, TYPE_INTEGER), s))"
  "adlb_container_typeof val_data = (\<lambda>td s. ((ADLB_SUCCESS, TYPE_STRING, TYPE_INTEGER), s))"
  "adlb_container_reference val_data = (\<lambda>td sub td' sub' t rc w s. (ADLB_SUCCESS, s))"
  "adlb_container_size val_data = (\<lambda>td rc s. ((ADLB_SUCCESS, 0), s))"
  "adlb_refcount_incr val_data = (\<lambda>td change s. (ADLB_SUCCESS, s\<lparr>vs_refs := (vs_refs s)(td := (fst (vs_refs s td) + rc_read change, snd (vs_refs s td) + rc_write change))\<rparr>))"
  "adlb_read_refcount_enable val_data = (\<lambda>s. (ADLB_SUCCESS, s))"
  "type_tostring val_data = (\<lambda>t. [type_char t])"
  "pack_ref val_data = (\<lambda>i. Some (unary i))"
  "unpack_buffer val_data = (\<lambda>t data pos. if length data < pos + 8 then None else Some (get_sized (if t \<in> {TYPE_CONTAINER, TYPE_MULTISET} then 9 else 8) data pos))"
  by (simp_all add: val_data_def)

end
