(* ===== verification/Nested_Create.thy ===== *)
theory Nested_Create
  imports Container_Cmds Val_Store
begin

text \<open>
  Nested creation by many clients at once. Several workers may create the entry of a container at the
  same time; \<^verbatim>\<open>ADLB_Create_Nested_Impl\<close> must give all of them the same datum. Its ADLB calls
  interleave with those of the others, so the function is cut into steps of one call
  each. The steps, run without interruption, are the function; run in any
  interleaving, all clients agree.
\<close>

section \<open>One ADLB call at a time\<close>

datatype 'obj nested_pc =
    N_Insert
  | N_Report
  | N_Create
  | N_Store int string
  | N_Poll
  | N_Done "'obj res"

definition nested_finish :: "('obj, 'f, 'z) pack_api_scheme \<Rightarrow> adlb_type \<times> string \<Rightarrow> 'obj res" where
  "nested_finish A v =
     (if fst v \<noteq> TYPE_REF then Inl Tcl_Error
      else c_assert (int (length (snd v)) \<le> data_max A)
        (case unpack_ref A (snd v) of None \<Rightarrow> Inl Undefined | Some i \<Rightarrow> Inr (new_wide A i)))"

fun nested_step ::
    "('obj, 'f, 'z) pack_api_scheme \<Rightarrow> ('w, 'y) data_api_scheme \<Rightarrow> int \<Rightarrow> string option \<Rightarrow>
      adlb_retrieve_refc \<Rightarrow> adlb_type \<Rightarrow> type_extra \<Rightarrow> 'obj nested_pc \<Rightarrow> 'w \<Rightarrow> 'obj nested_pc \<times> 'w" where
  "nested_step A D td sub rf type ex N_Insert s =
     (let ((ac, created, val), s) = adlb_insert_atomic D td sub rf True s in
      (if ac \<noteq> ADLB_SUCCESS then N_Report
       else if created then N_Create
       else case val of None \<Rightarrow> N_Poll | Some v \<Rightarrow> N_Done (nested_finish A v), s))"
| "nested_step A D td sub rf type ex N_Report s =
     (N_Done (Inl Tcl_Error), snd (adlb_retrieve D td sub (retrieve_no_refc D) s))"
| "nested_step A D td sub rf type ex N_Create s =
     (let reads = nested_init_count + rc_read (incr_referand rf);
          writes = nested_init_count + rc_write (incr_referand rf) in
      if \<not> int_ok reads \<or> \<not> int_ok writes then (N_Done (Inl Undefined), s)
      else let ((ac, new_id), s) = adlb_create_datum D (id_null A) type ex
             ((default_props A)\<lparr>release_write_refs := turbine_release_write_rc_policy A type,
               read_refcount := reads, write_refcount := writes\<rparr>) s in
        (if ac \<noteq> ADLB_SUCCESS then N_Done (Inl Tcl_Error)
         else case pack_ref D new_id of None \<Rightarrow> N_Done (Inl Tcl_Error)
           | Some packed \<Rightarrow> N_Store new_id packed, s))"
| "nested_step A D td sub rf type ex (N_Store new_id packed) s =
     (let (ac, s) = adlb_store D td sub TYPE_REF packed (decr_self rf)
            \<lparr>rc_read = nested_init_count, rc_write = nested_init_count\<rparr> s in
      (N_Done (if ac \<noteq> ADLB_SUCCESS then Inl Tcl_Error else Inr (new_wide A new_id)), s))"
| "nested_step A D td sub rf type ex N_Poll s =
     (let ((ac, v), s) = adlb_retrieve D td sub rf s in
      (if ac = ADLB_SUCCESS then N_Done (nested_finish A v)
       else if ac = ADLB_NOTHING then N_Poll
       else N_Done (Inl Tcl_Error), s))"
| "nested_step A D td sub rf type ex (N_Done r) s = (N_Done r, s)"

text \<open>
  The steps are those of the code: run to the end, they compute what \<open>nested_body\<close> computes
  with as many polls as the steps allow.
\<close>

fun run_steps ::
    "('obj, 'f, 'z) pack_api_scheme \<Rightarrow> ('w, 'y) data_api_scheme \<Rightarrow> int \<Rightarrow> string option \<Rightarrow>
      adlb_retrieve_refc \<Rightarrow> adlb_type \<Rightarrow> type_extra \<Rightarrow> nat \<Rightarrow> 'obj nested_pc \<Rightarrow> 'w \<Rightarrow> 'obj nested_pc \<times> 'w" where
  "run_steps A D td sub rf type ex 0 pc s = (pc, s)"
| "run_steps A D td sub rf type ex (Suc n) pc s =
     (let (pc, s) = nested_step A D td sub rf type ex pc s in run_steps A D td sub rf type ex n pc s)"

definition pc_result :: "'obj nested_pc \<Rightarrow> 'obj res" where
  "pc_result pc = (case pc of N_Done r \<Rightarrow> r | _ \<Rightarrow> Inl Unfinished)"

lemma run_steps_done [simp]: "run_steps A D td sub rf type ex n (N_Done r) s = (N_Done r, s)"
  by (induction n) auto

lemma nested_result_finish: "nested_result A v w = (nested_finish A v, w)"
  by (cases v; cases "fst v = TYPE_REF")
    (auto simp: nested_result_def nested_finish_def datum_obj_def adlb_datum2tclobj.simps
      c_assert_def tcl_get_def split: option.split)

lemma nested_wait_steps:
  "cmd_bind (nested_wait D td sub rf n None) (nested_result A) w =
    (let (pc, s) = run_steps A D td sub rf type ex n N_Poll (aw_adlb w) in (pc_result pc, w\<lparr>aw_adlb := s\<rparr>))"
proof (induction n arbitrary: w)
  case 0
  show ?case by (simp add: cmd_bind_def cmd_do_def pc_result_def)
next
  case (Suc n)
  obtain ac v s where r: "adlb_retrieve D td sub rf (aw_adlb w) = ((ac, v), s)" by (metis surj_pair)
  obtain t d where v: "v = (t, d)" by (cases v)
  have ready: "nested_wait D td sub rf n (Some (t, d)) = cmd_do (Inr (t, d))" by (cases n) simp_all
  have wait: "nested_wait D td sub rf (Suc n) None w =
      (if ac = ADLB_SUCCESS then (Inr v, w\<lparr>aw_adlb := s\<rparr>)
       else if ac = ADLB_NOTHING then nested_wait D td sub rf n None (w\<lparr>aw_adlb := s\<rparr>)
       else (Inl Tcl_Error, w\<lparr>aw_adlb := s\<rparr>))"
    using r v ready by simp
  show ?case
    using Suc.IH [of "w\<lparr>aw_adlb := s\<rparr>"] r
    by (simp add: cmd_bind_def wait nested_result_finish pc_result_def del: nested_wait.simps)
qed

lemma nested_create_steps:
  "nested_create A D td sub rf type ex w =
    (let (pc, s) = run_steps A D td sub rf type ex (Suc (Suc n)) N_Create (aw_adlb w) in
      (pc_result pc, w\<lparr>aw_adlb := s\<rparr>))"
  by (auto simp: nested_create_def pc_result_def c_int_def cmd_bind_do Let_def tcl_get_def cmd_condition_def
      split: prod.split option.split)

text \<open>
  Cut into its ADLB calls, nested creation is the function of the code: the steps of one
  worker, run without interruption, give the result and the state that the function
  gives, with as many polls as there are steps left for polling.
\<close>

theorem nested_body_steps:
  "nested_body A D (n + 2) td sub rf type ex w =
    (let (pc, s) = run_steps A D td sub rf type ex (n + 3) N_Insert (aw_adlb w) in
      (pc_result pc, w\<lparr>aw_adlb := s\<rparr>))"
proof -
  obtain ac created val s where r: "adlb_insert_atomic D td sub rf True (aw_adlb w) = ((ac, created, val), s)"
    by (metis surj_pair)
  have "nested_wait D td sub rf (n + 2) (Some v) = cmd_do (Inr v)" for v by simp
  then have val: "cmd_bind (nested_wait D td sub rf (n + 2) (Some v)) (nested_result A) w' = (nested_finish A v, w')" for v w'
    by (simp add: nested_result_finish)
  have suc: "n + 3 = Suc (n + 2)" "n + 2 = Suc (Suc n)" by simp_all
  note steps = nested_create_steps [of A D td sub rf type ex "w\<lparr>aw_adlb := s\<rparr>" n]
    nested_wait_steps [of D td sub rf "n + 2" A "w\<lparr>aw_adlb := s\<rparr>" type ex]
  consider "ac \<noteq> ADLB_SUCCESS" | "ac = ADLB_SUCCESS" "created" | "ac = ADLB_SUCCESS" "\<not> created" "val = None"
    | v where "ac = ADLB_SUCCESS" "\<not> created" "val = Some v" by blast
  then show ?thesis
  proof cases
    case 1
    with r show ?thesis
      by (simp add: nested_body_def suc(1) suc(2) pc_result_def split: prod.split)
  next
    case 2
    have "run_steps A D td sub rf type ex (Suc (n + 2)) N_Insert (aw_adlb w) =
        run_steps A D td sub rf type ex (n + 2) N_Create s" using r 2 by simp
    moreover have "nested_body A D (n + 2) td sub rf type ex w = nested_create A D td sub rf type ex (w\<lparr>aw_adlb := s\<rparr>)"
      using r 2 by (simp add: nested_body_def)
    ultimately show ?thesis using steps(1) unfolding suc(1) by (simp add: suc(2) del: run_steps.simps)
  next
    case 3
    with r steps(2) show ?thesis
      unfolding suc(1) nested_body_def by simp
  next
    case 4
    with r val show ?thesis
      unfolding suc(1) nested_body_def by (simp add: pc_result_def)
  qed
qed

section \<open>Many clients\<close>

text \<open>
  What is relied on in ADLB: an entry of a container is free, reserved by the client that
  inserted it, or has a value; insertion, retrieval and storing are atomic, and creation
  makes a new datum, as long as there are ids left. Ids can be packed and unpacked.
\<close>

type_synonym 'w slots = "'w \<Rightarrow> int \<times> string option \<Rightarrow> entry_slot option"

definition same_entries :: "'w slots \<Rightarrow> ('w \<Rightarrow> int set) \<Rightarrow> 'w \<Rightarrow> 'w \<Rightarrow> bool" where
  "same_entries slot made s s' \<longleftrightarrow> slot s' = slot s \<and> made s' = made s"

definition insert_law :: "('w, 'y) data_api_scheme \<Rightarrow> 'w slots \<Rightarrow> ('w \<Rightarrow> int set) \<Rightarrow> bool" where
  "insert_law D slot made \<longleftrightarrow> (\<forall>td sub rf s.
     (slot s (td, sub) = None \<longrightarrow> (\<exists>s'. adlb_insert_atomic D td sub rf True s = ((ADLB_SUCCESS, True, None), s') \<and>
        slot s' = (slot s)((td, sub) \<mapsto> Reserved) \<and> made s' = made s)) \<and>
     (slot s (td, sub) = Some Reserved \<longrightarrow>
        (\<exists>s'. adlb_insert_atomic D td sub rf True s = ((ADLB_SUCCESS, False, None), s') \<and> same_entries slot made s s')) \<and>
     (\<forall>t d. slot s (td, sub) = Some (Value t d) \<longrightarrow>
        (\<exists>s'. adlb_insert_atomic D td sub rf True s = ((ADLB_SUCCESS, False, Some (t, d)), s') \<and>
           same_entries slot made s s')))"

definition retrieve_law :: "('w, 'y) data_api_scheme \<Rightarrow> 'w slots \<Rightarrow> ('w \<Rightarrow> int set) \<Rightarrow> bool" where
  "retrieve_law D slot made \<longleftrightarrow> (\<forall>td sub rf s.
     (slot s (td, sub) = None \<or> slot s (td, sub) = Some Reserved \<longrightarrow>
        (\<exists>v s'. adlb_retrieve D td sub rf s = ((ADLB_NOTHING, v), s') \<and> same_entries slot made s s')) \<and>
     (\<forall>t d. slot s (td, sub) = Some (Value t d) \<longrightarrow>
        (\<exists>s'. adlb_retrieve D td sub rf s = ((ADLB_SUCCESS, t, d), s') \<and> same_entries slot made s s')))"

definition store_law :: "('w, 'y) data_api_scheme \<Rightarrow> 'w slots \<Rightarrow> ('w \<Rightarrow> int set) \<Rightarrow> bool" where
  "store_law D slot made \<longleftrightarrow> (\<forall>td sub t d rc rc' s. slot s (td, sub) = Some Reserved \<longrightarrow>
     (\<exists>s'. adlb_store D td sub t d rc rc' s = (ADLB_SUCCESS, s') \<and> made s' = made s \<and>
        slot s' = (slot s)((td, sub) \<mapsto> Value t d)))"

definition create_law :: "('w, 'y) data_api_scheme \<Rightarrow> 'w slots \<Rightarrow> ('w \<Rightarrow> int set) \<Rightarrow> int set \<Rightarrow> bool" where
  "create_law D slot made ids \<longleftrightarrow> (\<forall>i t ex props s. \<not> ids \<subseteq> made s \<longrightarrow>
     (\<exists>j s'. adlb_create_datum D i t ex props s = ((ADLB_SUCCESS, j), s') \<and>
        slot s' = slot s \<and> made s' = insert j (made s) \<and> j \<notin> made s \<and> j \<in> ids))"

definition entries_ok :: "('w, 'y) data_api_scheme \<Rightarrow> 'w slots \<Rightarrow> ('w \<Rightarrow> int set) \<Rightarrow> int set \<Rightarrow> bool" where
  "entries_ok D slot made ids \<longleftrightarrow>
     insert_law D slot made \<and> retrieve_law D slot made \<and> store_law D slot made \<and> create_law D slot made ids"

text \<open>Every client has its own reference counts and type; a schedule says who moves next.\<close>

fun run_clients ::
    "('obj, 'f, 'z) pack_api_scheme \<Rightarrow> ('w, 'y) data_api_scheme \<Rightarrow> int \<Rightarrow> string option \<Rightarrow>
      (nat \<Rightarrow> adlb_retrieve_refc \<times> adlb_type \<times> type_extra) \<Rightarrow> nat list \<Rightarrow>
      'obj nested_pc list \<times> 'w \<Rightarrow> 'obj nested_pc list \<times> 'w" where
  "run_clients A D td sub args [] st = st"
| "run_clients A D td sub args (c # cs) (pcs, s) =
     (let (rf, type, ex) = args c; (pc, s) = nested_step A D td sub rf type ex (pcs ! c) s in
      run_clients A D td sub args cs (pcs[c := pc], s))"

definition ref_ok :: "('obj, 'f, 'z) pack_api_scheme \<Rightarrow> ('w, 'y) data_api_scheme \<Rightarrow> int \<Rightarrow> string \<Rightarrow> bool" where
  "ref_ok A D i d \<longleftrightarrow> pack_ref D i = Some d \<and> unpack_ref A d = Some i \<and> int (length d) \<le> data_max A"

definition refs_ok :: "('obj, 'f, 'z) pack_api_scheme \<Rightarrow> ('w, 'y) data_api_scheme \<Rightarrow> int set \<Rightarrow> bool" where
  "refs_ok A D ids \<longleftrightarrow> (\<forall>i \<in> ids. \<exists>d. ref_ok A D i d)"

definition counts_ok :: "(nat \<Rightarrow> adlb_retrieve_refc \<times> adlb_type \<times> type_extra) \<Rightarrow> bool" where
  "counts_ok args \<longleftrightarrow> (\<forall>c. int_ok (nested_init_count + rc_read (incr_referand (fst (args c)))) \<and>
     int_ok (nested_init_count + rc_write (incr_referand (fst (args c)))))"

definition nested_inv ::
    "('obj, 'f, 'z) pack_api_scheme \<Rightarrow> ('w, 'y) data_api_scheme \<Rightarrow> ('w \<Rightarrow> int \<times> string option \<Rightarrow> entry_slot option) \<Rightarrow>
      ('w \<Rightarrow> int set) \<Rightarrow> int \<times> string option \<Rightarrow> int set \<Rightarrow> 'obj nested_pc list \<Rightarrow> 'w \<Rightarrow> bool" where
  "nested_inv A D slot made k M pcs s \<longleftrightarrow>
     (case slot s k of
        None \<Rightarrow> set pcs \<subseteq> {N_Insert} \<and> made s = M
      | Some Reserved \<Rightarrow> (\<exists>j < length pcs.
          (\<forall>j' < length pcs. j' \<noteq> j \<longrightarrow> pcs ! j' = N_Insert \<or> pcs ! j' = N_Poll) \<and>
          (pcs ! j = N_Create \<and> made s = M \<or>
           (\<exists>i d. pcs ! j = N_Store i d \<and> ref_ok A D i d \<and> made s = insert i M \<and> i \<notin> M)))
      | Some (Value t d) \<Rightarrow> t = TYPE_REF \<and> (\<exists>i. ref_ok A D i d \<and> made s = insert i M \<and> i \<notin> M \<and>
          set pcs \<subseteq> {N_Insert, N_Poll, N_Done (Inr (new_wide A i))}))"

lemma nested_finish_ok: "ref_ok A D i d \<Longrightarrow> nested_finish A (TYPE_REF, d) = Inr (new_wide A i)"
  by (simp add: ref_ok_def nested_finish_def)

text \<open>The invariant is kept by a step, by the state of the entry and what the client is about to do.\<close>

lemma nested_step_free:
  assumes law: "insert_law D slot made" and I: "nested_inv A D slot made (td, sub) M pcs s" and c: "c < length pcs"
    and step: "nested_step A D td sub rf type ex (pcs ! c) s = (pc, s')" and free: "slot s (td, sub) = None"
  shows "nested_inv A D slot made (td, sub) M (pcs[c := pc]) s'"
proof -
  have pcs: "\<forall>j < length pcs. pcs ! j = N_Insert" "made s = M"
    using I free by (auto simp: nested_inv_def dest: subsetD [OF _ nth_mem])
  from law free obtain s1 where s1: "adlb_insert_atomic D td sub rf True s = ((ADLB_SUCCESS, True, None), s1)"
    "slot s1 = (slot s)((td, sub) \<mapsto> Reserved)" "made s1 = made s"
    unfolding insert_law_def by meson
  then have "pc = N_Create" "s' = s1" using step pcs(1) c by auto
  with s1 pcs c show ?thesis by (auto simp: nested_inv_def intro!: exI [of _ c])
qed

text \<open>While the entry is reserved, one client creates or stores and the others are to insert or poll.\<close>

abbreviation others_wait :: "'obj nested_pc list \<Rightarrow> nat \<Rightarrow> bool" where
  "others_wait pcs j \<equiv> \<forall>j' < length pcs. j' \<noteq> j \<longrightarrow> pcs ! j' = N_Insert \<or> pcs ! j' = N_Poll"

lemma nested_step_waiting:
  assumes laws: "insert_law D slot made" "retrieve_law D slot made"
    and step: "nested_step A D td sub rf type ex pc0 s = (pc, s')" and reserved: "slot s (td, sub) = Some Reserved"
    and pc0: "pc0 = N_Insert \<or> pc0 = N_Poll"
  shows "pc = N_Poll \<and> same_entries slot made s s'"
proof -
  from laws(1) reserved obtain s1 where s1: "adlb_insert_atomic D td sub rf True s = ((ADLB_SUCCESS, False, None), s1)"
    "same_entries slot made s s1"
    unfolding insert_law_def by meson
  from laws(2) reserved obtain v s2 where s2: "adlb_retrieve D td sub rf s = ((ADLB_NOTHING, v), s2)"
    "same_entries slot made s s2"
    unfolding retrieve_law_def by meson
  from pc0 s1 s2 step show ?thesis by auto
qed

lemma nested_step_creating:
  assumes law: "create_law D slot made ids" and R: "refs_ok A D ids"
    and C: "int_ok (nested_init_count + rc_read (incr_referand rf))" "int_ok (nested_init_count + rc_write (incr_referand rf))"
    and room: "\<not> ids \<subseteq> made s" and step: "nested_step A D td sub rf type ex N_Create s = (pc, s')"
  shows "\<exists>i d. pc = N_Store i d \<and> ref_ok A D i d \<and> made s' = insert i (made s) \<and> i \<notin> made s \<and> slot s' = slot s"
proof -
  from law room obtain i s1 where s1: "adlb_create_datum D (id_null A) type ex
      ((default_props A)\<lparr>release_write_refs := turbine_release_write_rc_policy A type,
        read_refcount := nested_init_count + rc_read (incr_referand rf),
        write_refcount := nested_init_count + rc_write (incr_referand rf)\<rparr>) s = ((ADLB_SUCCESS, i), s1)"
    "slot s1 = slot s" "made s1 = insert i (made s)" "i \<notin> made s" "i \<in> ids"
    unfolding create_law_def by blast
  from R s1(5) obtain d where d: "ref_ok A D i d" by (auto simp: refs_ok_def)
  with s1 step C have "pc = N_Store i d" "s' = s1" by (auto simp: Let_def ref_ok_def)
  with s1 d show ?thesis by auto
qed

lemma nested_step_storing:
  assumes law: "store_law D slot made" and reserved: "slot s (td, sub) = Some Reserved" and others: "others_wait pcs c"
    and c: "c < length pcs" and i: "ref_ok A D i d" "made s = insert i M" "i \<notin> M"
    and step: "nested_step A D td sub rf type ex (N_Store i d) s = (pc, s')"
  shows "nested_inv A D slot made (td, sub) M (pcs[c := pc]) s'"
proof -
  from law reserved obtain s1 where s1: "adlb_store D td sub TYPE_REF d (decr_self rf)
      \<lparr>rc_read = nested_init_count, rc_write = nested_init_count\<rparr> s = (ADLB_SUCCESS, s1)"
    "made s1 = made s" "slot s1 = (slot s)((td, sub) \<mapsto> Value TYPE_REF d)"
    unfolding store_law_def by meson
  with step have pc: "pc = N_Done (Inr (new_wide A i))" "s' = s1" by auto
  have "pcs[c := pc] ! k \<in> {N_Insert, N_Poll, pc}" if "k < length pcs" for k
    using that others c by (cases "k = c") auto
  then have "set (pcs[c := pc]) \<subseteq> {N_Insert, N_Poll, N_Done (Inr (new_wide A i))}"
    unfolding pc(1) by (fastforce simp: in_set_conv_nth)
  with s1 i pc(2) show ?thesis by (auto simp: nested_inv_def)
qed

lemma nested_step_reserved:
  assumes E: "entries_ok D slot made ids" and R: "refs_ok A D ids"
    and C: "int_ok (nested_init_count + rc_read (incr_referand rf))" "int_ok (nested_init_count + rc_write (incr_referand rf))"
    and room: "\<not> ids \<subseteq> M" and I: "nested_inv A D slot made (td, sub) M pcs s" and c: "c < length pcs"
    and step: "nested_step A D td sub rf type ex (pcs ! c) s = (pc, s')" and reserved: "slot s (td, sub) = Some Reserved"
  shows "nested_inv A D slot made (td, sub) M (pcs[c := pc]) s'"
proof -
  from E have laws: "insert_law D slot made" "retrieve_law D slot made" "store_law D slot made" "create_law D slot made ids"
    by (simp_all add: entries_ok_def)
  obtain j where j: "j < length pcs" "others_wait pcs j"
    "pcs ! j = N_Create \<and> made s = M \<or> (\<exists>i d. pcs ! j = N_Store i d \<and> ref_ok A D i d \<and> made s = insert i M \<and> i \<notin> M)"
    using I reserved by (auto simp: nested_inv_def)
  consider (wait) "c \<noteq> j" "pcs ! c = N_Insert \<or> pcs ! c = N_Poll" | (create) "c = j" "pcs ! c = N_Create" "made s = M"
    | (store) i d where "c = j" "pcs ! c = N_Store i d" "ref_ok A D i d" "made s = insert i M" "i \<notin> M"
    using j c by metis
  then show ?thesis
  proof cases
    case wait
    with nested_step_waiting [OF laws(1,2) step reserved] reserved j c show ?thesis
      by (auto simp: nested_inv_def same_entries_def nth_list_update intro!: exI [of _ j])
  next
    case create
    have "\<not> ids \<subseteq> made s" using room create(3) by simp
    from nested_step_creating [OF laws(4) R C this step [unfolded create(2)]] create(3) obtain i d where
      new: "pc = N_Store i d" "ref_ok A D i d" "made s' = insert i M" "i \<notin> M" "slot s' = slot s" by auto
    have "others_wait (pcs[c := pc]) j" "pcs[c := pc] ! j = N_Store i d" using j(1,2) create(1) new(1) by auto
    with new reserved j(1) show ?thesis by (auto simp: nested_inv_def intro!: exI [of _ j])
  next
    case store
    then show ?thesis using nested_step_storing [OF laws(3) reserved _ c store(3-5)] j(2) step by simp
  qed
qed

lemma nested_step_value:
  assumes laws: "insert_law D slot made" "retrieve_law D slot made"
    and I: "nested_inv A D slot made (td, sub) M pcs s" and c: "c < length pcs"
    and step: "nested_step A D td sub rf type ex (pcs ! c) s = (pc, s')" and set_to: "slot s (td, sub) = Some (Value t d)"
  shows "nested_inv A D slot made (td, sub) M (pcs[c := pc]) s'"
proof -
  from I set_to obtain i where i: "t = TYPE_REF" "ref_ok A D i d" "made s = insert i M" "i \<notin> M"
    "set pcs \<subseteq> {N_Insert, N_Poll, N_Done (Inr (new_wide A i))}"
    by (auto simp: nested_inv_def)
  from laws(1) set_to obtain s1 where s1: "adlb_insert_atomic D td sub rf True s = ((ADLB_SUCCESS, False, Some (t, d)), s1)"
    "same_entries slot made s s1"
    unfolding insert_law_def by meson
  from laws(2) set_to obtain s2 where s2: "adlb_retrieve D td sub rf s = ((ADLB_SUCCESS, t, d), s2)"
    "same_entries slot made s s2"
    unfolding retrieve_law_def by meson
  have "pcs ! c \<in> {N_Insert, N_Poll, N_Done (Inr (new_wide A i))}" using i(5) c nth_mem by blast
  then have "pc = N_Done (Inr (new_wide A i)) \<and> same_entries slot made s s'"
    using step s1 s2 nested_finish_ok [OF i(2)] i(1) by (auto simp: same_entries_def)
  moreover have "set (pcs[c := pc]) \<subseteq> insert pc (set pcs)" by (rule set_update_subset_insert)
  ultimately have "set (pcs[c := pc]) \<subseteq> {N_Insert, N_Poll, N_Done (Inr (new_wide A i))}" "slot s' = slot s" "made s' = made s"
    using i(5) by (auto simp: same_entries_def)
  with set_to i show ?thesis by (auto simp: nested_inv_def)
qed

lemma nested_inv_step:
  assumes E: "entries_ok D slot made ids" and R: "refs_ok A D ids"
    and C: "int_ok (nested_init_count + rc_read (incr_referand rf))"
      "int_ok (nested_init_count + rc_write (incr_referand rf))"
    and room: "\<not> ids \<subseteq> M"
    and I: "nested_inv A D slot made (td, sub) M pcs s" and c: "c < length pcs"
    and step: "nested_step A D td sub rf type ex (pcs ! c) s = (pc, s')"
  shows "nested_inv A D slot made (td, sub) M (pcs[c := pc]) s'"
proof -
  consider "slot s (td, sub) = None" | "slot s (td, sub) = Some Reserved" | t d where "slot s (td, sub) = Some (Value t d)"
    by (metis entry_slot.exhaust option.exhaust)
  then show ?thesis
    using nested_step_free [OF _ I c step] nested_step_reserved [OF E R C room I c step] nested_step_value [OF _ _ I c step] E
    by cases (auto simp: entries_ok_def)
qed

lemma nested_inv_run:
  assumes E: "entries_ok D slot made ids" and R: "refs_ok A D ids" and C: "counts_ok args" and room: "\<not> ids \<subseteq> M"
    and "nested_inv A D slot made (td, sub) M pcs s" "set sched \<subseteq> {..<length pcs}"
    and "run_clients A D td sub args sched (pcs, s) = (pcs', s')"
  shows "nested_inv A D slot made (td, sub) M pcs' s'" "length pcs' = length pcs"
proof -
  have "nested_inv A D slot made (td, sub) M pcs' s' \<and> length pcs' = length pcs"
    using assms(5-7)
  proof (induction sched arbitrary: pcs s)
    case (Cons c cs)
    obtain rf type ex where a: "args c = (rf, type, ex)" by (metis prod.exhaust)
    obtain pc s1 where p: "nested_step A D td sub rf type ex (pcs ! c) s = (pc, s1)" by fastforce
    have "int_ok (nested_init_count + rc_read (incr_referand rf))" "int_ok (nested_init_count + rc_write (incr_referand rf))"
      using C a unfolding counts_ok_def by (metis fst_conv)+
    from nested_inv_step [OF E R this room Cons.prems(1) _ p] Cons.prems(2)
    have "nested_inv A D slot made (td, sub) M (pcs[c := pc]) s1" by simp
    from Cons.IH [OF this] show ?case using Cons.prems a p by simp
  qed simp
  then show "nested_inv A D slot made (td, sub) M pcs' s'" "length pcs' = length pcs" by simp_all
qed

lemma nested_inv_start:
  "slot s k = None \<Longrightarrow> nested_inv A D slot made k (made s) (replicate n N_Insert) s"
  by (auto simp: nested_inv_def)

lemma nested_inv_done:
  assumes "nested_inv A D slot made k M pcs s"
  shows "\<exists>i. made s \<subseteq> insert i M \<and> (\<forall>r. N_Done r \<in> set pcs \<longrightarrow> r = Inr (new_wide A i))"
proof -
  consider "slot s k = None" | "slot s k = Some Reserved" | t d where "slot s k = Some (Value t d)"
    by (metis entry_slot.exhaust option.exhaust)
  then show ?thesis
  proof cases
    case 1
    with assms show ?thesis by (auto simp: nested_inv_def)
  next
    case 2
    with assms obtain j where j: "\<forall>j' < length pcs. j' \<noteq> j \<longrightarrow> pcs ! j' = N_Insert \<or> pcs ! j' = N_Poll"
      "pcs ! j = N_Create \<and> made s = M \<or> (\<exists>i d. pcs ! j = N_Store i d \<and> made s = insert i M)"
      by (auto simp: nested_inv_def)
    then have "N_Done r \<notin> set pcs" for r by (auto simp: in_set_conv_nth)
    with j(2) show ?thesis by blast
  next
    case 3
    with assms show ?thesis by (auto simp: nested_inv_def)
  qed
qed

text \<open>
  C10: Any number of workers may create the same entry of a container at the same time, with their
  ADLB calls interleaved in any order: at most one datum is created, and every worker
  that has finished has been given its id. No worker fails.
\<close>

theorem nested_create_agrees:
  assumes E: "entries_ok D slot made ids" and R: "refs_ok A D ids" and C: "counts_ok args"
    and room: "\<not> ids \<subseteq> made s" and free: "slot s (td, sub) = None" and sched: "set sched \<subseteq> {..<n}"
    and run: "run_clients A D td sub args sched (replicate n N_Insert, s) = (pcs, s')"
  shows "\<exists>i. made s' \<subseteq> insert i (made s) \<and> (\<forall>pc \<in> set pcs. \<forall>r. pc = N_Done r \<longrightarrow> r = Inr (new_wide A i))"
proof -
  have "nested_inv A D slot made (td, sub) (made s) (replicate n N_Insert) s"
    using free by (rule nested_inv_start)
  from nested_inv_done [OF nested_inv_run(1) [OF E R C room this _ run]] sched show ?thesis by auto
qed

text \<open>
  Progress. \<open>Q\<close> is a stage no client comes back to; once every client has moved, it is empty.
\<close>

lemma stage_left:
  assumes E: "entries_ok D slot made ids" and R: "refs_ok A D ids" and C: "counts_ok args" and room: "\<not> ids \<subseteq> M"
    and inv: "nested_inv A D slot made (td, sub) M pcs s" and past: "set pcs \<inter> P = {}"
    and leave: "\<And>pcs s c rf type ex. nested_inv A D slot made (td, sub) M pcs s \<Longrightarrow> set pcs \<inter> P = {} \<Longrightarrow>
        c < length pcs \<Longrightarrow> fst (nested_step A D td sub rf type ex (pcs ! c) s) \<notin> P \<union> Q"
    and sched: "set sched \<subseteq> {..<length pcs}" and run: "run_clients A D td sub args sched (pcs, s) = (pcs', s')"
  shows "set pcs' \<inter> P = {} \<and> (\<forall>c < length pcs. c \<in> set sched \<or> pcs ! c \<notin> Q \<longrightarrow> pcs' ! c \<notin> Q)"
  using inv past sched run
proof (induction sched arbitrary: pcs s)
  case (Cons c cs)
  obtain rf type ex where a: "args c = (rf, type, ex)" by (metis prod.exhaust)
  obtain pc s1 where p: "nested_step A D td sub rf type ex (pcs ! c) s = (pc, s1)" by fastforce
  have ok: "int_ok (nested_init_count + rc_read (incr_referand rf))" "int_ok (nested_init_count + rc_write (incr_referand rf))"
    using C a unfolding counts_ok_def by (metis fst_conv)+
  have c: "c < length pcs" using Cons.prems(3) by simp
  have pc: "pc \<notin> P" "pc \<notin> Q" using leave [OF Cons.prems(1,2) c, of rf type ex] p by auto
  have "set (pcs[c := pc]) \<inter> P = {}" using Cons.prems(2) pc(1) set_update_subset_insert [of pcs c pc] by auto
  from Cons.IH [OF nested_inv_step [OF E R ok room Cons.prems(1) c p] this] Cons.prems(3,4) a p
  have "set pcs' \<inter> P = {} \<and> (\<forall>c' < length pcs. c' \<in> set cs \<or> pcs[c := pc] ! c' \<notin> Q \<longrightarrow> pcs' ! c' \<notin> Q)" by simp
  then show ?case using pc(2) c by (auto simp: nth_list_update)
qed auto

lemma stage_round:
  assumes "entries_ok D slot made ids" "refs_ok A D ids" "counts_ok args" "\<not> ids \<subseteq> M"
    and inv: "nested_inv A D slot made (td, sub) M pcs s" and past: "set pcs \<inter> P = {}"
    and leave: "\<And>pcs s c rf type ex. nested_inv A D slot made (td, sub) M pcs s \<Longrightarrow> set pcs \<inter> P = {} \<Longrightarrow>
        c < length pcs \<Longrightarrow> fst (nested_step A D td sub rf type ex (pcs ! c) s) \<notin> P \<union> Q"
    and sched: "set sched = {..<n}" and len: "length pcs = n"
    and run: "run_clients A D td sub args sched (pcs, s) = (pcs', s')"
  shows "set pcs' \<inter> (P \<union> Q) = {} \<and> nested_inv A D slot made (td, sub) M pcs' s' \<and> length pcs' = n"
proof -
  have sub: "set sched \<subseteq> {..<length pcs}" using sched len by simp
  note inv' = nested_inv_run [OF assms(1-4) inv sub run]
  have "set pcs' \<inter> P = {}" "\<And>c. c < length pcs \<Longrightarrow> pcs' ! c \<notin> Q"
    using stage_left [OF assms(1-4) inv past leave sub run] sched len by auto
  with inv' len show ?thesis by (auto simp: in_set_conv_nth)
qed

text \<open>The four stages.\<close>

lemma step_not_insert: "fst (nested_step A D td sub rf type ex pc s) \<noteq> N_Insert"
  by (cases pc) (auto simp: Let_def split: prod.split option.split)

lemma step_not_create: "pc \<noteq> N_Insert \<Longrightarrow> fst (nested_step A D td sub rf type ex pc s) \<noteq> N_Create"
  by (cases pc) (auto simp: Let_def split: prod.split option.split)

lemma step_not_store: "pc \<noteq> N_Create \<Longrightarrow> fst (nested_step A D td sub rf type ex pc s) \<noteq> N_Store i d"
  by (cases pc) (auto simp: Let_def split: prod.split option.split)

lemma run_clients_append:
  "run_clients A D td sub args (cs @ ds) st = run_clients A D td sub args ds (run_clients A D td sub args cs st)"
  by (induction cs arbitrary: st) (auto simp: Let_def split: prod.split)

abbreviation stores :: "'obj nested_pc set" where
  "stores \<equiv> {pc. \<exists>i d. pc = N_Store i d}"

lemma nested_inv_value:
  assumes "nested_inv A D slot made k M pcs s" "pcs \<noteq> []"
    "set pcs \<inter> ({N_Insert, N_Create} \<union> stores) = {}"
  shows "\<exists>t d i. slot s k = Some (Value t d) \<and> made s = insert i M \<and> i \<notin> M \<and>
    set pcs \<subseteq> {N_Poll, N_Done (Inr (new_wide A i))}"
proof -
  have no: "pcs ! j \<noteq> N_Insert" "pcs ! j \<noteq> N_Create" "pcs ! j \<noteq> N_Store i d" if "j < length pcs" for j i d
    using assms(3) nth_mem [OF that] by auto
  consider "slot s k = None" | "slot s k = Some Reserved" | t d where "slot s k = Some (Value t d)"
    by (metis entry_slot.exhaust option.exhaust)
  then show ?thesis
  proof cases
    case 1
    with assms(1) have "set pcs \<subseteq> {N_Insert}" by (simp add: nested_inv_def)
    with assms(2,3) show ?thesis by (cases pcs) auto
  next
    case 2
    with assms(1) obtain j where "j < length pcs" "pcs ! j = N_Create \<or> (\<exists>i d. pcs ! j = N_Store i d)"
      by (auto simp: nested_inv_def)
    with no show ?thesis by blast
  next
    case 3
    with assms(1) obtain i where "made s = insert i M" "i \<notin> M"
      "set pcs \<subseteq> {N_Insert, N_Poll, N_Done (Inr (new_wide A i))}" by (auto simp: nested_inv_def)
    with assms(3) 3 show ?thesis by (intro exI [of _ t] exI [of _ d] exI [of _ i]) auto
  qed
qed

text \<open>
  C35: No worker waits for ever. Once every worker has been scheduled in each of four rounds, of any
  order and length, all have finished with the same new datum: the polling loop of
  \<^verbatim>\<open>ADLB_Create_Nested_Impl\<close> ends.
\<close>

theorem nested_create_finishes:
  fixes A :: "('obj, 'f, 'z) pack_api_scheme" and D :: "('w, 'y) data_api_scheme"
  assumes E: "entries_ok D slot made ids" and R: "refs_ok A D ids" and C: "counts_ok args"
    and room: "\<not> ids \<subseteq> made s" and free: "slot s (td, sub) = None" and n: "0 < n"
    and rounds: "length rounds = 4" "\<forall>r \<in> set rounds. set r = {..<n}"
    and run: "run_clients A D td sub args (concat rounds) (replicate n N_Insert, s) = (pcs, s')"
  shows "\<exists>i. i \<notin> made s \<and> made s' = insert i (made s) \<and> pcs = replicate n (N_Done (Inr (new_wide A i)))"
proof -
  let ?inv = "nested_inv A D slot made (td, sub) (made s)" and ?run = "run_clients A D td sub args"
  obtain r1 r2 r3 r4 where r: "rounds = [r1, r2, r3, r4]"
    using rounds(1) by (auto simp: numeral_eq_Suc length_Suc_conv)
  obtain p1 s1 p2 s2 p3 s3 where steps: "?run r1 (replicate n N_Insert, s) = (p1, s1)"
    "?run r2 (p1, s1) = (p2, s2)" "?run r3 (p2, s2) = (p3, s3)" "?run r4 (p3, s3) = (pcs, s')"
    using run by (auto simp: r run_clients_append) (metis prod.exhaust)
  have sched: "set r1 = {..<n}" "set r2 = {..<n}" "set r3 = {..<n}" "set r4 = {..<n}"
    using rounds(2) r by auto
  have i0: "?inv (replicate n N_Insert) s" using free by (rule nested_inv_start)
  note stage = stage_round [OF E R C room]
  have 1: "set p1 \<inter> ({} \<union> {N_Insert}) = {} \<and> ?inv p1 s1 \<and> length p1 = n"
    by (rule stage [OF i0 _ _ sched(1) _ steps(1)]) (simp_all add: step_not_insert)
  have 2: "set p2 \<inter> ({N_Insert} \<union> {N_Create}) = {} \<and> ?inv p2 s2 \<and> length p2 = n"
  proof (rule stage [OF _ _ _ sched(2) _ steps(2)])
    fix pcs :: "'obj nested_pc list" and s c rf type ex
    assume "set pcs \<inter> {N_Insert} = {}" "c < length pcs"
    then have "pcs ! c \<noteq> N_Insert" using nth_mem by blast
    then show "fst (nested_step A D td sub rf type ex (pcs ! c) s) \<notin> {N_Insert} \<union> {N_Create}"
      by (simp add: step_not_insert step_not_create)
  qed (use 1 in simp_all)
  have 3: "set p3 \<inter> ({N_Insert, N_Create} \<union> stores) = {} \<and> ?inv p3 s3 \<and> length p3 = n"
  proof (rule stage [OF _ _ _ sched(3) _ steps(3)])
    fix pcs :: "'obj nested_pc list" and s c rf type ex
    assume "set pcs \<inter> {N_Insert, N_Create} = {}" "c < length pcs"
    then have "pcs ! c \<noteq> N_Insert" "pcs ! c \<noteq> N_Create" using nth_mem by blast+
    then show "fst (nested_step A D td sub rf type ex (pcs ! c) s) \<notin> {N_Insert, N_Create} \<union> stores"
      by (simp add: step_not_insert step_not_create step_not_store)
  qed (use 2 in auto)
  have 4: "set pcs \<inter> (({N_Insert, N_Create} \<union> stores) \<union> {N_Poll}) = {} \<and> ?inv pcs s' \<and> length pcs = n"
  proof (rule stage [OF _ _ _ sched(4) _ steps(4)])
    fix pcs :: "'obj nested_pc list" and s0 c rf type ex
    assume I: "?inv pcs s0" and past: "set pcs \<inter> ({N_Insert, N_Create} \<union> stores) = {}" and c: "c < length pcs"
    have "pcs \<noteq> []" using c by auto
    from nested_inv_value [OF I this past] obtain t d i where
      v: "slot s0 (td, sub) = Some (Value t d)" "set pcs \<subseteq> {N_Poll, N_Done (Inr (new_wide A i))}" by blast
    from v(1) E obtain s1 where "adlb_retrieve D td sub rf s0 = ((ADLB_SUCCESS, t, d), s1)"
      unfolding entries_ok_def retrieve_law_def by meson
    moreover have "pcs ! c = N_Poll \<or> pcs ! c = N_Done (Inr (new_wide A i))" using v(2) nth_mem [OF c] by auto
    ultimately show "fst (nested_step A D td sub rf type ex (pcs ! c) s0) \<notin>
        ({N_Insert, N_Create} \<union> stores) \<union> {N_Poll}" by auto
  qed (use 3 in auto)
  have len: "length pcs = n" "pcs \<noteq> []" using 1 2 3 4 n by auto
  have "set pcs \<inter> ({N_Insert, N_Create} \<union> stores) = {}" "?inv pcs s'" using 4 by auto
  from nested_inv_value [OF this(2) len(2) this(1)] obtain i where
    "made s' = insert i (made s)" "i \<notin> made s" "set pcs \<subseteq> {N_Poll, N_Done (Inr (new_wide A i))}" by blast
  moreover from this(3) 4 have "set pcs \<subseteq> {N_Done (Inr (new_wide A i))}" by auto
  then have "pcs = replicate n (N_Done (Inr (new_wide A i)))"
    using len(1) by (intro replicate_eqI) auto
  ultimately show ?thesis by blast
qed

section \<open>An instance\<close>

lemma val_entries_ok:
  "entries_ok val_data vs_slots (\<lambda>s. {1..<vs_next s}) {1..900}"
  by (auto simp: entries_ok_def insert_law_def retrieve_law_def store_law_def create_law_def same_entries_def
 subset_iff split: option.splits entry_slot.splits)

lemma val_pack_refs [simp]:
  "unpack_ref val_pack d = Some (fst (un_unary d))" "new_wide val_pack = V_int"
  by (simp_all add: val_pack_defs)

lemma val_refs_ok: "refs_ok val_pack val_data {1..900}"
  using un_unary [of _ "[]"] by (auto simp: refs_ok_def ref_ok_def) (simp add: unary_def)

definition plain_args :: "nat \<Rightarrow> adlb_retrieve_refc \<times> adlb_type \<times> type_extra" where
  "plain_args c = (retrieve_no_refc val_data, TYPE_CONTAINER, Extra_Container TYPE_STRING TYPE_INTEGER)"

lemma plain_counts_ok: "counts_ok plain_args"
  by (simp add: counts_ok_def plain_args_def nested_init_count_def int_ok_def INT_MAX_def INT_MIN_def)

lemma val_room: "\<not> {1..900} \<subseteq> {1..<vs_next val_store0}" "vs_slots val_store0 k = None"
  by (auto simp: val_store0_def)

lemma nested_create_agrees_witness:
  "case run_clients val_pack val_data 7 (Some ''k'') plain_args [1, 0, 0, 1, 1] (replicate 2 N_Insert, val_store0) of
    (pcs, s') \<Rightarrow> \<exists>i. {1..<vs_next s'} \<subseteq> {i} \<and> (set pcs \<inter> range N_Done \<subseteq> {N_Done (Inr (V_int i))})"
proof -
  obtain pcs s' where run: "run_clients val_pack val_data 7 (Some ''k'') plain_args [1, 0, 0, 1, 1]
      (replicate 2 N_Insert, val_store0) = (pcs, s')" by fastforce
  from nested_create_agrees [OF val_entries_ok val_refs_ok plain_counts_ok val_room _ run]
  obtain i where "{1..<vs_next s'} \<subseteq> insert i {1..<vs_next val_store0}"
    "\<forall>pc \<in> set pcs. \<forall>r. pc = N_Done r \<longrightarrow> r = Inr (V_int i)" by auto
  with run show ?thesis by (auto simp: val_store0_def)
qed

lemma nested_create_finishes_witness:
  "case run_clients val_pack val_data 7 (Some ''k'') plain_args (concat (replicate 4 [1, 0])) (replicate 2 N_Insert, val_store0) of
    (pcs, s') \<Rightarrow> \<exists>i. vs_next s' \<noteq> 1 \<and> pcs = replicate 2 (N_Done (Inr (V_int i)))"
proof -
  obtain pcs s' where run: "run_clients val_pack val_data 7 (Some ''k'') plain_args (concat (replicate 4 [1, 0]))
      (replicate 2 N_Insert, val_store0) = (pcs, s')" by fastforce
  have "{0, 1} = {..<2 :: nat}" by auto
  with nested_create_finishes [OF val_entries_ok val_refs_ok plain_counts_ok val_room _ _ _ run]
  obtain i where "{1..<vs_next s'} = insert i {1..<vs_next val_store0}"
    "pcs = replicate 2 (N_Done (Inr (V_int i)))" by auto
  with run show ?thesis by (auto simp: val_store0_def)
qed

end
