(* ===== verification/Refcount_Cmds.thy ===== *)
theory Refcount_Cmds
  imports Val_Store
begin

text \<open>
  The small commands of \<^verbatim>\<open>src/tcl/adlb/tcl-adlb.c\<close>: subscriptions, locks, unique ids, types,
  sizes and reference counts.
\<close>

definition ADLB_Subscribe_Cmd ::
    "('obj, 'f, 'z) tcl_api_scheme \<Rightarrow> 'obj handle_api \<Rightarrow> ('w, 'y) data_api_scheme \<Rightarrow> mem \<Rightarrow>
      'obj list \<Rightarrow> ('obj, ('w, 't) adlb_world) cmd" where
  "ADLB_Subscribe_Cmd A H D m objv =
     cmd_bind (cmd_condition (length objv = 3)) (\<lambda>_.
     cmd_bind (cmd_do (parse_handle_arg H m (objv ! 1))) (\<lambda>(td, sub).
     cmd_bind (cmd_do (tcl_get (tcl_int A (objv ! 2)))) (\<lambda>work_type.
     cmd_bind (adlb_call (adlb_subscribe D td sub work_type)) (\<lambda>(rc, subscribed).
     cmd_bind (cmd_condition (rc = ADLB_SUCCESS)) (\<lambda>_.
       cmd_do (Inr (new_wide A subscribed)))))))"

definition ADLB_Lock_Cmd ::
    "('obj, 'f, 'z) tcl_api_scheme \<Rightarrow> ('w, 'y) data_api_scheme \<Rightarrow> 'obj list \<Rightarrow> ('obj, ('w, 't) adlb_world) cmd" where
  "ADLB_Lock_Cmd A D objv =
     cmd_bind (cmd_condition (length objv = 2)) (\<lambda>_.
     cmd_bind (cmd_do (tcl_get (tcl_wide A (objv ! 1)))) (\<lambda>td.
     cmd_bind (adlb_call (adlb_lock D td)) (\<lambda>(rc, locked).
     cmd_bind (cmd_condition (rc = ADLB_SUCCESS)) (\<lambda>_.
       cmd_do (Inr (new_boolean A locked))))))"

definition ADLB_Unlock_Cmd ::
    "('obj, 'f, 'z) tcl_api_scheme \<Rightarrow> ('w, 'y) data_api_scheme \<Rightarrow> 'obj list \<Rightarrow> (unit, ('w, 't) adlb_world) cmd" where
  "ADLB_Unlock_Cmd A D objv =
     cmd_bind (cmd_condition (length objv = 2)) (\<lambda>_.
     cmd_bind (cmd_do (tcl_get (tcl_wide A (objv ! 1)))) (\<lambda>td.
     cmd_bind (adlb_call (adlb_unlock D td)) (\<lambda>rc.
       cmd_condition (rc = ADLB_SUCCESS))))"

definition ADLB_Unique_Cmd ::
    "('obj, 'f, 'z) tcl_api_scheme \<Rightarrow> ('w, 'y) data_api_scheme \<Rightarrow> 'obj list \<Rightarrow> ('obj, ('w, 't) adlb_world) cmd" where
  "ADLB_Unique_Cmd A D objv =
     cmd_bind (cmd_condition (length objv = 1)) (\<lambda>_.
     cmd_bind (adlb_call (adlb_unique D)) (\<lambda>(rc, td).
     cmd_bind (cmd_do (c_assert (rc = ADLB_SUCCESS) (Inr ()))) (\<lambda>_.
       cmd_do (Inr (new_wide A td)))))"

definition ADLB_Typeof_Cmd ::
    "('obj, 'f, 'z) tcl_api_scheme \<Rightarrow> ('w, 'y) data_api_scheme \<Rightarrow> 'obj list \<Rightarrow> ('obj, ('w, 't) adlb_world) cmd" where
  "ADLB_Typeof_Cmd A D objv =
     cmd_bind (cmd_condition (length objv = 2)) (\<lambda>_.
     cmd_bind (cmd_do (tcl_get (tcl_wide A (objv ! 1)))) (\<lambda>td.
     cmd_bind (adlb_call (adlb_typeof D td)) (\<lambda>(rc, type).
     cmd_bind (cmd_condition (rc = ADLB_SUCCESS)) (\<lambda>_.
       cmd_do (Inr (new_string A (type_tostring D type)))))))"

text \<open>The names of the two types are crossed over.\<close>

definition ADLB_Container_Typeof_Cmd ::
    "('obj, 'f, 'z) tcl_api_scheme \<Rightarrow> ('w, 'y) data_api_scheme \<Rightarrow> 'obj list \<Rightarrow> ('obj, ('w, 't) adlb_world) cmd" where
  "ADLB_Container_Typeof_Cmd A D objv =
     cmd_bind (cmd_condition (length objv = 2)) (\<lambda>_.
     cmd_bind (cmd_do (tcl_get (tcl_wide A (objv ! 1)))) (\<lambda>td.
     cmd_bind (adlb_call (adlb_container_typeof D td)) (\<lambda>(rc, key_type, val_type).
     cmd_bind (cmd_condition (rc = ADLB_SUCCESS)) (\<lambda>_.
     let key_type_string = type_tostring D val_type; val_type_string = type_tostring D key_type in
       cmd_do (Inr (new_list A [new_string A key_type_string, new_string A val_type_string]))))))"

definition ADLB_Container_Size_Cmd ::
    "('obj, 'f, 'z) tcl_api_scheme \<Rightarrow> ('w, 'y) data_api_scheme \<Rightarrow> 'obj list \<Rightarrow> ('obj, ('w, 't) adlb_world) cmd" where
  "ADLB_Container_Size_Cmd A D objv =
     cmd_bind (cmd_condition (2 \<le> length objv)) (\<lambda>_.
     cmd_bind (cmd_do (tcl_get (tcl_wide A (objv ! 1)))) (\<lambda>container_id.
     cmd_bind (cmd_do (opt_refcs A objv 2 (no_refc D))) (\<lambda>(decr, argpos).
     cmd_bind (cmd_condition (argpos = length objv)) (\<lambda>_.
     cmd_bind (adlb_call (adlb_container_size D container_id decr)) (\<lambda>(rc, size).
     cmd_bind (cmd_condition (rc = ADLB_SUCCESS)) (\<lambda>_.
       cmd_do (Inr (new_wide A size))))))))"

section \<open>Reference counts\<close>

definition ADLB_Write_Refcount_Incr_Cmd ::
    "('obj, 'f, 'z) tcl_api_scheme \<Rightarrow> 'obj handle_api \<Rightarrow> ('w, 'y) data_api_scheme \<Rightarrow> mem \<Rightarrow>
      'obj list \<Rightarrow> (unit, ('w, 't) adlb_world) cmd" where
  "ADLB_Write_Refcount_Incr_Cmd A H D m objv =
     cmd_bind (cmd_condition (length objv = 2 \<or> length objv = 3)) (\<lambda>_.
     cmd_bind (cmd_do (ADLB_Extract_Handle_ID H (objv ! 1) m)) (\<lambda>container_id.
     cmd_bind (cmd_do (if length objv = 3 then tcl_get (tcl_int A (objv ! 2))
                       else Inr (rc_write (write_refc D)))) (\<lambda>amount.
     cmd_bind (adlb_call (adlb_refcount_incr D container_id ((write_refc D)\<lparr>rc_write := amount\<rparr>))) (\<lambda>rc.
       cmd_condition (rc = ADLB_SUCCESS)))))"

definition ADLB_Write_Refcount_Decr_Cmd ::
    "('obj, 'f, 'z) tcl_api_scheme \<Rightarrow> ('w, 'y) data_api_scheme \<Rightarrow> 'obj list \<Rightarrow> (unit, ('w, 't) adlb_world) cmd" where
  "ADLB_Write_Refcount_Decr_Cmd A D objv =
     cmd_bind (cmd_condition (length objv = 2 \<or> length objv = 3)) (\<lambda>_.
     cmd_bind (cmd_do (tcl_get (tcl_wide A (objv ! 1)))) (\<lambda>container_id.
     cmd_bind (cmd_do (if length objv = 3 then tcl_get (tcl_int A (objv ! 2)) else Inr 1)) (\<lambda>decr_w.
     cmd_bind (cmd_do (c_int (- decr_w))) (\<lambda>change.
     cmd_bind (adlb_call (adlb_refcount_incr D container_id \<lparr>rc_read = 0, rc_write = change\<rparr>)) (\<lambda>rc.
       cmd_condition (rc = ADLB_SUCCESS))))))"

datatype adlb_refcount_type = ADLB_READ_REFCOUNT | ADLB_WRITE_REFCOUNT | ADLB_READWRITE_REFCOUNT

definition ADLB_Refcount_Incr_Impl ::
    "('obj, 'f, 'z) tcl_api_scheme \<Rightarrow> 'obj handle_api \<Rightarrow> ('w, 'y) data_api_scheme \<Rightarrow> mem \<Rightarrow>
      adlb_refcount_type \<Rightarrow> 'obj \<Rightarrow> 'obj option \<Rightarrow> bool \<Rightarrow> (unit, ('w, 't) adlb_world) cmd" where
  "ADLB_Refcount_Incr_Impl A H D m type var amount negate =
     cmd_bind (cmd_do (ADLB_Extract_Handle_ID H var m)) (\<lambda>td.
     cmd_bind (cmd_do (case amount of Some obj \<Rightarrow> tcl_get (tcl_int A obj) | None \<Rightarrow> Inr 1)) (\<lambda>change.
     cmd_bind (cmd_do (if negate then c_int (- change) else Inr change)) (\<lambda>change.
     let incr = (no_refc D)\<lparr>
           rc_read := (if type = ADLB_READ_REFCOUNT \<or> type = ADLB_READWRITE_REFCOUNT then change
                       else rc_read (no_refc D)),
           rc_write := (if type = ADLB_WRITE_REFCOUNT \<or> type = ADLB_READWRITE_REFCOUNT then change
                       else rc_write (no_refc D))\<rparr> in
     cmd_bind (adlb_call (adlb_refcount_incr D td incr)) (\<lambda>rc.
       cmd_condition (rc = ADLB_SUCCESS)))))"

definition refcount_mode :: "('obj, 'f, 'z) tcl_api_scheme \<Rightarrow> 'obj \<Rightarrow> adlb_refcount_type res" where
  "refcount_mode A obj =
     (if tcl_string A obj = ''r'' then Inr ADLB_READ_REFCOUNT
      else if tcl_string A obj = ''w'' then Inr ADLB_WRITE_REFCOUNT
      else if tcl_string A obj = ''rw'' then Inr ADLB_READWRITE_REFCOUNT
      else Inl Tcl_Error)"

definition ADLB_Refcount_Incr_Cmd ::
    "('obj, 'f, 'z) tcl_api_scheme \<Rightarrow> 'obj handle_api \<Rightarrow> ('w, 'y) data_api_scheme \<Rightarrow> mem \<Rightarrow>
      'obj list \<Rightarrow> (unit, ('w, 't) adlb_world) cmd" where
  "ADLB_Refcount_Incr_Cmd A H D m objv =
     cmd_bind (cmd_condition (length objv = 4)) (\<lambda>_.
     cmd_bind (cmd_do (refcount_mode A (objv ! 2))) (\<lambda>mode.
       ADLB_Refcount_Incr_Impl A H D m mode (objv ! 1) (Some (objv ! 3)) False))"

definition ADLB_Read_Refcount_Incr_Cmd ::
    "('obj, 'f, 'z) tcl_api_scheme \<Rightarrow> 'obj handle_api \<Rightarrow> ('w, 'y) data_api_scheme \<Rightarrow> mem \<Rightarrow>
      'obj list \<Rightarrow> (unit, ('w, 't) adlb_world) cmd" where
  "ADLB_Read_Refcount_Incr_Cmd A H D m objv =
     cmd_bind (cmd_condition (length objv = 2 \<or> length objv = 3)) (\<lambda>_.
       ADLB_Refcount_Incr_Impl A H D m ADLB_READ_REFCOUNT (objv ! 1)
         (if length objv = 3 then Some (objv ! 2) else None) False)"

definition ADLB_Read_Refcount_Decr_Cmd ::
    "('obj, 'f, 'z) tcl_api_scheme \<Rightarrow> 'obj handle_api \<Rightarrow> ('w, 'y) data_api_scheme \<Rightarrow> mem \<Rightarrow>
      'obj list \<Rightarrow> (unit, ('w, 't) adlb_world) cmd" where
  "ADLB_Read_Refcount_Decr_Cmd A H D m objv =
     cmd_bind (cmd_condition (length objv = 2 \<or> length objv = 3)) (\<lambda>_.
       ADLB_Refcount_Incr_Impl A H D m ADLB_READ_REFCOUNT (objv ! 1)
         (if length objv = 3 then Some (objv ! 2) else None) True)"

definition ADLB_Enable_Read_Refcount_Cmd ::
    "('w, 'y) data_api_scheme \<Rightarrow> (unit, ('w, 't) adlb_world) cmd" where
  "ADLB_Enable_Read_Refcount_Cmd D =
     cmd_bind (adlb_call (adlb_read_refcount_enable D)) (\<lambda>rc. cmd_condition (rc = ADLB_SUCCESS))"

section \<open>Balanced reference counts\<close>

text \<open>
  What is relied on in ADLB: a change of counts that is accepted adds to the counts of the datum, but
  changes of the read counts are ignored until they are enabled (the usage
  comment of \<^verbatim>\<open>ADLB_Enable_Read_Refcount_Cmd\<close>). \<open>reads_on\<close> says whether they are.
\<close>

definition refcounts_ok ::
    "('w, 'y) data_api_scheme \<Rightarrow> ('w \<Rightarrow> int \<Rightarrow> int \<times> int) \<Rightarrow> ('w \<Rightarrow> bool) \<Rightarrow> bool" where
  "refcounts_ok D counts reads_on \<longleftrightarrow>
     no_refc D = \<lparr>rc_read = 0, rc_write = 0\<rparr> \<and> write_refc D = \<lparr>rc_read = 0, rc_write = 1\<rparr> \<and>
     (\<forall>td change s s'. adlb_refcount_incr D td change s = (ADLB_SUCCESS, s') \<longrightarrow> reads_on s' = reads_on s \<and>
       counts s' = (counts s)(td := (fst (counts s td) + (if reads_on s then rc_read change else 0),
         snd (counts s td) + rc_write change))) \<and>
     (\<forall>s s'. adlb_read_refcount_enable D s = (ADLB_SUCCESS, s') \<longrightarrow> reads_on s' \<and> counts s' = counts s)"

datatype 'obj refcount_call =
    Read_Incr "'obj list" | Read_Decr "'obj list" | Write_Incr "'obj list" | Write_Decr "'obj list"
  | Mode_Incr "'obj list" | Enable_Reads

fun run_call ::
    "('obj, 'f, 'z) tcl_api_scheme \<Rightarrow> 'obj handle_api \<Rightarrow> ('w, 'y) data_api_scheme \<Rightarrow> mem \<Rightarrow>
      'obj refcount_call \<Rightarrow> (unit, ('w, 't) adlb_world) cmd" where
  "run_call A H D m (Read_Incr objv) = ADLB_Read_Refcount_Incr_Cmd A H D m objv"
| "run_call A H D m (Read_Decr objv) = ADLB_Read_Refcount_Decr_Cmd A H D m objv"
| "run_call A H D m (Write_Incr objv) = ADLB_Write_Refcount_Incr_Cmd A H D m objv"
| "run_call A H D m (Write_Decr objv) = ADLB_Write_Refcount_Decr_Cmd A D objv"
| "run_call A H D m (Mode_Incr objv) = ADLB_Refcount_Incr_Cmd A H D m objv"
| "run_call A H D m Enable_Reads = ADLB_Enable_Read_Refcount_Cmd D"

fun run_calls ::
    "('obj, 'f, 'z) tcl_api_scheme \<Rightarrow> 'obj handle_api \<Rightarrow> ('w, 'y) data_api_scheme \<Rightarrow> mem \<Rightarrow>
      'obj refcount_call list \<Rightarrow> (unit, ('w, 't) adlb_world) cmd" where
  "run_calls A H D m [] = cmd_do (Inr ())"
| "run_calls A H D m (c # cs) = cmd_bind (run_call A H D m c) (\<lambda>_. run_calls A H D m cs)"

text \<open>What a call is documented to do: the datum, and what is added to its readers and writers.\<close>

definition amount_of :: "('obj, 'f, 'z) tcl_api_scheme \<Rightarrow> 'obj list \<Rightarrow> nat \<Rightarrow> int" where
  "amount_of A objv i = (if i < length objv then the (tcl_int A (objv ! i)) else 1)"

definition handle_id :: "'obj handle_api \<Rightarrow> mem \<Rightarrow> 'obj \<Rightarrow> int" where
  "handle_id H m obj = projr (ADLB_Extract_Handle_ID H obj m)"

fun call_change ::
    "('obj, 'f, 'z) tcl_api_scheme \<Rightarrow> 'obj handle_api \<Rightarrow> mem \<Rightarrow> 'obj refcount_call \<Rightarrow> int \<times> int \<times> int" where
  "call_change A H m (Read_Incr objv) = (handle_id H m (objv ! 1), amount_of A objv 2, 0)"
| "call_change A H m (Read_Decr objv) = (handle_id H m (objv ! 1), - amount_of A objv 2, 0)"
| "call_change A H m (Write_Incr objv) = (handle_id H m (objv ! 1), 0, amount_of A objv 2)"
| "call_change A H m (Write_Decr objv) = (the (tcl_wide A (objv ! 1)), 0, - amount_of A objv 2)"
| "call_change A H m (Mode_Incr objv) = (handle_id H m (objv ! 1),
     if tcl_string A (objv ! 2) = ''w'' then 0 else amount_of A objv 3,
     if tcl_string A (objv ! 2) = ''r'' then 0 else amount_of A objv 3)"
| "call_change A H m Enable_Reads = (0, 0, 0)"

text \<open>The changes of a sequence of calls, of which those of the read counts are dropped until they are enabled.\<close>

fun call_changes ::
    "('obj, 'f, 'z) tcl_api_scheme \<Rightarrow> 'obj handle_api \<Rightarrow> mem \<Rightarrow> bool \<Rightarrow> 'obj refcount_call list \<Rightarrow> (int \<times> int \<times> int) list" where
  "call_changes A H m on [] = []"
| "call_changes A H m on (c # cs) =
     (let (td, r, w) = call_change A H m c in (td, if on then r else 0, w)) # call_changes A H m (on \<or> c = Enable_Reads) cs"

definition sum_changes :: "(int \<times> int \<times> int) list \<Rightarrow> int \<Rightarrow> int \<times> int" where
  "sum_changes cs td = (sum_list (map (\<lambda>(i, r, w). if i = td then r else 0) cs),
     sum_list (map (\<lambda>(i, r, w). if i = td then w else 0) cs))"

lemma adlb_refcount_counts:
  assumes ok: "refcounts_ok D counts reads_on"
    and run: "(case adlb_refcount_incr D td change (aw_adlb w) of
      (rc, s) \<Rightarrow> cmd_condition (rc = ADLB_SUCCESS) (w\<lparr>aw_adlb := s\<rparr>)) = (Inr (), w')"
  shows "reads_on (aw_adlb w') = reads_on (aw_adlb w)"
    "counts (aw_adlb w') = (counts (aw_adlb w))(td :=
      (fst (counts (aw_adlb w) td) + (if reads_on (aw_adlb w) then rc_read change else 0),
       snd (counts (aw_adlb w) td) + rc_write change))"
proof -
  obtain rc s' where call: "adlb_refcount_incr D td change (aw_adlb w) = (rc, s')" by fastforce
  with run have "rc = ADLB_SUCCESS" "aw_adlb w' = s'"
    by (auto simp: cmd_condition_def cmd_bind_do tcl_condition_def cmd_do_def split: if_splits)
  with ok call show "reads_on (aw_adlb w') = reads_on (aw_adlb w)"
    "counts (aw_adlb w') = (counts (aw_adlb w))(td :=
      (fst (counts (aw_adlb w) td) + (if reads_on (aw_adlb w) then rc_read change else 0),
       snd (counts (aw_adlb w) td) + rc_write change))"
    unfolding refcounts_ok_def by blast+
qed

lemma enable_reads_counts:
  assumes "refcounts_ok D counts reads_on" "ADLB_Enable_Read_Refcount_Cmd D w = (Inr (), w')"
  shows "reads_on (aw_adlb w')" "counts (aw_adlb w') = counts (aw_adlb w)"
proof -
  obtain rc s' where call: "adlb_read_refcount_enable D (aw_adlb w) = (rc, s')" by fastforce
  with assms(2) have "rc = ADLB_SUCCESS" "aw_adlb w' = s'"
    by (auto simp: ADLB_Enable_Read_Refcount_Cmd_def cmd_bind_def adlb_call_def cmd_condition_def tcl_condition_def
        split: if_splits)
  with assms(1) call show "reads_on (aw_adlb w')" "counts (aw_adlb w') = counts (aw_adlb w)"
    unfolding refcounts_ok_def by blast+
qed

lemma run_call_counts:
  assumes ok: "refcounts_ok D counts reads_on" and run: "run_call A H D m c w = (Inr (), w')"
  shows "(reads_on (aw_adlb w') \<longleftrightarrow> reads_on (aw_adlb w) \<or> c = Enable_Reads) \<and>
    counts (aw_adlb w') = (let (td, r, wr) = call_change A H m c in (counts (aw_adlb w))(td :=
      (fst (counts (aw_adlb w) td) + (if reads_on (aw_adlb w) then r else 0), snd (counts (aw_adlb w) td) + wr)))"
proof (cases "c = Enable_Reads")
  case True
  then show ?thesis using enable_reads_counts [OF ok, of w w'] run by simp
next
  case False
  have D: "no_refc D = \<lparr>rc_read = 0, rc_write = 0\<rparr>" "write_refc D = \<lparr>rc_read = 0, rc_write = 1\<rparr>"
    using ok by (auto simp: refcounts_ok_def)
  note defs = ADLB_Read_Refcount_Incr_Cmd_def ADLB_Read_Refcount_Decr_Cmd_def ADLB_Write_Refcount_Incr_Cmd_def
    ADLB_Write_Refcount_Decr_Cmd_def ADLB_Refcount_Incr_Cmd_def ADLB_Refcount_Incr_Impl_def
  show ?thesis
    using run False
    by (cases c)
      (auto simp: defs cmd_bind_do handle_id_def amount_of_def D refcount_mode_def Let_def tcl_get_def c_int_def
        adlb_refcount_counts [OF ok] split: if_splits sum.splits option.splits)
qed


text \<open>A store that counts reads from when they are enabled; a slot that no datum has is the flag.\<close>

definition flag_data :: "val_store data_api" where
  "flag_data = val_data\<lparr>
     adlb_refcount_incr := (\<lambda>td change s. (ADLB_SUCCESS, s\<lparr>vs_refs := (vs_refs s)(td :=
       (fst (vs_refs s td) + (if vs_slots s (- 1, None) \<noteq> None then rc_read change else 0),
        snd (vs_refs s td) + rc_write change))\<rparr>)),
     adlb_read_refcount_enable := (\<lambda>s. (ADLB_SUCCESS, s\<lparr>vs_slots := (vs_slots s)((- 1, None) \<mapsto> Reserved)\<rparr>))\<rparr>"

definition sample_calls :: "val refcount_call list" where
  "sample_calls = [Read_Incr [V_str ''c'', V_int 5, V_int 3], Write_Decr [V_str ''c'', V_int 5], Enable_Reads,
     Mode_Incr [V_str ''c'', V_int 5, V_str ''rw'', V_int 2], Read_Decr [V_str ''c'', V_int 6]]"


end
