(* ===== verification/Data_Correct.thy ===== *)
theory Data_Correct
  imports Container_Cmds Val_Store
begin

text \<open>
  What the data commands guarantee together with ADLB: a value stored is the value retrieved, and
  a lookup that polls returns once the entry is there.
\<close>

lemma cmd_bind_Inr:
  "cmd_bind m k w = (Inr x, w') \<longleftrightarrow> (\<exists>a w1. m w = (Inr a, w1) \<and> k a w1 = (Inr x, w'))"
  by (auto simp: cmd_bind_def split: prod.split sum.split)

lemma cmd_Inr:
  "cmd_do r w = (Inr a, w1) \<longleftrightarrow> r = Inr a \<and> w1 = w"
  "cmd_condition b w = (Inr u, w1) \<longleftrightarrow> b \<and> w1 = w"
  "heap_get g v = (Inr a', v1) \<longleftrightarrow> g (aw_heap v) = Inr a' \<and> v1 = v"
  "adlb_call f v = (Inr b', v1) \<longleftrightarrow> (\<exists>s. f (aw_adlb v) = (b', s) \<and> v1 = v\<lparr>aw_adlb := s\<rparr>)"
  by (auto simp: cmd_do_def cmd_condition_def tcl_condition_def heap_get_def adlb_call_def split: prod.split)

section \<open>Store and retrieve\<close>

text \<open>What is relied on: a datum that was stored can be retrieved.\<close>

definition store_ok :: "('w, 'y) adlb_api_scheme \<Rightarrow> bool" where
  "store_ok D \<longleftrightarrow> (\<forall>td sub type data rc rc' s s' rf. adlb_store D td sub type data rc rc' s = (ADLB_SUCCESS, s') \<longrightarrow>
     (\<exists>s''. adlb_retrieve D td sub rf s' = ((ADLB_SUCCESS, type, data), s'')))"

lemma compound_type_first:
  assumes "get_compound_type A objv argpos = Inr (types, pos)"
  shows "adlb_type_from_obj_extra A (objv ! argpos) = Inr (types ! 0)" "types \<noteq> []"
proof -
  from assms obtain t rest where t: "tree_ok A t" "drop argpos objv = fringe t @ rest"
    using compound_loop_sound [of A objv argpos "[]" types pos] by (auto simp: get_compound_type_def)
  have ne: "fringe t \<noteq> []" by (cases t) auto
  then have "argpos < length objv" using t(2) by (metis append_is_Nil_conv drop_all not_le)
  then have objv: "objv = take argpos objv @ fringe t @ rest" "length (take argpos objv) = argpos"
    using t(2) append_take_drop_id [of argpos objv] by simp_all
  have types: "types = map (type_entry A) (fringe t)"
    using compound_loop_fringe [OF t(1), of "take argpos objv" rest "[]"] assms objv
    by (simp add: get_compound_type_def)
  have "objv ! argpos = hd (fringe t)"
    using objv ne by (metis hd_append2 hd_conv_nth nth_append_length list.collapse append_Cons)
  moreover have "has_type A (hd (fringe t)) UNIV" using t(1) by (cases t) (auto simp: has_type_conv)
  ultimately have "adlb_type_from_obj_extra A (objv ! argpos) = Inr (type_entry A (hd (fringe t)))"
    by (auto simp: has_type_conv)
  then show "adlb_type_from_obj_extra A (objv ! argpos) = Inr (types ! 0)" "types \<noteq> []"
    using ne types by (simp_all add: hd_conv_nth)
qed


definition store_objv :: "val list" where
  "store_objv = [V_str ''c'', V_int 7, V_str ''container'', V_str ''string'', V_str ''multiset'', V_str ''integer'', sample_dict]"

lemma val_store_ok: "store_ok val_data"
  by (auto simp: store_ok_def split: option.splits entry_slot.splits)

lemma val_string_totype [simp]:
  "string_totype val_pack = string_totype val_types" "tcl_int val_pack = tcl_int val_types"
  by (simp_all add: val_pack_def type_api.extend_def)

lemma sample_store_types: "get_compound_type val_pack store_objv 2 = Inr (sample_types, 6)"
  by (simp add: get_compound_type_def store_objv_def sample_types_def compound_loop.simps from_obj_defs)


section \<open>Polling\<close>

text \<open>The state of ADLB after a number of polls of one entry.\<close>

definition polled :: "('w, 'y) adlb_api_scheme \<Rightarrow> int \<Rightarrow> string option \<Rightarrow> nat \<Rightarrow> 'w \<Rightarrow> 'w" where
  "polled D td sub j = (\<lambda>s. snd (adlb_retrieve D td sub (retrieve_no_refc D) s)) ^^ j"

lemma polled_Suc: "polled D td sub (Suc j) s = polled D td sub j (snd (adlb_retrieve D td sub (retrieve_no_refc D) s))"
  by (simp add: polled_def funpow_Suc_right del: funpow.simps)

lemma polled_0 [simp]: "polled D td sub 0 s = s"
  by (simp add: polled_def)

lemma retrieve_spin_returns:
  assumes "\<And>j. j < k \<Longrightarrow> fst (fst (adlb_retrieve D td sub (retrieve_no_refc D) (polled D td sub j (aw_adlb w)))) = ADLB_NOTHING"
    and "adlb_retrieve D td sub (retrieve_no_refc D) (polled D td sub k (aw_adlb w)) = ((rc, type, data), s')"
    and "rc \<noteq> ADLB_NOTHING"
  shows "retrieve_spin D td sub (retrieve_no_refc D) True (k + Suc n) w = (Inr (rc, type, data), w\<lparr>aw_adlb := s'\<rparr>)"
  using assms(1,2)
proof (induction k arbitrary: w)
  case 0
  with assms(3) show ?case by simp
next
  case (Suc k)
  obtain x v s1 where r: "adlb_retrieve D td sub (retrieve_no_refc D) (aw_adlb w) = ((x, v), s1)" by (metis prod.exhaust)
  have "x = ADLB_NOTHING" using Suc.prems(1) [of 0] r by simp
  moreover have "retrieve_spin D td sub (retrieve_no_refc D) True (k + Suc n) (w\<lparr>aw_adlb := s1\<rparr>) = (Inr (rc, type, data), w\<lparr>aw_adlb := s'\<rparr>)"
    using Suc.IH [of "w\<lparr>aw_adlb := s1\<rparr>"] Suc.prems(1) [of "Suc _"] Suc.prems(2) r by (simp add: polled_Suc)
  ultimately show ?case using r by (cases v) simp
qed

lemma refc_self [simp]:
  "(r :: adlb_refc)\<lparr>rc_read := rc_read r, rc_write := rc_write r\<rparr> = r"
  "(x :: adlb_retrieve_refc)\<lparr>decr_self := decr_self x, incr_referand := incr_referand x\<rparr> = x"
  by simp_all

lemma lookup_3:
  assumes "parse_handle_sub_arg H m kind (objv ! 1) (objv ! 2) = Inr (td, sub)" "has_sub D sub" "length objv = 3"
    and "retrieve_spin D td sub (retrieve_no_refc D) spin polls w = (Inr (rc, type, data), w1)"
  shows "ADLB_Lookup_Impl A H D m fuel polls kind spin objv w =
    (if rc \<noteq> ADLB_SUCCESS then (Inl Tcl_Error, w1)
     else if type = TYPE_NULL then (Inl Abort, w1) else datum_obj A fuel type Extra_None data w1)"
  using assms by (simp add: ADLB_Lookup_Impl_def opt_int_def Let_def c_assert_def cmd_bind_def cmd_do_def cmd_condition_def)

text \<open>
  C36: \<^verbatim>\<open>adlb::lookup_spin\<close> polls an entry that is not there yet and returns its value as soon as ADLB
  has it, after any number of polls; \<^verbatim>\<open>adlb::lookup\<close>, which polls once, returns that value only when the
  entry is there at once and fails otherwise.
\<close>

theorem lookup_spin_returns:
  fixes D :: "('w, 'y) adlb_api_scheme" and w :: "('w, 't) adlb_world"
  assumes args: "parse_handle_sub_arg H m ADLB_SUB_CONTAINER (objv ! 1) (objv ! 2) = Inr (td, sub)"
      "has_sub D sub" "length objv = 3"
    and absent: "\<And>j. j < k \<Longrightarrow> fst (fst (adlb_retrieve D td sub (retrieve_no_refc D) (polled D td sub j (aw_adlb w)))) = ADLB_NOTHING"
    and there: "adlb_retrieve D td sub (retrieve_no_refc D) (polled D td sub k (aw_adlb w)) = ((ADLB_SUCCESS, type, data), s')"
      "type \<noteq> TYPE_NULL"
  shows "ADLB_Lookup_Spin_Cmd A H D m fuel (k + Suc n) objv w = datum_obj A fuel type Extra_None data (w\<lparr>aw_adlb := s'\<rparr>) \<and>
    ADLB_Lookup_Cmd A H D m fuel (Suc n) objv w =
      (if k = 0 then datum_obj A fuel type Extra_None data (w\<lparr>aw_adlb := s'\<rparr>)
       else (Inl Tcl_Error, w\<lparr>aw_adlb := polled D td sub 1 (aw_adlb w)\<rparr>))"
proof
  have "retrieve_spin D td sub (retrieve_no_refc D) True (k + Suc n) w = (Inr (ADLB_SUCCESS, type, data), w\<lparr>aw_adlb := s'\<rparr>)"
    using absent there by (intro retrieve_spin_returns) auto
  from lookup_3 [OF args this]
  show "ADLB_Lookup_Spin_Cmd A H D m fuel (k + Suc n) objv w = datum_obj A fuel type Extra_None data (w\<lparr>aw_adlb := s'\<rparr>)"
    using there(2) by (simp add: ADLB_Lookup_Spin_Cmd_def)
next
  obtain rc t d s1 where r: "adlb_retrieve D td sub (retrieve_no_refc D) (aw_adlb w) = ((rc, t, d), s1)"
    by (metis prod.exhaust)
  have "retrieve_spin D td sub (retrieve_no_refc D) False (Suc n) w = (Inr (rc, t, d), w\<lparr>aw_adlb := s1\<rparr>)"
    using r by simp
  note run = lookup_3 [OF args this, of A fuel]
  show "ADLB_Lookup_Cmd A H D m fuel (Suc n) objv w =
      (if k = 0 then datum_obj A fuel type Extra_None data (w\<lparr>aw_adlb := s'\<rparr>)
       else (Inl Tcl_Error, w\<lparr>aw_adlb := polled D td sub 1 (aw_adlb w)\<rparr>))"
  proof (cases k)
    case 0
    then show ?thesis using run r there by (simp add: ADLB_Lookup_Cmd_def polled_def)
  next
    case (Suc j)
    then show ?thesis using run r absent [of 0] by (simp add: ADLB_Lookup_Cmd_def polled_def)
  qed
qed

text \<open>A store whose entry appears at the third poll: a counter stands for what other clients do meanwhile.\<close>

definition late_data :: "val_store data_api" where
  "late_data = val_data\<lparr>adlb_retrieve := (\<lambda>td sub rf s.
     (if vs_next s < 3 then (ADLB_NOTHING, TYPE_NULL, []) else (ADLB_SUCCESS, TYPE_STRING, [CHR ''v'', CHR 0x00]),
      s\<lparr>vs_next := vs_next s + 1\<rparr>))\<rparr>"

definition key_handles :: "val handle_api" where
  "key_handles = val_handles\<lparr>get_str := (\<lambda>v. (5, 1))\<rparr>"

definition key_mem :: mem where
  "key_mem = [5 \<mapsto> [CHR ''k'', CHR 0x00]]"

lemma key_arg: "parse_handle_sub_arg key_handles key_mem ADLB_SUB_CONTAINER (V_int 7) (V_str ''k'') = Inr (7, Some [CHR ''k'', CHR 0x00])"
  by (simp add: parse_handle_sub_arg_def ADLB_Parse_Handle_def ADLB_Extract_Handle_def key_handles_def val_handles_def key_mem_def
      ADLB_Parse_Subscript_def Tcl_GetADLB_Subscript_def sub_value_def ADLB_NO_SUB_def read_bytes_def)

lemma lookup_spin_returns_witness:
  "ADLB_Lookup_Spin_Cmd val_pack key_handles late_data key_mem 0 (2 + Suc 0) [V_str ''c'', V_int 7, V_str ''k'']
      \<lparr>aw_adlb = val_store0, aw_heap = empty_heap, aw_cache = ()\<rparr> =
    (Inr (V_str ''v''), \<lparr>aw_adlb = val_store0\<lparr>vs_next := 4\<rparr>, aw_heap = empty_heap, aw_cache = ()\<rparr>)"
proof -
  have "ADLB_Lookup_Spin_Cmd val_pack key_handles late_data key_mem 0 (2 + Suc 0) [V_str ''c'', V_int 7, V_str ''k'']
      \<lparr>aw_adlb = val_store0, aw_heap = empty_heap, aw_cache = ()\<rparr> =
    datum_obj val_pack 0 TYPE_STRING Extra_None [CHR ''v'', CHR 0x00]
      (\<lparr>aw_adlb = val_store0, aw_heap = empty_heap, aw_cache = ()\<rparr>\<lparr>aw_adlb := val_store0\<lparr>vs_next := 4\<rparr>\<rparr>)"
    by (rule conjunct1 [OF lookup_spin_returns [where td = 7 and sub = "Some [CHR ''k'', CHR 0x00]"]])
      (auto simp: key_arg polled_def late_data_def val_store0_def less_Suc_eq numeral_2_eq_2)
  also have "\<dots> = (Inr (V_str ''v''), \<lparr>aw_adlb = val_store0\<lparr>vs_next := 4\<rparr>, aw_heap = empty_heap, aw_cache = ()\<rparr>)"
    by (simp add: datum_obj_def adlb_datum2tclobj.simps val_pack_def val_types_def val_tcl_def type_api.extend_def tcl_api.extend_def)
  finally show ?thesis .
qed

end
