(* ===== verification/Store_Typed.thy ===== *)
theory Store_Typed
  imports Data_Correct Serialize_Canonical
begin

text \<open>
  Type soundness of \<^verbatim>\<open>adlb::store\<close>: only objects that stand for a value of the declared type, nested
  to any depth, are packed. This is the converse of the laws of packing, which say that such values
  are packed and come back.
\<close>

text \<open>
  What is relied on: Tcl's wide integers have 64 bits, and the keys of a dictionary are distinct.
\<close>

definition objects_ok :: "('obj, 'f, 'z) tcl_api_scheme \<Rightarrow> bool" where
  "objects_ok A \<longleftrightarrow>
     (\<forall>obj i. tcl_wide A obj = Some i \<longrightarrow> LONG_MIN \<le> i \<and> i \<le> LONG_MAX) \<and>
     (\<forall>d es. dict_entries A d = Some es \<longrightarrow> distinct (map (tcl_string A \<circ> fst) es))"

lemma objects_okD:
  assumes "objects_ok A"
  shows "tcl_wide A obj = Some i \<Longrightarrow> LONG_MIN \<le> i \<and> i \<le> LONG_MAX"
    and "dict_entries A d = Some es \<Longrightarrow> distinct (map (tcl_string A \<circ> fst) es)"
  using assms by (auto simp: objects_ok_def)

abbreviation has_value :: "('obj, 'f, 'z) pack_api_scheme \<Rightarrow> compound_type \<Rightarrow> nat \<Rightarrow> 'obj \<Rightarrow> bool" where
  "has_value A types pos obj \<equiv> \<exists>v. typed A types pos v \<and> rep A v obj"

lemma fold_res_each:
  "fold_res f xs s = Inr s' \<Longrightarrow> x \<in> set xs \<Longrightarrow> \<exists>s1 s2. f x s1 = Inr s2"
  by (induction xs arbitrary: s) (auto simp: res_Inr_convs)

text \<open>Elements that have values make a list and a dictionary that have one.\<close>

lemma list_has_value:
  assumes "tcl_list A obj = Some xs" "pos + 1 < length types" "fst (types ! pos) = TYPE_MULTISET"
    and "\<And>x. x \<in> set xs \<Longrightarrow> has_value A types (pos + 1) x"
  shows "has_value A types pos obj"
proof -
  obtain f where f: "\<And>x. x \<in> set xs \<Longrightarrow> typed A types (pos + 1) (f x) \<and> rep A (f x) x"
    using assms(4) by metis
  then have "typed A types pos (A_List (map f xs))" "rep A (A_List (map f xs)) obj"
    using assms(1-3) by (auto simp: list_all2_conv_all_nth)
  then show ?thesis by blast
qed

lemma dict_has_value:
  assumes "objects_ok A" "dict_entries A obj = Some es" "pos + 2 < length types"
    and "fst (types ! pos) = TYPE_CONTAINER" "\<not> pack_pad_size A (fst (types ! (pos + 1)))"
    and "\<And>e. e \<in> set es \<Longrightarrow> has_value A types (pos + 2) (snd e)"
  shows "has_value A types pos obj"
proof -
  obtain f where f: "\<And>e. e \<in> set es \<Longrightarrow> typed A types (pos + 2) (f e) \<and> rep A (f e) (snd e)"
    using assms(6) by metis
  let ?kvs = "map (\<lambda>e. (tcl_string A (fst e), f e)) es"
  have "map fst ?kvs = map (tcl_string A \<circ> fst) es" by simp
  then have "distinct (map fst ?kvs)" using objects_okD(2) [OF assms(1,2)] by (simp only:)
  then have "typed A types pos (A_Dict ?kvs)" "rep A (A_Dict ?kvs) obj"
    using assms(2-5) f by (auto simp: list_all2_conv_all_nth)
  then show ?thesis by blast
qed

text \<open>The three kinds of a position in the types.\<close>

lemma scalar_has_value:
  assumes A: "objects_ok A" and pos: "pos < length types" "types ! pos = (type, extra)"
    and "type \<notin> {TYPE_BLOB, TYPE_STRUCT}" and conv: "adlb_tclobj2datum A h fuel type extra obj = Inr tmp"
  shows "has_value A types pos obj"
proof (cases type)
  case TYPE_INTEGER
  with conv obtain i where i: "tcl_wide A obj = Some i" by (auto simp: adlb_tclobj2datum.simps res_Inr_convs)
  then have "typed A types pos (A_Int i)" "rep A (A_Int i) obj" using TYPE_INTEGER pos objects_okD(1) [OF A] by auto
  then show ?thesis by blast
next
  case TYPE_REF
  with conv obtain i where i: "tcl_wide A obj = Some i" by (auto simp: adlb_tclobj2datum.simps res_Inr_convs)
  then have "typed A types pos (A_Ref i)" "rep A (A_Ref i) obj" using TYPE_REF pos objects_okD(1) [OF A] by auto
  then show ?thesis by blast
next
  case TYPE_FLOAT
  with conv obtain f where i: "tcl_double A obj = Some f" by (auto simp: adlb_tclobj2datum.simps res_Inr_convs)
  then have "typed A types pos (A_Float f)" "rep A (A_Float f) obj" using TYPE_FLOAT pos by auto
  then show ?thesis by blast
next
  case TYPE_STRING
  then have "typed A types pos (A_Str (tcl_string A obj))" "rep A (A_Str (tcl_string A obj)) obj" using pos by auto
  then show ?thesis by blast
qed (use assms in \<open>auto simp: adlb_tclobj2datum.simps\<close>)

lemma types_fringe_simps:
  "length pre = pos \<Longrightarrow> types = map g (pre @ x # xs @ rest) \<Longrightarrow> pos < length types \<and> types ! pos = g x"
  by (simp add: nth_append)

lemma bin_append_has_value:
  fixes A :: "('obj, 'f, 'z) pack_api_scheme"
  assumes A: "objects_ok A" and pad: "\<And>type. pack_pad_size A type \<longleftrightarrow> type \<in> compound_kinds"
  shows "tree_ok A t \<Longrightarrow> types = map (type_entry A) (pre @ fringe t @ rest) \<Longrightarrow>
    \<forall>x \<in> set (fringe t). fst (type_entry A x) \<notin> {TYPE_BLOB, TYPE_STRUCT} \<Longrightarrow>
    adlb_tclobj_bin_append A h fuel types False (length pre) obj prefix out = Inr out' \<Longrightarrow>
    has_value A types (length pre) obj"
proof (induction t arbitrary: pre obj prefix out out')
  case (Simple x)
  obtain type extra where x: "type_entry A x = (type, extra)" "type \<notin> compound_kinds"
    using Simple.prems(1) by (auto simp: has_type_conv)
  have at: "length pre < length types" "types ! length pre = (type, extra)"
    using Simple.prems(2) x(1) by (simp_all add: nth_append)
  from Simple.prems(4) obtain tmp where "adlb_tclobj2datum A h fuel type extra obj = Inr tmp"
    using at x(2) by (subst (asm) adlb_tclobj_bin_append.simps) (auto simp: compound_type_next_def pad res_Inr_convs)
  then show ?case using scalar_has_value [OF A at] Simple.prems(3) x(1) by simp
next
  case (Cont c k v)
  obtain ce where c: "type_entry A c = (TYPE_CONTAINER, ce)" using Cont.prems(1) by (auto simp: has_type_conv)
  obtain kt ke where k: "type_entry A k = (kt, ke)" "kt \<notin> compound_kinds" using Cont.prems(1) by (auto simp: has_type_conv)
  let ?p = "length pre"
  have at: "?p < length types" "types ! ?p = (TYPE_CONTAINER, ce)" "?p + 1 < length types" "types ! (?p + 1) = (kt, ke)"
    using Cont.prems(2) c k(1) by (simp_all add: nth_append)
  have types: "types = map (type_entry A) ((pre @ [c, k]) @ fringe v @ rest)" "length (pre @ [c, k]) = ?p + 2"
    using Cont.prems(2) by simp_all
  from Cont.prems(4) obtain es out1 out2 where es: "dict_entries A obj = Some es" and next2: "?p + 2 < length types" and
    fold: "fold_res (\<lambda>(key, val) out. tcl_append_key_val A
        (\<lambda>p v out. adlb_tclobj_bin_append A h fuel types False p v True out) (Suc (Suc (Suc ?p))) kt key val out) es out1 = Inr out2"
    using at
    by (subst (asm) adlb_tclobj_bin_append.simps)
      (auto simp: compound_type_next_def pad res_Inr_convs Let_def tcl_dict_to_packed_container_def)
  have "has_value A types (?p + 2) (snd e)" if e: "e \<in> set es" for e
  proof -
    from fold_res_each [OF fold e] obtain s1 s2 where
      "adlb_tclobj_bin_append A h fuel types False (length (pre @ [c, k])) (snd e) True s1 = Inr s2"
      by (auto simp: tcl_append_key_val_def res_Inr_convs split: prod.splits)
    with Cont.IH [OF _ types(1)] Cont.prems(1,3) show ?thesis by (simp add: types(2))
  qed
  with dict_has_value [OF A es next2] at k(2) show ?case by (simp add: pad)
next
  case (Mset m v)
  obtain me where m: "type_entry A m = (TYPE_MULTISET, me)" using Mset.prems(1) by (auto simp: has_type_conv)
  let ?p = "length pre"
  have at: "?p < length types" "types ! ?p = (TYPE_MULTISET, me)" using Mset.prems(2) m by (simp_all add: nth_append)
  have types: "types = map (type_entry A) ((pre @ [m]) @ fringe v @ rest)" "length (pre @ [m]) = ?p + 1"
    using Mset.prems(2) by simp_all
  from Mset.prems(4) obtain xs out1 out2 where xs: "tcl_list A obj = Some xs" and next1: "?p + 1 < length types" and
    fold: "fold_res (\<lambda>elem out. adlb_tclobj_bin_append A h fuel types False (Suc ?p) elem True out) xs out1 = Inr out2"
    using at
    by (subst (asm) adlb_tclobj_bin_append.simps)
      (auto simp: compound_type_next_def pad res_Inr_convs Let_def tcl_list_to_packed_multiset_def)
  have "has_value A types (?p + 1) x" if x: "x \<in> set xs" for x
  proof -
    from fold_res_each [OF fold x] obtain s1 s2 where
      "adlb_tclobj_bin_append A h fuel types False (length (pre @ [m])) x True s1 = Inr s2" by auto
    with Mset.IH [OF _ types(1)] Mset.prems(1,3) show ?thesis by (simp add: types(2))
  qed
  with list_has_value [OF xs next1] at show ?case by simp
qed

lemma compound_type_tree:
  assumes "get_compound_type A objv argpos = Inr (types, pos)"
  obtains t rest where "tree_ok A t" "drop argpos objv = fringe t @ rest" "types = map (type_entry A) (fringe t)"
    "pos = argpos + length (fringe t)"
proof -
  from assms obtain t rest where t: "tree_ok A t" "drop argpos objv = fringe t @ rest"
    using compound_loop_sound [of A objv argpos "[]" types pos] by (auto simp: get_compound_type_def)
  have "fringe t \<noteq> []" by (cases t) auto
  then have "argpos < length objv" using t(2) by (metis append_is_Nil_conv drop_all not_le)
  then have objv: "objv = take argpos objv @ fringe t @ rest" "length (take argpos objv) = argpos"
    using t(2) append_take_drop_id [of argpos objv] by simp_all
  then have "compound_loop A objv 1 argpos [] = Inr (map (type_entry A) (fringe t), argpos + length (fringe t))"
    using compound_loop_fringe [OF t(1), of "take argpos objv" rest "[]"] by simp
  with assms that [OF t] show ?thesis by (simp add: get_compound_type_def)
qed

text \<open>
  C12: \<^verbatim>\<open>adlb::store\<close> is type sound. Whatever object it accepts for a declared type without blobs and
  structs, scalar or nested to any depth, stands for a value of that type: integers where integers are
  declared, dictionaries with the declared kind of values where containers are, and so on inside.
\<close>

theorem store_accepts_typed:
  assumes A: "objects_ok A" and pad: "\<forall>type. pack_pad_size A type \<longleftrightarrow> type \<in> compound_kinds"
    and types: "get_compound_type A objv 2 = Inr (types, argpos)" and plain: "\<forall>t \<in> set types. fst t \<notin> {TYPE_BLOB, TYPE_STRUCT}"
    and store: "ADLB_Store_Cmd A H D m xfer fuel objv w = (Inr (), w1)"
  shows "\<exists>v. typed A types 0 v \<and> rep A v (objv ! argpos)"
proof -
  obtain t rest where t: "tree_ok A t" "drop 2 objv = fringe t @ rest" "types = map (type_entry A) (fringe t)"
      "argpos = 2 + length (fringe t)"
    by (rule compound_type_tree [OF types])
  obtain type extra where t0: "types ! 0 = (type, extra)" by fastforce
  have first: "adlb_type_from_obj_extra A (objv ! 2) = Inr (type, extra)" using compound_type_first(1) [OF types] t0 by simp
  show ?thesis
  proof (cases "type \<in> compound_kinds")
    case True
    from store first types True obtain data where
      "adlb_tclobj2bin_compound A (aw_heap w) fuel types (objv ! argpos) False (Some xfer) = Inr data"
      by (auto simp: ADLB_Store_Cmd_def cmd_bind_Inr cmd_Inr arg_def c_defined_Inr_conv simp del: cmd_simps world_cmds)
    then obtain out out' where "adlb_tclobj_bin_append A (aw_heap w) fuel types False (length ([] :: 'a list)) (objv ! argpos) False out = Inr out'"
      by (auto simp: adlb_tclobj2bin_compound_def res_Inr_convs)
    from bin_append_has_value [OF A _ t(1) _ _ this, of "[]"] pad t(3) plain show ?thesis by auto
  next
    case False
    then obtain x where "t = Simple x" using t(1,3) t0 by (cases t) (auto simp: has_type_conv)
    then have one: "types = [(type, extra)]" "argpos = 3" using t(3,4) t0 by simp_all
    from store first False obtain tmp where "adlb_tclobj2datum A (aw_heap w) fuel type extra (objv ! 3) = Inr tmp"
      by (auto simp: ADLB_Store_Cmd_def cmd_bind_Inr cmd_Inr adlb_tclobj2bin_def res_Inr_convs simp del: cmd_simps world_cmds)
    with scalar_has_value [OF A, of 0 types type extra] one plain show ?thesis by auto
  qed
qed

text \<open>The interpreter of the examples, with wide integers and dictionaries that keep to what is relied on.\<close>

definition val_checked :: "(val, unit) pack_api" where
  "val_checked = val_pack\<lparr>
     tcl_wide := (\<lambda>v. case v of V_int i \<Rightarrow> if LONG_MIN \<le> i \<and> i \<le> LONG_MAX then Some i else None | _ \<Rightarrow> None),
     dict_entries := (\<lambda>v. case v of V_dict d \<Rightarrow> if distinct (map (val_string \<circ> fst) d) then Some d else None | _ \<Rightarrow> None)\<rparr>"

lemma val_checked_sel [simp]:
  "vint_max val_checked = 9" "vint_encode val_checked = nat_bytes 8"
  "pack_pad_size val_checked t = (t \<in> {TYPE_CONTAINER, TYPE_MULTISET})"
  "init_buf val_checked cb n = Some ([], False)"
  "append_buffer val_checked t bs prefix out = Some (out_append (if prefix then nat_bytes 8 (length bs) @ bs else bs) out)"
  "pack_container_hdr val_checked k kt vt out = Some (out_append (unary k @ [type_char kt, type_char vt]) out)"
  "adlb_pack val_checked (S_Int i) TYPE_INTEGER = Some (unary i)"
  "tcl_string val_checked = val_string" "string_totype val_checked = string_totype val_types"
  "tcl_wide val_checked v = (case v of V_int i \<Rightarrow> if LONG_MIN \<le> i \<and> i \<le> LONG_MAX then Some i else None | _ \<Rightarrow> None)"
  "dict_entries val_checked v =
     (case v of V_dict d \<Rightarrow> if distinct (map (val_string \<circ> fst) d) then Some d else None | _ \<Rightarrow> None)"
  by (simp_all add: val_checked_def)

lemma val_objects_ok: "objects_ok val_checked"
  by (auto simp: objects_ok_def split: val.splits if_splits)

definition typed_objv :: "val list" where
  "typed_objv = [V_str ''c'', V_int 7, V_str ''container'', V_str ''string'', V_str ''integer'',
     V_dict [(V_str ''a'', V_int 2), (V_str ''b'', V_int 1)]]"

lemma store_accepts_typed_witness:
  "\<exists>w1 v. ADLB_Store_Cmd val_checked val_handles val_data Map.empty [] 0 typed_objv
      \<lparr>aw_adlb = val_store0, aw_heap = empty_heap, aw_cache = ()\<rparr> = (Inr (), w1) \<and>
    typed val_checked flat_types 0 v \<and> rep val_checked v (V_dict [(V_str ''a'', V_int 2), (V_str ''b'', V_int 1)])"
proof -
  let ?w = "\<lparr>aw_adlb = val_store0, aw_heap = empty_heap, aw_cache = ()\<rparr>"
  let ?d = "V_dict [(V_str ''a'', V_int 2), (V_str ''b'', V_int 1)]"
  have range: "LONG_MIN \<le> 2" "2 \<le> LONG_MAX" "LONG_MIN \<le> 1" "1 \<le> LONG_MAX" by (simp_all add: LONG_MIN_def LONG_MAX_def)
  have int: "adlb_tclobj_bin_append val_checked empty_heap 0 flat_types False 2 (V_int i) True out =
      Inr (out_append (nat_bytes 8 (length (unary i)) @ unary i) out)" if "LONG_MIN \<le> i" "i \<le> LONG_MAX" for i out
    using that by (subst adlb_tclobj_bin_append.simps) (simp add: compound_type_next_def adlb_tclobj2datum.simps)
  obtain bytes where bytes: "adlb_tclobj2bin_compound val_checked empty_heap 0 flat_types ?d False (Some []) = Inr bytes"
    by (simp add: adlb_tclobj2bin_compound_def bin_append_compound(1) tcl_dict_to_packed_container_def
        compound_type_next_def tcl_append_key_val_def int range numeral_2_eq_2 [symmetric])
  have types: "get_compound_type val_checked typed_objv 2 = Inr (flat_types, 5)"
    by (simp add: get_compound_type_def typed_objv_def flat_types_def compound_loop.simps from_obj_defs)
  have objv: "typed_objv ! Suc 0 = V_int 7" "typed_objv ! 2 = V_str ''container''" "typed_objv ! 5 = ?d"
    "length typed_objv = 6" by (simp_all add: typed_objv_def)
  obtain w1 where run: "ADLB_Store_Cmd val_checked val_handles val_data Map.empty [] 0 typed_objv ?w = (Inr (), w1)"
    by (simp add: ADLB_Store_Cmd_def objv val_handle_arg types from_obj_defs arg_def bytes opt_refcs_def
        opt_refcs_w_def opt_int_def val_store0_def cmd_condition_def cmd_bind_def cmd_do_def heap_get_def adlb_call_def)
  have "\<forall>t \<in> set flat_types. fst t \<notin> {TYPE_BLOB, TYPE_STRUCT}" by (simp add: flat_types_def)
  from store_accepts_typed [OF val_objects_ok _ types this run] run objv(3) show ?thesis by auto
qed

end
