(* ===== verification/Enumerate_Correct.thy ===== *)
theory Enumerate_Correct
  imports Container_Cmds Val_Store
begin

text \<open>
  The results of \<^verbatim>\<open>adlb::enumerate\<close>. ADLB answers with the packed records of a container; the
  specification is the list of records they encode, and the four forms of the command are the
  four views of that list.
\<close>

section \<open>Records and their bytes\<close>

definition record_bytes ::
    "('obj, 'f, 'z) pack_api_scheme \<Rightarrow> bool \<Rightarrow> bool \<Rightarrow> adlb_type \<Rightarrow> (string \<times> string) list \<Rightarrow> string" where
  "record_bytes A keys vals vt rs =
     concat (map (\<lambda>(k, v). (if keys then entry A TYPE_NULL (k @ [NUL]) else []) @
       (if vals then entry A vt v else [])) rs)"

text \<open>What is relied on: \<^verbatim>\<open>ADLB_Unpack_buffer\<close> inverts the packing of an entry.\<close>

definition buffer_ok :: "('obj, 'f, 'z) pack_api_scheme \<Rightarrow> ('w, 'y) data_api_scheme \<Rightarrow> bool" where
  "buffer_ok A D \<longleftrightarrow> (\<forall>t bs pre rest. small bs \<longrightarrow>
     unpack_buffer D t (pre @ entry A t bs @ rest) (length pre) = Some (bs, length (pre @ entry A t bs)))"

text \<open>The objects for the values, when each of them can be unpacked without the heap.\<close>

definition values_ok ::
    "('obj, 'f, 'z) pack_api_scheme \<Rightarrow> nat \<Rightarrow> adlb_type \<Rightarrow> (string \<Rightarrow> 'obj) \<Rightarrow> (string \<times> string) list \<Rightarrow> bool" where
  "values_ok A fuel vt obj rs \<longleftrightarrow> (\<forall>(k, v) \<in> set rs. small (k @ [NUL]) \<and> small v \<and>
     (\<forall>h. adlb_datum2tclobj A fuel vt Extra_None v h = Inr (obj v, h)))"

lemma values_ok_Cons [simp]:
  "values_ok A fuel vt obj (r # rs) \<longleftrightarrow> (small (fst r @ [NUL]) \<and> small (snd r) \<and>
     (\<forall>h. adlb_datum2tclobj A fuel vt Extra_None (snd r) h = Inr (obj (snd r), h))) \<and> values_ok A fuel vt obj rs"
  by (auto simp: values_ok_def)

lemma buffer_okD:
  assumes "buffer_ok A D" "small bs" "data = pre @ entry A t bs @ rest" "pos = length pre"
  shows "unpack_buffer D t data pos = Some (bs, length (pre @ entry A t bs))"
  using assms unfolding buffer_ok_def by blast

section \<open>The loop\<close>

lemma enumerate_lists:
  assumes "buffer_ok A D" "values_ok A fuel vt obj rs" "keys \<noteq> vals"
    and "data = pre @ record_bytes A keys vals vt rs"
  shows "enumerate_records A D fuel keys vals vt data (length rs) (length pre) dict buf h =
    Inr ((dict, buf @ map (\<lambda>(k, v). if keys then new_string A k else obj v) rs), h)"
  using assms(2,4)
proof (induction rs arbitrary: pre buf)
  case (Cons r rs)
  obtain k v where r: "r = (k, v)" by fastforce
  let ?e = "if keys then entry A TYPE_NULL (k @ [NUL]) else entry A vt v"
  have data: "data = pre @ ?e @ record_bytes A keys vals vt rs"
    using Cons.prems(2) assms(3) r by (simp add: record_bytes_def)
  note IH = Cons.IH [of "pre @ ?e"]
  show ?case
  proof (cases keys)
    case True
    with buffer_okD [OF assms(1) _ data [simplified True if_True]] assms(3) Cons.prems(1) IH data r
    show ?thesis by (simp add: c_defined_def)
  next
    case False
    with buffer_okD [OF assms(1) _ data [simplified False if_False]] assms(3) Cons.prems(1) IH data r
    show ?thesis by (simp add: c_defined_def c_assert_def)
  qed
qed simp

lemma enumerate_dict:
  assumes "buffer_ok A D" "values_ok A fuel vt obj rs" "dict_ok A" "distinct (map fst rs)"
    and "data = pre @ record_bytes A True True vt rs"
    and "dict_entries A dict = Some es" "tcl_string A ` fst ` set es \<inter> fst ` set rs = {}"
  shows "\<exists>dict' . enumerate_records A D fuel True True vt data (length rs) (length pre) dict buf h = Inr ((dict', buf), h) \<and>
    dict_entries A dict' = Some (es @ map (\<lambda>(k, v). (new_string A k, obj v)) rs)"
  using assms(2,4-7)
proof (induction rs arbitrary: pre dict es)
  case (Cons r rs)
  obtain k v where r: "r = (k, v)" by fastforce
  let ?k = "entry A TYPE_NULL (k @ [NUL])" and ?v = "entry A vt v"
  have data: "data = pre @ ?k @ ?v @ record_bytes A True True vt rs"
    "data = (pre @ ?k) @ ?v @ record_bytes A True True vt rs"
    "data = (pre @ ?k @ ?v) @ record_bytes A True True vt rs"
    using Cons.prems(3) r by (simp_all add: record_bytes_def)
  have key: "tcl_string A (new_string A k) = k"
    by (simp add: tcl_okD [OF dict_okD(1) [OF assms(3)]])
  then have "tcl_string A (new_string A k) \<notin> tcl_string A ` fst ` set es"
    using Cons.prems(5) r by auto
  from dict_okD(4) [OF assms(3) Cons.prems(4) this] obtain d1 where
    d1: "dict_insert A dict (new_string A k) (obj v) = Some d1" "dict_entries A d1 = Some (es @ [(new_string A k, obj v)])"
    by blast
  have "\<exists>dict'. enumerate_records A D fuel True True vt data (length rs) (length (pre @ ?k @ ?v)) d1 buf h = Inr ((dict', buf), h) \<and>
    dict_entries A dict' = Some ((es @ [(new_string A k, obj v)]) @ map (\<lambda>(k, v). (new_string A k, obj v)) rs)"
    by (rule Cons.IH [OF _ _ data(3) d1(2)]) (use Cons.prems r key in auto)
  moreover have "unpack_buffer D TYPE_NULL data (length pre) = Some (k @ [NUL], length (pre @ ?k))"
    "unpack_buffer D vt data (length (pre @ ?k)) = Some (v, length (pre @ ?k @ ?v))"
    using buffer_okD [OF assms(1) _ data(1)] buffer_okD [OF assms(1) _ data(2)] Cons.prems(1) r by simp_all
  ultimately show ?case using Cons.prems(1) d1(1) r by (simp add: c_defined_def)
qed simp

text \<open>
  C37: The four forms of \<^verbatim>\<open>adlb::enumerate\<close> agree on the records ADLB sends: \<^verbatim>\<open>subscripts\<close> is the list
  of the keys, \<^verbatim>\<open>members\<close> the list of the values in the same order, \<^verbatim>\<open>dict\<close> the dictionary with
  exactly these pairs, and \<^verbatim>\<open>count\<close> their number.
\<close>

theorem enumerate_views:
  assumes "buffer_ok A D" "values_ok A fuel vt obj rs" "dict_ok A" "distinct (map fst rs)"
  shows "enumerate_object A D fuel True False (record_bytes A True False vt rs) (int (length rs)) vt h =
      Inr (new_list A (map (new_string A \<circ> fst) rs), h) \<and>
    enumerate_object A D fuel False True (record_bytes A False True vt rs) (int (length rs)) vt h =
      Inr (new_list A (map (obj \<circ> snd) rs), h) \<and>
    (\<exists>dict. enumerate_object A D fuel True True (record_bytes A True True vt rs) (int (length rs)) vt h = Inr (dict, h) \<and>
      dict_entries A dict = Some (zip (map (new_string A \<circ> fst) rs) (map (obj \<circ> snd) rs))) \<and>
    enumerate_object A D fuel False False [] (int (length rs)) vt h = Inr (new_wide A (int (length rs)), h)"
proof (intro conjI)
  have zip: "zip (map (new_string A \<circ> fst) rs) (map (obj \<circ> snd) rs) = map (\<lambda>(k, v). (new_string A k, obj v)) rs"
    by (induction rs) auto
  show "\<exists>dict. enumerate_object A D fuel True True (record_bytes A True True vt rs) (int (length rs)) vt h = Inr (dict, h) \<and>
      dict_entries A dict = Some (zip (map (new_string A \<circ> fst) rs) (map (obj \<circ> snd) rs))"
    using enumerate_dict [OF assms, of _ "[]" "new_dict A" "[]" "[]" h] dict_okD(3) [OF assms(3)]
    by (auto simp: enumerate_object_def c_defined_def zip)
qed (use enumerate_lists [OF assms(1,2), of True False _ "[]" "new_dict A" "[]" h]
      enumerate_lists [OF assms(1,2), of False True _ "[]" "new_dict A" "[]" h]
     in \<open>auto simp: enumerate_object_def c_defined_def split_def comp_def\<close>)

lemma val_buffer_ok: "buffer_ok val_pack val_data"
  unfolding buffer_ok_def
proof (intro allI impI)
  fix t bs pre rest assume s: "small bs"
  have "length (pre @ entry val_pack t bs @ rest) \<ge> length pre + 8"
    by (simp add: entry_val sized_val)
  then show "unpack_buffer val_data t (pre @ entry val_pack t bs @ rest) (length pre) = Some (bs, length (pre @ entry val_pack t bs))"
    using get_sized [of bs 8 pre NUL rest] get_sized [of bs 9 pre NUL rest] s
    by (simp add: entry_val sized_val small_def)
qed

lemma val_string_datum:
  "length s < 1000 \<Longrightarrow> adlb_datum2tclobj val_pack fuel TYPE_STRING ex (s @ [NUL]) h = Inr (V_str s, h)"
  by (simp add: adlb_datum2tclobj.simps c_assert_def c_defined_def val_pack_def val_types_def val_tcl_def
      type_api.extend_def tcl_api.extend_def)

lemma val_new_obj: "new_list val_pack xs = V_list xs" "new_string val_pack s = V_str s"
  by (simp_all add: val_pack_def val_types_def val_tcl_def type_api.extend_def tcl_api.extend_def)

definition two_records :: "(string \<times> string) list" where
  "two_records = [(''a'', ''x'' @ [NUL]), (''b'', ''y'' @ [NUL])]"

lemma enumerate_views_witness:
  "enumerate_object val_pack val_data 0 True False (record_bytes val_pack True False TYPE_STRING two_records) 2
     TYPE_STRING empty_heap = Inr (V_list [V_str ''a'', V_str ''b''], empty_heap)"
proof -
  have "values_ok val_pack 0 TYPE_STRING (\<lambda>v. V_str (butlast v)) two_records"
    using val_string_datum [of "''x''"] val_string_datum [of "''y''"]
    by (auto simp: two_records_def values_ok_def small_def)
  from conjunct1 [OF enumerate_views [OF val_buffer_ok this val_dict_ok, of empty_heap]]
  show ?thesis by (simp add: two_records_def val_new_obj)
qed

end
