(* ===== verification/Work_Cmds.thy ===== *)
theory Work_Cmds
  imports Adlb_Types Adlb_Api "HOL-Library.Multiset"
begin

text \<open>
  The commands of \<^verbatim>\<open>src/tcl/adlb/tcl-adlb.c\<close> that move tasks: put, spawn, get and iget, the
  current priority, and the host map. The queue of tasks is ADLB's. The build with XLB is
  modelled (\<^verbatim>\<open>USE_XLB\<close>), the only one the other commands can be compiled for.
\<close>

section \<open>State and interface\<close>

record adlb_put_opts =
  po_priority :: int
  po_parallelism :: int
  po_strictness :: adlb_target_strictness
  po_accuracy :: adlb_target_accuracy

text \<open>
  The globals \<^verbatim>\<open>ADLB_curr_priority\<close>, \<^verbatim>\<open>turbine_task_comm\<close> and the static buffer \<^verbatim>\<open>xfer\<close>. What
  is outside the program, ADLB and the interpreter's variables, is \<open>'w\<close>.
\<close>

record 'w work_world =
  ww_adlb :: 'w
  curr_priority :: int
  task_comm :: int
  xfer :: string

text \<open>
  A task that \<^verbatim>\<open>ADLB_Get\<close> or \<^verbatim>\<open>ADLB_Iget\<close> hands over is its bytes, which the call writes to
  the start of \<^verbatim>\<open>xfer\<close>, and its answer rank; the communicator is set in any case.
\<close>

record ('w, 'obj) work_api =
  default_put_opts :: adlb_put_opts
  rank_any :: int
  rank_null :: int
  comm_rank :: int
  adlb_put :: "string \<Rightarrow> int \<Rightarrow> int \<Rightarrow> int \<Rightarrow> adlb_put_opts \<Rightarrow> 'w \<Rightarrow> adlb_code \<times> 'w"
  adlb_get :: "int \<Rightarrow> 'w \<Rightarrow> (adlb_code \<times> (string \<times> int) \<times> int) \<times> 'w"
  adlb_iget :: "int \<Rightarrow> 'w \<Rightarrow> (adlb_code \<times> (string \<times> int) \<times> int) \<times> 'w"
  set_var :: "string \<Rightarrow> 'obj \<Rightarrow> 'w \<Rightarrow> 'w"
  hostmap_lookup :: "string \<Rightarrow> nat \<Rightarrow> 'w \<Rightarrow> adlb_code \<times> int list"
  hostmap_stats :: "'w \<Rightarrow> nat \<times> nat"
  hostmap_list :: "nat \<Rightarrow> 'w \<Rightarrow> string \<times> int"

definition work_call :: "('w \<Rightarrow> 'a \<times> 'w) \<Rightarrow> ('a, 'w work_world) cmd" where
  "work_call f w = (let (a, s) = f (ww_adlb w) in (Inr a, w\<lparr>ww_adlb := s\<rparr>))"

definition work_get :: "('w work_world \<Rightarrow> 'a) \<Rightarrow> ('a, 'w work_world) cmd" where
  "work_get f w = (Inr (f w), w)"

definition work_set :: "('w work_world \<Rightarrow> 'w work_world) \<Rightarrow> (unit, 'w work_world) cmd" where
  "work_set f w = (Inr (), f w)"

text \<open>Reading a C string: undefined when there is no terminator.\<close>

definition c_string :: "string \<Rightarrow> string res" where
  "c_string bs = c_defined (NUL \<in> set bs) (Inr (takeWhile (\<lambda>c. c \<noteq> NUL) bs))"

definition overwrite :: "string \<Rightarrow> string \<Rightarrow> string" where
  "overwrite bs buf = bs @ drop (length bs) buf"

section \<open>Putting tasks\<close>

text \<open>
  The codes of the conversions are not looked at: a target or type that is no integer leaves
  the variable uninitialised, a priority or parallelism the default.
\<close>

definition ADLB_Put_Cmd ::
    "('obj, 'f, 'z) tcl_api_scheme \<Rightarrow> ('w, 'obj) work_api \<Rightarrow> 'obj list \<Rightarrow> (unit, 'w work_world) cmd" where
  "ADLB_Put_Cmd A W objv =
     cmd_bind (cmd_condition (6 \<le> length objv \<and> length objv \<le> 8)) (\<lambda>_.
     let work_type = tcl_int A (objv ! 2); command = tcl_string A (objv ! 3); deflt = default_put_opts W;
         opts = deflt\<lparr>po_priority := (case tcl_int A (objv ! 4) of None \<Rightarrow> po_priority deflt | Some n \<Rightarrow> n),
           po_parallelism := (case tcl_int A (objv ! 5) of None \<Rightarrow> po_parallelism deflt | Some n \<Rightarrow> n)\<rparr> in
     cmd_bind (cmd_do (case tcl_int A (objv ! 1) of None \<Rightarrow> Inl Undefined | Some n \<Rightarrow> Inr n)) (\<lambda>target_rank.
     let opts = (if 0 \<le> target_rank
                 then opts\<lparr>po_strictness := ADLB_TGT_STRICT_HARD, po_accuracy := ADLB_TGT_ACCRY_RANK\<rparr> else opts) in
     cmd_bind (cmd_do (if 7 \<le> length objv
         then tcl_check (adlb_parse_strictness A (objv ! 6)) (\<lambda>s. Inr (opts\<lparr>po_strictness := s\<rparr>))
         else Inr opts)) (\<lambda>opts.
     cmd_bind (cmd_do (if 8 \<le> length objv
         then tcl_check (adlb_parse_accuracy A (objv ! 7)) (\<lambda>a. Inr (opts\<lparr>po_accuracy := a\<rparr>))
         else Inr opts)) (\<lambda>opts.
     cmd_bind (cmd_do (case work_type of None \<Rightarrow> Inl Undefined | Some n \<Rightarrow> Inr n)) (\<lambda>work_type.
     cmd_bind (work_call (adlb_put W (command @ [NUL]) target_rank (comm_rank W) work_type opts)) (\<lambda>ac.
       cmd_condition (ac = ADLB_SUCCESS)))))))"

definition ADLB_Spawn_Cmd ::
    "('obj, 'f, 'z) tcl_api_scheme \<Rightarrow> ('w, 'obj) work_api \<Rightarrow> 'obj list \<Rightarrow> (unit, 'w work_world) cmd" where
  "ADLB_Spawn_Cmd A W objv =
     cmd_bind (cmd_condition (length objv = 3)) (\<lambda>_.
     let command = tcl_string A (objv ! 2) in
     cmd_bind (work_get curr_priority) (\<lambda>priority.
     let opts = (default_put_opts W)\<lparr>po_priority := priority\<rparr> in
     cmd_bind (cmd_do (case tcl_int A (objv ! 1) of None \<Rightarrow> Inl Undefined | Some n \<Rightarrow> Inr n)) (\<lambda>work_type.
     cmd_bind (work_call (adlb_put W (command @ [NUL]) (rank_any W) (comm_rank W) work_type opts)) (\<lambda>rc.
       cmd_do (c_assert (rc = ADLB_SUCCESS) (Inr ()))))))"

section \<open>The current priority\<close>

definition DEFAULT_PRIORITY :: int where "DEFAULT_PRIORITY = 0"

definition ADLB_Get_Priority_Cmd ::
    "('obj, 'f, 'z) tcl_api_scheme \<Rightarrow> 'obj list \<Rightarrow> ('obj, 'w work_world) cmd" where
  "ADLB_Get_Priority_Cmd A objv =
     cmd_bind (cmd_condition (length objv = 1)) (\<lambda>_.
     cmd_bind (work_get curr_priority) (\<lambda>priority. cmd_do (Inr (new_wide A priority))))"

definition ADLB_Reset_Priority_Cmd :: "'obj list \<Rightarrow> (unit, 'w work_world) cmd" where
  "ADLB_Reset_Priority_Cmd objv =
     cmd_bind (cmd_condition (length objv = 1)) (\<lambda>_. work_set (\<lambda>w. w\<lparr>curr_priority := DEFAULT_PRIORITY\<rparr>))"

definition ADLB_Set_Priority_Cmd ::
    "('obj, 'f, 'z) tcl_api_scheme \<Rightarrow> 'obj list \<Rightarrow> (unit, 'w work_world) cmd" where
  "ADLB_Set_Priority_Cmd A objv =
     cmd_bind (cmd_condition (length objv = 2)) (\<lambda>_.
     cmd_bind (cmd_do (tcl_get (tcl_int A (objv ! 1)))) (\<lambda>new_prio.
       work_set (\<lambda>w. w\<lparr>curr_priority := new_prio\<rparr>)))"

section \<open>Getting tasks\<close>

text \<open>
  \<^verbatim>\<open>ADLB_Get_Cmd\<close> takes the length that ADLB gives; with length 0 the length passed to Tcl is
  -1, which means up to the terminator. A code other than success and shutdown leaves the
  answer rank uninitialised.
\<close>

definition ADLB_Get_Cmd ::
    "('obj, 'f, 'z) tcl_api_scheme \<Rightarrow> ('w, 'obj) work_api \<Rightarrow> 'obj list \<Rightarrow> ('obj, 'w work_world) cmd" where
  "ADLB_Get_Cmd A W objv =
     cmd_bind (cmd_condition (length objv = 3)) (\<lambda>_.
     cmd_bind (cmd_do (tcl_get (tcl_int A (objv ! 1)))) (\<lambda>req_type.
     cmd_bind (work_call (adlb_get W req_type)) (\<lambda>(rc, (work, rank), comm).
     cmd_bind (work_set (\<lambda>w. w\<lparr>xfer := (if rc = ADLB_SUCCESS then overwrite work (xfer w)
         else if rc = ADLB_SHUTDOWN then overwrite [NUL] (xfer w) else xfer w), task_comm := comm\<rparr>)) (\<lambda>_.
     cmd_bind (cmd_do (c_defined (rc \<in> {ADLB_SUCCESS, ADLB_SHUTDOWN}) (Inr ()))) (\<lambda>_.
     let work_len = (if rc = ADLB_SHUTDOWN then 1 else length work);
         answer_rank = (if rc = ADLB_SHUTDOWN then rank_null W else rank) in
     cmd_bind (work_call (\<lambda>s. ((), set_var W (tcl_string A (objv ! 2)) (new_wide A answer_rank) s))) (\<lambda>_.
     cmd_bind (work_get xfer) (\<lambda>result.
       cmd_do (tcl_check (if work_len = 0 then c_string result else Inr (take (work_len - 1) result)) (\<lambda>text.
         Inr (new_string A text))))))))))"

definition ADLB_Iget_Cmd ::
    "('obj, 'f, 'z) tcl_api_scheme \<Rightarrow> ('w, 'obj) work_api \<Rightarrow> 'obj list \<Rightarrow> ('obj, 'w work_world) cmd" where
  "ADLB_Iget_Cmd A W objv =
     cmd_bind (cmd_condition (length objv = 3)) (\<lambda>_.
     cmd_bind (cmd_do (tcl_get (tcl_int A (objv ! 1)))) (\<lambda>req_type.
     cmd_bind (work_call (adlb_iget W req_type)) (\<lambda>(rc, (work, rank), comm).
     cmd_bind (work_set (\<lambda>w. w\<lparr>xfer := (if rc = ADLB_SUCCESS then overwrite work (xfer w)
         else if rc = ADLB_SHUTDOWN then overwrite (''ADLB_SHUTDOWN'' @ [NUL]) (xfer w)
         else if rc = ADLB_NOTHING then overwrite (''ADLB_NOTHING'' @ [NUL]) (xfer w) else xfer w),
         task_comm := comm\<rparr>)) (\<lambda>_.
     cmd_bind (cmd_do (c_defined (rc \<in> {ADLB_SUCCESS, ADLB_SHUTDOWN, ADLB_NOTHING}) (Inr ()))) (\<lambda>_.
     let answer_rank = (if rc = ADLB_SUCCESS then rank else rank_null W) in
     cmd_bind (work_call (\<lambda>s. ((), set_var W (tcl_string A (objv ! 2)) (new_wide A answer_rank) s))) (\<lambda>_.
     cmd_bind (work_get xfer) (\<lambda>result.
       cmd_do (tcl_check (c_string result) (\<lambda>text. Inr (new_string A text))))))))))"

section \<open>The host map\<close>

text \<open>The number of arguments is not checked. At most 512 ranks fit the array.\<close>

definition hostmap_count :: nat where "hostmap_count = 512"

definition ADLB_Hostmap_Lookup_Cmd ::
    "('obj, 'f, 'z) tcl_api_scheme \<Rightarrow> ('w, 'obj) work_api \<Rightarrow> 'obj list \<Rightarrow> ('obj, 'w work_world) cmd" where
  "ADLB_Hostmap_Lookup_Cmd A W objv =
     cmd_bind (cmd_do (c_defined (1 < length objv) (Inr (tcl_string A (objv ! 1))))) (\<lambda>host.
     cmd_bind (work_get (\<lambda>w. hostmap_lookup W host hostmap_count (ww_adlb w))) (\<lambda>(rc, ranks).
     cmd_bind (cmd_condition (rc = ADLB_SUCCESS \<or> rc = ADLB_NOTHING)) (\<lambda>_.
     cmd_bind (cmd_condition (rc \<noteq> ADLB_NOTHING)) (\<lambda>_.
       cmd_do (c_defined (length ranks \<le> hostmap_count) (Inr (new_list A (map (new_wide A) ranks))))))))"

text \<open>
  Splitting the names at the record separator. \<^verbatim>\<open>strchr\<close> stops at the first NUL, and there is
  an assertion on its result.
\<close>

fun split_names :: "nat \<Rightarrow> string \<Rightarrow> string list res" where
  "split_names 0 p = Inr []"
| "split_names (Suc n) p =
     (case strchr (takeWhile (\<lambda>c. c \<noteq> NUL) p) (CHR 0x0D) of
        None \<Rightarrow> c_defined (NUL \<in> set p) (Inl Abort)
      | Some i \<Rightarrow> tcl_check (split_names n (drop (i + 1) p)) (\<lambda>ns. Inr (take i p # ns)))"

text \<open>The size of the buffer is computed in 32 bits.\<close>

definition ADLB_Hostmap_List_Cmd ::
    "('obj, 'f, 'z) tcl_api_scheme \<Rightarrow> ('w, 'obj) work_api \<Rightarrow> ('obj, 'w work_world) cmd" where
  "ADLB_Hostmap_List_Cmd A W =
     cmd_bind (work_get (\<lambda>w. hostmap_stats W (ww_adlb w))) (\<lambda>(count, name_max).
     let chars = (count * (name_max + 1)) mod 2 ^ 32 in
     cmd_bind (work_get (\<lambda>w. hostmap_list W chars (ww_adlb w))) (\<lambda>(buffer, actual).
     cmd_bind (cmd_do (c_assert (actual = int count) (Inr ()))) (\<lambda>_.
     cmd_bind (cmd_do (split_names count buffer)) (\<lambda>names.
       cmd_do (c_assert (int count \<le> INT_MAX) (Inr (new_list A (map (new_string A) names))))))))"

end
