(* ===== verification/Work_Correct.thy ===== *)
theory Work_Correct
  imports Work_Cmds
begin

text \<open>
  Tasks are conserved: over any sequence of the work commands, the tasks put are those that
  were handed out and those still waiting, with the options and priorities the commands ask
  for; and the host map comes back name by name.
\<close>

section \<open>The queue of ADLB\<close>

type_synonym task = "int \<times> string \<times> int \<times> adlb_put_opts"

text \<open>
  What is relied on: a put that succeeds adds its task, a get that succeeds takes a waiting
  task of the type asked for, and nothing else changes the queue.
\<close>

definition take_ok :: "('w \<Rightarrow> task multiset) \<Rightarrow> (int \<Rightarrow> 'w \<Rightarrow> (adlb_code \<times> (string \<times> int) \<times> int) \<times> 'w) \<Rightarrow> bool" where
  "take_ok waiting get \<longleftrightarrow> (\<forall>ty s rc p r c s'. get ty s = ((rc, (p, r), c), s') \<longrightarrow>
     (if rc = ADLB_SUCCESS
      then \<exists>target opts. (ty, p, target, opts) \<in># waiting s \<and> waiting s' = waiting s - {#(ty, p, target, opts)#}
      else waiting s' = waiting s))"

definition queue_ok :: "('w, 'obj) work_api \<Rightarrow> ('w \<Rightarrow> task multiset) \<Rightarrow> bool" where
  "queue_ok W waiting \<longleftrightarrow>
     (\<forall>p target answer ty opts s s'. adlb_put W p target answer ty opts s = (ADLB_SUCCESS, s') \<longrightarrow>
        waiting s' = add_mset (ty, p, target, opts) (waiting s)) \<and>
     take_ok waiting (adlb_get W) \<and> take_ok waiting (adlb_iget W) \<and>
     (\<forall>v x s. waiting (set_var W v x s) = waiting s)"

section \<open>Runs of commands\<close>

datatype 'obj work_cmd =
    Put "'obj list" | Spawn "'obj list" | Get "'obj list" | Iget "'obj list"
  | Set_Priority "'obj list" | Reset_Priority "'obj list"

fun run_work_cmd ::
    "('obj, 'f, 'z) tcl_api_scheme \<Rightarrow> ('w, 'obj) work_api \<Rightarrow> 'obj work_cmd \<Rightarrow> ('obj list, 'w work_world) cmd" where
  "run_work_cmd A W (Put objv) = cmd_bind (ADLB_Put_Cmd A W objv) (\<lambda>_. cmd_do (Inr []))"
| "run_work_cmd A W (Spawn objv) = cmd_bind (ADLB_Spawn_Cmd A W objv) (\<lambda>_. cmd_do (Inr []))"
| "run_work_cmd A W (Get objv) = cmd_bind (ADLB_Get_Cmd A W objv) (\<lambda>r. cmd_do (Inr [r]))"
| "run_work_cmd A W (Iget objv) = cmd_bind (ADLB_Iget_Cmd A W objv) (\<lambda>r. cmd_do (Inr [r]))"
| "run_work_cmd A W (Set_Priority objv) = cmd_bind (ADLB_Set_Priority_Cmd A objv) (\<lambda>_. cmd_do (Inr []))"
| "run_work_cmd A W (Reset_Priority objv) = cmd_bind (ADLB_Reset_Priority_Cmd objv) (\<lambda>_. cmd_do (Inr []))"

fun run_work ::
    "('obj, 'f, 'z) tcl_api_scheme \<Rightarrow> ('w, 'obj) work_api \<Rightarrow> 'obj work_cmd list \<Rightarrow> ('obj list, 'w work_world) cmd" where
  "run_work A W [] = cmd_do (Inr [])"
| "run_work A W (c # cs) = cmd_bind (run_work_cmd A W c) (\<lambda>r. cmd_bind (run_work A W cs) (\<lambda>rs. cmd_do (Inr (r @ rs))))"

section \<open>What the commands are documented to put\<close>

definition put_task :: "('obj, 'f, 'z) tcl_api_scheme \<Rightarrow> ('w, 'obj) work_api \<Rightarrow> 'obj list \<Rightarrow> task" where
  "put_task A W objv = (let target = the (tcl_int A (objv ! 1)); deflt = default_put_opts W in
     (the (tcl_int A (objv ! 2)), tcl_string A (objv ! 3) @ [NUL], target,
      \<lparr>po_priority = (case tcl_int A (objv ! 4) of None \<Rightarrow> po_priority deflt | Some n \<Rightarrow> n),
       po_parallelism = (case tcl_int A (objv ! 5) of None \<Rightarrow> po_parallelism deflt | Some n \<Rightarrow> n),
       po_strictness = (if 7 \<le> length objv
         then if tcl_string A (objv ! 6) = ''HARD'' then ADLB_TGT_STRICT_HARD else ADLB_TGT_STRICT_SOFT
         else if 0 \<le> target then ADLB_TGT_STRICT_HARD else po_strictness deflt),
       po_accuracy = (if 8 \<le> length objv
         then if tcl_string A (objv ! 7) = ''RANK'' then ADLB_TGT_ACCRY_RANK else ADLB_TGT_ACCRY_NODE
         else if 0 \<le> target then ADLB_TGT_ACCRY_RANK else po_accuracy deflt)\<rparr>))"

fun put_tasks ::
    "('obj, 'f, 'z) tcl_api_scheme \<Rightarrow> ('w, 'obj) work_api \<Rightarrow> int \<Rightarrow> 'obj work_cmd list \<Rightarrow> task list" where
  "put_tasks A W prio [] = []"
| "put_tasks A W prio (Put objv # cs) = put_task A W objv # put_tasks A W prio cs"
| "put_tasks A W prio (Spawn objv # cs) =
     (the (tcl_int A (objv ! 1)), tcl_string A (objv ! 2) @ [NUL], rank_any W,
      (default_put_opts W)\<lparr>po_priority := prio\<rparr>) # put_tasks A W prio cs"
| "put_tasks A W prio (Set_Priority objv # cs) = put_tasks A W (the (tcl_int A (objv ! 1))) cs"
| "put_tasks A W prio (Reset_Priority objv # cs) = put_tasks A W 0 cs"
| "put_tasks A W prio (c # cs) = put_tasks A W prio cs"

text \<open>What a get shows for the task it took, if it took one.\<close>

definition shows_task :: "('obj, 'f, 'z) tcl_api_scheme \<Rightarrow> task option \<Rightarrow> 'obj \<Rightarrow> bool" where
  "shows_task A t r = (case t of Some (ty, p, _) \<Rightarrow> r = new_string A (butlast p)
     | None \<Rightarrow> r \<in> {new_string A '''', new_string A ''ADLB_SHUTDOWN'', new_string A ''ADLB_NOTHING''})"

fun taken_tasks :: "task option list \<Rightarrow> task list" where
  "taken_tasks [] = []"
| "taken_tasks (None # ts) = taken_tasks ts"
| "taken_tasks (Some t # ts) = t # taken_tasks ts"

lemma taken_tasks_append [simp]: "taken_tasks (ts @ us) = taken_tasks ts @ taken_tasks us"
  by (induction ts rule: taken_tasks.induct) auto

definition terminated :: "string \<Rightarrow> bool" where
  "terminated p \<longleftrightarrow> p \<noteq> [] \<and> last p = NUL \<and> NUL \<notin> set (butlast p)"

section \<open>Conservation\<close>

lemma terminated_snoc [simp]: "terminated (s @ [NUL]) \<longleftrightarrow> NUL \<notin> set s"
  by (simp add: terminated_def)

lemma c_string_overwrite: "terminated p \<Longrightarrow> c_string (overwrite p buf) = Inr (butlast p)"
proof -
  assume t: "terminated p"
  then obtain s where "p = s @ [NUL]" "NUL \<notin> set s"
    unfolding terminated_def by (metis append_butlast_last_id)
  moreover from this(2) have "takeWhile (\<lambda>c. c \<noteq> NUL) (s @ NUL # r) = s" for r by (induction s) auto
  ultimately show ?thesis by (simp add: c_string_def overwrite_def)
qed

lemma take_overwrite: "p \<noteq> [] \<Longrightarrow> take (length p - 1) (overwrite p buf) = butlast p"
  by (simp add: overwrite_def butlast_conv_take)

lemma work_bind_Inr:
  "cmd_bind m k w = (Inr x, w') \<longleftrightarrow> (\<exists>a w1. m w = (Inr a, w1) \<and> k a w1 = (Inr x, w'))"
  by (auto simp: cmd_bind_def split: prod.split sum.split)

lemma work_Inr:
  "cmd_do r w = (Inr a, w1) \<longleftrightarrow> r = Inr a \<and> w1 = w"
  "cmd_condition b w = (Inr u, w1) \<longleftrightarrow> b \<and> w1 = w"
  "work_get g v = (Inr a', v1) \<longleftrightarrow> a' = g v \<and> v1 = v"
  "work_set h v = (Inr u, v1) \<longleftrightarrow> v1 = h v"
  "work_call f v = (Inr b', v1) \<longleftrightarrow> (\<exists>s. f (ww_adlb v) = (b', s) \<and> v1 = v\<lparr>ww_adlb := s\<rparr>)"
  by (auto simp: cmd_do_def cmd_condition_def tcl_condition_def work_get_def work_set_def work_call_def split: prod.split)

lemmas work_run = work_bind_Inr work_Inr Let_def

lemmas work_eval = cmd_bind_def cmd_do_def cmd_condition_def work_call_def work_get_def work_set_def Let_def

lemma queue_okD:
  assumes "queue_ok W waiting"
  shows "adlb_put W p target answer ty opts s = (ADLB_SUCCESS, s') \<Longrightarrow> waiting s' = add_mset (ty, p, target, opts) (waiting s)"
    "take_ok waiting (adlb_get W)" "take_ok waiting (adlb_iget W)" "waiting (set_var W v x s) = waiting s"
  using assms unfolding queue_ok_def by blast+

lemma option_res: "(case x of None \<Rightarrow> Inl e | Some n \<Rightarrow> Inr n) = Inr a \<longleftrightarrow> x = Some a"
  by (cases x) simp_all

lemma put_waiting:
  assumes "queue_ok W waiting" "ADLB_Put_Cmd A W objv w = (Inr u, w')"
  shows "waiting (ww_adlb w') = add_mset (put_task A W objv) (waiting (ww_adlb w)) \<and> curr_priority w' = curr_priority w"
proof -
  let ?opts = "(default_put_opts W)\<lparr>po_priority := (case tcl_int A (objv ! 4) of None \<Rightarrow> po_priority (default_put_opts W) | Some n \<Rightarrow> n),
     po_parallelism := (case tcl_int A (objv ! 5) of None \<Rightarrow> po_parallelism (default_put_opts W) | Some n \<Rightarrow> n)\<rparr>"
  from assms(2) obtain target o1 o2 ty s where
    ints: "tcl_int A (objv ! 1) = Some target" "tcl_int A (objv ! 2) = Some ty" and
    o1: "(if 7 \<le> length objv
         then tcl_check (adlb_parse_strictness A (objv ! 6)) (\<lambda>s. Inr ((if 0 \<le> target
                 then ?opts\<lparr>po_strictness := ADLB_TGT_STRICT_HARD, po_accuracy := ADLB_TGT_ACCRY_RANK\<rparr> else ?opts)\<lparr>po_strictness := s\<rparr>))
         else Inr (if 0 \<le> target
                 then ?opts\<lparr>po_strictness := ADLB_TGT_STRICT_HARD, po_accuracy := ADLB_TGT_ACCRY_RANK\<rparr> else ?opts)) = Inr o1" and
    o2: "(if 8 \<le> length objv
         then tcl_check (adlb_parse_accuracy A (objv ! 7)) (\<lambda>a. Inr (o1\<lparr>po_accuracy := a\<rparr>))
         else Inr o1) = Inr o2" and
    put: "adlb_put W (tcl_string A (objv ! 3) @ [NUL]) target (comm_rank W) ty o2 (ww_adlb w) = (ADLB_SUCCESS, s)" and
    w': "w' = w\<lparr>ww_adlb := s\<rparr>"
    by (auto simp: ADLB_Put_Cmd_def work_run option_res simp del: cmd_simps)
  have "o2 = snd (snd (snd (put_task A W objv)))"
    using o1 o2 ints by (auto simp: put_task_def Let_def adlb_parse_strictness_def adlb_parse_accuracy_def split: if_splits)
  then show ?thesis using queue_okD(1) [OF assms(1) put] w' ints by (simp add: put_task_def Let_def)
qed

lemma spawn_waiting:
  assumes "queue_ok W waiting" "ADLB_Spawn_Cmd A W objv w = (Inr u, w')"
  shows "waiting (ww_adlb w') = add_mset (the (tcl_int A (objv ! 1)), tcl_string A (objv ! 2) @ [NUL], rank_any W,
      (default_put_opts W)\<lparr>po_priority := curr_priority w\<rparr>) (waiting (ww_adlb w)) \<and> curr_priority w' = curr_priority w"
  using assms(2)
  by (auto simp: ADLB_Spawn_Cmd_def work_run c_assert_Inr_conv option_res queue_okD(1) [OF assms(1)] simp del: cmd_simps)

text \<open>What is taken is waiting, and is shown.\<close>

definition takes_one ::
    "('obj, 'f, 'z) tcl_api_scheme \<Rightarrow> task multiset \<Rightarrow> task option \<Rightarrow> 'obj \<Rightarrow> task multiset \<Rightarrow> bool" where
  "takes_one A ts t r ts' \<longleftrightarrow> ts = ts' + (case t of None \<Rightarrow> {#} | Some e \<Rightarrow> {#e#}) \<and> shows_task A t r"

lemma take_okD:
  assumes "take_ok waiting get" "get ty s = ((rc, (p, r), c), s')"
  obtains t where "rc = ADLB_SUCCESS \<longleftrightarrow> t \<noteq> None" "\<And>e. t = Some e \<Longrightarrow> fst (snd e) = p"
    "waiting s = waiting s' + (case t of None \<Rightarrow> {#} | Some e \<Rightarrow> {#e#})"
proof (cases "rc = ADLB_SUCCESS")
  case True
  with assms obtain target opts where "(ty, p, target, opts) \<in># waiting s"
    "waiting s' = waiting s - {#(ty, p, target, opts)#}" unfolding take_ok_def by (metis (full_types))
  with True that [of "Some (ty, p, target, opts)"] show thesis by simp
next
  case False
  with assms have "waiting s' = waiting s" unfolding take_ok_def by (metis (full_types))
  with False that [of None] show thesis by simp
qed

lemma get_waiting:
  assumes Q: "queue_ok W waiting" and run: "ADLB_Get_Cmd A W objv w = (Inr r, w')"
    and t: "\<forall>e \<in># waiting (ww_adlb w). terminated (fst (snd e))"
  shows "\<exists>t. takes_one A (waiting (ww_adlb w)) t r (waiting (ww_adlb w')) \<and> curr_priority w' = curr_priority w"
proof -
  from run obtain ty where ty: "length objv = 3" "tcl_int A (objv ! 1) = Some ty"
    by (cases "tcl_int A (objv ! 1)") (auto simp: ADLB_Get_Cmd_def split: if_splits)
  obtain rc p rank c s where call: "adlb_get W ty (ww_adlb w) = ((rc, (p, rank), c), s)" by (metis prod.exhaust)
  have rc: "rc \<in> {ADLB_SUCCESS, ADLB_SHUTDOWN}"
    using run ty call by (auto simp: ADLB_Get_Cmd_def work_eval split: if_splits)
  have w': "waiting (ww_adlb w') = waiting s" "curr_priority w' = curr_priority w"
    using run ty call rc by (auto simp: ADLB_Get_Cmd_def work_eval queue_okD(4) [OF Q])
  obtain e where e: "rc = ADLB_SUCCESS \<longleftrightarrow> e \<noteq> None" "\<And>x. e = Some x \<Longrightarrow> fst (snd x) = p"
    "waiting (ww_adlb w) = waiting s + (case e of None \<Rightarrow> {#} | Some x \<Rightarrow> {#x#})"
    using take_okD [OF queue_okD(2) [OF Q] call] by blast
  have "shows_task A e r"
  proof (cases e)
    case None
    with e(1) rc run ty call show ?thesis by (auto simp: shows_task_def ADLB_Get_Cmd_def work_eval overwrite_def)
  next
    case (Some x)
    with e t have "p \<noteq> []" by (auto simp: terminated_def)
    with Some e(1,2) run ty call show ?thesis
      using take_overwrite [of p "xfer w"] by (auto simp: shows_task_def ADLB_Get_Cmd_def work_eval)
  qed
  with e(3) w' show ?thesis by (auto simp: takes_one_def)
qed

lemma iget_texts:
  "c_string (overwrite (''ADLB_SHUTDOWN'' @ [NUL]) buf) = Inr ''ADLB_SHUTDOWN''"
  "c_string (overwrite (''ADLB_NOTHING'' @ [NUL]) buf) = Inr ''ADLB_NOTHING''"
  by (subst c_string_overwrite, simp_all add: terminated_def NUL_def)+

lemma iget_waiting:
  assumes Q: "queue_ok W waiting" and run: "ADLB_Iget_Cmd A W objv w = (Inr r, w')"
    and t: "\<forall>e \<in># waiting (ww_adlb w). terminated (fst (snd e))"
  shows "\<exists>t. takes_one A (waiting (ww_adlb w)) t r (waiting (ww_adlb w')) \<and> curr_priority w' = curr_priority w"
proof -
  from run obtain ty where ty: "length objv = 3" "tcl_int A (objv ! 1) = Some ty"
    by (cases "tcl_int A (objv ! 1)") (auto simp: ADLB_Iget_Cmd_def split: if_splits)
  obtain rc p rank c s where call: "adlb_iget W ty (ww_adlb w) = ((rc, (p, rank), c), s)" by (metis prod.exhaust)
  have rc: "rc \<in> {ADLB_SUCCESS, ADLB_SHUTDOWN, ADLB_NOTHING}"
    using run ty call by (auto simp: ADLB_Iget_Cmd_def work_eval split: if_splits)
  have w': "waiting (ww_adlb w') = waiting s" "curr_priority w' = curr_priority w"
    using run ty call rc by (auto simp: ADLB_Iget_Cmd_def work_eval queue_okD(4) [OF Q])
  obtain e where e: "rc = ADLB_SUCCESS \<longleftrightarrow> e \<noteq> None" "\<And>x. e = Some x \<Longrightarrow> fst (snd x) = p"
    "waiting (ww_adlb w) = waiting s + (case e of None \<Rightarrow> {#} | Some x \<Rightarrow> {#x#})"
    using take_okD [OF queue_okD(3) [OF Q] call] by blast
  have "shows_task A e r"
  proof (cases e)
    case None
    with e(1) rc run ty call show ?thesis by (auto simp: shows_task_def ADLB_Iget_Cmd_def work_eval iget_texts [simplified])
  next
    case (Some x)
    with e t have "terminated p" by auto
    with Some e(1,2) run ty call show ?thesis
      using c_string_overwrite [of p "xfer w"] by (auto simp: shows_task_def ADLB_Iget_Cmd_def work_eval)
  qed
  with e(3) w' show ?thesis by (auto simp: takes_one_def)
qed

lemma run_cmd_waiting:
  assumes Q: "queue_ok W waiting" and run: "run_work_cmd A W c w = (Inr rs, w1)"
    and t: "\<forall>e \<in># waiting (ww_adlb w). terminated (fst (snd e))" and nul: "\<forall>x. NUL \<notin> set (tcl_string A x)"
  obtains new taken where "put_tasks A W (curr_priority w) (c # cs) = new @ put_tasks A W (curr_priority w1) cs"
    "mset new + waiting (ww_adlb w) = waiting (ww_adlb w1) + mset (taken_tasks taken)"
    "list_all2 (shows_task A) taken rs" "\<forall>e \<in> set new. terminated (fst (snd e))"
proof (cases c)
  case (Put objv)
  with run that [of "[put_task A W objv]" "[]"] put_waiting [OF Q, of A objv w] nul show thesis
    by (auto simp: work_run put_task_def simp del: cmd_simps)
next
  case (Spawn objv)
  with run that [of "put_tasks A W (curr_priority w) [c]" "[]"] spawn_waiting [OF Q, of A objv w] nul show thesis
    by (auto simp: work_run simp del: cmd_simps)
next
  case (Get objv)
  with run obtain r where r: "ADLB_Get_Cmd A W objv w = (Inr r, w1)" "rs = [r]"
    by (auto simp: work_run simp del: cmd_simps)
  from get_waiting [OF Q r(1) t] obtain e where
    "takes_one A (waiting (ww_adlb w)) e r (waiting (ww_adlb w1))" "curr_priority w1 = curr_priority w" by blast
  with that [of "[]" "[e]"] r(2) Get show thesis by (cases e) (auto simp: takes_one_def)
next
  case (Iget objv)
  with run obtain r where r: "ADLB_Iget_Cmd A W objv w = (Inr r, w1)" "rs = [r]"
    by (auto simp: work_run simp del: cmd_simps)
  from iget_waiting [OF Q r(1) t] obtain e where
    "takes_one A (waiting (ww_adlb w)) e r (waiting (ww_adlb w1))" "curr_priority w1 = curr_priority w" by blast
  with that [of "[]" "[e]"] r(2) Iget show thesis by (cases e) (auto simp: takes_one_def)
next
  case (Set_Priority objv)
  with run that [of "[]" "[]"] show thesis
    by (auto simp: work_run ADLB_Set_Priority_Cmd_def tcl_get_Inr_conv simp del: cmd_simps)
next
  case (Reset_Priority objv)
  with run that [of "[]" "[]"] show thesis
    by (auto simp: work_run ADLB_Reset_Priority_Cmd_def DEFAULT_PRIORITY_def simp del: cmd_simps)
qed

text \<open>
  C15: Tasks are neither lost, duplicated nor invented. After any sequence of successful put,
  spawn, get, iget and priority commands, the tasks the commands ask for (a spawned task has
  the priority set last) together with those waiting before are the tasks waiting now
  together with the tasks the gets took, and every get returns the text of the task it took.
\<close>

theorem tasks_conserved:
  assumes "queue_ok W waiting" and "\<forall>x. NUL \<notin> set (tcl_string A x)"
    and "run_work A W cs w = (Inr results, w')"
    and "\<forall>e \<in># waiting (ww_adlb w). terminated (fst (snd e))"
  shows "\<exists>taken. mset (put_tasks A W (curr_priority w) cs) + waiting (ww_adlb w) =
      waiting (ww_adlb w') + mset (taken_tasks taken) \<and>
    list_all2 (shows_task A) taken results"
  using assms(3,4)
proof (induction cs arbitrary: w results)
  case (Cons c cs)
  from Cons.prems(1) obtain rs w1 rest where run: "run_work_cmd A W c w = (Inr rs, w1)"
    "run_work A W cs w1 = (Inr rest, w')" "results = rs @ rest"
    by (auto simp: work_run simp del: cmd_simps)
  from run_cmd_waiting [OF assms(1) run(1) Cons.prems(2) assms(2), where cs = cs] obtain new taken where
    new: "put_tasks A W (curr_priority w) (c # cs) = new @ put_tasks A W (curr_priority w1) cs"
    "mset new + waiting (ww_adlb w) = waiting (ww_adlb w1) + mset (taken_tasks taken)"
    "list_all2 (shows_task A) taken rs" "\<forall>e \<in> set new. terminated (fst (snd e))" by blast
  have "\<forall>e \<in># waiting (ww_adlb w1). terminated (fst (snd e))"
  proof
    fix e assume "e \<in># waiting (ww_adlb w1)"
    then have "e \<in># mset new + waiting (ww_adlb w)" using new(2) by simp
    then show "terminated (fst (snd e))" using Cons.prems(2) new(4) by auto
  qed
  from Cons.IH [OF run(2) this] obtain taken' where
    "mset (put_tasks A W (curr_priority w1) cs) + waiting (ww_adlb w1) =
      waiting (ww_adlb w') + mset (taken_tasks taken')"
    "list_all2 (shows_task A) taken' rest" by blast
  with new run(3) have "mset (put_tasks A W (curr_priority w) (c # cs)) + waiting (ww_adlb w) =
      waiting (ww_adlb w') + mset (taken_tasks (taken @ taken')) \<and>
      list_all2 (shows_task A) (taken @ taken') results"
    by (simp add: list_all2_appendI) (metis (no_types, lifting) union_assoc union_commute)
  then show ?case by blast
qed (auto simp: work_run simp del: cmd_simps)

section \<open>A queue for examples\<close>

definition take_first :: "adlb_code \<Rightarrow> int \<Rightarrow> task list \<Rightarrow> (adlb_code \<times> (string \<times> int) \<times> int) \<times> task list" where
  "take_first none ty s = (case List.find (\<lambda>e. fst e = ty) s of None \<Rightarrow> ((none, ([], 0), 0), s)
     | Some e \<Rightarrow> ((ADLB_SUCCESS, (fst (snd e), 0), 0), remove1 e s))"

definition val_work :: "(task list, val) work_api" where
  "val_work = \<lparr>
     default_put_opts = \<lparr>po_priority = 0, po_parallelism = 1, po_strictness = ADLB_TGT_STRICT_SOFT, po_accuracy = ADLB_TGT_ACCRY_NODE\<rparr>,
     rank_any = -100, rank_null = -200, comm_rank = 3,
     adlb_put = (\<lambda>p target answer ty opts s. (ADLB_SUCCESS, s @ [(ty, p, target, opts)])),
     adlb_get = take_first ADLB_SHUTDOWN, adlb_iget = take_first ADLB_NOTHING,
     set_var = (\<lambda>v x s. s), hostmap_lookup = (\<lambda>h n s. (ADLB_NOTHING, [])),
     hostmap_stats = (\<lambda>s. (0, 0)), hostmap_list = (\<lambda>n s. ([], 0))\<rparr>"

definition plain_tcl :: "(val, unit) tcl_api" where
  "plain_tcl = val_tcl\<lparr>tcl_string := \<lambda>v. filter (\<lambda>c. c \<noteq> NUL) (val_string v)\<rparr>"

lemma take_first_ok: "none \<noteq> ADLB_SUCCESS \<Longrightarrow> take_ok mset (take_first none)"
proof -
  assume n: "none \<noteq> ADLB_SUCCESS"
  show ?thesis
    unfolding take_ok_def
  proof (intro allI impI)
    fix ty s rc p r c s' assume run: "take_first none ty s = ((rc, (p, r), c), s')"
    show "if rc = ADLB_SUCCESS then \<exists>target opts. (ty, p, target, opts) \<in># mset s \<and> mset s' = mset s - {#(ty, p, target, opts)#}
      else mset s' = mset s"
    proof (cases "List.find (\<lambda>e. fst e = ty) s")
      case None
      with run n show ?thesis by (auto simp: take_first_def)
    next
      case (Some e)
      then have e: "e \<in># mset s" "fst e = ty" by (auto simp: find_Some_iff)
      have r: "rc = ADLB_SUCCESS" "p = fst (snd e)" "mset s' = mset s - {#e#}"
        using run Some by (auto simp: take_first_def)
      obtain target opts where t: "e = (ty, p, target, opts)" using e(2) r(2) by (metis prod.collapse)
      show ?thesis using e(1) r(1,3) unfolding t by auto
    qed
  qed
qed

lemma val_queue_ok: "queue_ok val_work mset"
  by (auto simp: queue_ok_def val_work_def intro: take_first_ok)

definition work_script :: "val work_cmd list" where
  "work_script = [Set_Priority [V_str ''c'', V_int 5], Spawn [V_str ''c'', V_int 0, V_str ''a''],
     Put [V_str ''c'', V_int 2, V_int 1, V_str ''b'', V_int 7, V_int 1], Iget [V_str ''c'', V_int 1, V_str ''r'']]"

lemma tasks_conserved_witness:
  "\<exists>w' taken. run_work plain_tcl val_work work_script \<lparr>ww_adlb = [], curr_priority = 0, task_comm = 0, xfer = replicate 20 NUL\<rparr> =
      (Inr [V_str ''b''], w') \<and>
    mset (put_tasks plain_tcl val_work 0 work_script) = mset (ww_adlb w') + mset (taken_tasks taken) \<and>
    list_all2 (shows_task plain_tcl) taken [V_str ''b'']"
proof -
  let ?w = "\<lparr>ww_adlb = [], curr_priority = 0, task_comm = 0, xfer = replicate 20 NUL\<rparr> :: task list work_world"
  obtain w' where run: "run_work plain_tcl val_work work_script ?w = (Inr [V_str ''b''], w')"
    by (simp add: work_script_def plain_tcl_def val_tcl_def val_work_def take_first_def ADLB_Put_Cmd_def ADLB_Spawn_Cmd_def
        ADLB_Set_Priority_Cmd_def ADLB_Iget_Cmd_def work_eval c_string_def c_defined_def overwrite_def NUL_def)
  have "\<forall>x. NUL \<notin> set (tcl_string plain_tcl x)" by (simp add: plain_tcl_def)
  from tasks_conserved [OF val_queue_ok this run] run show ?thesis by auto
qed

section \<open>The host map\<close>

lemma split_names_concat:
  assumes "\<forall>n \<in> set ns. NUL \<notin> set n \<and> CHR 0x0D \<notin> set n"
  shows "split_names (length ns) (concat (map (\<lambda>n. n @ [CHR 0x0D]) ns) @ rest) = Inr ns"
  using assms
proof (induction ns)
  case (Cons n ns)
  let ?t = "concat (map (\<lambda>n. n @ [CHR 0x0D]) ns) @ rest"
  have "takeWhile (\<lambda>c. c \<noteq> NUL) (n @ CHR 0x0D # ?t) = n @ CHR 0x0D # takeWhile (\<lambda>c. c \<noteq> NUL) ?t"
    using Cons.prems by (subst takeWhile_append2) (auto simp: NUL_def)
  then show ?case using Cons strchr_append [of "CHR 0x0D" n] by simp
qed simp

end
