(* ===== verification/Rule_Cmds.thy ===== *)
theory Rule_Cmds
  imports Work_Cmds
begin

text \<open>
  \<^verbatim>\<open>turbine::c::rule\<close> of \<^verbatim>\<open>src/tcl/turbine/tcl-turbine.c\<close>: the options of a rule, its default
  name, its inputs, and the call of \<^verbatim>\<open>ADLB_Dput\<close>. The name is built in a buffer on the stack,
  so the model keeps the buffer's bytes; the subscripts of the inputs are blocks of memory
  that the command allocates and frees.
\<close>

section \<open>Options\<close>

definition TURBINE_ADLB_WORK_TYPE_WORK :: int where "TURBINE_ADLB_WORK_TYPE_WORK = 0"
definition TURBINE_ADLB_WORK_TYPE_LOCAL :: int where "TURBINE_ADLB_WORK_TYPE_LOCAL = - 1"
definition TCL_TURBINE_MAX_INPUTS :: nat where "TCL_TURBINE_MAX_INPUTS = 128"
definition TURBINE_NAME_MAX :: nat where "TURBINE_NAME_MAX = 128"

text \<open>A name is a null pointer, the buffer, or the string of a Tcl object.\<close>

datatype rule_name = No_Name | In_Buffer string | Of_Object string

record rule_opts =
  ro_name :: rule_name
  ro_work_type :: int
  ro_target :: int
  ro_opts :: adlb_put_opts

definition strncpy :: "string \<Rightarrow> string \<Rightarrow> nat \<Rightarrow> string res" where
  "strncpy dst src n = c_defined (n \<le> length dst) (Inr (take n (src @ replicate n NUL) @ drop n dst))"

text \<open>The name ends behind the first space, which it includes. The copy is not bounded by the buffer.\<close>

definition rule_set_name_default :: "string \<Rightarrow> string \<Rightarrow> string res" where
  "rule_set_name_default buf action =
     (case strchr action (CHR '' '') of
        None \<Rightarrow> strncpy buf action (length buf)
      | Some q \<Rightarrow> let n = q + 1 in
          tcl_check (strncpy buf action n) (\<lambda>buf. c_defined (n < length buf) (Inr (buf[n := NUL]))))"

definition rule_set_opts_default ::
    "int \<Rightarrow> rule_opts \<Rightarrow> string option \<Rightarrow> string option \<Rightarrow> rule_opts res" where
  "rule_set_opts_default any opts action buf =
     tcl_check
       (case action of
          None \<Rightarrow> Inr (case buf of None \<Rightarrow> No_Name | Some b \<Rightarrow> In_Buffer b)
        | Some a \<Rightarrow> (case buf of None \<Rightarrow> Inl Abort
            | Some b \<Rightarrow> tcl_check (rule_set_name_default b a) (\<lambda>b. Inr (In_Buffer b)))) (\<lambda>name.
       Inr (opts\<lparr>ro_name := name, ro_work_type := TURBINE_ADLB_WORK_TYPE_WORK, ro_target := any,
         ro_opts := (ro_opts opts)\<lparr>po_parallelism := 1\<rparr>\<rparr>))"

definition rule_opt_from_kv ::
    "('obj, 'f, 'z) tcl_api_scheme \<Rightarrow> int \<Rightarrow> rule_opts \<Rightarrow> 'obj \<Rightarrow> 'obj \<Rightarrow> rule_opts res" where
  "rule_opt_from_kv A rank opts key val =
     (let k = tcl_string A key; po = ro_opts opts in
      if k = ''accuracy''
      then tcl_check (adlb_parse_accuracy A val) (\<lambda>a. Inr (opts\<lparr>ro_opts := po\<lparr>po_accuracy := a\<rparr>\<rparr>))
      else if k = ''name'' then Inr (opts\<lparr>ro_name := Of_Object (tcl_string A val)\<rparr>)
      else if k = ''parallelism''
      then tcl_check (tcl_get (tcl_int A val)) (\<lambda>t. Inr (opts\<lparr>ro_opts := po\<lparr>po_parallelism := t\<rparr>\<rparr>))
      else if k = ''target''
      then tcl_check (tcl_get (tcl_int A val)) (\<lambda>t. Inr (opts\<lparr>ro_target := t\<rparr>))
      else if k = ''type''
      then tcl_check (tcl_get (tcl_int A val)) (\<lambda>t. Inr
        (if t = TURBINE_ADLB_WORK_TYPE_LOCAL
         then opts\<lparr>ro_work_type := TURBINE_ADLB_WORK_TYPE_WORK, ro_target := rank,
           ro_opts := po\<lparr>po_strictness := ADLB_TGT_STRICT_HARD\<rparr>\<rparr>
         else opts\<lparr>ro_work_type := t\<rparr>))
      else if k = ''strictness''
      then tcl_check (adlb_parse_strictness A val) (\<lambda>s. Inr (opts\<lparr>ro_opts := po\<lparr>po_strictness := s\<rparr>\<rparr>))
      else Inl Tcl_Error)"

fun rule_opt_loop ::
    "('obj, 'f, 'z) tcl_api_scheme \<Rightarrow> int \<Rightarrow> rule_opts \<Rightarrow> 'obj list \<Rightarrow> rule_opts res" where
  "rule_opt_loop A rank opts (key # val # objs) =
     tcl_check (rule_opt_from_kv A rank opts key val) (\<lambda>opts. rule_opt_loop A rank opts objs)"
| "rule_opt_loop A rank opts _ = Inr opts"

definition rule_opts_from_list ::
    "('obj, 'f, 'z) tcl_api_scheme \<Rightarrow> int \<Rightarrow> int \<Rightarrow> rule_opts \<Rightarrow> 'obj list \<Rightarrow> string \<Rightarrow> string \<Rightarrow> rule_opts res" where
  "rule_opts_from_list A any rank opts objs name_buffer action =
     tcl_condition (length objs mod 2 = 0)
       (tcl_check (rule_set_opts_default any opts None None) (\<lambda>opts.
        tcl_check (rule_opt_loop A rank opts objs) (\<lambda>opts.
          if ro_name opts = No_Name
          then tcl_check (rule_set_name_default name_buffer action) (\<lambda>b. Inr (opts\<lparr>ro_name := In_Buffer b\<rparr>))
          else Inr opts)))"

text \<open>Parsing options for their errors only; the code of the parser is dropped as well.\<close>

definition Turbine_RuleOpts_Cmd ::
    "('obj, 'f, 'z) tcl_api_scheme \<Rightarrow> int \<Rightarrow> int \<Rightarrow> rule_opts \<Rightarrow> string \<Rightarrow> 'obj list \<Rightarrow> unit res" where
  "Turbine_RuleOpts_Cmd A any rank opts t objv =
     (case rule_opts_from_list A any rank (opts\<lparr>ro_name := No_Name\<rparr>) (tl objv) t ''dummy action'' of
        Inl e \<Rightarrow> if e = Tcl_Error then Inr () else Inl e
      | Inr _ \<Rightarrow> Inr ())"

section \<open>Inputs\<close>

text \<open>
  \<^verbatim>\<open>malloc\<close> is a parameter here, because this memory has no next address. A list that is not
  one fails an assertion; the maximal number of inputs is itself refused.
\<close>

record ('w, 'obj) rule_api = "('w, 'obj) work_api" +
  adlb_dput :: "string \<Rightarrow> int \<Rightarrow> int \<Rightarrow> int \<Rightarrow> adlb_put_opts \<Rightarrow> string \<Rightarrow> int list \<Rightarrow> (int \<times> string) list \<Rightarrow>
    'w \<Rightarrow> adlb_code \<times> 'w"
  malloc_block :: "nat \<Rightarrow> mem \<Rightarrow> nat \<times> mem"

fun extract_ids_loop ::
    "('w, 'obj, 'y) rule_api_scheme \<Rightarrow> 'obj handle_api \<Rightarrow> 'obj list \<Rightarrow> int list \<Rightarrow> (int \<times> adlb_subscript) list \<Rightarrow>
      (int list \<times> (int \<times> adlb_subscript) list, mem) cmd" where
  "extract_ids_loop W H [] ids pairs m = (Inr (ids, pairs), m)"
| "extract_ids_loop W H (obj # objs) ids pairs m =
     (case ADLB_Parse_Handle H obj False m of
        Inl e \<Rightarrow> (Inl e, m)
      | Inr (handle, m) \<Rightarrow>
          (let sub = p_val (h_sub handle) in
           if s_key sub = None then extract_ids_loop W H objs (ids @ [h_id handle]) pairs m
           else if b_data (p_buf (h_sub handle)) = s_key sub
           then extract_ids_loop W H objs ids (pairs @ [(h_id handle, sub)]) m
           else let (b, m) = malloc_block W (s_length sub) m in
             (case memcpy (Some (b, 0)) 0 (s_key sub) (s_length sub) m of
                Inl e \<Rightarrow> (Inl e, m)
              | Inr m \<Rightarrow> extract_ids_loop W H objs ids (pairs @ [(h_id handle, sub\<lparr>s_key := Some (b, 0)\<rparr>)]) m)))"

definition turbine_extract_ids ::
    "('obj, 'f, 'z) tcl_api_scheme \<Rightarrow> ('w, 'obj, 'y) rule_api_scheme \<Rightarrow> 'obj handle_api \<Rightarrow> 'obj \<Rightarrow> nat \<Rightarrow>
      (int list \<times> (int \<times> adlb_subscript) list, mem) cmd" where
  "turbine_extract_ids A W H lst limit m =
     (case tcl_list A lst of
        None \<Rightarrow> (Inl Abort, m)
      | Some entries \<Rightarrow>
          if length entries < limit then extract_ids_loop W H entries [] [] m else (Inl Tcl_Error, m))"

fun read_pairs :: "(int \<times> adlb_subscript) list \<Rightarrow> mem \<Rightarrow> (int \<times> string) list res" where
  "read_pairs [] m = Inr []"
| "read_pairs ((i, sub) # pairs) m =
     tcl_check (read_bytes (s_key sub) (s_length sub) m) (\<lambda>bs. tcl_check (read_pairs pairs m) (\<lambda>ps. Inr ((i, bs) # ps)))"

fun free_pairs :: "(int \<times> adlb_subscript) list \<Rightarrow> mem \<Rightarrow> mem res" where
  "free_pairs [] m = Inr m"
| "free_pairs ((i, sub) # pairs) m =
     (case s_key sub of
        None \<Rightarrow> free_pairs pairs m
      | Some (b, off) \<Rightarrow> c_defined (off = 0 \<and> m b \<noteq> None) (free_pairs pairs (m(b := None))))"

section \<open>The rule command\<close>

definition name_string :: "rule_name \<Rightarrow> string res" where
  "name_string name = (case name of No_Name \<Rightarrow> Inl Undefined | In_Buffer b \<Rightarrow> c_string b | Of_Object s \<Rightarrow> Inr s)"

definition rule_options ::
    "('obj, 'f, 'z) tcl_api_scheme \<Rightarrow> ('w, 'obj, 'y) rule_api_scheme \<Rightarrow> string \<Rightarrow> 'obj list \<Rightarrow> rule_opts res" where
  "rule_options A W name_buffer objv =
     (let action = tcl_string A (objv ! 2);
          opts = \<lparr>ro_name = No_Name, ro_work_type = 0, ro_target = 0, ro_opts = default_put_opts W\<rparr> in
      if 3 < length objv
      then rule_opts_from_list A (rank_any W) (comm_rank W) opts (drop 3 objv) name_buffer action
      else rule_set_opts_default (rank_any W) opts (Some action) (Some name_buffer))"

text \<open>The name is read when \<^verbatim>\<open>ADLB_Dput\<close> is called, and for the message when the inputs are wrong.\<close>

definition Turbine_Rule_Cmd ::
    "('obj, 'f, 'z) tcl_api_scheme \<Rightarrow> ('w, 'obj, 'y) rule_api_scheme \<Rightarrow> 'obj handle_api \<Rightarrow> string \<Rightarrow> 'obj list \<Rightarrow>
      (unit, 'w work_world \<times> mem) cmd" where
  "Turbine_Rule_Cmd A W H name_buffer objv = (\<lambda>(w, m).
     if length objv < 3 then (Inl Tcl_Error, (w, m))
     else case rule_options A W name_buffer objv of
       Inl e \<Rightarrow> (Inl e, (w, m))
     | Inr opts \<Rightarrow>
         (case turbine_extract_ids A W H (objv ! 1) TCL_TURBINE_MAX_INPUTS m of
            (Inl e, m) \<Rightarrow> (if e = Tcl_Error then tcl_check (name_string (ro_name opts)) (\<lambda>_. Inl e) else Inl e, (w, m))
          | (Inr (ids, pairs), m) \<Rightarrow>
              (let put = (ro_opts opts)\<lparr>po_priority := curr_priority w\<rparr> in
               case tcl_check (name_string (ro_name opts)) (\<lambda>name. tcl_check (read_pairs pairs m) (\<lambda>ps. Inr (name, ps))) of
                 Inl e \<Rightarrow> (Inl e, (w, m))
               | Inr (name, ps) \<Rightarrow>
                   let (ac, s) = adlb_dput W (tcl_string A (objv ! 2) @ [NUL]) (ro_target opts) (comm_rank W)
                         (ro_work_type opts) put name ids ps (ww_adlb w);
                       w = w\<lparr>ww_adlb := s\<rparr> in
                   if ac \<noteq> ADLB_SUCCESS then (Inl Tcl_Error, (w, m))
                   else case free_pairs pairs m of
                     Inl e \<Rightarrow> (Inl e, (w, m))
                   | Inr m \<Rightarrow> (Inr (), (w, m)))))"

end
