(* ===== verification/Rule_Correct.thy ===== *)
theory Rule_Correct
  imports Rule_Cmds
begin

text \<open>
  What a rule passes on: its inputs split into plain data and subscripted data without loss
  or leak, its options with the last word winning, and its default name where it fits.
\<close>

section \<open>The default name\<close>

lemma takeWhile_NUL: "NUL \<notin> set s \<Longrightarrow> takeWhile (\<lambda>c. c \<noteq> NUL) (s @ NUL # r) = s"
  by (induction s) auto

lemma c_string_NUL: "NUL \<notin> set s \<Longrightarrow> c_string (s @ NUL # r) = Inr s"
  by (simp add: c_string_def takeWhile_NUL)

definition first_word :: "string \<Rightarrow> string" where
  "first_word action = (case strchr action (CHR '' '') of None \<Rightarrow> action | Some q \<Rightarrow> take (q + 1) action)"

text \<open>
  The default name of a rule is the first word of its action with the space behind it, or
  the whole action when there is no space. It is a C string exactly when the buffer has room
  for it and a terminator: otherwise a longer first word overruns the buffer, and a long
  action without a space leaves the name without an end.
\<close>

theorem rule_name_default:
  assumes "NUL \<notin> set action"
  shows "tcl_check (rule_set_name_default buf action) c_string =
    (let word = (case strchr action (CHR '' '') of None \<Rightarrow> action | Some q \<Rightarrow> take (q + 1) action) in
     if length word < length buf then Inr word else Inl Undefined)"
proof (cases "strchr action (CHR '' '')")
  case None
  show ?thesis
  proof (cases "length action < length buf")
    case True
    then obtain n where n: "length buf = length action + Suc n" by (metis less_iff_Suc_add add_Suc_right)
    then have "take (length buf) (action @ replicate (length buf) NUL) = action @ NUL # replicate n NUL"
      by simp
    then have "rule_set_name_default buf action = Inr (action @ NUL # replicate n NUL)"
      unfolding rule_set_name_default_def strncpy_def using None by (simp del: take_append)
    then show ?thesis using None True c_string_NUL [OF assms] by simp
  next
    case False
    then have "take (length buf) (action @ replicate (length buf) NUL) = take (length buf) action" by simp
    moreover have "NUL \<notin> set (take (length buf) action)" using assms by (meson in_set_takeD)
    ultimately show ?thesis using None False
      by (simp add: rule_set_name_default_def strncpy_def c_defined_def c_string_def)
  qed
next
  case (Some q)
  then have q: "q < length action" by (simp add: strchr_Some)
  let ?w = "take (q + 1) action"
  have len: "length ?w = q + 1" using q by simp
  show ?thesis
  proof (cases "q + 1 < length buf")
    case True
    have "take (q + 1) (action @ replicate (q + 1) NUL) = ?w" using q by simp
    moreover have "(?w @ drop (q + 1) buf)[q + 1 := NUL] = ?w @ NUL # drop (q + 2) buf"
      using True len by (metis Cons_nth_drop_Suc add_2_eq_Suc' diff_self_eq_0 list_update_append
          list_update_code(2) less_irrefl add.commute plus_1_eq_Suc)
    moreover have "NUL \<notin> set ?w" using assms by (meson in_set_takeD)
    ultimately show ?thesis using Some True len c_string_NUL [of ?w]
      by (simp add: rule_set_name_default_def strncpy_def c_defined_def)
  next
    case False
    then show ?thesis using Some len
      by (auto simp: rule_set_name_default_def strncpy_def c_defined_def Let_def)
  qed
qed

lemma rule_name_default_witness:
  "tcl_check (rule_set_name_default ''????????'' ''f x'') c_string = Inr ''f ''"
proof -
  have "NUL \<notin> set ''f x''" by (simp add: NUL_def)
  from rule_name_default [OF this, of "''????????''"] show ?thesis by simp
qed

section \<open>Options\<close>

fun kv_pairs :: "'obj list \<Rightarrow> ('obj \<times> 'obj) list" where
  "kv_pairs (k # v # objs) = (k, v) # kv_pairs objs"
| "kv_pairs _ = []"

text \<open>The last value among those that the pairs say.\<close>

fun last_word :: "(string \<Rightarrow> 'obj \<Rightarrow> 'a option) \<Rightarrow> ('obj, 'f, 'z) tcl_api_scheme \<Rightarrow> ('obj \<times> 'obj) list \<Rightarrow> 'a \<Rightarrow> 'a" where
  "last_word f A [] x = x"
| "last_word f A ((k, v) # kvs) x = last_word f A kvs (case f (tcl_string A k) v of None \<Rightarrow> x | Some y \<Rightarrow> y)"

definition is_local :: "('obj, 'f, 'z) tcl_api_scheme \<Rightarrow> string \<Rightarrow> 'obj \<Rightarrow> bool" where
  "is_local A k v \<longleftrightarrow> k = ''type'' \<and> tcl_int A v = Some (- 1)"

definition says_target :: "('obj, 'f, 'z) tcl_api_scheme \<Rightarrow> int \<Rightarrow> string \<Rightarrow> 'obj \<Rightarrow> int option" where
  "says_target A rank k v = (if k = ''target'' then tcl_int A v else if is_local A k v then Some rank else None)"

definition says_type :: "('obj, 'f, 'z) tcl_api_scheme \<Rightarrow> string \<Rightarrow> 'obj \<Rightarrow> int option" where
  "says_type A k v = (if is_local A k v then Some 0 else if k = ''type'' then tcl_int A v else None)"

definition says_parallelism :: "('obj, 'f, 'z) tcl_api_scheme \<Rightarrow> string \<Rightarrow> 'obj \<Rightarrow> int option" where
  "says_parallelism A k v = (if k = ''parallelism'' then tcl_int A v else None)"

definition says_strictness :: "('obj, 'f, 'z) tcl_api_scheme \<Rightarrow> string \<Rightarrow> 'obj \<Rightarrow> adlb_target_strictness option" where
  "says_strictness A k v =
     (if k = ''strictness'' then Some (if tcl_string A v = ''HARD'' then ADLB_TGT_STRICT_HARD else ADLB_TGT_STRICT_SOFT)
      else if is_local A k v then Some ADLB_TGT_STRICT_HARD else None)"

definition says_accuracy :: "('obj, 'f, 'z) tcl_api_scheme \<Rightarrow> string \<Rightarrow> 'obj \<Rightarrow> adlb_target_accuracy option" where
  "says_accuracy A k v =
     (if k = ''accuracy'' then Some (if tcl_string A v = ''RANK'' then ADLB_TGT_ACCRY_RANK else ADLB_TGT_ACCRY_NODE) else None)"

definition says_name :: "('obj, 'f, 'z) tcl_api_scheme \<Rightarrow> string \<Rightarrow> 'obj \<Rightarrow> rule_name option" where
  "says_name A k v = (if k = ''name'' then Some (Of_Object (tcl_string A v)) else None)"

lemmas says_defs = says_target_def says_type_def says_parallelism_def says_strictness_def says_accuracy_def
  says_name_def is_local_def

definition options_said :: "('obj, 'f, 'z) tcl_api_scheme \<Rightarrow> int \<Rightarrow> ('obj \<times> 'obj) list \<Rightarrow> rule_opts \<Rightarrow> rule_opts" where
  "options_said A rank kvs opts = \<lparr>
     ro_name = last_word (says_name A) A kvs (ro_name opts),
     ro_work_type = last_word (says_type A) A kvs (ro_work_type opts),
     ro_target = last_word (says_target A rank) A kvs (ro_target opts),
     ro_opts = \<lparr>po_priority = po_priority (ro_opts opts),
       po_parallelism = last_word (says_parallelism A) A kvs (po_parallelism (ro_opts opts)),
       po_strictness = last_word (says_strictness A) A kvs (po_strictness (ro_opts opts)),
       po_accuracy = last_word (says_accuracy A) A kvs (po_accuracy (ro_opts opts))\<rparr>\<rparr>"

lemma rule_opt_said:
  assumes "rule_opt_from_kv A rank opts key val = Inr opts'"
  shows "options_said A rank ((key, val) # kvs) opts = options_said A rank kvs opts'"
  using assms
  by (cases "tcl_int A val = Some (- 1)")
    (auto simp: rule_opt_from_kv_def options_said_def says_defs Let_def tcl_check_Inr_conv tcl_get_Inr_conv
      adlb_parse_accuracy_def adlb_parse_strictness_def TURBINE_ADLB_WORK_TYPE_LOCAL_def
      TURBINE_ADLB_WORK_TYPE_WORK_def split: if_splits)

lemma rule_opt_loop_said:
  "rule_opt_loop A rank opts objs = Inr opts' \<Longrightarrow> even (length objs) \<Longrightarrow> opts' = options_said A rank (kv_pairs objs) opts"
proof (induction A rank opts objs rule: rule_opt_loop.induct)
  case (1 A rank opts key val objs)
  then show ?case by (auto simp: tcl_check_Inr_conv rule_opt_said)
qed (auto simp: options_said_def)

lemma options_said_none: "options_said A rank [] opts = opts"
  by (simp add: options_said_def)

text \<open>
  C40: The options of a rule, none included, are those said last, each on its own:
  \<^verbatim>\<open>type -1\<close> counts as a word on type, target and strictness at once (run here, and nowhere
  else), so a later \<^verbatim>\<open>target\<close> moves the task away again. What is not said is what the code
  sets beforehand: type 0, any rank, parallelism 1, the strictness and accuracy of ADLB's
  default options, and for the name the first word of the action with the blank behind it,
  not, as the comment has it, the first token with the output list. The name is a C string
  as long as the word fits in the buffer.
\<close>

theorem rule_options_last_word:
  assumes "rule_options A W buf objv = Inr opts"
  shows "\<exists>said. said = options_said A (comm_rank W) (kv_pairs (drop 3 objv))
      \<lparr>ro_name = No_Name, ro_work_type = 0, ro_target = rank_any W, ro_opts = (default_put_opts W)\<lparr>po_parallelism := 1\<rparr>\<rparr> \<and>
    (if ro_name said = No_Name
     then \<exists>name. rule_set_name_default buf (tcl_string A (objv ! 2)) = Inr name \<and> opts = said\<lparr>ro_name := In_Buffer name\<rparr> \<and>
       (NUL \<notin> set (tcl_string A (objv ! 2)) \<longrightarrow> name_string (In_Buffer name) =
          (let word = first_word (tcl_string A (objv ! 2)) in if length word < length buf then Inr word else Inl Undefined))
     else opts = said)"
proof -
  have "name_string (In_Buffer name) = (let word = first_word action in if length word < length buf then Inr word else Inl Undefined)"
    if "rule_set_name_default buf action = Inr name" "NUL \<notin> set action" for name action
    using rule_name_default [OF that(2), of buf] that(1) by (simp add: name_string_def first_word_def)
  with assms show ?thesis
    by (auto simp: rule_options_def rule_opts_from_list_def rule_set_opts_default_def Let_def tcl_condition_Inr_conv
        tcl_check_Inr_conv TURBINE_ADLB_WORK_TYPE_WORK_def even_iff_mod_2_eq_zero options_said_none
        dest!: rule_opt_loop_said split: if_splits)
qed

section \<open>Inputs\<close>

text \<open>The datum and the subscript, with its terminator, that an input names.\<close>

definition input_of :: "'obj handle_api \<Rightarrow> mem \<Rightarrow> 'obj \<Rightarrow> (int \<times> string option) res" where
  "input_of H m obj =
     tcl_check (ADLB_Extract_Handle H obj m) (\<lambda>(i, p, len).
       if p = None then Inr (i, None) else tcl_check (read_bytes p len m) (\<lambda>bs. Inr (i, Some (bs @ [NUL]))))"

text \<open>What is relied on in the allocation of a buffer: it succeeds while fewer than \<open>limit\<close> blocks are in use.\<close>

definition alloc_ok :: "'obj handle_api \<Rightarrow> nat \<Rightarrow> bool" where
  "alloc_ok H limit \<longleftrightarrow> resize_ok H \<and>
     (\<forall>c n m. finite (dom m) \<and> card (dom m) < limit \<longrightarrow> resize_buf H no_buf c n m \<noteq> None)"

lemma read_bytes_mono: "m \<subseteq>\<^sub>m M \<Longrightarrow> read_bytes p n m = Inr bs \<Longrightarrow> read_bytes p n M = Inr bs"
  by (auto simp: read_bytes_def map_le_def c_defined_Inr_conv dom_def split: option.splits prod.splits)

lemma extract_mono: "m \<subseteq>\<^sub>m M \<Longrightarrow> ADLB_Extract_Handle H obj m = Inr r \<Longrightarrow> ADLB_Extract_Handle H obj M = Inr r"
  by (auto simp: ADLB_Extract_Handle_def tcl_check_Inr_conv dest: read_bytes_mono split: option.splits prod.splits)

lemma input_cases:
  assumes "input_of H m obj = Inr (i, t)"
  obtains len where "ADLB_Extract_Handle H obj m = Inr (i, None, len)" "t = None"
  | p len str where "ADLB_Extract_Handle H obj m = Inr (i, p, len)" "p \<noteq> None" "read_bytes p len m = Inr str" "t = Some (str @ [NUL])"
proof -
  from assms obtain p len where ex: "ADLB_Extract_Handle H obj m = Inr (i, p, len)"
    and r: "(if p = None then Inr (i, None) else tcl_check (read_bytes p len m) (\<lambda>bs. Inr (i, Some (bs @ [NUL])))) = Inr (i, t)"
    by (auto simp: input_of_def tcl_check_Inr_conv split: if_splits)
  show thesis
  proof (cases "p = None")
    case True
    with ex r that(1) show ?thesis by simp
  next
    case False
    with r obtain str where "read_bytes p len m = Inr str" "t = Some (str @ [NUL])"
      by (auto simp: tcl_check_Inr_conv)
    with ex False that(2) show ?thesis by blast
  qed
qed

lemma input_mono:
  assumes "m \<subseteq>\<^sub>m M" "input_of H m obj = Inr (i, t)"
  shows "input_of H M obj = Inr (i, t)"
  using assms(2)
  by (rule input_cases) (simp_all add: input_of_def extract_mono [OF assms(1)] read_bytes_mono [OF assms(1)])

lemma parse_input_plain:
  assumes "input_of H m obj = Inr (i, None)"
  shows "ADLB_Parse_Handle H obj False m = Inr (\<lparr>h_id = i, h_sub = \<lparr>p_val = ADLB_NO_SUB, p_buf = no_buf\<rparr>\<rparr>, m)"
  using assms by (rule input_cases) (simp_all add: ADLB_Parse_Handle_def)

lemma resize_fresh:
  assumes "alloc_ok H limit" "0 < n" "finite (dom m)" "card (dom m) < limit"
  obtains buf c' b bs m' where "resize_buf H no_buf c n m = Some (buf, c', m')" "b_data buf = Some (b, 0)" "m b = None"
    "m' = m(b \<mapsto> bs)" "n \<le> length bs"
proof -
  from assms(1,3,4) obtain buf c' m' where r: "resize_buf H no_buf c n m = Some (buf, c', m')"
    unfolding alloc_ok_def by (metis not_Some_eq prod.exhaust)
  have lt: "b_length no_buf < n" using assms(2) by (simp add: no_buf_def)
  from assms(1) r lt obtain b bs where b: "n \<le> b_length buf" "b_data buf = Some (b, 0)" "m' b = Some bs"
    "length bs = b_length buf" "m b = None \<or> \<not> c \<and> b_data no_buf = Some (b, 0)"
    "\<forall>q. q \<noteq> b \<and> (c \<or> b_data no_buf \<noteq> Some (q, 0)) \<longrightarrow> m' q = m q"
    unfolding alloc_ok_def resize_ok_def by blast
  have "m' = m(b \<mapsto> bs)" using b(3,6) by (auto simp: no_buf_def fun_eq_iff)
  with that [OF r b(2)] b(1,4,5) show thesis by (simp add: no_buf_def)
qed

lemma parse_input_sub:
  assumes H: "alloc_ok H limit" "finite (dom m)" "card (dom m) < limit" and inp: "input_of H m obj = Inr (i, Some t)"
  obtains b bs buf where "m b = None" "b_data buf = Some (b, 0)" "length t \<le> length bs" "take (length t) bs = t"
    "ADLB_Parse_Handle H obj False m =
      Inr (\<lparr>h_id = i, h_sub = \<lparr>p_val = \<lparr>s_key = Some (b, 0), s_length = length t\<rparr>, p_buf = buf\<rparr>\<rparr>, m(b \<mapsto> bs))"
proof -
  from inp obtain q off len str xs where ex: "ADLB_Extract_Handle H obj m = Inr (i, Some (q, off), len)"
    and str: "read_bytes (Some (q, off)) len m = Inr str" "t = str @ [NUL]" and xs: "m q = Some xs"
    by (auto simp: input_of_def tcl_check_Inr_conv read_bytes_def split: if_splits option.splits)
  have xs': "off + len \<le> length xs" "str = take len (drop off xs)"
    using str(1) xs by (auto simp: read_bytes_def c_defined_Inr_conv)
  then have len: "length str = len" by simp
  obtain buf c' b bs m' where r: "resize_buf H no_buf False (len + 1) m = Some (buf, c', m')"
    "b_data buf = Some (b, 0)" "m b = None" "m' = m(b \<mapsto> bs)" "len + 1 \<le> length bs"
    using resize_fresh [OF H(1) _ H(2,3), of "len + 1"] by (metis add_gr_0 zero_less_one)
  have bq: "b \<noteq> q" using r(3) xs by auto
  let ?bs = "t @ drop (len + 1) bs"
  have cp: "memcpy (Some (b, 0)) 0 (Some (q, off)) len (m(b \<mapsto> bs)) = Inr (m(b \<mapsto> str @ drop len bs))"
    using memcpy_blocks [of "m(b \<mapsto> bs)" b bs q xs off len 0] bq xs xs' r(5) by simp
  have wr: "write_bytes (Some (b, 0)) len [NUL] (m(b \<mapsto> str @ drop len bs)) = Inr (m(b \<mapsto> ?bs))"
    using r(5) len str(2) by (simp add: write_bytes_def)
  have "ADLB_Parse_Struct_Subscript H (Some (q, off)) len no_buf ADLB_NO_SUB False False m =
      Inr (buf, \<lparr>s_key = Some (b, 0), s_length = len + 1\<rparr>, c', m(b \<mapsto> ?bs))"
    using r cp wr by (simp add: ADLB_Parse_Struct_Subscript_def)
  then have "ADLB_Parse_Handle H obj False m =
      Inr (\<lparr>h_id = i, h_sub = \<lparr>p_val = \<lparr>s_key = Some (b, 0), s_length = length t\<rparr>, p_buf = buf\<rparr>\<rparr>, m(b \<mapsto> ?bs))"
    using ex str(2) len by (simp add: ADLB_Parse_Handle_def)
  with that [of b buf ?bs] r(2,3) show thesis by simp
qed

text \<open>
  The subscripts collected so far, each in a block of its own that the memory did not have
  when the command started.
\<close>

fun pairs_in :: "mem \<Rightarrow> mem \<Rightarrow> (int \<times> adlb_subscript) list \<Rightarrow> (int \<times> string) list \<Rightarrow> bool" where
  "pairs_in m M [] ps \<longleftrightarrow> ps = [] \<and> M = m"
| "pairs_in m M ((i, sub) # pairs) ps \<longleftrightarrow> (\<exists>b bs t rest. ps = (i, t) # rest \<and> s_key sub = Some (b, 0) \<and>
     s_length sub = length t \<and> length t \<le> length bs \<and> take (length t) bs = t \<and>
     M b = Some bs \<and> m b = None \<and> pairs_in m (M(b := None)) pairs rest)"

lemma pairs_in_Cons:
  assumes "pairs_in m M (p # pairs) ps"
  obtains b bs t rest where "ps = (fst p, t) # rest" "s_key (snd p) = Some (b, 0)" "s_length (snd p) = length t"
    "length t \<le> length bs" "take (length t) bs = t" "M b = Some bs" "m b = None" "pairs_in m (M(b := None)) pairs rest"
  using assms by (cases p) auto

lemma pairs_in_le: "pairs_in m M pairs ps \<Longrightarrow> m \<subseteq>\<^sub>m M"
proof (induction pairs arbitrary: M ps)
  case (Cons p pairs)
  from pairs_in_Cons [OF Cons.prems] obtain b rest where b: "m b = None" "pairs_in m (M(b := None)) pairs rest" by metis
  note le = Cons.IH [OF b(2)]
  show ?case
    unfolding map_le_def
  proof
    fix a assume a: "a \<in> dom m"
    with b(1) have "a \<noteq> b" by auto
    moreover have "m a = (M(b := None)) a" using le a unfolding map_le_def by blast
    ultimately show "m a = M a" by simp
  qed
qed simp

lemma pairs_in_snoc:
  "pairs_in m M pairs ps \<Longrightarrow> M b = None \<Longrightarrow> m b = None \<Longrightarrow> length t \<le> length bs \<Longrightarrow> take (length t) bs = t \<Longrightarrow>
    pairs_in m (M(b \<mapsto> bs)) (pairs @ [(i, \<lparr>s_key = Some (b, 0), s_length = length t\<rparr>)]) (ps @ [(i, t)])"
proof (induction pairs arbitrary: M ps)
  case Nil
  then show ?case by (auto simp: fun_upd_idem)
next
  case (Cons p pairs)
  from pairs_in_Cons [OF Cons.prems(1)] obtain c cs u rest where c: "ps = (fst p, u) # rest" "s_key (snd p) = Some (c, 0)"
    "s_length (snd p) = length u" "length u \<le> length cs" "take (length u) cs = u" "M c = Some cs" "m c = None"
    "pairs_in m (M(c := None)) pairs rest" by metis
  have "b \<noteq> c" using c(6) Cons.prems(2) by auto
  then have "(M(b \<mapsto> bs))(c := None) = (M(c := None))(b \<mapsto> bs)" by (rule fun_upd_twist)
  moreover have "pairs_in m ((M(c := None))(b \<mapsto> bs)) (pairs @ [(i, \<lparr>s_key = Some (b, 0), s_length = length t\<rparr>)]) (rest @ [(i, t)])"
    by (rule Cons.IH [OF c(8)]) (use Cons.prems \<open>b \<noteq> c\<close> in auto)
  ultimately show ?case using c(1-7) \<open>b \<noteq> c\<close> by (cases p) (auto simp del: fun_upd_apply simp: fun_upd_other)
qed

lemma pairs_in_card: "pairs_in m M pairs ps \<Longrightarrow> finite (dom M - dom m) \<and> card (dom M - dom m) = length pairs \<and> length ps = length pairs"
proof (induction pairs arbitrary: M ps)
  case (Cons p pairs)
  from pairs_in_Cons [OF Cons.prems] obtain b bs t rest where b: "ps = (fst p, t) # rest" "M b = Some bs" "m b = None"
    "pairs_in m (M(b := None)) pairs rest" by metis
  have "dom (M(b := None)) = dom M - {b}" by auto
  with Cons.IH [OF b(4)] have "finite (dom M - {b} - dom m)" "card (dom M - {b} - dom m) = length pairs" "length rest = length pairs"
    by metis+
  moreover have "dom M - dom m = insert b (dom M - {b} - dom m)" using b by auto
  ultimately show ?case using b(1) by (simp add: card_insert_disjoint)
qed simp

lemma pairs_in_read: "pairs_in m M pairs ps \<Longrightarrow> M \<subseteq>\<^sub>m M' \<Longrightarrow> read_pairs pairs M' = Inr ps"
proof (induction pairs arbitrary: M ps)
  case (Cons p pairs)
  from pairs_in_Cons [OF Cons.prems(1)] obtain b bs t rest where b: "ps = (fst p, t) # rest" "s_key (snd p) = Some (b, 0)"
    "s_length (snd p) = length t" "length t \<le> length bs" "take (length t) bs = t" "M b = Some bs"
    "pairs_in m (M(b := None)) pairs rest" by metis
  have "M' b = Some bs" using b(6) Cons.prems(2) by (auto simp: map_le_def dom_def)
  moreover have "M(b := None) \<subseteq>\<^sub>m M'" using Cons.prems(2) by (auto simp: map_le_def)
  ultimately show ?case using b Cons.IH [OF b(7)] by (cases p) (simp del: fun_upd_apply)
qed simp

lemma pairs_in_free: "pairs_in m M pairs ps \<Longrightarrow> free_pairs pairs M = Inr m"
proof (induction pairs arbitrary: M ps)
  case (Cons p pairs)
  from pairs_in_Cons [OF Cons.prems] obtain b bs rest where "s_key (snd p) = Some (b, 0)" "M b = Some bs"
    and P: "pairs_in m (M(b := None)) pairs rest" by metis
  then show ?case using Cons.IH [OF P] by (cases p) (simp del: fun_upd_apply)
qed simp

definition plain_ids :: "(int \<times> string option) list \<Rightarrow> int list" where
  "plain_ids inps = map fst (filter (\<lambda>(i, s). s = None) inps)"

definition sub_pairs :: "(int \<times> string option) list \<Rightarrow> (int \<times> string) list" where
  "sub_pairs inps = map (\<lambda>(i, s). (i, the s)) (filter (\<lambda>(i, s). s \<noteq> None) inps)"

lemma inputs_simps [simp]:
  "plain_ids [] = []" "plain_ids ((i, None) # inps) = i # plain_ids inps" "plain_ids ((i, Some t) # inps) = plain_ids inps"
  "sub_pairs [] = []" "sub_pairs ((i, None) # inps) = sub_pairs inps" "sub_pairs ((i, Some t) # inps) = (i, t) # sub_pairs inps"
  by (simp_all add: plain_ids_def sub_pairs_def)

lemma extract_loop_inputs:
  assumes H: "alloc_ok H limit" and "pairs_in m M pairs ps" "list_all2 (\<lambda>obj inp. input_of H m obj = Inr inp) objs inps"
    and "finite (dom M)" "card (dom M) + length objs \<le> limit"
  shows "\<exists>pairs' M'. extract_ids_loop W H objs ids pairs M = (Inr (ids @ plain_ids inps, pairs'), M') \<and>
    pairs_in m M' pairs' (ps @ sub_pairs inps)"
  using assms(2-5)
proof (induction objs arbitrary: inps M pairs ps ids)
  case (Cons obj objs)
  then obtain i s inps' where inps: "inps = (i, s) # inps'" "input_of H m obj = Inr (i, s)"
    "list_all2 (\<lambda>obj inp. input_of H m obj = Inr inp) objs inps'"
    by (auto simp: list_all2_Cons1)
  note inp = input_mono [OF pairs_in_le [OF Cons.prems(1)] inps(2)]
  show ?case
  proof (cases s)
    case None
    with inp parse_input_plain [of H M obj i] Cons.IH [OF Cons.prems(1) inps(3), of "ids @ [i]"] inps(1) Cons.prems(3,4)
    show ?thesis by (simp add: ADLB_NO_SUB_def)
  next
    case (Some t)
    have room: "card (dom M) < limit" using Cons.prems(4) by simp
    obtain b bs buf where b: "M b = None" "b_data buf = Some (b, 0)" "length t \<le> length bs" "take (length t) bs = t"
      and run: "ADLB_Parse_Handle H obj False M =
        Inr (\<lparr>h_id = i, h_sub = \<lparr>p_val = \<lparr>s_key = Some (b, 0), s_length = length t\<rparr>, p_buf = buf\<rparr>\<rparr>, M(b \<mapsto> bs))"
      using parse_input_sub [OF H Cons.prems(3) room inp [unfolded Some]] by blast
    have "card (dom (M(b \<mapsto> bs))) + length objs \<le> limit" using b(1) Cons.prems(3,4) by (simp add: domIff)
    note room' = this
    have "m b = None" using pairs_in_le [OF Cons.prems(1)] b(1) by (auto simp: map_le_def dom_def)
    from Cons.IH [OF pairs_in_snoc [OF Cons.prems(1) b(1) this b(3,4), of i] inps(3), of ids] run b(1,2) Some inps(1)
      Cons.prems(3) room'
    show ?thesis by (simp del: fun_upd_apply)
  qed
qed simp

text \<open>
  C16: A rule hands ADLB its inputs without loss: the data named without a subscript and those
  named with one, each in the order of the list, with the action and its terminator, the
  options, the current priority and the name. When ADLB accepts, every block the command
  allocated is freed again; when ADLB refuses, the subscripts stay allocated.
\<close>

theorem rule_dput:
  assumes "alloc_ok H limit" "finite (dom m)" "card (dom m) + 128 \<le> limit" "3 \<le> length objv" "tcl_list A (objv ! 1) = Some objs" "length objs < 128"
    and "list_all2 (\<lambda>obj inp. input_of H m obj = Inr inp) objs inps"
    and "rule_options A W buf objv = Inr opts" "name_string (ro_name opts) = Inr name"
    and "adlb_dput W (tcl_string A (objv ! 2) @ [NUL]) (ro_target opts) (comm_rank W) (ro_work_type opts)
      ((ro_opts opts)\<lparr>po_priority := curr_priority w\<rparr>) name (plain_ids inps) (sub_pairs inps) (ww_adlb w) = (ac, s)"
  shows "\<exists>M. Turbine_Rule_Cmd A W H buf objv (w, m) =
      (if ac = ADLB_SUCCESS then (Inr (), (w\<lparr>ww_adlb := s\<rparr>, m)) else (Inl Tcl_Error, (w\<lparr>ww_adlb := s\<rparr>, M))) \<and>
    m \<subseteq>\<^sub>m M \<and> finite (dom M - dom m) \<and> card (dom M - dom m) = length (sub_pairs inps)"
proof -
  have "pairs_in m m [] []" by simp
  from extract_loop_inputs [OF assms(1) this assms(7,2), of W "[]"] assms(3,6) obtain pairs M where
    run: "extract_ids_loop W H objs [] [] m = (Inr (plain_ids inps, pairs), M)" and P: "pairs_in m M pairs (sub_pairs inps)"
    by auto
  have "turbine_extract_ids A W H (objv ! 1) TCL_TURBINE_MAX_INPUTS m = (Inr (plain_ids inps, pairs), M)"
    using run assms(5,6) by (simp add: turbine_extract_ids_def TCL_TURBINE_MAX_INPUTS_def)
  then have "Turbine_Rule_Cmd A W H buf objv (w, m) =
      (if ac = ADLB_SUCCESS then (Inr (), (w\<lparr>ww_adlb := s\<rparr>, m)) else (Inl Tcl_Error, (w\<lparr>ww_adlb := s\<rparr>, M)))"
    using assms(4,8,9,10) pairs_in_read [OF P map_le_refl] pairs_in_free [OF P]
    by (simp add: Turbine_Rule_Cmd_def Let_def)
  then show ?thesis using pairs_in_le [OF P] pairs_in_card [OF P] by metis
qed

section \<open>Examples\<close>

text \<open>A memory with one string, of which two objects are the text; a block can always be had.\<close>

definition text_mem :: mem where "text_mem = [9 \<mapsto> ''12.34'']"

definition rule_handles :: "val handle_api" where
  "rule_handles = \<lparr>get_id = (\<lambda>v. case v of V_int i \<Rightarrow> Some i | _ \<Rightarrow> None), get_str = (\<lambda>v. (9, 5)),
     int64_parse = (\<lambda>s. case strtol 10 s of Some (v, False, []) \<Rightarrow> Some v | _ \<Rightarrow> None),
     resize_buf = (\<lambda>buf c n m. if n \<le> b_length buf then Some (buf, c, m)
       else case List.find (\<lambda>b. m b = None) [0..<200] of None \<Rightarrow> None
         | Some b \<Rightarrow> Some (\<lparr>b_data = Some (b, 0), b_length = n\<rparr>, False, m(b \<mapsto> replicate n NUL))),
     scratch_max = 16\<rparr>"

lemma rule_handles_ok: "alloc_ok rule_handles 200"
proof -
  have "resize_ok rule_handles"
    by (auto simp: resize_ok_def rule_handles_def find_Some_iff split: if_splits option.splits)
  moreover have "resize_buf rule_handles no_buf c n m \<noteq> None" if "finite (dom m)" "card (dom m) < 200" for c n m
  proof -
    have "\<not> {0..<200} \<subseteq> dom m" using that card_mono [of "dom m" "{0..<200}"] by auto
    then have "List.find (\<lambda>b. m b = None) [0..<200] \<noteq> None" by (auto simp: find_None_iff)
    then show ?thesis by (auto simp: rule_handles_def)
  qed
  ultimately show ?thesis by (simp add: alloc_ok_def)
qed

definition val_rule :: "(string \<times> int list \<times> (int \<times> string) list, val) rule_api" where
  "val_rule = \<lparr>
     default_put_opts = \<lparr>po_priority = 0, po_parallelism = 1, po_strictness = ADLB_TGT_STRICT_SOFT, po_accuracy = ADLB_TGT_ACCRY_NODE\<rparr>,
     rank_any = -100, rank_null = -200, comm_rank = 3,
     adlb_put = (\<lambda>p target answer ty opts s. (ADLB_SUCCESS, s)),
     adlb_get = (\<lambda>ty s. ((ADLB_SHUTDOWN, ([], 0), 0), s)), adlb_iget = (\<lambda>ty s. ((ADLB_SHUTDOWN, ([], 0), 0), s)),
     set_var = (\<lambda>v x s. s), hostmap_lookup = (\<lambda>h n s. (ADLB_NOTHING, [])),
     hostmap_stats = (\<lambda>s. (0, 0)), hostmap_list = (\<lambda>n s. ([], 0)),
     adlb_dput = (\<lambda>p target answer ty opts name ids pairs s. (ADLB_SUCCESS, (name, ids, pairs))),
     malloc_block = (\<lambda>n m. (300, m(300 \<mapsto> replicate n NUL)))\<rparr>"

definition rule_words :: "val list" where
  "rule_words = [V_str ''rule'', V_list [V_int 4, V_str ''12.34''], V_str ''f x'', V_str ''type'', V_int (- 1), V_str ''target'', V_int 6]"

lemma rule_words_options:
  "rule_options val_tcl val_rule (replicate 128 NUL) rule_words = Inr \<lparr>
     ro_name = In_Buffer (''f '' @ replicate 126 NUL), ro_work_type = 0, ro_target = 6,
     ro_opts = \<lparr>po_priority = 0, po_parallelism = 1, po_strictness = ADLB_TGT_STRICT_HARD, po_accuracy = ADLB_TGT_ACCRY_NODE\<rparr>\<rparr>"
proof -
  have "rule_set_name_default (replicate 128 NUL) ''f x'' = Inr (''f '' @ replicate 126 NUL)"
    by (simp add: rule_set_name_default_def strncpy_def c_defined_def numeral_eq_Suc)
  then show ?thesis
    by (simp add: rule_options_def rule_words_def val_rule_def val_tcl_def rule_opts_from_list_def rule_set_opts_default_def
        rule_opt_from_kv_def Let_def TURBINE_ADLB_WORK_TYPE_LOCAL_def TURBINE_ADLB_WORK_TYPE_WORK_def tcl_condition_def)
qed

lemma rule_options_last_word_witness:
  "ro_target (options_said val_tcl (comm_rank val_rule) (kv_pairs (drop 3 rule_words)) \<lparr>ro_name = No_Name, ro_work_type = 0,
     ro_target = rank_any val_rule, ro_opts = (default_put_opts val_rule)\<lparr>po_parallelism := 1\<rparr>\<rparr>) = 6"
proof -
  from rule_options_last_word [OF rule_words_options] obtain said where
    said: "said = options_said val_tcl (comm_rank val_rule) (kv_pairs (drop 3 rule_words)) \<lparr>ro_name = No_Name, ro_work_type = 0,
     ro_target = rank_any val_rule, ro_opts = (default_put_opts val_rule)\<lparr>po_parallelism := 1\<rparr>\<rparr>"
    and "ro_target said = 6" by (auto dest: arg_cong [of _ _ ro_target] split: if_splits)
  then show ?thesis by simp
qed

lemma rule_dput_witness:
  "\<exists>w. Turbine_Rule_Cmd val_tcl val_rule rule_handles (replicate 128 NUL) rule_words
      (\<lparr>ww_adlb = ([], [], []), curr_priority = 5, task_comm = 0, xfer = []\<rparr>, text_mem) = (Inr (), (w, text_mem)) \<and>
    ww_adlb w = (''f '', [4], [(12, ''34'' @ [NUL])])"
proof -
  let ?w = "\<lparr>ww_adlb = ([], [], []), curr_priority = 5, task_comm = 0, xfer = []\<rparr> :: (string \<times> int list \<times> (int \<times> string) list) work_world"
  have "strtol 10 ''12'' = Some (12, False, [])" by code_simp
  then have inps: "list_all2 (\<lambda>obj inp. input_of rule_handles text_mem obj = Inr inp) [V_int 4, V_str ''12.34'']
      [(4, None), (12, Some (''34'' @ [NUL]))]"
    by (simp add: input_of_def ADLB_Extract_Handle_def rule_handles_def text_mem_def read_bytes_def c_defined_def)
  have name: "name_string (In_Buffer (''f '' @ replicate 126 NUL)) = Inr ''f ''"
    by (simp add: name_string_def c_string_def c_defined_def numeral_eq_Suc NUL_def)
  show ?thesis
    using rule_dput [OF rule_handles_ok _ _ _ _ _ inps rule_words_options, where name = "''f ''" and w = ?w
      and ac = ADLB_SUCCESS and s = "(''f '', [4], [(12, ''34'' @ [NUL])])"] name
    by (auto simp: rule_words_def text_mem_def val_rule_def val_tcl_def)
qed

end
