(* ===== verification/Parse_Int.thy ===== *)
theory Parse_Int
  imports Tcl_Api
begin

text \<open>
  \<^verbatim>\<open>turbine::toint_impl\<close> and \<^verbatim>\<open>turbine::parse_int_impl\<close> of
  \<^verbatim>\<open>src/tcl/turbine/tcl-turbine.c\<close>, on the model of \<^verbatim>\<open>strtol\<close> in \<^verbatim>\<open>C_Lib\<close>, and the
  numerals they accept. \<^verbatim>\<open>strtol\<close> itself sets \<^verbatim>\<open>EINVAL\<close> for the bases 1 and above 36.
\<close>

definition Turbine_ParseInt_Impl :: "('obj, 'f, 'z) tcl_api_scheme \<Rightarrow> 'obj \<Rightarrow> int \<Rightarrow> 'obj res" where
  "Turbine_ParseInt_Impl A obj base =
     (let str = tcl_string A obj in
      if base = 1 \<or> 36 < base then Inl Tcl_Error
      else case strtol (nat base) str of
        None \<Rightarrow> Inl Tcl_Error
      | Some (v, out_of_range, rest) \<Rightarrow>
          if out_of_range then Inl Tcl_Error
          else if list_all isspace rest then Inr (new_wide A v) else Inl Tcl_Error)"

definition Turbine_ToIntImpl_Cmd :: "('obj, 'f, 'z) tcl_api_scheme \<Rightarrow> 'obj list \<Rightarrow> 'obj res" where
  "Turbine_ToIntImpl_Cmd A objv =
     tcl_condition (length objv = 2) (Turbine_ParseInt_Impl A (objv ! 1) 10)"

definition Turbine_ParseIntImpl_Cmd :: "('obj, 'f, 'z) tcl_api_scheme \<Rightarrow> 'obj list \<Rightarrow> 'obj res" where
  "Turbine_ParseIntImpl_Cmd A objv =
     tcl_condition (length objv = 3)
       (tcl_check (tcl_get (tcl_int A (objv ! 2))) (\<lambda>base.
          tcl_condition (1 \<le> base) (Turbine_ParseInt_Impl A (objv ! 1) base)))"

section \<open>Numerals\<close>

definition digit_char :: "nat \<Rightarrow> char" where
  "digit_char d = (if d < 10 then char_of (48 + d) else char_of (87 + d))"

fun render_nat :: "nat \<Rightarrow> nat \<Rightarrow> string" where
  "render_nat base n =
     (if base < 2 \<or> n < base then [digit_char n] else render_nat base (n div base) @ [digit_char (n mod base)])"

declare render_nat.simps [simp del]

definition render :: "nat \<Rightarrow> int \<Rightarrow> string" where
  "render base v = (if v < 0 then ''-'' else []) @ render_nat base (nat \<bar>v\<bar>)"

lemma digit_value_char: "d < 36 \<Longrightarrow> digit_value (digit_char d) = Some d"
  by (simp add: digit_value_def digit_char_def Let_def)

lemma of_digit_char: "d < 36 \<Longrightarrow> of_char (digit_char d) = (if d < 10 then 48 + d else 87 + d :: nat)"
  by (simp add: digit_char_def)

lemma render_nat_digits:
  assumes "2 \<le> base" "base \<le> 36"
  shows "list_all (is_digit base) (render_nat base n) \<and> digits_value base (render_nat base n) = int n \<and> render_nat base n \<noteq> []"
proof (induction n rule: less_induct)
  case (less n)
  show ?case
  proof (cases "n < base")
    case True
    with assms show ?thesis
      by (simp add: render_nat.simps [of base n] is_digit_def digit_value_char digits_value_def)
  next
    case False
    with assms have "n div base < n" by (intro div_less_dividend) auto
    note IH = less.IH [OF this]
    have lt: "n mod base < base" using assms by simp
    then have "n mod base < 36" using assms(2) by (rule less_le_trans)
    note dv = digit_value_char [OF this]
    have sum: "int (n div base) * int base + int (n mod base) = int n"
      by (metis div_mult_mod_eq of_nat_add of_nat_mult)
    have step: "render_nat base n = render_nat base (n div base) @ [digit_char (n mod base)]"
      using False assms by (subst render_nat.simps) simp
    have dig: "is_digit base (digit_char (n mod base))" using dv lt by (simp only: is_digit_def option.case)
    have "digits_value base (render_nat base n) = digits_value base (render_nat base (n div base)) * int base + int (n mod base)"
      unfolding step digits_value_def using dv by simp
    with IH sum dig step show ?thesis by simp
  qed
qed

lemma is_digit_code: "is_digit base c \<Longrightarrow> (48 \<le> (of_char c :: nat) \<and> of_char c \<le> (57 :: nat)) \<or> (65 \<le> (of_char c :: nat) \<and> of_char c \<le> (122 :: nat))"
  by (auto simp: is_digit_def digit_value_def Let_def split: if_splits option.splits)

lemma not_isspace_digit: "is_digit base c \<Longrightarrow> \<not> isspace c"
  using is_digit_code [of base c] by (auto simp: isspace_def)

lemma sign_codes: "of_char (CHR ''-'') = (45 :: nat)" "of_char (CHR ''+'') = (43 :: nat)"
  by simp_all

lemma takeWhile_digits:
  assumes "list_all (is_digit base) ds" "list_all isspace ws"
  shows "takeWhile (is_digit base) (ds @ ws) = ds" "dropWhile (is_digit base) (ds @ ws) = ws"
proof -
  have "ws = [] \<or> \<not> is_digit base (hd ws)" using assms(2) not_isspace_digit by (cases ws) auto
  then show "takeWhile (is_digit base) (ds @ ws) = ds" "dropWhile (is_digit base) (ds @ ws) = ws"
    using assms(1) by (induction ds) (cases ws; auto)+
qed

lemma strtol_prefix_digits:
  assumes "2 \<le> base" "base \<le> 36" "list_all (is_digit base) ds" "list_all isspace ws"
  shows "strtol_prefix base (ds @ ws) = (base, ds @ ws)"
proof -
  let ?s = "ds @ ws"
  have "?s ! 1 \<noteq> CHR ''x'' \<and> ?s ! 1 \<noteq> CHR ''X''" if "base = 16" "2 < length ?s"
  proof -
    have x: "\<not> is_digit 16 (CHR ''x'')" "\<not> is_digit 16 (CHR ''X'')" "\<not> isspace (CHR ''x'')" "\<not> isspace (CHR ''X'')"
      by (simp_all add: is_digit_def digit_value_def isspace_def)
    have "?s ! 1 \<in> set ds \<or> ?s ! 1 \<in> set ws" using that(2) nth_mem [of 1 ?s] by (simp del: nth_append)
    then have "is_digit 16 (?s ! 1) \<or> isspace (?s ! 1)"
      using assms(3,4) that(1) by (auto simp: list_all_iff)
    with x show ?thesis by metis
  qed
  then show ?thesis using assms(1) unfolding strtol_prefix_def Let_def by (simp del: length_append) metis
qed

lemma strtol_render:
  assumes base: "2 \<le> base" "base \<le> 36" and ws: "list_all isspace pre" "list_all isspace post"
  shows "strtol base (pre @ render base v @ post) =
    (if v > LONG_MAX then Some (LONG_MAX, True, post) else if v < LONG_MIN then Some (LONG_MIN, True, post)
     else Some (v, False, post))"
proof -
  let ?ds = "render_nat base (nat \<bar>v\<bar>)"
  have ds: "list_all (is_digit base) ?ds" "digits_value base ?ds = \<bar>v\<bar>" "?ds \<noteq> []"
    using render_nat_digits [OF base, of "nat \<bar>v\<bar>"] by auto
  obtain c u where c: "?ds = c # u" using ds(3) by (cases ?ds) auto
  have first: "\<not> isspace c" "c \<noteq> CHR ''-''" "c \<noteq> CHR ''+''"
    using ds(1) c not_isspace_digit is_digit_code [of base c] sign_codes by auto
  have minus: "\<not> isspace (CHR ''-'')" by (simp add: isspace_def)
  have "dropWhile isspace (pre @ render base v @ post) = render base v @ post"
    using ws(1) first(1) minus c by (induction pre) (auto simp: render_def)
  then show ?thesis
    using ds c first takeWhile_digits [OF ds(1) ws(2)] strtol_prefix_digits [OF base ds(1) ws(2)]
    by (auto simp: strtol_def render_def Let_def)
qed

text \<open>
  C39: \<^verbatim>\<open>parse_int\<close> inverts the writing of integers in every base from 2 to 36, with white space
  on both sides: it returns the integer when it fits 64 bits and is an error otherwise; it
  never wraps around or clamps.
\<close>

theorem parse_int_render:
  assumes "2 \<le> base" "base \<le> 36" "list_all isspace pre" "list_all isspace post"
    and "tcl_string A (objv ! 1) = pre @ render base v @ post" "tcl_int A (objv ! 2) = Some (int base)" "length objv = 3"
  shows "Turbine_ParseIntImpl_Cmd A objv =
    (if LONG_MIN \<le> v \<and> v \<le> LONG_MAX then Inr (new_wide A v) else Inl Tcl_Error)"
proof -
  have "1 \<le> int base" "int base \<noteq> 1" "\<not> 36 < int base" "nat (int base) = base" using assms(1,2) by simp_all
  with assms(4-7) strtol_render [OF assms(1-4), of v] show ?thesis
    by (auto simp: Turbine_ParseIntImpl_Cmd_def Turbine_ParseInt_Impl_def Let_def)
qed

lemma parse_int_render_witness:
  "Turbine_ParseIntImpl_Cmd val_tcl [V_str ''c'', V_str '' -ff '', V_int 16] = Inr (V_int (- 255))"
proof -
  have "'' -ff '' = '' '' @ render 16 (- 255) @ '' ''"
    by code_simp
  then show ?thesis
    using parse_int_render [of 16 "'' ''" "'' ''" val_tcl "[V_str ''c'', V_str '' -ff '', V_int 16]" "- 255"]
    by (simp add: val_tcl_def isspace_def LONG_MAX_def LONG_MIN_def)
qed

end
