(* ===== verification/Checkpoint.thy ===== *)
theory Checkpoint
  imports Container_Cmds Blobs
begin

text \<open>
  Checkpointing in \<^verbatim>\<open>src/tcl/adlb/tcl-adlb.c\<close>: the \<^verbatim>\<open>xpt\<close> commands, which pack values of any type
  into blobs, write and look up checkpoints and unpack them into variables;
  \<^verbatim>\<open>adlb::dict_create\<close>; and the debug symbols. Built with \<^verbatim>\<open>ENABLE_XPT\<close>. The checkpoint store is
  ADLB's, the variables the interpreter's.
\<close>

section \<open>Interface\<close>

datatype xpt_flush_policy = ADLB_NO_FLUSH | ADLB_PERIODIC_FLUSH | ADLB_ALWAYS_FLUSH
datatype xpt_persist = ADLB_NO_PERSIST | ADLB_PERSIST | ADLB_PERSIST_FLUSH

record rank_stats =
  rs_loaded :: bool
  rs_valid :: int
  rs_invalid :: int

text \<open>
  Setting a variable can fail (a null result). A looked-up value is its bytes; the command
  makes sure that it owns a copy of them.
\<close>

record ('w, 'obj) xpt_api = "'w data_api" +
  xpt_init :: "string option \<Rightarrow> xpt_flush_policy \<Rightarrow> int \<Rightarrow> 'w \<Rightarrow> adlb_code \<times> 'w"
  xpt_finalize :: "'w \<Rightarrow> adlb_code \<times> 'w"
  xpt_write :: "string \<Rightarrow> string \<Rightarrow> xpt_persist \<Rightarrow> bool \<Rightarrow> 'w \<Rightarrow> adlb_code \<times> 'w"
  xpt_lookup :: "string \<Rightarrow> 'w \<Rightarrow> (adlb_code \<times> string) \<times> 'w"
  xpt_reload :: "string \<Rightarrow> int \<Rightarrow> int \<Rightarrow> 'w \<Rightarrow> (adlb_code \<times> rank_stats list) \<times> 'w"
  set_variable :: "'obj \<Rightarrow> 'obj \<Rightarrow> 'w \<Rightarrow> bool \<times> 'w"
  add_dsym :: "int \<Rightarrow> string \<times> string \<Rightarrow> 'w \<Rightarrow> adlb_code \<times> 'w"
  get_dsym :: "int \<Rightarrow> 'w \<Rightarrow> string option \<times> string option"

section \<open>Start and end\<close>

text \<open>The result of \<^verbatim>\<open>strcmp\<close> is used as if it were true for equal strings.\<close>

definition flush_policy :: "string \<Rightarrow> xpt_flush_policy res" where
  "flush_policy s =
     (if s \<noteq> ''no_flush'' then Inr ADLB_NO_FLUSH
      else if s \<noteq> ''periodic_flush'' then Inr ADLB_PERIODIC_FLUSH
      else if s \<noteq> ''always_flush'' then Inr ADLB_ALWAYS_FLUSH
      else Inl Tcl_Error)"

definition ADLB_Xpt_Init_Cmd ::
    "('obj, 'f, 'z) tcl_api_scheme \<Rightarrow> ('w, 'obj, 'y) xpt_api_scheme \<Rightarrow> 'obj list \<Rightarrow> (unit, ('w, 't) adlb_world) cmd" where
  "ADLB_Xpt_Init_Cmd A X objv =
     cmd_bind (cmd_condition (length objv = 4)) (\<lambda>_.
     let filename = tcl_string A (objv ! 1) in
     cmd_bind (cmd_do (flush_policy (tcl_string A (objv ! 2)))) (\<lambda>policy.
     cmd_bind (cmd_do (tcl_get (tcl_int A (objv ! 3)))) (\<lambda>max_index_val.
     cmd_bind (adlb_call (xpt_init X (if filename = [] then None else Some filename) policy max_index_val)) (\<lambda>ac.
       cmd_condition (ac = ADLB_SUCCESS)))))"

definition ADLB_Xpt_Finalize_Cmd ::
    "('w, 'obj, 'y) xpt_api_scheme \<Rightarrow> 'obj list \<Rightarrow> (unit, ('w, 't) adlb_world) cmd" where
  "ADLB_Xpt_Finalize_Cmd X objv =
     cmd_bind (cmd_condition (length objv = 1)) (\<lambda>_.
     cmd_bind (adlb_call (xpt_finalize X)) (\<lambda>ac. cmd_condition (ac = ADLB_SUCCESS)))"

section \<open>Writing and looking up\<close>

definition persist_mode :: "string \<Rightarrow> xpt_persist res" where
  "persist_mode s =
     (if s = ''no_persist'' then Inr ADLB_NO_PERSIST
      else if s = ''persist'' then Inr ADLB_PERSIST
      else if s = ''persist_flush'' then Inr ADLB_PERSIST_FLUSH
      else Inl Tcl_Error)"

text \<open>The bytes of a blob are read when ADLB is called.\<close>

definition ADLB_Xpt_Write_Cmd ::
    "('obj, 'f, 'z) tcl_api_scheme \<Rightarrow> ('w, 'obj, 'y) xpt_api_scheme \<Rightarrow> 'obj list \<Rightarrow> (unit, ('w, 't) adlb_world) cmd" where
  "ADLB_Xpt_Write_Cmd A X objv =
     cmd_bind (cmd_condition (length objv = 5)) (\<lambda>_.
     cmd_bind (cmd_do (extract_tcl_blob A (objv ! 1))) (\<lambda>(key, key_len, _).
     cmd_bind (cmd_do (extract_tcl_blob A (objv ! 2))) (\<lambda>(val, val_len, _).
     cmd_bind (cmd_do (persist_mode (tcl_string A (objv ! 3)))) (\<lambda>mode.
     cmd_bind (cmd_do (tcl_get (tcl_boolean A (objv ! 4)))) (\<lambda>index_add.
     cmd_bind (heap_get (heap_read key key_len)) (\<lambda>key_bytes.
     cmd_bind (heap_get (heap_read val val_len)) (\<lambda>val_bytes.
     cmd_bind (adlb_call (xpt_write X key_bytes val_bytes mode index_add)) (\<lambda>ac.
       cmd_condition (ac = ADLB_SUCCESS)))))))))"

definition ADLB_Xpt_Lookup_Cmd ::
    "('obj, 'f, 'z) tcl_api_scheme \<Rightarrow> ('w, 'obj, 'y) xpt_api_scheme \<Rightarrow> 'obj list \<Rightarrow> ('obj, ('w, 't) adlb_world) cmd" where
  "ADLB_Xpt_Lookup_Cmd A X objv =
     cmd_bind (cmd_condition (length objv = 2 \<or> length objv = 3)) (\<lambda>_.
     cmd_bind (cmd_do (extract_tcl_blob A (objv ! 1))) (\<lambda>(key, key_len, _).
     cmd_bind (heap_get (heap_read key key_len)) (\<lambda>key_bytes.
     cmd_bind (adlb_call (xpt_lookup X key_bytes)) (\<lambda>(ac, val).
     cmd_bind (cmd_condition (ac = ADLB_SUCCESS \<or> ac = ADLB_NOTHING)) (\<lambda>_.
     let found = (ac = ADLB_SUCCESS) in
     cmd_bind
       (if found \<and> 2 < length objv
        then cmd_bind (heap_call (malloc val)) (\<lambda>data.
             cmd_bind (adlb_call (set_variable X (objv ! 2) (build_tcl_blob A data (int (length val)) None))) (\<lambda>set_ok.
               cmd_condition set_ok))
        else cmd_do (Inr ())) (\<lambda>_.
       cmd_do (Inr (new_wide A (if found then 1 else 0)))))))))"

section \<open>Packing\<close>

lemma compound_loop_pos: "compound_loop A objv n argpos types = Inr (types', argpos') \<Longrightarrow> argpos \<le> argpos'"
proof (induction "length objv - argpos" arbitrary: n argpos types rule: less_induct)
  case less
  note run = less.prems [unfolded compound_loop.simps [of A objv n]]
  show ?case
  proof (cases "n = 0")
    case False
    with run have arg: "argpos < length objv" by (simp add: res_Inr_convs)
    then have smaller: "length objv - (argpos + 1) < length objv - argpos" by simp
    from run False obtain curr extra where t: "adlb_type_from_obj_extra A (objv ! argpos) = Inr (curr, extra)"
      by (auto simp: res_Inr_convs)
    with run False arg obtain n' types'' where "compound_loop A objv n' (argpos + 1) types'' = Inr (types', argpos')"
      by (cases curr) (auto simp: res_Inr_convs c_assert_def split: if_splits)
    from less.hyps [OF smaller this] show ?thesis by simp
  qed (use run in simp)
qed

function pack_fields ::
    "('obj, 'f, 'z) pack_api_scheme \<Rightarrow> nat \<Rightarrow> 'obj list \<Rightarrow> nat \<Rightarrow> outbuf \<Rightarrow> heap \<Rightarrow> outbuf res" where
  "pack_fields A fuel objv argpos packed h =
     (if argpos < length objv
      then tcl_check (get_compound_type A objv argpos) (\<lambda>(types, argpos').
           tcl_condition (argpos' < length objv)
             (tcl_check (adlb_tclobj_bin_append A h fuel types True 0 (objv ! argpos') True packed) (\<lambda>packed.
                pack_fields A fuel objv (argpos' + 1) packed h)))
      else Inr packed)"
  by pat_completeness auto
termination
  by (relation "measure (\<lambda>(A, fuel, objv, argpos, packed, h). length objv - argpos)")
    (auto simp: get_compound_type_def dest: compound_loop_pos)

declare pack_fields.simps [simp del]

definition ADLB_Xpt_Pack_Cmd ::
    "('obj, 'f, 'z) pack_api_scheme \<Rightarrow> nat \<Rightarrow> 'obj list \<Rightarrow> ('obj, ('w, 't) adlb_world) cmd" where
  "ADLB_Xpt_Pack_Cmd A fuel objv =
     cmd_bind (cmd_do (tcl_get (init_buf A None 2048))) (\<lambda>(data, caller).
     cmd_bind (heap_get (pack_fields A fuel objv 1 \<lparr>ob_data = data, ob_caller = caller, ob_pos = 0\<rparr>)) (\<lambda>packed.
     cmd_bind (heap_call (malloc (ob_data packed))) (\<lambda>p.
       cmd_do (Inr (build_tcl_blob A p (int (ob_pos packed)) None)))))"

section \<open>Unpacking\<close>

text \<open>The variables come first, then the blob, then the types.\<close>

fun unpack_fields ::
    "('obj, 'f, 'z) pack_api_scheme \<Rightarrow> ('w, 'obj, 'y) xpt_api_scheme \<Rightarrow> nat \<Rightarrow> int \<Rightarrow> int \<Rightarrow> ('obj \<times> 'obj) list \<Rightarrow> nat \<Rightarrow>
      (unit, ('w, 't) adlb_world) cmd" where
  "unpack_fields A X fuel p len [] pos = cmd_do (Inr ())"
| "unpack_fields A X fuel p len ((var_name, type_obj) # vars) pos =
     cmd_bind (cmd_do (adlb_type_from_obj_extra A type_obj)) (\<lambda>(type, extra).
     cmd_bind (heap_get (heap_read p len)) (\<lambda>packed.
     cmd_bind (cmd_do (tcl_get (unpack_buffer X type packed pos))) (\<lambda>(entry, pos).
     cmd_bind (datum_obj A fuel type extra entry) (\<lambda>obj.
     cmd_bind (adlb_call (set_variable X var_name obj)) (\<lambda>set_ok.
     cmd_bind (cmd_condition set_ok) (\<lambda>_.
       unpack_fields A X fuel p len vars pos))))))"

definition ADLB_Xpt_Unpack_Cmd ::
    "('obj, 'f, 'z) pack_api_scheme \<Rightarrow> ('w, 'obj, 'y) xpt_api_scheme \<Rightarrow> nat \<Rightarrow> 'obj list \<Rightarrow>
      (unit, ('w, 't) adlb_world) cmd" where
  "ADLB_Xpt_Unpack_Cmd A X fuel objv =
     cmd_bind (cmd_condition (2 \<le> length objv)) (\<lambda>_.
     cmd_bind (cmd_condition (length objv mod 2 = 0)) (\<lambda>_.
     let field_count = (length objv - 2) div 2 in
     cmd_bind (cmd_do (extract_tcl_blob A (objv ! (field_count + 1)))) (\<lambda>(p, len, _).
       unpack_fields A X fuel p len
         (zip (take field_count (drop 1 objv)) (take field_count (drop (field_count + 2) objv))) 0)))"

section \<open>Reloading\<close>

fun reload_dict ::
    "('obj, 'f, 'z) tcl_api_scheme \<Rightarrow> nat \<Rightarrow> rank_stats list \<Rightarrow> 'obj \<Rightarrow> 'obj" where
  "reload_dict A i [] stat_dict = stat_dict"
| "reload_dict A i (rs # stats) stat_dict =
     (if rs_loaded rs
      then let put = (\<lambda>d k v. case dict_insert A d k v of None \<Rightarrow> d | Some d' \<Rightarrow> d');
               rank_dict = put (put (new_dict A) (new_string A ''valid'') (new_wide A (rs_valid rs)))
                 (new_string A ''invalid'') (new_wide A (rs_invalid rs)) in
           reload_dict A (i + 1) stats (put stat_dict (new_wide A (int i)) rank_dict)
      else reload_dict A (i + 1) stats stat_dict)"

text \<open>
  The dictionary of a rank is filled after it was put into the outer one, which holds the
  same object.
\<close>

definition ADLB_Xpt_Reload_Cmd ::
    "('obj, 'f, 'z) tcl_api_scheme \<Rightarrow> ('w, 'obj, 'y) xpt_api_scheme \<Rightarrow> 'obj list \<Rightarrow> ('obj, ('w, 't) adlb_world) cmd" where
  "ADLB_Xpt_Reload_Cmd A X objv =
     cmd_bind (cmd_condition (length objv = 4)) (\<lambda>_.
     cmd_bind (cmd_do (tcl_get (tcl_int A (objv ! 2)))) (\<lambda>loader_rank.
     cmd_bind (cmd_condition (0 \<le> loader_rank)) (\<lambda>_.
     cmd_bind (cmd_do (tcl_get (tcl_int A (objv ! 3)))) (\<lambda>total_loaders.
     cmd_bind (cmd_condition (0 < total_loaders)) (\<lambda>_.
     cmd_bind (adlb_call (xpt_reload X (tcl_string A (objv ! 1)) loader_rank total_loaders)) (\<lambda>(ac, stats).
     cmd_bind (cmd_condition (ac = ADLB_SUCCESS)) (\<lambda>_.
     let d = new_dict A;
         d = (case dict_insert A d (new_string A ''ranks'') (new_wide A (int (length stats))) of None \<Rightarrow> d | Some d' \<Rightarrow> d') in
       cmd_do (Inr (reload_dict A 0 stats d)))))))))"

section \<open>Dictionaries without duplicates, and debug symbols\<close>

fun dict_create_loop ::
    "('obj, 'f, 'z) tcl_api_scheme \<Rightarrow> 'obj \<Rightarrow> bool \<Rightarrow> 'obj list \<Rightarrow> 'obj res" where
  "dict_create_loop A dict first (key # val # objs) =
     tcl_check
       (if first then Inr ()
        else tcl_check (tcl_get (dict_find A dict key)) (\<lambda>old_val. tcl_condition (old_val = None) (Inr ()))) (\<lambda>_.
     tcl_check (tcl_get (dict_insert A dict key val)) (\<lambda>dict. dict_create_loop A dict False objs))"
| "dict_create_loop A dict first _ = Inr dict"

definition ADLB_Dict_Create_Cmd :: "('obj, 'f, 'z) tcl_api_scheme \<Rightarrow> 'obj list \<Rightarrow> 'obj res" where
  "ADLB_Dict_Create_Cmd A objv =
     tcl_condition (length objv mod 2 = 1) (dict_create_loop A (new_dict A) True (tl objv))"

definition ADLB_Add_Debug_Symbol_Cmd ::
    "('obj, 'f, 'z) tcl_api_scheme \<Rightarrow> ('w, 'obj, 'y) xpt_api_scheme \<Rightarrow> 'obj list \<Rightarrow> (unit, ('w, 't) adlb_world) cmd" where
  "ADLB_Add_Debug_Symbol_Cmd A X objv =
     cmd_bind (cmd_condition (length objv = 4)) (\<lambda>_.
     cmd_bind (cmd_do (tcl_get (tcl_int A (objv ! 1)))) (\<lambda>symbol.
     cmd_bind (cmd_condition (0 \<le> symbol)) (\<lambda>_.
     cmd_bind (adlb_call (add_dsym X symbol (tcl_string A (objv ! 2), tcl_string A (objv ! 3)))) (\<lambda>ac.
       cmd_condition (ac = ADLB_SUCCESS)))))"

definition ADLB_Debug_Symbol_Cmd ::
    "('obj, 'f, 'z) tcl_api_scheme \<Rightarrow> ('w, 'obj, 'y) xpt_api_scheme \<Rightarrow> 'obj list \<Rightarrow> ('obj, ('w, 't) adlb_world) cmd" where
  "ADLB_Debug_Symbol_Cmd A X objv =
     cmd_bind (cmd_condition (length objv = 2)) (\<lambda>_.
     cmd_bind (cmd_do (tcl_get (tcl_int A (objv ! 1)))) (\<lambda>symbol.
     cmd_bind (cmd_condition (0 \<le> symbol)) (\<lambda>_.
     cmd_bind (adlb_call (\<lambda>s. (get_dsym X symbol s, s))) (\<lambda>(name, context).
       cmd_do (Inr (new_list A [new_string A (case name of None \<Rightarrow> [] | Some n \<Rightarrow> n),
         new_string A (case context of None \<Rightarrow> [] | Some c \<Rightarrow> c)]))))))"

end
