(* ===== verification/Checkpoint_Correct.thy ===== *)
theory Checkpoint_Correct
  imports Checkpoint Serialize_Canonical Enumerate_Correct Data_Correct
begin

text \<open>
  Checkpointing end to end: values packed into a blob under a packed key are found again
  under any key with the same values, and unpacked to what was packed, with every container
  in canonical order.
\<close>

section \<open>Canonical forms\<close>

lemma canon_typed: "typed A types pos v \<Longrightarrow> typed A types pos (canon v)"
proof (induction v arbitrary: pos)
  case (A_Dict kvs)
  have "distinct (map fst (sort_key fst (map (\<lambda>kv. (fst kv, canon (snd kv))) kvs)))"
    using A_Dict.prems by (simp add: map_sort_key comp_def)
  moreover have "typed A types (pos + 2) (canon (snd kv))" if "kv \<in> set kvs" for kv
    using A_Dict.IH [OF that snds.intros] A_Dict.prems that by (cases kv) auto
  ultimately show ?case using A_Dict.prems by auto
next
  case (A_List vs)
  then show ?case by simp
qed simp_all

lemma canon_depth: "depth v \<le> n \<Longrightarrow> depth (canon v) \<le> n"
proof (induction v arbitrary: n)
  case (A_Dict kvs)
  then obtain m where m: "n = Suc m" "\<forall>kv \<in> set kvs. depth (snd kv) \<le> m"
    by (cases n) (auto simp: foldr_max_le)
  have "depth (canon (snd kv)) \<le> m" if "kv \<in> set kvs" for kv
    using A_Dict.IH [OF that snds.intros] m(2) that by (cases kv) auto
  then show ?case using m(1) by (auto simp: foldr_max_le)
next
  case (A_List vs)
  then show ?case by (cases n) (simp_all add: foldr_max_le)
qed simp_all

lemma dict_of_entries:
  assumes "dict_ok A" "distinct (map fst kvs)"
  shows "\<exists>d. dict_entries A d = Some (map (\<lambda>kv. (new_string A (fst kv), f kv)) kvs)"
  using assms(2)
proof (induction kvs rule: rev_induct)
  case Nil
  then show ?case using dict_okD(3) [OF assms(1)] by auto
next
  case (snoc kv kvs)
  then obtain d where "dict_entries A d = Some (map (\<lambda>kv. (new_string A (fst kv), f kv)) kvs)" by auto
  moreover have "tcl_string A (new_string A (fst kv)) \<notin>
      tcl_string A ` fst ` set (map (\<lambda>kv. (new_string A (fst kv), f kv)) kvs)"
    using snoc.prems tcl_okD(1) [OF dict_okD(1) [OF assms(1)]] by (auto simp: image_iff)
  ultimately show ?case using dict_okD(4) [OF assms(1)] by fastforce
qed

lemma canon_rep:
  assumes D: "dict_ok A"
  shows "\<exists>obj. rep A v obj \<Longrightarrow> typed A types pos v \<Longrightarrow> \<exists>obj. rep A (canon v) obj"
proof (induction v arbitrary: pos)
  case (A_Dict kvs)
  then obtain es where es: "list_all2 (\<lambda>kv e. tcl_string A (fst e) = fst kv \<and> rep A (snd kv) (snd e)) kvs es"
    by (auto split: option.splits)
  have "\<exists>obj. rep A (canon (snd kv)) obj" if "kv \<in> set kvs" for kv
  proof -
    have "\<exists>obj. rep A (snd kv) obj" using es that by (auto simp: list_all2_conv_all_nth in_set_conv_nth)
    moreover have "typed A types (pos + 2) (snd kv)" using A_Dict.prems(2) that by auto
    ultimately show ?thesis using A_Dict.IH [OF that snds.intros] by (cases kv) auto
  qed
  then obtain f where f: "\<And>kv. kv \<in> set kvs \<Longrightarrow> rep A (canon (snd kv)) (f kv)" by metis
  let ?kvs = "sort_key fst (map (\<lambda>kv. (fst kv, canon (snd kv))) kvs)"
  have "distinct (map fst ?kvs)" using A_Dict.prems(2) by (simp add: map_sort_key comp_def)
  from dict_of_entries [OF D this, of "\<lambda>kv. SOME obj. rep A (snd kv) obj"] obtain d where
    d: "dict_entries A d = Some (map (\<lambda>kv. (new_string A (fst kv), SOME obj. rep A (snd kv) obj)) ?kvs)" by blast
  have found: "rep A (snd kv) (SOME obj. rep A (snd kv) obj)" if "kv \<in> set ?kvs" for kv
  proof (rule someI_ex)
    from that obtain kv0 where "kv0 \<in> set kvs" "snd kv = canon (snd kv0)" by auto
    with f [of kv0] show "\<exists>obj. rep A (snd kv) obj" by metis
  qed
  have "list_all2 (\<lambda>kv e. tcl_string A (fst e) = fst kv \<and> rep A (snd kv) (snd e)) ?kvs
      (map (\<lambda>kv. (new_string A (fst kv), SOME obj. rep A (snd kv) obj)) ?kvs)"
    using found tcl_okD(1) [OF dict_okD(1) [OF D]] unfolding list_all2_conv_all_nth length_map
    by (metis (no_types, lifting) fst_conv nth_map nth_mem snd_conv)
  with d have "rep A (canon (A_Dict kvs)) d" by simp
  then show ?case by blast
next
  case (A_List vs)
  then have "\<forall>v \<in> set vs. \<exists>x. rep A v x"
    by (fastforce simp: list_all2_conv_all_nth in_set_conv_nth split: option.splits)
  then obtain f where "\<forall>v \<in> set vs. rep A v (f v)" by metis
  then have "rep A (canon (A_List vs)) (new_list A (map f (sort_key text_of vs)))"
    using tcl_okD(2) [OF dict_okD(1) [OF D]] by (simp add: list_all2_conv_all_nth) (metis length_sort nth_mem set_sort)
  then show ?case by blast
qed simp_all

section \<open>Packing fields\<close>

text \<open>The arguments from a position on are fields: a compound type and an object for a value of it.\<close>

fun fields_at ::
    "('obj, 'f, 'z) pack_api_scheme \<Rightarrow> 'obj list \<Rightarrow> nat \<Rightarrow> (compound_type \<times> 'f aval) list \<Rightarrow> bool" where
  "fields_at A objv pos [] = (pos = length objv)"
| "fields_at A objv pos ((types, v) # fs) =
     (\<exists>q. get_compound_type A objv pos = Inr (types, q) \<and> q < length objv \<and> rep A v (objv ! q) \<and>
        typed A types 0 v \<and> string_lists v \<and> fields_at A objv (q + 1) fs)"

definition field_value :: "('obj, 'f, 'z) pack_api_scheme \<Rightarrow> pack_format \<Rightarrow> compound_type \<times> 'f aval \<Rightarrow> string" where
  "field_value A F fd = format_value A F (fst fd) 0 (canon (snd fd))"

definition field_bytes :: "('obj, 'f, 'z) pack_api_scheme \<Rightarrow> pack_format \<Rightarrow> compound_type \<times> 'f aval \<Rightarrow> string" where
  "field_bytes A F fd = entry A (fst (fst fd ! 0)) (field_value A F fd)"

lemma compound_type_starts: "get_compound_type A objv pos = Inr (types, q) \<Longrightarrow> pos < length objv"
  by (cases "pos < length objv") (simp_all add: get_compound_type_def compound_loop.simps)

lemma pack_fields_appends:
  assumes P: "pack_ok A F" and S: "sort_ok A"
  shows "fields_at A objv pos fs \<Longrightarrow> out_ok out \<Longrightarrow> \<forall>fd \<in> set fs. small (field_value A F fd) \<Longrightarrow>
    pack_fields A fuel objv pos out h = Inr out' \<Longrightarrow> appends out (concat (map (field_bytes A F) fs)) out'"
proof (induction fs arbitrary: pos out)
  case Nil
  then show ?case by (simp add: pack_fields.simps appends_refl)
next
  case (Cons fd fs)
  obtain types v where fd: "fd = (types, v)" by fastforce
  with Cons.prems(1) obtain q where q: "get_compound_type A objv pos = Inr (types, q)" "q < length objv"
    "rep A v (objv ! q)" "typed A types 0 v" "string_lists v" "fields_at A objv (q + 1) fs" by auto
  from Cons.prems(4) q(1,2) compound_type_starts [OF q(1)] obtain o1 where
    one: "adlb_tclobj_bin_append A h fuel types True 0 (objv ! q) True out = Inr o1" and
    rest: "pack_fields A fuel objv (q + 1) o1 h = Inr out'"
    by (subst (asm) pack_fields.simps) (auto simp: res_Inr_convs)
  have "appends out (field_bytes A F fd) o1"
    using bin_append_canon [OF P S q(3-5) Cons.prems(2) _ one] Cons.prems(3)
    by (simp add: fd field_bytes_def field_value_def)
  moreover from Cons.IH [OF q(6) appends_ok [OF this] _ rest] Cons.prems(3)
  have "appends o1 (concat (map (field_bytes A F) fs)) out'" by simp
  ultimately show ?case by (simp add: appends_trans)
qed

section \<open>Blobs in a world\<close>

definition holds :: "('obj, 'f, 'z) tcl_api_scheme \<Rightarrow> ('w, 't) adlb_world \<Rightarrow> 'obj \<Rightarrow> string \<Rightarrow> bool" where
  "holds A w blob bytes \<longleftrightarrow>
     (\<exists>p n ho. extract_tcl_blob A blob = Inr (p, n, ho) \<and> heap_read p n (aw_heap w) = Inr bytes)"

lemma heap_read_malloc:
  assumes "heap_ok h" "heap_read p n h = Inr bytes"
  shows "heap_read p n (snd (malloc bs h)) = Inr bytes"
  using assms heap_ok_fresh [OF assms(1)]
  by (auto simp: heap_read_def malloc_def c_defined_Inr_conv split: if_splits option.splits)

lemma holds_malloc:
  "heap_ok (aw_heap w) \<Longrightarrow> holds A w blob bytes \<Longrightarrow> aw_heap w' = snd (malloc bs (aw_heap w)) \<Longrightarrow> holds A w' blob bytes"
  unfolding holds_def by (metis heap_read_malloc)

lemma holds_new:
  assumes A: "tcl_ok A" and h: "heap_ok h" "h_next h \<le> LONG_MAX" and w: "aw_heap w = snd (malloc data h)"
    and n: "n \<le> length data" "int n \<le> LONG_MAX"
  shows "holds A w (build_tcl_blob A (h_next h) (int n) None) (take n data)"
proof -
  have "LONG_MIN \<le> h_next h" "LONG_MIN \<le> int n" using h(1) by (simp_all add: heap_ok_def LONG_MIN_def)
  then have "extract_tcl_blob A (build_tcl_blob A (h_next h) (int n) None) = Inr (h_next h, int n, None)"
    using tcl_okD [OF A] h(2) n(2) by (simp add: extract_tcl_blob_def build_tcl_blob_def)
  moreover have "heap_read (h_next h) (int n) (aw_heap w) = Inr (take n data)"
    using n(1) w by (auto simp: heap_read_def malloc_def c_defined_def)
  ultimately show ?thesis by (auto simp: holds_def)
qed

section \<open>The commands\<close>

lemma pack_cmd:
  assumes P: "pack_ok A F" and S: "sort_ok A" and A: "tcl_ok A"
    and fs: "fields_at A objv 1 fs" "\<forall>fd \<in> set fs. small (field_value A F fd)"
      "int (length (concat (map (field_bytes A F) fs))) \<le> LONG_MAX"
    and h: "heap_ok (aw_heap w)" "h_next (aw_heap w) \<le> LONG_MAX"
    and run: "ADLB_Xpt_Pack_Cmd A fuel objv w = (Inr blob, w')"
  obtains bs where "holds A w' blob (concat (map (field_bytes A F) fs))" "aw_adlb w' = aw_adlb w"
    "aw_heap w' = snd (malloc bs (aw_heap w))"
proof -
  let ?bytes = "concat (map (field_bytes A F) fs)"
  from run obtain data caller packed where
    pack: "pack_fields A fuel objv 1 \<lparr>ob_data = data, ob_caller = caller, ob_pos = 0\<rparr> (aw_heap w) = Inr packed" and
    res: "blob = build_tcl_blob A (h_next (aw_heap w)) (int (ob_pos packed)) None"
      "w' = w\<lparr>aw_heap := snd (malloc (ob_data packed) (aw_heap w))\<rparr>"
    by (auto simp: ADLB_Xpt_Pack_Cmd_def cmd_bind_Inr cmd_Inr malloc_def heap_call_def simp del: cmd_simps world_cmds)
  have "appends \<lparr>ob_data = data, ob_caller = caller, ob_pos = 0\<rparr> ?bytes packed"
    using pack_fields_appends [OF P S fs(1) _ fs(2) pack] by (simp add: out_ok_def)
  then have pos: "ob_pos packed = length ?bytes" and le: "ob_pos packed \<le> length (ob_data packed)"
    and take: "take (ob_pos packed) (ob_data packed) = ?bytes"
    by (auto simp: appends_def out_ok_def)
  have "holds A w' (build_tcl_blob A (h_next (aw_heap w)) (int (ob_pos packed)) None) (take (ob_pos packed) (ob_data packed))"
    by (rule holds_new [OF A h _ le]) (use res(2) pos fs(3) in simp_all)
  then have "holds A w' blob ?bytes" by (simp only: res(1) take)
  with that res(2) show thesis by simp
qed

lemma write_cmd:
  assumes "holds A w key kb" "holds A w val vb" "ADLB_Xpt_Write_Cmd A X [c, key, val, mode, ia] w = (Inr (), w')"
    and "tcl_boolean A ia = Some i"
  shows "\<exists>m. xpt_write X kb vb m i (aw_adlb w) = (ADLB_SUCCESS, aw_adlb w')" "aw_heap w' = aw_heap w"
  using assms
  by (auto simp: ADLB_Xpt_Write_Cmd_def holds_def cmd_bind_Inr cmd_Inr simp del: cmd_simps world_cmds)

lemma lookup_cmd:
  assumes "holds A w key kb" "xpt_lookup X kb (aw_adlb w) = ((ADLB_SUCCESS, vb), s)" "\<And>x obj s. fst (set_variable X x obj s)"
    and "tcl_ok A" "heap_ok (aw_heap w)" "h_next (aw_heap w) \<le> LONG_MAX" "int (length vb) \<le> LONG_MAX"
  shows "\<exists>blob w'. ADLB_Xpt_Lookup_Cmd A X [c, key, x] w = (Inr (new_wide A 1), w') \<and> holds A w' blob vb \<and>
    aw_adlb w' = snd (set_variable X x blob s) \<and> aw_heap w' = snd (malloc vb (aw_heap w))"
proof -
  let ?blob = "build_tcl_blob A (h_next (aw_heap w)) (int (length vb)) None"
  let ?w = "w\<lparr>aw_adlb := snd (set_variable X x ?blob s), aw_heap := snd (malloc vb (aw_heap w))\<rparr>"
  obtain s' where "set_variable X x ?blob s = (True, s')" using assms(3) by (metis (full_types) prod.collapse)
  then have "ADLB_Xpt_Lookup_Cmd A X [c, key, x] w = (Inr (new_wide A 1), ?w)"
    using assms(1,2) by (auto simp: ADLB_Xpt_Lookup_Cmd_def holds_def malloc_def cmd_bind_def heap_call_def
        adlb_call_def cmd_do_def cmd_condition_def heap_get_def)
  moreover have "holds A ?w ?blob (take (length vb) vb)"
    by (rule holds_new [OF assms(4-6)]) (use assms(7) in simp_all)
  ultimately show ?thesis by auto
qed

text \<open>The assignments of an unpack.\<close>

definition assign :: "('w, 'obj, 'y) xpt_api_scheme \<Rightarrow> ('obj \<times> 'obj) list \<Rightarrow> 'w \<Rightarrow> 'w" where
  "assign X xs s = fold (\<lambda>(x, obj) s. snd (set_variable X x obj s)) xs s"

lemma unpack_fields_found:
  assumes P: "pack_ok A F" and D: "dict_ok A" and B: "buffer_ok A X" and X: "\<And>x obj s. fst (set_variable X x obj s)"
    and data: "heap_read p len (aw_heap w) = Inr (pre @ concat (map (field_bytes A F) fs))"
    and fs: "\<forall>fd \<in> set fs. typed A (fst fd) 0 (snd fd) \<and> (\<exists>obj. rep A (snd fd) obj) \<and> depth (snd fd) \<le> fuel \<and>
        int (length (field_value A F fd)) \<le> data_max A \<and> small (field_value A F fd)"
    and vars: "list_all2 (\<lambda>(x, t) fd. adlb_type_from_obj_extra A t = Inr (fst (fst fd ! 0), Extra_None)) vars fs"
  shows "\<exists>objs. unpack_fields A X fuel p len vars (length pre) w =
      (Inr (), w\<lparr>aw_adlb := assign X (zip (map fst vars) objs) (aw_adlb w)\<rparr>) \<and>
    list_all2 (\<lambda>fd obj. rep A (canon (snd fd)) obj) fs objs"
  using data fs vars
proof (induction fs arbitrary: vars pre w)
  case Nil
  then show ?case by (simp add: assign_def)
next
  case (Cons fd fs)
  obtain x t vars' where v: "vars = (x, t) # vars'" "adlb_type_from_obj_extra A t = Inr (fst (fst fd ! 0), Extra_None)"
    "list_all2 (\<lambda>(x, t) fd. adlb_type_from_obj_extra A t = Inr (fst (fst fd ! 0), Extra_None)) vars' fs"
    using Cons.prems(3) by (auto simp: list_all2_Cons2)
  let ?pre = "pre @ field_bytes A F fd"
  have fd: "typed A (fst fd) 0 (canon (snd fd))" "\<exists>obj. rep A (canon (snd fd)) obj" "depth (canon (snd fd)) \<le> fuel"
    "int (length (field_value A F fd)) \<le> data_max A" "small (field_value A F fd)"
    using Cons.prems(2) canon_typed [of A "fst fd" 0 "snd fd"] canon_rep [OF D, of "snd fd" "fst fd" 0]
      canon_depth [of "snd fd" fuel] by simp_all
  have "unpack_buffer X (fst (fst fd ! 0)) (pre @ field_bytes A F fd @ concat (map (field_bytes A F) fs)) (length pre) =
      Some (field_value A F fd, length ?pre)"
    unfolding field_bytes_def by (rule buffer_okD [OF B fd(5) refl refl])
  note unpack = this [folded append_assoc]
  obtain obj where obj: "adlb_datum2tclobj A fuel (fst (fst fd ! 0)) Extra_None (field_value A F fd) (aw_heap w) =
      Inr (obj, aw_heap w)" "rep A (canon (snd fd)) obj"
    using unpack_format [OF P D fd(1,2,3)] fd(4,5) unfolding field_value_def by blast
  obtain s where s: "set_variable X x obj (aw_adlb w) = (True, s)" using X by (metis (full_types) prod.collapse)
  let ?w = "w\<lparr>aw_adlb := s\<rparr>"
  have "heap_read p len (aw_heap ?w) = Inr (?pre @ concat (map (field_bytes A F) fs))" using Cons.prems(1) by simp
  from Cons.IH [OF this _ v(3)] Cons.prems(2) obtain objs where
    rest: "unpack_fields A X fuel p len vars' (length ?pre) ?w =
      (Inr (), ?w\<lparr>aw_adlb := assign X (zip (map fst vars') objs) s\<rparr>)"
    "list_all2 (\<lambda>fd obj. rep A (canon (snd fd)) obj) fs objs" by auto
  have "unpack_fields A X fuel p len vars (length pre) w =
      (Inr (), w\<lparr>aw_adlb := assign X (zip (map fst vars) (obj # objs)) (aw_adlb w)\<rparr>)"
    using Cons.prems(1) v(1,2) unpack obj(1) s rest(1) by (simp add: datum_obj_def cmd_bind_def assign_def adlb_call_def
        cmd_do_def heap_get_def cmd_condition_def)
  with rest(2) obj(2) show ?case by blast
qed

section \<open>Checkpoints are found again\<close>

text \<open>
  What is relied on in the checkpoint store. A store that was initialised with a limit for
  the size of indexed values is \<open>indexing\<close> with that limit, and stays so when something is
  written. A value within the limit that is written with the flag to add it to the
  index is found directly afterwards, whatever the mode of persistence. Nothing is relied on for values
  that are larger or written without the flag: these need not be in the index.
\<close>

definition store_keeps :: "('w, 'obj, 'y) xpt_api_scheme \<Rightarrow> (int \<Rightarrow> 'w \<Rightarrow> bool) \<Rightarrow> bool" where
  "store_keeps X indexing \<longleftrightarrow>
     (\<forall>file policy limit s s'. xpt_init X file policy limit s = (ADLB_SUCCESS, s') \<longrightarrow> indexing limit s') \<and>
     (\<forall>limit k v m i s s'. indexing limit s \<longrightarrow> xpt_write X k v m i s = (ADLB_SUCCESS, s') \<longrightarrow>
        indexing limit s' \<and>
        (i \<longrightarrow> int (length v) \<le> limit \<longrightarrow> (\<exists>s''. xpt_lookup X k s' = ((ADLB_SUCCESS, v), s''))))"

text \<open>Fields that can be packed and unpacked.\<close>

definition fields_fit :: "('obj, 'f, 'z) pack_api_scheme \<Rightarrow> pack_format \<Rightarrow> nat \<Rightarrow> (compound_type \<times> 'f aval) list \<Rightarrow> bool" where
  "fields_fit A F fuel fs \<longleftrightarrow> int (length (concat (map (field_bytes A F) fs))) \<le> LONG_MAX \<and>
     (\<forall>fd \<in> set fs. depth (snd fd) \<le> fuel \<and> int (length (field_value A F fd)) \<le> data_max A)"

lemma fields_fit_small:
  assumes "fields_fit A F fuel fs" "data_max A < 2 ^ 64"
  shows "\<forall>fd \<in> set fs. small (field_value A F fd)"
  using assms by (auto simp: fields_fit_def small_def)

lemma fields_at_values:
  "fields_at A objv pos fs \<Longrightarrow> fd \<in> set fs \<Longrightarrow> typed A (fst fd) 0 (snd fd) \<and> (\<exists>obj. rep A (snd fd) obj)"
  by (induction fs arbitrary: pos) auto

lemma same_key_bytes:
  assumes "map fst ks = map fst ks'" "map (canon \<circ> snd) ks = map (canon \<circ> snd) ks'"
  shows "map (field_bytes A F) ks = map (field_bytes A F) ks'"
proof -
  have zipped: "map (field_bytes A F) xs = map (\<lambda>(t, v). entry A (fst (t ! 0)) (format_value A F t 0 v))
      (zip (map fst xs) (map (canon \<circ> snd) xs))" for xs
    by (induction xs) (simp_all add: field_bytes_def field_value_def)
  show ?thesis unfolding zipped assms by (rule refl)
qed

text \<open>
  C9: Checkpoints are found again. When fields were packed and written under a packed key with
  the flag to add them to the index, and are within the limit the store was initialised
  with, a lookup with any key that has the same types and values, its dictionaries and
  multisets built in whatever order, reports success and sets its variable to a blob from
  which \<^verbatim>\<open>xpt_unpack\<close> assigns to the variables, in order, objects for the values that were
  packed. Fields of key and value are integers, references, floats, strings, dictionaries of
  these nested to any depth, and multisets of strings; blobs, structs and other multisets are
  left out.
\<close>

theorem checkpoint_restores:
  assumes laws: "pack_ok A F" "dict_ok A" "sort_ok A" "buffer_ok A X" "store_keeps X indexing" "data_max A < 2 ^ 64"
      "\<And>x obj s. fst (set_variable X x obj s)"
    and heap: "heap_ok (aw_heap w)" "h_next (aw_heap w) + 3 \<le> LONG_MAX"
    and args: "fields_at A (c # key) 1 ks" "fields_at A (c # key') 1 ks'" "fields_at A (c # vals) 1 fs"
    and same: "map fst ks = map fst ks'" "map (canon \<circ> snd) ks = map (canon \<circ> snd) ks'"
    and fit: "fields_fit A F fuel ks" "fields_fit A F fuel ks'" "fields_fit A F fuel fs"
    and packed: "ADLB_Xpt_Pack_Cmd A fuel0 (c # key) w = (Inr kb, w1)"
      "ADLB_Xpt_Pack_Cmd A fuel0 (c # vals) w1 = (Inr vb, w2)"
    and index: "indexing limit (aw_adlb w)" "tcl_boolean A ia = Some True"
      "int (length (concat (map (field_bytes A F) fs))) \<le> limit"
    and written: "ADLB_Xpt_Write_Cmd A X [c, kb, vb, mode, ia] w2 = (Inr (), w3)"
    and again: "ADLB_Xpt_Pack_Cmd A fuel0 (c # key') w3 = (Inr kb', w4)"
    and vars: "list_all2 (\<lambda>t fd. adlb_type_from_obj_extra A t = Inr (fst (fst fd ! 0), Extra_None)) types fs"
      "length xs = length types"
  shows "\<exists>blob w5 objs. ADLB_Xpt_Lookup_Cmd A X [c, kb', x] w4 = (Inr (new_wide A 1), w5) \<and>
    (\<exists>s. aw_adlb w5 = snd (set_variable X x blob s)) \<and>
    ADLB_Xpt_Unpack_Cmd A X fuel (c # xs @ blob # types) w5 =
      (Inr (), w5\<lparr>aw_adlb := assign X (zip xs objs) (aw_adlb w5)\<rparr>) \<and>
    list_all2 (\<lambda>fd obj. rep A (canon (snd fd)) obj) fs objs"
proof -
  let ?k = "concat (map (field_bytes A F) ks)" and ?v = "concat (map (field_bytes A F) fs)"
  note tcl = dict_okD(1) [OF laws(2)] and sm = fields_fit_small [OF _ laws(6)]
  note pack = pack_cmd [OF laws(1,3) tcl]
  have len: "int (length (concat (map (field_bytes A F) ks))) \<le> LONG_MAX" "int (length ?v) \<le> LONG_MAX"
    using fit by (simp_all add: fields_fit_def)
  have keys: "concat (map (field_bytes A F) ks') = ?k" using same_key_bytes [OF same] by metis
  obtain b1 where 1: "holds A w1 kb ?k" "aw_adlb w1 = aw_adlb w" "aw_heap w1 = snd (malloc b1 (aw_heap w))"
    by (rule pack [OF args(1) sm [OF fit(1)] len(1) heap(1) _ packed(1)]) (use heap(2) in simp)
  have h1: "heap_ok (aw_heap w1)" "h_next (aw_heap w1) = h_next (aw_heap w) + 1"
    using heap_ok_malloc [OF heap(1)] 1(3) by (simp_all add: malloc_def)
  obtain b2 where 2: "holds A w2 vb ?v" "aw_adlb w2 = aw_adlb w1" "aw_heap w2 = snd (malloc b2 (aw_heap w1))"
    by (rule pack [OF args(3) sm [OF fit(3)] len(2) h1(1) _ packed(2)]) (use heap(2) h1(2) in simp)
  have h2: "heap_ok (aw_heap w2)" "h_next (aw_heap w2) = h_next (aw_heap w) + 2"
    using heap_ok_malloc [OF h1(1)] 2(3) h1(2) by (simp_all add: malloc_def)
  obtain m where 3: "xpt_write X ?k ?v m True (aw_adlb w2) = (ADLB_SUCCESS, aw_adlb w3)" "aw_heap w3 = aw_heap w2"
    using write_cmd [OF holds_malloc [OF h1(1) 1(1) 2(3)] 2(1) written index(2)] by blast
  obtain b4 where 4: "holds A w4 kb' ?k" "aw_adlb w4 = aw_adlb w3" "aw_heap w4 = snd (malloc b4 (aw_heap w3))"
    by (rule pack [OF args(2) sm [OF fit(2)] _ _ _ again, unfolded keys])
      (use len(1) h2 heap(2) 3(2) in simp_all)
  have h4: "heap_ok (aw_heap w4)" "h_next (aw_heap w4) \<le> LONG_MAX"
    using heap_ok_malloc [OF h2(1)] 4(3) 3(2) h2(2) heap(2) by (simp_all add: malloc_def)
  obtain s where s: "xpt_lookup X ?k (aw_adlb w4) = ((ADLB_SUCCESS, ?v), s)"
    using laws(5) 3(1) 4(2) index(1,3) 1(2) 2(2) unfolding store_keeps_def by (metis (full_types))
  obtain blob w5 where 5: "ADLB_Xpt_Lookup_Cmd A X [c, kb', x] w4 = (Inr (new_wide A 1), w5)" "holds A w5 blob ?v"
    "aw_adlb w5 = snd (set_variable X x blob s)"
    using lookup_cmd [OF 4(1) s laws(7) tcl h4 len(2)] by blast
  from 5(2) obtain p n ho where p: "extract_tcl_blob A blob = Inr (p, n, ho)" "heap_read p n (aw_heap w5) = Inr ([] @ ?v)"
    by (auto simp: holds_def)
  have n: "length types = length fs" using vars(1) by (rule list_all2_lengthD)
  have "list_all2 (\<lambda>(x, t) fd. adlb_type_from_obj_extra A t = Inr (fst (fst fd ! 0), Extra_None)) (zip xs types) fs"
    using vars n by (auto simp: list_all2_conv_all_nth)
  then obtain objs where objs: "unpack_fields A X fuel p n (zip xs types) 0 w5 =
      (Inr (), w5\<lparr>aw_adlb := assign X (zip xs objs) (aw_adlb w5)\<rparr>)"
    "list_all2 (\<lambda>fd obj. rep A (canon (snd fd)) obj) fs objs"
    using unpack_fields_found [OF laws(1,2,4,7) p(2), of fuel "zip xs types"] fields_at_values [OF args(3)]
      sm [OF fit(3)] fit(3) vars(2) by (auto simp: fields_fit_def)
  have "ADLB_Xpt_Unpack_Cmd A X fuel (c # xs @ blob # types) w5 = unpack_fields A X fuel p n (zip xs types) 0 w5"
    using p(1) vars(2) by (simp add: ADLB_Xpt_Unpack_Cmd_def nth_append Let_def)
  with 5(1,3) objs show ?thesis by fastforce
qed

text \<open>An instance: checkpoints are kept beside the data, and variables are not.\<close>

definition val_xpt :: "(val_store, val) xpt_api" where
  "val_xpt = data_api.extend val_data \<lparr>
     xpt_init = (\<lambda>file policy n s. (ADLB_SUCCESS, s)), xpt_finalize = (\<lambda>s. (ADLB_SUCCESS, s)),
     xpt_write = (\<lambda>k v m i s. (ADLB_SUCCESS, if i then s\<lparr>vs_slots := (vs_slots s)((0, Some k) \<mapsto> Value TYPE_BLOB v)\<rparr> else s)),
     xpt_lookup = (\<lambda>k s. (case vs_slots s (0, Some k) of Some (Value t v) \<Rightarrow> (ADLB_SUCCESS, v)
       | _ \<Rightarrow> (ADLB_NOTHING, []), s)),
     xpt_reload = (\<lambda>file r n s. ((ADLB_SUCCESS, []), s)), set_variable = (\<lambda>x obj s. (True, s)),
     add_dsym = (\<lambda>n names s. (ADLB_SUCCESS, s)), get_dsym = (\<lambda>n s. (None, None))\<rparr>"

lemma val_xpt_sel [simp]:
  "xpt_write val_xpt k v m i s = (ADLB_SUCCESS, if i then s\<lparr>vs_slots := (vs_slots s)((0, Some k) \<mapsto> Value TYPE_BLOB v)\<rparr> else s)"
  "xpt_lookup val_xpt k s = (case vs_slots s (0, Some k) of Some (Value t v) \<Rightarrow> (ADLB_SUCCESS, v) | _ \<Rightarrow> (ADLB_NOTHING, []), s)"
  "set_variable val_xpt x obj s = (True, s)" "unpack_buffer val_xpt = unpack_buffer val_data"
  by (simp_all add: val_xpt_def data_api.extend_def val_data_def)

lemma val_xpt_laws: "buffer_ok val_pack val_xpt" "store_keeps val_xpt (\<lambda>_ _. True)"
  using val_buffer_ok by (auto simp: buffer_ok_def store_keeps_def)

definition pair_args :: "(val \<times> val) list \<Rightarrow> val list" where
  "pair_args kvs = [V_str ''container'', V_str ''string'', V_str ''integer'', V_dict kvs]"

definition ab :: "(val \<times> val) list" where "ab = [(V_str ''a'', V_int 2), (V_str ''b'', V_int 1)]"
definition ba :: "(val \<times> val) list" where "ba = [(V_str ''b'', V_int 1), (V_str ''a'', V_int 2)]"

lemma pair_types: "get_compound_type val_pack (V_str ''c'' # pair_args kvs) (Suc 0) = Inr (flat_types, 4)"
  by (simp add: get_compound_type_def pair_args_def flat_types_def compound_loop.simps from_obj_defs numeral_eq_Suc)

lemma int_types: "get_compound_type val_pack [V_str ''c'', V_str ''integer'', V_int i] (Suc 0) =
    Inr ([(TYPE_INTEGER, Extra_None)], 2)"
  by (simp add: get_compound_type_def compound_loop.simps from_obj_defs numeral_eq_Suc)

lemma val_append_int:
  "length types > pos \<Longrightarrow> fst (types ! pos) = TYPE_INTEGER \<Longrightarrow> adlb_tclobj_bin_append val_pack h 0 types True pos (V_int i) True out =
    Inr (out_append (nat_bytes 8 (length (unary i)) @ unary i) out)"
  by (subst adlb_tclobj_bin_append.simps) (simp add: compound_type_next_def adlb_tclobj2datum.simps split: prod.split)

lemma val_append_pairs:
  assumes "out_ok out" "kvs = ab \<or> kvs = ba"
  shows "\<exists>out'. adlb_tclobj_bin_append val_pack h 0 flat_types True 0 (V_dict kvs) True out = Inr out' \<and> out_ok out'"
proof -
  have sel: "eval_lsort val_pack vs = Some (sort_key val_string vs)"
    "dict_find val_pack (V_dict d) k = Some (map_of d k)" for vs d k
    by (simp_all add: val_pack_defs)
  have "\<exists>o2. tcl_dict_to_packed_container val_pack
      (\<lambda>p v out. adlb_tclobj_bin_append val_pack h 0 flat_types True p v True out) flat_types 1 (V_dict kvs) True o1 = Inr o2 \<and>
      out_ok o2 \<and> ob_pos o1 \<le> ob_pos o2" if "out_ok o1" for o1
    using that assms(2)
    by (auto simp: ab_def ba_def tcl_dict_to_packed_container_def compound_type_next_def tcl_append_key_val_def sel
        val_append_int numeral_2_eq_2 [symmetric]) (simp_all add: out_append_def)
  from val_compound_packs [OF assms(1) this, of True] show ?thesis by (auto simp: bin_append_compound(1))
qed

lemma val_pack_runs:
  "kvs = ab \<or> kvs = ba \<Longrightarrow> \<exists>blob w'. ADLB_Xpt_Pack_Cmd val_pack 0 (V_str ''c'' # pair_args kvs) w = (Inr blob, w')"
  "\<exists>blob w'. ADLB_Xpt_Pack_Cmd val_pack 0 [V_str ''c'', V_str ''integer'', V_int i] w = (Inr blob, w')"
proof -
  have len: "length (pair_args kvs) = 4" "pair_args kvs ! 3 = V_dict kvs" by (simp_all add: pair_args_def)
  show "\<exists>blob w'. ADLB_Xpt_Pack_Cmd val_pack 0 (V_str ''c'' # pair_args kvs) w = (Inr blob, w')" if kvs: "kvs = ab \<or> kvs = ba"
  proof -
    obtain out' where "adlb_tclobj_bin_append val_pack (aw_heap w) 0 flat_types True 0 (V_dict kvs) True
        \<lparr>ob_data = [], ob_caller = False, ob_pos = 0\<rparr> = Inr out'"
      using val_append_pairs [OF _ kvs, of "\<lparr>ob_data = [], ob_caller = False, ob_pos = 0\<rparr>" "aw_heap w"]
      by (auto simp: out_ok_def)
    then show ?thesis
      by (simp add: ADLB_Xpt_Pack_Cmd_def pack_fields.simps pair_types len split: prod.split)
  qed
  show "\<exists>blob w'. ADLB_Xpt_Pack_Cmd val_pack 0 [V_str ''c'', V_str ''integer'', V_int i] w = (Inr blob, w')"
    by (simp add: ADLB_Xpt_Pack_Cmd_def pack_fields.simps int_types val_append_int split: prod.split)
qed

lemma val_write_runs:
  assumes "holds val_pack w kb k" "holds val_pack w vb v"
  shows "\<exists>w'. ADLB_Xpt_Write_Cmd val_pack val_xpt [c, kb, vb, V_str ''persist'', V_int 1] w = (Inr (), w') \<and>
    aw_heap w' = aw_heap w"
proof -
  have "tcl_boolean val_pack (V_int 1) = Some True" by (simp add: val_pack_defs)
  with assms show ?thesis by (auto simp: ADLB_Xpt_Write_Cmd_def holds_def persist_mode_def cmd_condition_def)
qed

lemma pair_fields:
  "kvs = ab \<Longrightarrow> fields_at val_pack (V_str ''c'' # pair_args kvs) 1 [(flat_types, A_Dict [(''a'', A_Int 2), (''b'', A_Int 1)])]"
  "kvs = ba \<Longrightarrow> fields_at val_pack (V_str ''c'' # pair_args kvs) 1 [(flat_types, A_Dict [(''b'', A_Int 1), (''a'', A_Int 2)])]"
  by (simp_all add: pair_types) (simp_all add: pair_args_def ab_def ba_def LONG_MIN_def LONG_MAX_def numeral_2_eq_2)

lemma int_field:
  "fields_at val_pack [V_str ''c'', V_str ''integer'', V_int 5] 1 [([(TYPE_INTEGER, Extra_None)], A_Int 5)]"
  by (simp add: int_types LONG_MIN_def LONG_MAX_def)

lemma example_fits:
  "fields_fit val_pack val_format 1 [(flat_types, A_Dict [(''a'', A_Int 2), (''b'', A_Int 1)])]"
  "fields_fit val_pack val_format 1 [(flat_types, A_Dict [(''b'', A_Int 1), (''a'', A_Int 2)])]"
  "fields_fit val_pack val_format 1 [([(TYPE_INTEGER, Extra_None)], A_Int 5)]"
  by (simp_all add: fields_fit_def field_bytes_def field_value_def entry_val sized_val val_format_def unary_def
      LONG_MAX_def numeral_2_eq_2 [symmetric])

lemma checkpoint_restores_witness:
  "\<exists>kb w1 vb w2 w3 kb' w4 blob w5.
    ADLB_Xpt_Pack_Cmd val_pack 0 (V_str ''c'' # pair_args ab) \<lparr>aw_adlb = val_store0, aw_heap = empty_heap, aw_cache = ()\<rparr> =
      (Inr kb, w1) \<and>
    ADLB_Xpt_Pack_Cmd val_pack 0 [V_str ''c'', V_str ''integer'', V_int 5] w1 = (Inr vb, w2) \<and>
    ADLB_Xpt_Write_Cmd val_pack val_xpt [V_str ''c'', kb, vb, V_str ''persist'', V_int 1] w2 = (Inr (), w3) \<and>
    ADLB_Xpt_Pack_Cmd val_pack 0 (V_str ''c'' # pair_args ba) w3 = (Inr kb', w4) \<and>
    ADLB_Xpt_Lookup_Cmd val_pack val_xpt [V_str ''c'', kb', V_str ''x''] w4 = (Inr (V_int 1), w5) \<and>
    fst (ADLB_Xpt_Unpack_Cmd val_pack val_xpt 1 [V_str ''c'', V_str ''y'', blob, V_str ''integer''] w5) = Inr ()"
proof -
  let ?w = "\<lparr>aw_adlb = val_store0, aw_heap = empty_heap, aw_cache = ()\<rparr>"
  let ?k = "[(flat_types, A_Dict [(''a'', A_Int 2), (''b'', A_Int 1)])] :: (compound_type \<times> unit aval) list"
  let ?k' = "[(flat_types, A_Dict [(''b'', A_Int 1), (''a'', A_Int 2)])] :: (compound_type \<times> unit aval) list"
  let ?f = "[([(TYPE_INTEGER, Extra_None)], A_Int 5)] :: (compound_type \<times> unit aval) list"
  have h: "heap_ok (aw_heap ?w)" "h_next (aw_heap ?w) + 3 \<le> LONG_MAX"
    by (simp_all add: empty_heap_def heap_ok_def LONG_MAX_def)
  have max: "data_max val_pack < 2 ^ 64" by simp
  note tcl = dict_okD(1) [OF val_dict_ok] and small = fields_fit_small [OF _ max]
  obtain kb w1 where p1: "ADLB_Xpt_Pack_Cmd val_pack 0 (V_str ''c'' # pair_args ab) ?w = (Inr kb, w1)"
    using val_pack_runs(1) by blast
  obtain b1 where 1: "holds val_pack w1 kb (concat (map (field_bytes val_pack val_format) ?k))"
    "aw_heap w1 = snd (malloc b1 (aw_heap ?w))"
    by (rule pack_cmd [OF val_pack_ok val_sort_ok tcl pair_fields(1) [OF refl] small [OF example_fits(1)] _ h(1) _ p1])
      (use example_fits(1) h(2) in \<open>auto simp: fields_fit_def\<close>)
  have h1: "heap_ok (aw_heap w1)" "h_next (aw_heap w1) = 2"
    using heap_ok_malloc [OF h(1)] 1(2) by (simp_all add: malloc_def empty_heap_def)
  obtain vb w2 where p2: "ADLB_Xpt_Pack_Cmd val_pack 0 [V_str ''c'', V_str ''integer'', V_int 5] w1 = (Inr vb, w2)"
    using val_pack_runs(2) by blast
  obtain b2 where 2: "holds val_pack w2 vb (concat (map (field_bytes val_pack val_format) ?f))"
    "aw_heap w2 = snd (malloc b2 (aw_heap w1))"
    by (rule pack_cmd [OF val_pack_ok val_sort_ok tcl int_field small [OF example_fits(3)] _ h1(1) _ p2])
      (use example_fits(3) h1(2) in \<open>auto simp: fields_fit_def LONG_MAX_def\<close>)
  obtain w3 where p3: "ADLB_Xpt_Write_Cmd val_pack val_xpt [V_str ''c'', kb, vb, V_str ''persist'', V_int 1] w2 = (Inr (), w3)"
    using val_write_runs [OF holds_malloc [OF h1(1) 1(1) 2(2)] 2(1)] by blast
  obtain kb' w4 where p4: "ADLB_Xpt_Pack_Cmd val_pack 0 (V_str ''c'' # pair_args ba) w3 = (Inr kb', w4)"
    using val_pack_runs(1) by blast
  have same: "map fst ?k = map fst ?k'" "map (canon \<circ> snd) ?k = map (canon \<circ> snd) ?k'" by simp_all
  have types: "list_all2 (\<lambda>t fd. adlb_type_from_obj_extra val_pack t = Inr (fst (fst fd ! 0), Extra_None)) [V_str ''integer''] ?f"
    by (simp add: from_obj_defs)
  have len: "length [V_str ''y''] = length [V_str ''integer'']" by simp
  have ia: "tcl_boolean val_pack (V_int 1) = Some True" by (simp add: val_pack_defs)
  have lim: "int (length (concat (map (field_bytes val_pack val_format) ?f))) \<le> 1048576"
    by (simp add: field_bytes_def field_value_def entry_val unary_def)
  have "fst (set_variable val_xpt x obj s)" for x obj s by simp
  from checkpoint_restores [OF val_pack_ok val_dict_ok val_sort_ok val_xpt_laws max this h pair_fields(1) [OF refl]
      pair_fields(2) [OF refl] int_field same example_fits p1 p2 TrueI ia lim p3 p4 types len, of "V_str ''x''"]
  obtain blob w5 objs where l: "ADLB_Xpt_Lookup_Cmd val_pack val_xpt [V_str ''c'', kb', V_str ''x''] w4 = (Inr (new_wide val_pack 1), w5)"
    and u: "ADLB_Xpt_Unpack_Cmd val_pack val_xpt 1 (V_str ''c'' # [V_str ''y''] @ blob # [V_str ''integer'']) w5 =
      (Inr (), w5\<lparr>aw_adlb := assign val_xpt (zip [V_str ''y''] objs) (aw_adlb w5)\<rparr>)"
    by blast
  note l
  moreover have "fst (ADLB_Xpt_Unpack_Cmd val_pack val_xpt 1 [V_str ''c'', V_str ''y'', blob, V_str ''integer''] w5) = Inr ()"
    using u by simp
  moreover have "new_wide val_pack 1 = V_int 1" by (simp add: val_pack_defs)
  ultimately show ?thesis using p1 p2 p3 p4 by metis
qed

end
