(* ===== verification/Worker.thy ===== *)
theory Worker
  imports Handles Tcl_Api
begin

text \<open>
  The synchronous worker: its loop in \<^verbatim>\<open>src/turbine/worker.c\<close>, the service process that runs
  beside it in \<^verbatim>\<open>src/turbine/services.c\<close>, and the command \<^verbatim>\<open>turbine::c::worker_loop\<close> with its keyword
  arguments in \<^verbatim>\<open>src/tcl/turbine/tcl-turbine.c\<close>. The operating system, ADLB and the interpreter
  are parameters that act on a world \<open>'w\<close>. Log messages and error messages are not modelled.
\<close>

section \<open>State and interface\<close>

text \<open>The static variables of \<^verbatim>\<open>services.c\<close> and the global \<^verbatim>\<open>turbine_task_comm\<close>.\<close>

record 'w worker_state =
  ws_world :: 'w
  service_launched :: bool
  service_pid :: int
  turbine_task_comm :: int

text \<open>
  \<^verbatim>\<open>fork\<close> gives the pid as seen by the process that is followed, 0 in the child. \<^verbatim>\<open>waitpid\<close>
  writes the status only when its result is positive. \<^verbatim>\<open>execvp\<close> either replaces the process
  or returns.
\<close>

record 'w os_api =
  get_env :: "string \<Rightarrow> 'w \<Rightarrow> string option"
  fork_process :: "'w \<Rightarrow> int \<times> 'w"
  execvp :: "string list \<Rightarrow> 'w \<Rightarrow> bool"
  wait_pid :: "int \<Rightarrow> 'w \<Rightarrow> (int \<times> int) \<times> 'w"
  kill_term :: "int \<Rightarrow> 'w \<Rightarrow> 'w"
  time_delay :: "nat \<Rightarrow> 'w \<Rightarrow> 'w"
  list_split_words :: "string \<Rightarrow> string list"

text \<open>
  A task that \<^verbatim>\<open>ADLB_Get\<close> hands over is its bytes, its type and its communicator.
  \<open>eval_ex\<close> evaluates the first bytes of a text, as many as its second argument says, and
  tells whether the code is \<^verbatim>\<open>TCL_OK\<close>.
\<close>

record 'w worker_api =
  worker_get :: "int \<Rightarrow> 'w \<Rightarrow> (adlb_code \<times> string \<times> int \<times> int) \<times> 'w"
  eval_ex :: "string \<Rightarrow> int \<Rightarrow> 'w \<Rightarrow> bool \<times> 'w"

section \<open>The service process\<close>

text \<open>What becomes of the child: it runs another program, or exits.\<close>

datatype child = Replaced_By "string list" | Exited int

definition service_launch :: "'w os_api \<Rightarrow> string \<Rightarrow> 'w \<Rightarrow> child res" where
  "service_launch P cmd w =
     (let args = list_split_words P cmd in
      c_defined (args \<noteq> []) (Inr (if execvp P args w then Replaced_By args else Exited 1)))"

text \<open>The result in the child is what becomes of it, in the parent a code and its state.\<close>

definition turbine_service_init ::
    "'w os_api \<Rightarrow> 'w worker_state \<Rightarrow> (child + turbine_code \<times> 'w worker_state) res" where
  "turbine_service_init P s =
     (case get_env P ''TURBINE_WORKER_SERVICE'' (ws_world s) of
        None \<Rightarrow> Inr (Inr (TURBINE_SUCCESS, s))
      | Some cmd \<Rightarrow>
          (let (pid, w) = fork_process P (ws_world s); s = s\<lparr>ws_world := w, service_pid := pid\<rparr> in
           if pid \<noteq> 0 then Inr (Inr (TURBINE_SUCCESS, s\<lparr>service_launched := True\<rparr>))
           else tcl_check (service_launch P cmd w) (\<lambda>c. Inr (Inl c))))"

text \<open>
  Waiting for the process with exponential backoff. The delay of round \<open>k\<close> is \<open>2 ^ k\<close>
  hundredths of a second, and the loop ends when it reaches four seconds. The status is
  \<open>None\<close> when \<^verbatim>\<open>waitpid\<close> failed and left it uninitialised.
\<close>

definition wait_status :: "int \<times> int \<Rightarrow> int option" where
  "wait_status r = (if 0 < fst r then Some (snd r) else None)"

lemma pow_bound: "(2 :: nat) ^ k < 400 \<Longrightarrow> k < 9"
proof (rule ccontr)
  assume "(2 :: nat) ^ k < 400" "\<not> k < 9"
  moreover from this have "(2 :: nat) ^ 9 \<le> 2 ^ k" by (intro power_increasing) auto
  ultimately show False by simp
qed

function shutdown_loop :: "'w os_api \<Rightarrow> int \<Rightarrow> nat \<Rightarrow> 'w \<Rightarrow> int option option \<times> 'w" where
  "shutdown_loop P p k w =
     (if (2 :: nat) ^ k < 400
      then let (r, w) = wait_pid P p w in
        if fst r = 0 then shutdown_loop P p (k + 1) (time_delay P (2 ^ k) w)
        else (Some (wait_status r), w)
      else (None, w))"
  by pat_completeness auto
termination by (relation "measure (\<lambda>(P, p, k, w). 9 - k)") (auto dest: pow_bound)

declare shutdown_loop.simps [simp del]

definition service_shutdown :: "'w os_api \<Rightarrow> 'w worker_state \<Rightarrow> int option option \<times> 'w worker_state" where
  "service_shutdown P s =
     (let (r, w) = shutdown_loop P (service_pid s) 0 (kill_term P (service_pid s) (ws_world s)) in
      (r, s\<lparr>ws_world := w\<rparr>))"

text \<open>At the end the status is decoded for the log.\<close>

definition turbine_service_finalize :: "'w os_api \<Rightarrow> 'w worker_state \<Rightarrow> 'w worker_state res" where
  "turbine_service_finalize P s =
     (if \<not> service_launched s then Inr s
      else let (r, w) = wait_pid P (service_pid s) (ws_world s); s = s\<lparr>ws_world := w\<rparr> in
        if fst r = 0
        then (case service_shutdown P s of
                (None, s) \<Rightarrow> Inr s
              | (Some status, s) \<Rightarrow> c_defined (status \<noteq> None) (Inr s))
        else c_defined (wait_status r \<noteq> None) (Inr s))"

section \<open>The worker loop\<close>

text \<open>
  \<open>fuel\<close> bounds the number of tasks. ADLB writes the bytes of a task to the start of the
  buffer; a task without bytes would be evaluated with length -1, which means up to the first
  NUL that happens to be there.
\<close>

fun worker_run ::
    "nat \<Rightarrow> 'w worker_api \<Rightarrow> int \<Rightarrow> string \<Rightarrow> 'w worker_state \<Rightarrow> (turbine_code option \<times> 'w worker_state) res" where
  "worker_run 0 A work_type buffer s = Inl Unfinished"
| "worker_run (Suc fuel) A work_type buffer s =
     (let ((code, work, type_recved, task_comm), w) = worker_get A work_type (ws_world s); s = s\<lparr>ws_world := w\<rparr> in
      if code = ADLB_SHUTDOWN then Inr (None, s)
      else if code \<noteq> ADLB_SUCCESS then Inr (Some TURBINE_ERROR_ADLB, s)
      else c_assert (length work \<le> length buffer) (c_assert (type_recved = work_type)
        (let buffer = work @ drop (length work) buffer;
             s = s\<lparr>turbine_task_comm := task_comm\<rparr>;
             (ok, w) = eval_ex A buffer (int (length work) - 1) (ws_world s); s = s\<lparr>ws_world := w\<rparr> in
         if ok then worker_run fuel A work_type buffer s
         else Inr (Some TURBINE_ERROR_EXTERNAL, s))))"

text \<open>Only the end by shutdown stops the service.\<close>

definition turbine_worker_loop ::
    "nat \<Rightarrow> 'w os_api \<Rightarrow> 'w worker_api \<Rightarrow> string \<Rightarrow> int \<Rightarrow> 'w worker_state \<Rightarrow>
      (child + turbine_code \<times> 'w worker_state) res" where
  "turbine_worker_loop fuel P A buffer work_type s =
     tcl_check (turbine_service_init P s) (\<lambda>init.
       case init of
         Inl c \<Rightarrow> Inr (Inl c)
       | Inr (tc, s) \<Rightarrow>
           if tc \<noteq> TURBINE_SUCCESS then Inr (Inr (tc, s))
           else tcl_check (worker_run fuel A work_type buffer s) (\<lambda>(ret, s).
             case ret of
               Some tc \<Rightarrow> Inr (Inr (tc, s))
             | None \<Rightarrow> tcl_check (turbine_service_finalize P s) (\<lambda>s. Inr (Inr (TURBINE_SUCCESS, s)))))"

section \<open>The command\<close>

text \<open>The arguments so far are the buffer count and size.\<close>

fun keyword_args ::
    "('obj, 'f, 'z) tcl_api_scheme \<Rightarrow> ('obj \<times> 'obj) list \<Rightarrow> int \<Rightarrow> int \<Rightarrow> (int \<times> int) res" where
  "keyword_args A [] buffer_count buffer_size = Inr (buffer_count, buffer_size)"
| "keyword_args A ((key_obj, val_obj) # es) buffer_count buffer_size =
     (let key = tcl_string A key_obj in
      if key = ''buffer_count''
      then tcl_check (tcl_get (tcl_int A val_obj)) (\<lambda>n.
        tcl_condition (0 \<le> n) (keyword_args A es n buffer_size))
      else if key = ''buffer_size''
      then tcl_check (tcl_get (tcl_int A val_obj)) (\<lambda>n.
        tcl_condition (0 \<le> n) (keyword_args A es buffer_count n))
      else Inl Tcl_Error)"

definition worker_keyword_args ::
    "('obj, 'f, 'z) tcl_api_scheme \<Rightarrow> 'obj \<Rightarrow> int \<Rightarrow> int \<Rightarrow> (int \<times> int) res" where
  "worker_keyword_args A dict buffer_count buffer_size =
     tcl_check (tcl_get (dict_entries A dict)) (\<lambda>es. keyword_args A es buffer_count buffer_size)"

text \<open>\<open>deflt\<close> is ADLB's transfer size. The buffer is what \<^verbatim>\<open>malloc\<close> gives, if anything.\<close>

definition Turbine_Worker_Loop_Cmd ::
    "nat \<Rightarrow> ('obj, 'f, 'z) tcl_api_scheme \<Rightarrow> int \<Rightarrow> (nat \<Rightarrow> string option) \<Rightarrow> 'w os_api \<Rightarrow> 'w worker_api \<Rightarrow> 'obj list \<Rightarrow>
      'w worker_state \<Rightarrow> (child + unit res \<times> 'w worker_state) res" where
  "Turbine_Worker_Loop_Cmd fuel T deflt malloc_buffer P A objv s =
     (let args = tcl_condition (length objv = 2 \<or> length objv = 3)
           (tcl_check (tcl_get (tcl_int T (objv ! 1))) (\<lambda>work_type.
            tcl_check (if 3 \<le> length objv then worker_keyword_args T (objv ! 2) 1 deflt else Inr (1, deflt)) (\<lambda>(_, buffer_size).
              tcl_check (tcl_get (malloc_buffer (nat buffer_size))) (\<lambda>buffer. Inr (work_type, buffer))))) in
      case args of
        Inl e \<Rightarrow> Inr (Inr (Inl e, s))
      | Inr (work_type, buffer) \<Rightarrow>
          tcl_check (turbine_worker_loop fuel P A buffer work_type s) (\<lambda>r.
            case r of
              Inl c \<Rightarrow> Inr (Inl c)
            | Inr (code, s) \<Rightarrow> Inr (Inr (tcl_condition (code = TURBINE_SUCCESS) (Inr ()), s))))"

section \<open>Every task once\<close>

text \<open>
  Two histories of the world: the tasks ADLB handed over, and the texts the interpreter was
  given to evaluate with what became of them. A task has at least its terminator.
\<close>

record 'w history =
  taken :: "'w \<Rightarrow> string list"
  evaluated :: "'w \<Rightarrow> (string \<times> bool) list"

definition history_ok :: "'w worker_api \<Rightarrow> 'w history \<Rightarrow> bool" where
  "history_ok A G \<longleftrightarrow>
     (\<forall>t w code work ty comm w'. worker_get A t w = ((code, work, ty, comm), w') \<longrightarrow>
        (code = ADLB_SUCCESS \<longrightarrow> work \<noteq> []) \<and>
        taken G w' = taken G w @ (if code = ADLB_SUCCESS then [work] else []) \<and> evaluated G w' = evaluated G w) \<and>
     (\<forall>text n w ok w'. 0 \<le> n \<longrightarrow> eval_ex A text n w = (ok, w') \<longrightarrow>
        taken G w' = taken G w \<and> evaluated G w' = evaluated G w @ [(take (nat n) text, ok)])"

lemma history_okD:
  assumes "history_ok A G"
  shows "worker_get A t w = ((code, work, ty, comm), w') \<Longrightarrow> code = ADLB_SUCCESS \<Longrightarrow> work \<noteq> []"
    "worker_get A t w = ((code, work, ty, comm), w') \<Longrightarrow>
      taken G w' = taken G w @ (if code = ADLB_SUCCESS then [work] else [])"
    "worker_get A t w = ((code, work, ty, comm), w') \<Longrightarrow> evaluated G w' = evaluated G w"
    "0 \<le> n \<Longrightarrow> eval_ex A text n w = (ok, w') \<Longrightarrow> taken G w' = taken G w"
    "0 \<le> n \<Longrightarrow> eval_ex A text n w = (ok, w') \<Longrightarrow> evaluated G w' = evaluated G w @ [(take (nat n) text, ok)]"
  using assms unfolding history_ok_def by blast+

text \<open>All evaluations succeeded, or all but the last.\<close>

definition outcome :: "turbine_code option \<Rightarrow> bool list \<Rightarrow> bool" where
  "outcome ret oks \<longleftrightarrow> (if ret = Some TURBINE_ERROR_EXTERNAL then oks \<noteq> [] \<and> list_all id (butlast oks) \<and> \<not> last oks
     else list_all id oks)"

lemma outcome_Cons: "outcome ret oks \<Longrightarrow> outcome ret (True # oks)"
  by (auto simp: outcome_def)

lemma worker_run_history:
  assumes G: "history_ok A G"
  shows "worker_run fuel A t buffer s = Inr (ret, s') \<Longrightarrow> \<exists>works oks. length oks = length works \<and>
    taken G (ws_world s') = taken G (ws_world s) @ works \<and>
    evaluated G (ws_world s') = evaluated G (ws_world s) @ zip (map butlast works) oks \<and> outcome ret oks"
proof (induction fuel arbitrary: s buffer)
  case (Suc fuel)
  obtain code work ty comm w1 where get: "worker_get A t (ws_world s) = ((code, work, ty, comm), w1)" by (metis prod.exhaust)
  note h1 = history_okD(1-3) [OF G get]
  show ?case
  proof (cases "code = ADLB_SUCCESS")
    case False
    with Suc.prems get have "ret \<noteq> Some TURBINE_ERROR_EXTERNAL" "ws_world s' = w1"
      by (auto simp: Let_def split: if_splits)
    with h1 False show ?thesis by (intro exI [of _ "[]"]) (simp add: outcome_def)
  next
    case True
    let ?buffer = "work @ drop (length work) buffer"
    obtain ok w2 where ev: "eval_ex A ?buffer (int (length work) - 1) w1 = (ok, w2)" by fastforce
    have n: "0 \<le> int (length work) - 1" "nat (int (length work) - 1) = length work - 1"
      using h1(1) True by (cases work; simp)+
    have h2: "taken G w2 = taken G (ws_world s) @ [work]"
      "evaluated G w2 = evaluated G (ws_world s) @ [(butlast work, ok)]"
      using history_okD(4,5) [OF G n(1) ev] h1 True n(2) by (simp_all add: butlast_conv_take)
    show ?thesis
    proof (cases ok)
      case False
      with Suc.prems get ev True have "ret = Some TURBINE_ERROR_EXTERNAL" "ws_world s' = w2"
        by (auto simp: Let_def c_assert_Inr_conv)
      with h2 False show ?thesis by (intro exI [of _ "[work]"] exI [of _ "[False]"]) (simp add: outcome_def)
    next
      case ok: True
      let ?s = "s\<lparr>turbine_task_comm := comm, ws_world := w2\<rparr>"
      have "worker_run fuel A t ?buffer ?s = Inr (ret, s')"
        using Suc.prems get ev True ok by (simp add: Let_def c_assert_Inr_conv)
      from Suc.IH [OF this] obtain works oks where
        w: "length oks = length works" "taken G (ws_world s') = taken G w2 @ works"
          "evaluated G (ws_world s') = evaluated G w2 @ zip (map butlast works) oks" "outcome ret oks"
        by auto
      with h2 ok outcome_Cons [OF w(4)] show ?thesis
        by (intro exI [of _ "work # works"] exI [of _ "True # oks"]) simp
    qed
  qed
qed simp

text \<open>The operating system leaves the histories alone.\<close>

definition quiet :: "'w os_api \<Rightarrow> 'w history \<Rightarrow> bool" where
  "quiet P G \<longleftrightarrow> (\<forall>w p n.
     (taken G (snd (fork_process P w)), evaluated G (snd (fork_process P w))) = (taken G w, evaluated G w) \<and>
     (taken G (snd (wait_pid P p w)), evaluated G (snd (wait_pid P p w))) = (taken G w, evaluated G w) \<and>
     (taken G (kill_term P p w), evaluated G (kill_term P p w)) = (taken G w, evaluated G w) \<and>
     (taken G (time_delay P n w), evaluated G (time_delay P n w)) = (taken G w, evaluated G w))"

lemma quietD:
  assumes "quiet P G"
  shows "fork_process P w = (p, w') \<Longrightarrow> taken G w' = taken G w \<and> evaluated G w' = evaluated G w"
    "wait_pid P q w = (r, w') \<Longrightarrow> taken G w' = taken G w \<and> evaluated G w' = evaluated G w"
    "taken G (kill_term P q w) = taken G w \<and> evaluated G (kill_term P q w) = evaluated G w"
    "taken G (time_delay P n w) = taken G w \<and> evaluated G (time_delay P n w) = evaluated G w"
  using assms unfolding quiet_def by (metis prod.inject snd_conv)+

lemma shutdown_loop_quiet:
  "quiet P G \<Longrightarrow> shutdown_loop P p k w = (r, w') \<Longrightarrow> taken G w' = taken G w \<and> evaluated G w' = evaluated G w"
proof (induction P p k w rule: shutdown_loop.induct)
  case (1 P p k w)
  note run = "1.prems"(2) [unfolded shutdown_loop.simps [of P p k w]]
  obtain q w1 where wait: "wait_pid P p w = (q, w1)" by fastforce
  note still = quietD(2) [OF "1.prems"(1) wait] quietD(4) [OF "1.prems"(1), of "2 ^ k" w1]
  show ?case
  proof (cases "(2 :: nat) ^ k < 400 \<and> fst q = 0")
    case True
    with run wait have "shutdown_loop P p (k + 1) (time_delay P (2 ^ k) w1) = (r, w')" by simp
    with "1.IH" [OF conjunct1 [OF True] refl wait [symmetric] conjunct2 [OF True] "1.prems"(1)] still show ?thesis by simp
  next
    case False
    with run wait still show ?thesis by (auto split: if_splits)
  qed
qed

lemma finalize_quiet:
  assumes "quiet P G" "turbine_service_finalize P s = Inr s'"
  shows "taken G (ws_world s') = taken G (ws_world s) \<and> evaluated G (ws_world s') = evaluated G (ws_world s)"
proof -
  obtain q w1 where wait: "wait_pid P (service_pid s) (ws_world s) = (q, w1)" by fastforce
  obtain r w2 where shut: "shutdown_loop P (service_pid s) 0 (kill_term P (service_pid s) w1) = (r, w2)" by fastforce
  show ?thesis
    using assms(2) quietD(2) [OF assms(1) wait] shutdown_loop_quiet [OF assms(1) shut] quietD(3) [OF assms(1), of "service_pid s" w1]
    by (auto simp: turbine_service_finalize_def service_shutdown_def wait shut Let_def c_defined_Inr_conv
        split: if_splits option.splits)
qed

text \<open>
  C5: The worker evaluates every task ADLB gives it exactly once, in the order in which they
  come, without its terminator; it takes no task that it does not evaluate. When it returns
  success all of them succeeded, and when a task failed it was the last one taken.
\<close>

theorem worker_evaluates_once:
  assumes G: "history_ok A G" and P: "quiet P G"
    and run: "turbine_worker_loop fuel P A buffer t s = Inr (Inr (code, s'))"
  shows "\<exists>works oks. length oks = length works \<and>
    taken G (ws_world s') = taken G (ws_world s) @ works \<and>
    evaluated G (ws_world s') = evaluated G (ws_world s) @ zip (map butlast works) oks \<and>
    (code = TURBINE_SUCCESS \<longrightarrow> list_all id oks) \<and>
    (code = TURBINE_ERROR_EXTERNAL \<longrightarrow> oks \<noteq> [] \<and> list_all id (butlast oks) \<and> \<not> last oks)"
proof -
  obtain s1 where init: "turbine_service_init P s = Inr (Inr (TURBINE_SUCCESS, s1))" and
    rest: "tcl_check (worker_run fuel A t buffer s1) (\<lambda>(ret, s). case ret of Some tc \<Rightarrow> Inr (Inr (tc, s))
        | None \<Rightarrow> tcl_check (turbine_service_finalize P s) (\<lambda>s. Inr (Inr (TURBINE_SUCCESS, s)))) =
      (Inr (Inr (code, s')) :: (child + turbine_code \<times> 'a worker_state) res)"
    using run by (auto simp: turbine_worker_loop_def turbine_service_init_def tcl_check_Inr_conv Let_def
        split: option.splits prod.splits if_splits)
  have same: "taken G (ws_world s1) = taken G (ws_world s)" "evaluated G (ws_world s1) = evaluated G (ws_world s)"
    using init quietD(1) [OF P] by (auto simp: turbine_service_init_def tcl_check_Inr_conv Let_def
        split: option.splits prod.splits if_splits)
  obtain ret s2 where s2: "worker_run fuel A t buffer s1 = Inr (ret, s2)"
    using rest by (auto simp: tcl_check_Inr_conv)
  with rest have fin: "case ret of None \<Rightarrow> code = TURBINE_SUCCESS \<and> turbine_service_finalize P s2 = Inr s'
      | Some tc \<Rightarrow> code = tc \<and> s' = s2"
    by (cases ret) (auto simp: tcl_check_Inr_conv)
  have keep: "taken G (ws_world s') = taken G (ws_world s2)" "evaluated G (ws_world s') = evaluated G (ws_world s2)"
    using fin finalize_quiet [OF P] by (auto split: option.splits)
  have "ret \<noteq> Some TURBINE_SUCCESS" using s2
  proof (induction fuel arbitrary: s1 buffer)
    case (Suc fuel)
    then show ?case by (auto simp: Let_def c_assert_Inr_conv split: prod.splits if_splits)
  qed simp
  with worker_run_history [OF G s2] fin keep same show ?thesis
    unfolding outcome_def by (auto split: option.splits if_splits)
qed

text \<open>An example: the world is the tasks waiting and the two histories; the text of a bad task is \<open>''bad''\<close>.\<close>

definition no_service :: "(string list \<times> string list \<times> (string \<times> bool) list) os_api" where
  "no_service = \<lparr>get_env = (\<lambda>n w. None), fork_process = (\<lambda>w. (1, w)), execvp = (\<lambda>as w. False),
     wait_pid = (\<lambda>p w. ((p, 0), w)), kill_term = (\<lambda>p w. w), time_delay = (\<lambda>n w. w), list_split_words = (\<lambda>s. [s])\<rparr>"

definition list_worker :: "(string list \<times> string list \<times> (string \<times> bool) list) worker_api" where
  "list_worker = \<lparr>
     worker_get = (\<lambda>t (ts, tk, ev). case ts of [] \<Rightarrow> ((ADLB_SHUTDOWN, [], 0, 0), (ts, tk, ev))
       | x # xs \<Rightarrow> ((ADLB_SUCCESS, x @ [NUL], t, 5), (xs, tk @ [x @ [NUL]], ev))),
     eval_ex = (\<lambda>text n (ts, tk, ev). (take (nat n) text \<noteq> ''bad'', (ts, tk, ev @ [(take (nat n) text, take (nat n) text \<noteq> ''bad'')])))\<rparr>"

definition list_history :: "(string list \<times> string list \<times> (string \<times> bool) list) history" where
  "list_history = \<lparr>taken = fst \<circ> snd, evaluated = snd \<circ> snd\<rparr>"

lemma list_worker_ok: "history_ok list_worker list_history" "quiet no_service list_history"
  by (auto simp: history_ok_def quiet_def list_worker_def list_history_def no_service_def split: list.splits)

lemma worker_evaluates_once_witness:
  "\<exists>s'. turbine_worker_loop 3 no_service list_worker (replicate 8 NUL) 0
     \<lparr>ws_world = ([''a'', ''bad'', ''b''], [], []), service_launched = False, service_pid = 0, turbine_task_comm = 0\<rparr> =
     Inr (Inr (TURBINE_ERROR_EXTERNAL, s')) \<and>
   taken list_history (ws_world s') = [''a'' @ [NUL], ''bad'' @ [NUL]]"
proof -
  let ?s = "\<lparr>ws_world = ([''a'', ''bad'', ''b''], [], []), service_launched = False, service_pid = 0, turbine_task_comm = 0\<rparr>"
  let ?s' = "\<lparr>ws_world = ([''b''], [''a'' @ [NUL], ''bad'' @ [NUL]], [(''a'', True), (''bad'', False)]),
    service_launched = False, service_pid = 0, turbine_task_comm = 5\<rparr>"
  have run: "turbine_worker_loop 3 no_service list_worker (replicate 8 NUL) 0 ?s = Inr (Inr (TURBINE_ERROR_EXTERNAL, ?s'))"
    by (simp add: turbine_worker_loop_def turbine_service_init_def no_service_def list_worker_def Let_def numeral_eq_Suc)
  from worker_evaluates_once [OF list_worker_ok run]
  have "\<exists>works. taken list_history (ws_world ?s') = taken list_history (ws_world ?s) @ works" by blast
  with run show ?thesis by (simp add: list_history_def)
qed

section \<open>Stopping the service\<close>

text \<open>
  The world has a clock, in hundredths of a second, and counts the calls of \<^verbatim>\<open>waitpid\<close>. The process \<open>p\<close>
  exits at time \<open>t\<close> with a status: \<^verbatim>\<open>waitpid\<close> gives 0 before and the process afterwards.
\<close>

definition exits_at :: "'w os_api \<Rightarrow> ('w \<Rightarrow> nat) \<Rightarrow> ('w \<Rightarrow> nat) \<Rightarrow> int \<Rightarrow> nat \<Rightarrow> int \<Rightarrow> bool" where
  "exits_at P clock looks p t status \<longleftrightarrow> 0 < p \<and>
     (\<forall>n w. clock (time_delay P n w) = clock w + n \<and> looks (time_delay P n w) = looks w) \<and>
     (\<forall>w. clock (kill_term P p w) = clock w \<and> looks (kill_term P p w) = looks w) \<and>
     (\<forall>w r w'. wait_pid P p w = (r, w') \<longrightarrow> clock w' = clock w \<and> looks w' = looks w + 1 \<and>
        (if clock w < t then fst r = 0 else r = (p, status)))"

lemma shutdown_loop_time:
  assumes E: "exits_at P clock looks p t status"
  shows "k < 9 \<Longrightarrow> clock w + 1 = c + 2 ^ k \<Longrightarrow>
    (case shutdown_loop P p k w of (r, w') \<Rightarrow>
       if t \<le> c + 255 then r = Some (Some status) \<and> clock w' \<le> c + 255 \<and> looks w' \<le> looks w + (9 - k)
       else r = None \<and> clock w' = c + 511 \<and> looks w' = looks w + (9 - k))"
proof (induction "9 - k" arbitrary: k w)
  case (Suc n)
  obtain r w1 where wait: "wait_pid P p w = (r, w1)" by fastforce
  have w1: "clock w1 = clock w" "if clock w < t then fst r = 0 else r = (p, status)" "looks w1 = looks w + 1"
    and p: "0 < p" and delay: "clock (time_delay P (2 ^ k) w1) = clock w1 + 2 ^ k" "looks (time_delay P (2 ^ k) w1) = looks w1"
    using E wait unfolding exits_at_def by blast+
  have pow: "(2 :: nat) ^ k \<le> 2 ^ 8" using Suc.prems(1) by (intro power_increasing) auto
  then have lt: "(2 :: nat) ^ k < 400" by simp
  show ?case
  proof (cases "clock w < t")
    case False
    then have "shutdown_loop P p k w = (Some (Some status), w1)"
      using w1(2) p wait lt by (subst shutdown_loop.simps) (simp add: wait_status_def)
    moreover have "clock w \<le> c + 255" using Suc.prems(2) pow by simp
    ultimately show ?thesis using False w1(1,3) Suc.prems(1) by simp
  next
    case True
    let ?w = "time_delay P (2 ^ k) w1"
    have run: "shutdown_loop P p k w = shutdown_loop P p (k + 1) ?w"
      using True w1(2) wait lt by (subst shutdown_loop.simps) simp
    have c: "clock ?w + 1 = c + 2 ^ (k + 1)" using delay w1(1) Suc.prems(2) by simp
    show ?thesis
    proof (cases "k = 8")
      case False
      then have "k + 1 < 9" "n = 9 - (k + 1)" using Suc.hyps(2) Suc.prems(1) by simp_all
      from Suc.hyps(1) [OF this(2,1) c] show ?thesis
        using delay(2) w1(3) Suc.prems(1) unfolding run by (auto split: prod.splits if_splits)
    next
      case 8: True
      have "shutdown_loop P p (k + 1) ?w = (None, ?w)" by (subst shutdown_loop.simps) (simp add: 8)
      moreover have "\<not> t \<le> c + 255" using True Suc.prems(2) 8 by simp
      ultimately show ?thesis unfolding run using c 8 delay(2) w1(3) by simp
    qed
  qed
qed simp

text \<open>
  C27: Stopping the service. It succeeds exactly when the service exits within 2.55 seconds of the
  signal, and then returns its status by that time, after at most nine looks. Otherwise it
  gives up after exactly nine looks and 5.11 seconds: after the last look the loop waits another 2.56
  seconds without looking again, so a service that needs three seconds counts as one that did
  not exit. (The comment in the code says around four seconds.)
\<close>

theorem service_shutdown_deadline:
  assumes "exits_at P clock looks (service_pid s) t status"
  shows "\<exists>s'. service_shutdown P s =
      ((if t \<le> clock (ws_world s) + 255 then Some (Some status) else None), s') \<and>
    (if t \<le> clock (ws_world s) + 255
     then clock (ws_world s') \<le> clock (ws_world s) + 255 \<and> looks (ws_world s') \<le> looks (ws_world s) + 9
     else clock (ws_world s') = clock (ws_world s) + 511 \<and> looks (ws_world s') = looks (ws_world s) + 9)"
proof -
  let ?p = "service_pid s"
  obtain r w' where run: "shutdown_loop P ?p 0 (kill_term P ?p (ws_world s)) = (r, w')" by fastforce
  have "clock (kill_term P ?p (ws_world s)) = clock (ws_world s)" "looks (kill_term P ?p (ws_world s)) = looks (ws_world s)"
    using assms by (simp_all add: exits_at_def)
  with shutdown_loop_time [OF assms, of 0 "kill_term P ?p (ws_world s)" "clock (ws_world s)"] run
  show ?thesis by (auto simp: service_shutdown_def split: if_splits)
qed

definition slow_service :: "(nat \<times> nat) os_api" where
  "slow_service = \<lparr>get_env = (\<lambda>n w. None), fork_process = (\<lambda>w. (7, w)), execvp = (\<lambda>as w. True),
     wait_pid = (\<lambda>p (now, n). (if now < 300 then (0, 0) else (p, 3), now, n + 1)), kill_term = (\<lambda>p w. w),
     time_delay = (\<lambda>d (now, n). (now + d, n)), list_split_words = (\<lambda>s. [s])\<rparr>"

lemma service_shutdown_deadline_witness:
  "\<exists>s'. service_shutdown slow_service \<lparr>ws_world = (0, 0), service_launched = True, service_pid = 7, turbine_task_comm = 0\<rparr> =
     (None, s') \<and> ws_world s' = (511, 9)"
proof -
  have "exits_at slow_service fst snd 7 300 3" by (auto simp: exits_at_def slow_service_def split: prod.splits)
  with service_shutdown_deadline [of slow_service fst snd
      "\<lparr>ws_world = (0, 0), service_launched = True, service_pid = 7, turbine_task_comm = 0\<rparr>" 300 3]
  show ?thesis by (auto simp: prod_eq_iff)
qed

section \<open>The loop returns\<close>

text \<open>
  \<open>left\<close> bounds the tasks still to come: every task handed out counts it down, and evaluating one
  adds none that is not in the count. Tasks fit the buffer and have the type asked for.
\<close>

definition supply_ok :: "'w worker_api \<Rightarrow> int \<Rightarrow> nat \<Rightarrow> ('w \<Rightarrow> nat) \<Rightarrow> bool" where
  "supply_ok A t cap left \<longleftrightarrow>
     (\<forall>w work ty comm w'. worker_get A t w = ((ADLB_SUCCESS, work, ty, comm), w') \<longrightarrow>
        left w' < left w \<and> ty = t \<and> length work \<le> cap) \<and>
     (\<forall>text n w ok w'. eval_ex A text n w = (ok, w') \<longrightarrow> left w' \<le> left w)"

lemma supply_okD:
  assumes "supply_ok A t cap left"
  shows "worker_get A t w = ((ADLB_SUCCESS, work, ty, comm), w') \<Longrightarrow> left w' < left w \<and> ty = t \<and> length work \<le> cap"
    and "eval_ex A txt n w = (ok, w') \<Longrightarrow> left w' \<le> left w"
  using assms unfolding supply_ok_def by blast+

lemma worker_run_returns:
  assumes "supply_ok A t (length buffer) left" "left (ws_world s) < fuel"
  shows "\<exists>ret s'. worker_run fuel A t buffer s = Inr (ret, s') \<and> service_launched s' = service_launched s \<and>
    ret \<in> {None, Some TURBINE_ERROR_ADLB, Some TURBINE_ERROR_EXTERNAL}"
  using assms
proof (induction fuel arbitrary: buffer s)
  case (Suc fuel)
  obtain code work ty comm w where get: "worker_get A t (ws_world s) = ((code, work, ty, comm), w)" by (metis prod.exhaust)
  show ?case
  proof (cases "code = ADLB_SUCCESS")
    case False
    then show ?thesis using get by (simp add: Let_def)
  next
    case True
    note g = supply_okD(1) [OF Suc.prems(1) get [unfolded True]]
    let ?buffer = "work @ drop (length work) buffer"
    obtain ok w' where ev: "eval_ex A ?buffer (int (length work) - 1) w = (ok, w')" by fastforce
    let ?s = "s\<lparr>ws_world := w, turbine_task_comm := comm, ws_world := w'\<rparr>"
    have run: "worker_run (Suc fuel) A t buffer s =
      (if ok then worker_run fuel A t ?buffer ?s else Inr (Some TURBINE_ERROR_EXTERNAL, ?s))"
      using get ev g True by (simp add: Let_def)
    have "length ?buffer = length buffer" using g by simp
    moreover have "left w' < fuel" using supply_okD(2) [OF Suc.prems(1) ev] g Suc.prems(2) by linarith
    ultimately have "\<exists>ret s'. worker_run fuel A t ?buffer ?s = Inr (ret, s') \<and> service_launched s' = service_launched ?s \<and>
        ret \<in> {None, Some TURBINE_ERROR_ADLB, Some TURBINE_ERROR_EXTERNAL}"
      using Suc.prems(1) by (intro Suc.IH) simp_all
    then show ?thesis unfolding run by simp
  qed
qed simp

text \<open>
  C6: The worker loop ends. When ADLB has only finitely many tasks to hand out, those that tasks create
  included, and no service runs, the loop returns after at most that many tasks, with success, with
  the code for a failed task or with the code for an error of ADLB, and still without a service.
\<close>

theorem worker_loop_returns:
  assumes tasks: "supply_ok A t (length buffer) left" and fuel: "left (ws_world s) < fuel"
    and service: "get_env P ''TURBINE_WORKER_SERVICE'' (ws_world s) = None" "\<not> service_launched s"
  shows "\<exists>code s'. turbine_worker_loop fuel P A buffer t s = Inr (Inr (code, s')) \<and> \<not> service_launched s' \<and>
    code \<in> {TURBINE_SUCCESS, TURBINE_ERROR_ADLB, TURBINE_ERROR_EXTERNAL}"
proof -
  have init: "turbine_service_init P s = Inr (Inr (TURBINE_SUCCESS, s))" using service(1) by (simp add: turbine_service_init_def)
  from worker_run_returns [OF tasks fuel] obtain ret s1 where
    run: "worker_run fuel A t buffer s = Inr (ret, s1)" "service_launched s1 = service_launched s"
      "ret \<in> {None, Some TURBINE_ERROR_ADLB, Some TURBINE_ERROR_EXTERNAL}" by blast
  with service(2) have "turbine_service_finalize P s1 = Inr s1" by (simp add: turbine_service_finalize_def)
  with init run service(2) show ?thesis by (auto simp: turbine_worker_loop_def)
qed

text \<open>An ADLB whose tasks have at most seven bytes.\<close>

definition short_worker :: "(string list \<times> string list \<times> (string \<times> bool) list) worker_api" where
  "short_worker = list_worker\<lparr>worker_get := (\<lambda>t (ts, tk, ev). case ts of [] \<Rightarrow> ((ADLB_SHUTDOWN, [], 0, 0), (ts, tk, ev))
     | x # xs \<Rightarrow> ((ADLB_SUCCESS, take 7 x @ [NUL], t, 5), (xs, tk @ [take 7 x @ [NUL]], ev)))\<rparr>"

lemma worker_loop_returns_witness:
  "\<exists>code s'. turbine_worker_loop 4 no_service short_worker (replicate 8 NUL) 0
     \<lparr>ws_world = ([''a'', ''bad'', ''b''], [], []), service_launched = False, service_pid = 0, turbine_task_comm = 0\<rparr> =
     Inr (Inr (code, s')) \<and> code \<in> {TURBINE_SUCCESS, TURBINE_ERROR_ADLB, TURBINE_ERROR_EXTERNAL}"
proof -
  let ?s = "\<lparr>ws_world = ([''a'', ''bad'', ''b''], [], []), service_launched = False, service_pid = 0, turbine_task_comm = 0\<rparr>"
  have "supply_ok short_worker 0 (length (replicate 8 NUL)) (length \<circ> fst)"
    by (auto simp: supply_ok_def short_worker_def list_worker_def split: list.splits)
  moreover have "(length \<circ> fst) (ws_world ?s) < 4" by simp
  moreover have "get_env no_service ''TURBINE_WORKER_SERVICE'' (ws_world ?s) = None" "\<not> service_launched ?s"
    by (simp_all add: no_service_def)
  ultimately show ?thesis using worker_loop_returns by blast
qed

text \<open>
  A worker that ends with an error does not stop its service: nothing is done after the loop.
\<close>

lemma worker_error_keeps_service:
  assumes "turbine_service_init P s = Inr (Inr (TURBINE_SUCCESS, s1))" "worker_run fuel A t buffer s1 = Inr (Some tc, s2)"
  shows "turbine_worker_loop fuel P A buffer t s = Inr (Inr (tc, s2))"
  using assms by (simp add: turbine_worker_loop_def)

end
