(* ===== verification/Cache_Cmds.thy ===== *)
theory Cache_Cmds
  imports Cache Serialize_Correct
begin

text \<open>
  The commands of \<^verbatim>\<open>src/tcl/turbine/tcl-turbine.c\<close> on the datum cache: a value is serialised, the
  bytes are handed to the cache, and retrieval makes a Tcl object from them. Data with a
  subscript are not cached.
\<close>

section \<open>Commands\<close>

text \<open>The cache with buffers of bytes, and the heap for the blobs that retrieval makes.\<close>

record ('t, 'r) cache_world =
  cw_cache :: "('t, 'r, string) cache"
  cw_heap :: Adlb_Api.heap

definition Turbine_Cache_Check_Cmd ::
    "('obj, 'f, 'z) tcl_api_scheme \<Rightarrow> 'obj handle_api \<Rightarrow> 't table \<Rightarrow> mem \<Rightarrow> 'obj list \<Rightarrow>
      ('obj, ('t, 'r) cache_world) cmd" where
  "Turbine_Cache_Check_Cmd A H T m objv w =
     (tcl_condition (length objv = 2)
        (tcl_check (ADLB_Extract_Handle H (objv ! 1) m) (\<lambda>(td, subscript, subscript_len).
           let found = (if subscript_len = 0 then turbine_cache_check T td (cw_cache w) else False) in
           Inr (new_boolean A found))), w)"

definition Turbine_Cache_Retrieve_Cmd ::
    "('obj, 'f, 'z) pack_api_scheme \<Rightarrow> 'obj handle_api \<Rightarrow> 't table \<Rightarrow> 'r tree \<Rightarrow> nat \<Rightarrow> mem \<Rightarrow> 'obj list \<Rightarrow>
      ('obj, ('t, 'r) cache_world) cmd" where
  "Turbine_Cache_Retrieve_Cmd A H T R fuel m objv =
     cmd_bind (cmd_condition (length objv = 2)) (\<lambda>_.
     cmd_bind (cmd_do (ADLB_Extract_Handle H (objv ! 1) m)) (\<lambda>(td, subscript, subscript_len).
     cmd_bind (cmd_condition (subscript_len = 0)) (\<lambda>_ w.
       case turbine_cache_retrieve T R td (cw_cache w) of
         Inl e \<Rightarrow> (Inl e, w)
       | Inr (Inl code, c) \<Rightarrow> (Inl Tcl_Error, w\<lparr>cw_cache := c\<rparr>)
       | Inr (Inr (type, data, len), c) \<Rightarrow>
           (case tcl_check (c_defined (unat len \<le> length data) (Inr (take (unat len) data)))
                   (\<lambda>bytes. adlb_datum2tclobj A fuel type Extra_None bytes (cw_heap w)) of
              Inl e \<Rightarrow> (Inl e, w\<lparr>cw_cache := c\<rparr>)
            | Inr (obj, h) \<Rightarrow> (Inr obj, w\<lparr>cw_cache := c, cw_heap := h\<rparr>)))))"

text \<open>The serialised value, in a buffer that the caller owns.\<close>

definition turbine_tclobj2bin ::
    "('obj, 'f, 'z) pack_api_scheme \<Rightarrow> Adlb_Api.heap \<Rightarrow> nat \<Rightarrow> adlb_type \<Rightarrow> type_extra \<Rightarrow> 'obj \<Rightarrow> bool \<Rightarrow>
      (string \<times> 64 word) res" where
  "turbine_tclobj2bin A h fuel type extra obj canonicalize =
     tcl_check (adlb_tclobj2bin A h fuel type extra obj canonicalize None) (\<lambda>data.
       Inr (data, word_of_nat (length data)))"

text \<open>
  The check for trailing arguments comes after the value was serialised, whose buffer then is
  not freed. The cache takes the buffer over, except when it is turned off.
\<close>

definition Turbine_Cache_Store_Cmd ::
    "('obj, 'f, 'z) pack_api_scheme \<Rightarrow> 'obj handle_api \<Rightarrow> 't table \<Rightarrow> 'r tree \<Rightarrow> nat \<Rightarrow> mem \<Rightarrow> 'obj list \<Rightarrow>
      (unit, ('t, 'r) cache_world) cmd" where
  "Turbine_Cache_Store_Cmd A H T R fuel m objv =
     cmd_bind (cmd_condition (4 \<le> length objv)) (\<lambda>_.
     cmd_bind (cmd_do (ADLB_Extract_Handle H (objv ! 1) m)) (\<lambda>(td, subscript, subscript_len).
     if subscript_len \<noteq> 0 then cmd_do (Inr ())
     else cmd_bind (cmd_do (adlb_type_from_obj_extra A (objv ! 2))) (\<lambda>(type, extra).
       cmd_bind (cmd_condition (3 < length objv)) (\<lambda>_.
       cmd_bind (\<lambda>w. (turbine_tclobj2bin A (cw_heap w) fuel type extra (objv ! 3) False, w)) (\<lambda>(data, len).
       cmd_bind (cmd_condition (length objv = 4)) (\<lambda>_ w.
         case turbine_cache_store T R td type data len (cw_cache w) of
           Inl e \<Rightarrow> (Inl e, w)
         | Inr (code, c) \<Rightarrow> (tcl_condition (code = TURBINE_SUCCESS) (Inr ()), w\<lparr>cw_cache := c\<rparr>)))))))"

section \<open>What is stored is retrieved\<close>

lemma scalar_bin:
  assumes P: "pack_ok A F" and v: "rep A v obj" "typed A [(type, extra)] 0 v" "scalar v"
    and run: "adlb_tclobj2bin A h fuel type extra obj canonicalize None = Inr bytes"
  shows "bytes = format_value A F [(type, extra)] 0 v"
proof -
  have "type \<noteq> TYPE_CONTAINER \<and> type \<noteq> TYPE_MULTISET" using v(2,3) by (cases v) (auto simp: scalar_def)
  with run obtain tmp where tmp: "adlb_tclobj2datum A h fuel type extra obj = Inr tmp" "adlb_pack A tmp type = Some bytes"
    by (auto simp: adlb_tclobj2bin_def res_Inr_convs)
  with scalar_datum [OF v, of h fuel extra tmp] scalar_format [OF v(3,2), of bytes F] show ?thesis by simp
qed

text \<open>
  C13: A value stored in the cache is what the cache gives back. After
  \<^verbatim>\<open>cache_store\<close> of an integer, reference, float or string for a datum that is not cached, and
  any other calls that do not store the same datum, \<^verbatim>\<open>cache_retrieve\<close> under any handle for the
  datum returns an object for that value as long as the datum is cached, and an error once
  it was evicted.
\<close>

theorem cache_store_retrieve:
  assumes P: "pack_ok A F" "dict_ok A" and C: "table_ok T" "rbtree_ok R" "cache_inv T R (cw_cache w)"
    and type: "adlb_type_from_obj_extra A t = Inr (type, extra)"
    and v: "rep A v obj" "typed A [(type, extra)] 0 v" "scalar v"
    and size: "int (length (format_value A F [(type, extra)] 0 v)) \<le> data_max A" "data_max A < 2 ^ 64"
    and handle: "ADLB_Extract_Handle H h m = Inr (td, sub, 0)" "ADLB_Extract_Handle H h' m' = Inr (td, sub', 0)"
    and new: "td \<notin> fst ` set (cache_abs R (cw_cache w))"
    and store: "Turbine_Cache_Store_Cmd A H T R fuel m [c, h, t, obj] w = (Inr (), w1)"
    and others: "cache_run T R ops (cw_cache w1) = Inr c2" "\<forall>ty d len. Store td ty d len \<notin> set ops"
  shows "\<exists>r w3. Turbine_Cache_Retrieve_Cmd A H T R fuel' m' [c', h'] (w1\<lparr>cw_cache := c2\<rparr>) = (r, w3) \<and>
    (if turbine_cache_check T td c2 then \<exists>obj'. r = Inr obj' \<and> rep A v obj' else r = Inl Tcl_Error)"
proof -
  let ?bytes = "format_value A F [(type, extra)] 0 v"
  from store type handle(1) obtain bytes code where
    bin: "adlb_tclobj2bin A (cw_heap w) fuel type extra obj False None = Inr bytes" and
    st: "turbine_cache_store T R td type bytes (word_of_nat (length bytes)) (cw_cache w) = Inr (code, cw_cache w1)"
    by (auto simp: Turbine_Cache_Store_Cmd_def turbine_tclobj2bin_def cmd_bind_def cmd_condition_def cmd_do_def
        split: sum.splits prod.splits) (auto simp: tcl_check_def split: sum.splits)
  have bytes: "bytes = ?bytes" using scalar_bin [OF P(1) v bin] .
  have "int (length ?bytes) < 2 ^ 64" using size by (rule le_less_trans)
  then have len: "length ?bytes < 2 ^ 64" by simp
  let ?len = "word_of_nat (length ?bytes) :: 64 word"
  obtain s3 where got: "turbine_cache_retrieve T R td c2 =
      Inr (if turbine_cache_check T td c2 then Inr (type, ?bytes, ?len) else Inl TURBINE_ERROR_NOT_FOUND, s3)"
    using lru.stored_retrieved(2) [OF _ new st [unfolded bytes] others] C by blast
  have "unat ?len = length ?bytes" using len by (simp add: unsigned_of_nat take_bit_nat_eq_self)
  moreover have "depth v \<le> fuel'" using v(3) by (cases v) (auto simp: scalar_def)
  with unpack_format [OF P v(2) _ this size(1), of "cw_heap w1"] len v(1) obtain obj' where
    "adlb_datum2tclobj A fuel' type Extra_None ?bytes (cw_heap w1) = Inr (obj', cw_heap w1)" "rep A v obj'"
    by (auto simp: small_def)
  ultimately show ?thesis using handle(2) got by (auto simp: Turbine_Cache_Retrieve_Cmd_def)
qed

definition cache_four :: "((int \<times> nat) list, (int \<times> nat) list, string) cache" where
  "cache_four = cache_blank\<lparr>max_entries := 4, initialized := True, memory := 100\<rparr>"

lemma cache_four_ok: "cache_inv al_table al_rbtree cache_four" "cache_abs al_rbtree cache_four = []" "max_entries cache_four = 4"
  by (auto simp: cache_inv_def cache_four_def cache_blank_def cache_abs_def stamps_def)

lemma cache_store_retrieve_witness:
  "\<exists>w1 c2 w3.
    Turbine_Cache_Store_Cmd val_pack val_handles al_table al_rbtree 0 Map.empty [V_str ''c'', V_int 7, V_str ''integer'', V_int 5]
      \<lparr>cw_cache = cache_four, cw_heap = empty_heap\<rparr> = (Inr (), w1) \<and>
    cache_run al_table al_rbtree [Store 8 TYPE_STRING ''x'' 1] (cw_cache w1) = Inr c2 \<and>
    Turbine_Cache_Retrieve_Cmd val_pack val_handles al_table al_rbtree 0 Map.empty [V_str ''c'', V_int 7] (w1\<lparr>cw_cache := c2\<rparr>) =
      (Inr (V_int 5), w3)"
proof -
  let ?w = "\<lparr>cw_cache = cache_four, cw_heap = empty_heap\<rparr>"
  let ?len = "word_of_nat (length (unary 5)) :: 64 word"
  have type: "adlb_type_from_obj_extra val_pack (V_str ''integer'') = Inr (TYPE_INTEGER, Extra_None)"
    by (simp add: from_obj_defs val_pack_defs)
  have handle: "ADLB_Extract_Handle val_handles (V_int 7) Map.empty = Inr (7, None, 0)"
    by (simp add: ADLB_Extract_Handle_def val_handles_def)
  have new: "7 \<notin> fst ` set (cache_abs al_rbtree (cw_cache ?w))" using cache_four_ok by simp
  note inv = cache_four_ok(1)
  from store_cases [OF table_ok_al_table rbtree_ok_al_rbtree inv, of 7 TYPE_INTEGER "unary 5" ?len] obtain c1 where
    c1: "turbine_cache_store al_table al_rbtree 7 TYPE_INTEGER (unary 5) ?len cache_four = Inr (TURBINE_SUCCESS, c1)"
    "cache_inv al_table al_rbtree c1" "max_entries c1 = 4" "cache_abs al_rbtree c1 = [(7, TYPE_INTEGER, unary 5, ?len)]"
    using cache_four_ok by (auto simp: lru_put_def)
  let ?w1 = "?w\<lparr>cw_cache := c1\<rparr>"
  have store: "Turbine_Cache_Store_Cmd val_pack val_handles al_table al_rbtree 0 Map.empty
      [V_str ''c'', V_int 7, V_str ''integer'', V_int 5] ?w = (Inr (), ?w1)"
    using type handle c1(1) by (simp add: Turbine_Cache_Store_Cmd_def turbine_tclobj2bin_def adlb_tclobj2bin_def
        adlb_tclobj2datum.simps cmd_bind_def cmd_condition_def cmd_do_def)
  from cache_run_refines_from [OF table_ok_al_table rbtree_ok_al_rbtree c1(2), of "[Store 8 TYPE_STRING ''x'' 1]"] obtain c2 where
    c2: "cache_run al_table al_rbtree [Store 8 TYPE_STRING ''x'' 1] c1 = Inr c2" "cache_inv al_table al_rbtree c2"
    "7 \<in> fst ` set (cache_abs al_rbtree c2)"
    using c1(3,4) by (auto simp: lru_put_def simp del: client_run.simps)
  have cached: "turbine_cache_check al_table 7 c2" using check_iff [OF rbtree_ok_al_rbtree c2(2)] c2(3) by blast
  have "cache_run al_table al_rbtree [Store 8 TYPE_STRING ''x'' 1] (cw_cache ?w1) = Inr c2" using c2(1) by simp
  note run = cache_store_retrieve [OF val_pack_ok val_dict_ok table_ok_al_table rbtree_ok_al_rbtree _ type _ _ _ _ _ handle handle
      new store this, where v = "A_Int 5" and fuel' = 0 and c' = "V_str ''c''"]
  obtain obj' w3 where "Turbine_Cache_Retrieve_Cmd val_pack val_handles al_table al_rbtree 0 Map.empty [V_str ''c'', V_int 7]
      (?w1\<lparr>cw_cache := c2\<rparr>) = (Inr obj', w3)" "rep val_pack (A_Int 5) obj'"
    using run inv cached by (auto simp: scalar_def LONG_MIN_def LONG_MAX_def unary_def)
  moreover have "obj' = V_int 5" using calculation(2) by (cases obj') auto
  ultimately show ?thesis using store c2(1) by fastforce
qed

end
