(* ===== verification/Exec_Cmds.thy ===== *)
theory Exec_Cmds
  imports Worker Noop_Exec Coaster_Exec
begin

text \<open>
  The commands of \<^verbatim>\<open>src/tcl/turbine/tcl-turbine.c\<close> on asynchronous executors: registration, names,
  configuration, the worker loop, and launching tasks on the no-op and the Coaster executor.
  The state is the registry of \<^verbatim>\<open>async_exec.c\<close>, which holds the executors by address, and the world.
  Callbacks are Tcl objects.
\<close>

section \<open>Registration and names\<close>

definition Noop_Exec_Register_Cmd ::
    "('t, string, nat) table_api \<Rightarrow> 'obj list \<Rightarrow>
      (unit, ('t, (unit, 'cb noop_state, ('cb, 'y) noop_world_scheme, 'cb) turbine_executor) registry) cmd" where
  "Noop_Exec_Register_Cmd T objv g =
     (if length objv \<noteq> 1 then (Inl Tcl_Error, g)
      else case noop_executor_register T g of
        Inl e \<Rightarrow> (Inl e, g)
      | Inr (tc, g) \<Rightarrow> (tcl_condition (tc = TURBINE_SUCCESS) (Inr ()), g))"

text \<open>
  With Coaster support. \<open>set_threshold\<close> is the client library's function, applied to whether
  debugging is enabled.
\<close>

definition Coaster_Register_Cmd ::
    "('r, string, nat) table_api \<Rightarrow> ('t, 'cb, 'job) task_table \<Rightarrow> ('z, 'set, 'cl, 'cfg, 'job) coaster_api \<Rightarrow>
      (bool \<Rightarrow> coaster_rc) \<Rightarrow> bool \<Rightarrow> 'obj list \<Rightarrow>
      (unit, ('r, ('set coaster_context, ('set, 'cl, 'cfg, 't) coaster_state, ('cb, 'z) world_scheme, 'cb)
        turbine_executor) registry) cmd" where
  "Coaster_Register_Cmd TR T K set_threshold turbine_debug_enabled objv g =
     (if length objv \<noteq> 1 then (Inl Tcl_Error, g)
      else case coaster_executor_register TR T K g of
        Inl e \<Rightarrow> (Inl e, g)
      | Inr (tc, g) \<Rightarrow>
          (tcl_condition (tc = TURBINE_SUCCESS)
             (tcl_condition (set_threshold turbine_debug_enabled = COASTER_SUCCESS) (Inr ())), g))"

definition Async_Exec_Names_Cmd ::
    "('obj, 'f, 'z) tcl_api_scheme \<Rightarrow> ('t, string, nat) table_api \<Rightarrow> 'obj list \<Rightarrow> ('obj, ('t, 'e) registry) cmd" where
  "Async_Exec_Names_Cmd A T objv g =
     (tcl_condition (length objv = 1)
        (let names_size = nat TURBINE_ASYNC_EXEC_LIMIT; names = turbine_async_exec_names T names_size g in
         c_assert (length names \<le> names_size) (Inr (new_list A (map (new_string A) names)))), g)"

section \<open>Configuration and the worker loop\<close>

text \<open>An executor that must be registered.\<close>

definition find_exec ::
    "('t, string, nat) table_api \<Rightarrow> string \<Rightarrow> ('t, ('x, 's, 'w, 'cb) turbine_executor) registry \<Rightarrow>
      (nat \<times> ('x, 's, 'w, 'cb) turbine_executor) res" where
  "find_exec T name g =
     tcl_check (turbine_get_async_exec T name g) (\<lambda>r.
     tcl_check (tcl_get r) (\<lambda>(p, started).
       case exec_heap g p of None \<Rightarrow> Inl Undefined | Some ex \<Rightarrow> Inr (p, ex)))"

abbreviation put_exec :: "nat \<Rightarrow> 'e \<Rightarrow> ('t, 'e) registry \<Rightarrow> ('t, 'e) registry" where
  "put_exec p ex g \<equiv> g\<lparr>exec_heap := (exec_heap g)(p \<mapsto> ex)\<rparr>"

definition Async_Exec_Configure_Cmd ::
    "('obj, 'f, 'z) tcl_api_scheme \<Rightarrow> ('t, string, nat) table_api \<Rightarrow> 'obj list \<Rightarrow>
      (unit, ('t, ('x, 's, 'w, 'cb) turbine_executor) registry \<times> 'w) cmd" where
  "Async_Exec_Configure_Cmd A T objv = (\<lambda>(g, w).
     case tcl_condition (length objv = 3) (find_exec T (tcl_string A (objv ! 1)) g) of
       Inl e \<Rightarrow> (Inl e, (g, w))
     | Inr (p, ex) \<Rightarrow>
         (case turbine_configure_exec (tcl_string A (objv ! 2)) ex w of
            Inl e \<Rightarrow> (Inl e, (g, w))
          | Inr (tc, ex, w) \<Rightarrow> (tcl_condition (tc = TURBINE_SUCCESS) (Inr ()), (put_exec p ex g, w))))"

definition TURBINE_ASYNC_EXEC_DEFAULT_BUFFER_COUNT :: int where "TURBINE_ASYNC_EXEC_DEFAULT_BUFFER_COUNT = 16"

text \<open>The number and size of the buffers: the keyword arguments, but no more buffers than slots.\<close>

definition worker_buffers ::
    "('obj, 'f, 'z) tcl_api_scheme \<Rightarrow> int \<Rightarrow> 'obj list \<Rightarrow> ('x, 's, 'w, 'cb) turbine_executor \<Rightarrow>
      (int \<times> int \<times> int) res" where
  "worker_buffers A xfer_size objv ex =
     tcl_check (tcl_get (tcl_int A (objv ! 2))) (\<lambda>adlb_work_type.
     tcl_check (if 4 \<le> length objv
                then worker_keyword_args A (objv ! 3) TURBINE_ASYNC_EXEC_DEFAULT_BUFFER_COUNT xfer_size
                else Inr (TURBINE_ASYNC_EXEC_DEFAULT_BUFFER_COUNT, xfer_size)) (\<lambda>(buffer_count, buffer_size).
     tcl_check (turbine_async_exec_max_slots ex) (\<lambda>(tc, max_slots).
     tcl_condition (tc = TURBINE_SUCCESS)
       (Inr (adlb_work_type, if 1 \<le> max_slots \<and> max_slots < buffer_count then max_slots else buffer_count, buffer_size)))))"

text \<open>
  \<open>new_buf\<close> is what \<^verbatim>\<open>malloc\<close> gives for each buffer, if anything; the array of buffers itself is
  taken to be allocated. The buffers are freed at the end in every case. Two error exits leave
  the code of the command at \<^verbatim>\<open>TCL_OK\<close>, where the last conversion has left it: a buffer that
  cannot be allocated, and a code of the worker loop other than \<^verbatim>\<open>TURBINE_ERROR_EXTERNAL\<close>.
\<close>

definition Async_Exec_Worker_Loop_Cmd ::
    "nat \<Rightarrow> ('obj, 'f, 'v) tcl_api_scheme \<Rightarrow> ('t, string, nat) table_api \<Rightarrow> int \<Rightarrow> (int \<Rightarrow> nat \<Rightarrow> 'buf option) \<Rightarrow>
      ('s \<times> ('cb, 'z) world_scheme, 'cb) tcl_interp \<Rightarrow> (('cb, 'z) world_scheme, 'req, 'buf) adlb_get_api \<Rightarrow>
      (('cb, 'z) world_scheme \<Rightarrow> turbine_code \<times> ('cb, 'z) world_scheme) \<Rightarrow>
      (('cb, 'z) world_scheme \<Rightarrow> ('cb, 'z) world_scheme) \<Rightarrow> 'obj list \<Rightarrow>
      (unit, ('t, ('x, 's, ('cb, 'z) world_scheme, 'cb) turbine_executor) registry \<times> ('cb, 'z) world_scheme) cmd" where
  "Async_Exec_Worker_Loop_Cmd fuel A T xfer_size new_buf I G service_init service_finalize objv = (\<lambda>(g, w).
     case tcl_condition (length objv = 3 \<or> length objv = 4)
            (tcl_check (find_exec T (tcl_string A (objv ! 1)) g) (\<lambda>(p, ex).
             tcl_check (worker_buffers A xfer_size objv ex) (\<lambda>(work_type, buffer_count, buffer_size).
               Inr (p, ex, work_type, buffer_count, buffer_size)))) of
       Inl e \<Rightarrow> (Inl e, (g, w))
     | Inr (p, ex, work_type, buffer_count, buffer_size) \<Rightarrow>
         (case those (map (new_buf buffer_size) [0..<nat buffer_count]) of
            None \<Rightarrow> (Inr (), (g, w))
          | Some bufs \<Rightarrow>
              (case turbine_async_worker_loop fuel I G service_init service_finalize ex work_type bufs buffer_count w of
                 Inl e \<Rightarrow> (Inl e, (g, w))
               | Inr (tc, ex, w) \<Rightarrow> (tcl_condition (tc \<noteq> TURBINE_ERROR_EXTERNAL) (Inr ()), (put_exec p ex g, w)))))"

section \<open>Launching tasks\<close>

text \<open>An executor that must be registered and started, and its state.\<close>

definition started_exec ::
    "('t, string, nat) table_api \<Rightarrow> string \<Rightarrow> ('t, ('x, 's, 'w, 'cb) turbine_executor) registry \<Rightarrow>
      (nat \<times> ('x, 's, 'w, 'cb) turbine_executor) res" where
  "started_exec T name g =
     tcl_check (find_exec T name g) (\<lambda>(p, ex). tcl_condition (ex_started ex) (Inr (p, ex)))"

definition Noop_Exec_Run_Cmd ::
    "('obj, 'f, 'z) tcl_api_scheme \<Rightarrow> ('t, string, nat) table_api \<Rightarrow> 'obj list \<Rightarrow>
      (unit, ('t, (unit, 'obj noop_state, ('obj, 'y) noop_world_scheme, 'obj) turbine_executor) registry \<times>
        ('obj, 'y) noop_world_scheme) cmd" where
  "Noop_Exec_Run_Cmd A T objv = (\<lambda>(g, w).
     case tcl_condition (2 \<le> length objv \<and> length objv \<le> 4) (started_exec T ''NOOP'' g) of
       Inl e \<Rightarrow> (Inl e, (g, w))
     | Inr (p, noop_exec) \<Rightarrow>
         (let str = tcl_string A (objv ! 1);
              callbacks = \<lparr>cb_success = (if 3 \<le> length objv then Some (objv ! 2) else None),
                           cb_failure = (if 4 \<le> length objv then Some (objv ! 3) else None)\<rparr> in
          case (case ex_state noop_exec of None \<Rightarrow> Inl Undefined
                | Some s \<Rightarrow> noop_execute (str, int (length str)) callbacks s w) of
            Inl e \<Rightarrow> (Inl e, (g, w))
          | Inr (tc, s, w) \<Rightarrow>
              (tcl_condition (tc = TURBINE_SUCCESS) (Inr ()), (put_exec p (noop_exec\<lparr>ex_state := Some s\<rparr>) g, w))))"

subsection \<open>Coaster\<close>

datatype coaster_staging_mode =
  COASTER_STAGE_ALWAYS | COASTER_STAGE_IF_PRESENT | COASTER_STAGE_ON_ERROR | COASTER_STAGE_ON_SUCCESS

definition staging_modes :: "(string \<times> coaster_staging_mode) list" where
  "staging_modes = [(''always'', COASTER_STAGE_ALWAYS), (''if_present'', COASTER_STAGE_IF_PRESENT),
     (''on_error'', COASTER_STAGE_ON_ERROR), (''on_success'', COASTER_STAGE_ON_SUCCESS)]"

record coaster_stage_entry =
  se_src :: string
  se_dst :: string
  se_mode :: coaster_staging_mode

record coaster_opts =
  co_stdin :: "string option"
  co_stdout :: "string option"
  co_stderr :: "string option"
  co_job_manager :: "string option"
  co_staging_mode :: coaster_staging_mode

record ('z, 'set, 'cl, 'cfg, 'job) coaster_job_api = "('z, 'set, 'cl, 'cfg, 'job) coaster_api" +
  job_create :: "string \<Rightarrow> string list \<Rightarrow> string option \<Rightarrow> 'z \<Rightarrow> coaster_rc \<times> 'job \<times> 'z"
  job_add_stages :: "'job \<Rightarrow> coaster_stage_entry list \<Rightarrow> coaster_stage_entry list \<Rightarrow> 'z \<Rightarrow> coaster_rc \<times> 'z"
  job_set_redirects :: "'job \<Rightarrow> string option \<Rightarrow> string option \<Rightarrow> string option \<Rightarrow> 'z \<Rightarrow> coaster_rc \<times> 'z"
  default_staging_mode :: coaster_staging_mode

definition turbine_tcllist_to_strings :: "('obj, 'f, 'z) tcl_api_scheme \<Rightarrow> 'obj \<Rightarrow> string list res" where
  "turbine_tcllist_to_strings A lst = tcl_check (tcl_get (tcl_list A lst)) (\<lambda>objs. Inr (map (tcl_string A) objs))"

definition parse_coaster_stages ::
    "('obj, 'f, 'z) tcl_api_scheme \<Rightarrow> 'obj \<Rightarrow> coaster_staging_mode \<Rightarrow> coaster_stage_entry list res" where
  "parse_coaster_stages A lst staging_mode =
     tcl_check (tcl_get (tcl_list A lst)) (\<lambda>objs.
       Inr (map (\<lambda>obj. \<lparr>se_src = tcl_string A obj, se_dst = tcl_string A obj, se_mode = staging_mode\<rparr>) objs))"

definition coaster_opt :: "('obj, 'f, 'z) tcl_api_scheme \<Rightarrow> 'obj \<Rightarrow> 'obj \<Rightarrow> coaster_opts \<Rightarrow> coaster_opts res" where
  "coaster_opt A key value opts =
     (let key_s = tcl_string A key; v = tcl_string A value in
      if key_s = ''stdin'' then Inr (opts\<lparr>co_stdin := Some v\<rparr>)
      else if key_s = ''stdout'' then Inr (opts\<lparr>co_stdout := Some v\<rparr>)
      else if key_s = ''stderr'' then Inr (opts\<lparr>co_stderr := Some v\<rparr>)
      else if key_s = ''job_manager'' then Inr (opts\<lparr>co_job_manager := Some v\<rparr>)
      else if key_s = ''staging_mode''
      then tcl_check (tcl_get (map_of staging_modes v)) (\<lambda>mode. Inr (opts\<lparr>co_staging_mode := mode\<rparr>))
      else Inl Tcl_Error)"

fun coaster_opt_loop :: "('obj, 'f, 'z) tcl_api_scheme \<Rightarrow> ('obj \<times> 'obj) list \<Rightarrow> coaster_opts \<Rightarrow> coaster_opts res" where
  "coaster_opt_loop A [] opts = Inr opts"
| "coaster_opt_loop A ((key, value) # es) opts =
     tcl_check (coaster_opt A key value opts) (\<lambda>opts. coaster_opt_loop A es opts)"

definition parse_coaster_opts :: "('obj, 'f, 'z) tcl_api_scheme \<Rightarrow> 'obj \<Rightarrow> coaster_opts \<Rightarrow> coaster_opts res" where
  "parse_coaster_opts A dict opts = tcl_check (tcl_get (dict_entries A dict)) (\<lambda>es. coaster_opt_loop A es opts)"

text \<open>Everything that is read from the arguments before the job is made.\<close>

definition coaster_run_args ::
    "('obj, 'f, 'v) tcl_api_scheme \<Rightarrow> ('z, 'set, 'cl, 'cfg, 'job, 'y) coaster_job_api_scheme \<Rightarrow> string option \<Rightarrow> 'obj list \<Rightarrow>
      (string list \<times> coaster_opts \<times> coaster_stage_entry list \<times> coaster_stage_entry list) res" where
  "coaster_run_args A K job_manager objv =
     tcl_check (turbine_tcllist_to_strings A (objv ! 2)) (\<lambda>argv.
     tcl_check (parse_coaster_opts A (objv ! 5) \<lparr>co_stdin = None, co_stdout = None, co_stderr = None,
         co_job_manager = job_manager, co_staging_mode = default_staging_mode K\<rparr>) (\<lambda>opts.
     tcl_check (parse_coaster_stages A (objv ! 3) (co_staging_mode opts)) (\<lambda>stageins.
     tcl_check (parse_coaster_stages A (objv ! 4) (co_staging_mode opts)) (\<lambda>stageouts.
       Inr (argv, opts, stageins, stageouts)))))"

text \<open>Making the job: each step may fail and leave the job made so far behind.\<close>

definition coaster_make_job ::
    "('z, 'set, 'cl, 'cfg, 'job, 'y) coaster_job_api_scheme \<Rightarrow> string \<Rightarrow> string list \<Rightarrow> coaster_opts \<Rightarrow>
      coaster_stage_entry list \<Rightarrow> coaster_stage_entry list \<Rightarrow> ('job, 'z) cmd" where
  "coaster_make_job K executable argv opts stageins stageouts =
     cmd_bind (cmd_call (\<lambda>z. let (crc, job, z) = job_create K executable argv (co_job_manager opts) z in ((crc, job), z))) (\<lambda>(crc, job).
     cmd_bind (cmd_condition (crc = COASTER_SUCCESS)) (\<lambda>_.
     cmd_bind
       (if stageins \<noteq> [] \<or> stageouts \<noteq> []
        then cmd_bind (cmd_call (job_add_stages K job stageins stageouts)) (\<lambda>crc. cmd_condition (crc = COASTER_SUCCESS))
        else cmd_do (Inr ())) (\<lambda>_.
     cmd_bind
       (if co_stdin opts \<noteq> None \<or> co_stdout opts \<noteq> None \<or> co_stderr opts \<noteq> None
        then cmd_bind (cmd_call (job_set_redirects K job (co_stdin opts) (co_stdout opts) (co_stderr opts)))
               (\<lambda>crc. cmd_condition (crc = COASTER_SUCCESS))
        else cmd_do (Inr ())) (\<lambda>_.
       cmd_do (Inr job)))))"

definition Coaster_Run_Cmd ::
    "('obj, 'f, 'v) tcl_api_scheme \<Rightarrow> ('r, string, nat) table_api \<Rightarrow> ('t, 'obj, 'job) task_table \<Rightarrow>
      ('z, 'set, 'cl, 'cfg, 'job) coaster_job_api \<Rightarrow> 'obj list \<Rightarrow>
      (unit, ('r, ('set coaster_context, ('set, 'cl, 'cfg, 't) coaster_state, ('obj, 'z) world_scheme, 'obj)
        turbine_executor) registry \<times> ('obj, 'z) world_scheme) cmd" where
  "Coaster_Run_Cmd A TR T K objv = (\<lambda>(g, w).
     case tcl_condition (length objv = 8) (started_exec TR ''COASTER'' g) of
       Inl e \<Rightarrow> (Inl e, (g, w))
     | Inr (p, coaster_exec) \<Rightarrow>
         (let (tc, job_manager) = coaster_default_job_manager (ex_state coaster_exec) in
          case tcl_check (turbine_tcllist_to_strings A (objv ! 2)) (\<lambda>_.
                 tcl_condition (tc = TURBINE_SUCCESS) (coaster_run_args A (coaster_job_api.truncate K) job_manager objv)) of
            Inl e \<Rightarrow> (Inl e, (g, w))
          | Inr (argv, opts, stageins, stageouts) \<Rightarrow>
              (case coaster_make_job K (tcl_string A (objv ! 1)) argv opts stageins stageouts (world.more w) of
                 (Inl e, z) \<Rightarrow> (Inl e, (g, set_more w z))
               | (Inr job, z) \<Rightarrow>
                   (let w = set_more w z; callbacks = \<lparr>cb_success = Some (objv ! 6), cb_failure = Some (objv ! 7)\<rparr> in
                    case (case ex_state coaster_exec of None \<Rightarrow> Inl Undefined
                          | Some s \<Rightarrow> coaster_execute T (coaster_api.truncate K) job callbacks s w) of
                      Inl e \<Rightarrow> (Inl e, (g, w))
                    | Inr (tc, s, w) \<Rightarrow>
                        (tcl_condition (tc = TURBINE_SUCCESS) (Inr ()),
                         (put_exec p (coaster_exec\<lparr>ex_state := Some s\<rparr>) g, w))))))"

section \<open>From registration to the loop\<close>

lemma keyword_args_bounds:
  "keyword_args A es n k = Inr (n', k') \<Longrightarrow> 0 \<le> n \<Longrightarrow> 0 \<le> n'"
  by (induction A es n k rule: keyword_args.induct)
    (auto simp: Let_def tcl_check_def tcl_get_def tcl_condition_def split: sum.splits option.splits if_splits)

lemma those_map_Some: "those (map (\<lambda>i. Some (f i)) xs) = Some (map f xs)"
  by (induction xs) simp_all

lemma noop_registered:
  assumes T: "table_ok T" and init: "executors_table_init g"
    and new: "tbl_search T (executors g) ''NOOP'' = None" and small: "tbl_size T (executors g) < 64"
  shows "Noop_Exec_Register_Cmd T [c] g = (Inr (), g\<lparr>executors := tbl_add T (executors g) ''NOOP'' (exec_brk g),
      exec_heap := (exec_heap g)(exec_brk g \<mapsto> init_noop_executor), exec_brk := exec_brk g + 1\<rparr>)"
    "tbl_search T (tbl_add T (executors g) ''NOOP'' (exec_brk g)) ''NOOP'' = Some (exec_brk g)"
proof -
  have "turbine_add_async_exec T init_noop_executor g =
    Inr (TURBINE_SUCCESS, g\<lparr>executors := tbl_add T (executors g) ''NOOP'' (exec_brk g),
      exec_heap := (exec_heap g)(exec_brk g \<mapsto> init_noop_executor), exec_brk := exec_brk g + 1\<rparr>)"
    using init small by (simp add: turbine_add_async_exec_def TURBINE_ASYNC_EXEC_LIMIT_def Let_def init_noop_executor_def)
  then show "Noop_Exec_Register_Cmd T [c] g = (Inr (), g\<lparr>executors := tbl_add T (executors g) ''NOOP'' (exec_brk g),
      exec_heap := (exec_heap g)(exec_brk g \<mapsto> init_noop_executor), exec_brk := exec_brk g + 1\<rparr>)"
    by (simp add: Noop_Exec_Register_Cmd_def noop_executor_register_def)
  show "tbl_search T (tbl_add T (executors g) ''NOOP'' (exec_brk g)) ''NOOP'' = Some (exec_brk g)"
    using table_okD(4) [OF T new] by simp
qed

lemma find_exec_found:
  assumes "executors_table_init g" "tbl_search T (executors g) name = Some p" "exec_heap g p = Some ex"
  shows "find_exec T name g = Inr (p, ex)"
  using assms by (simp add: find_exec_def turbine_get_async_exec_def tcl_get_def)

lemma run_not_started:
  assumes "find_exec T ''NOOP'' g = Inr (p, ex)" "\<not> ex_started ex"
  shows "Noop_Exec_Run_Cmd A T [c, work] (g, w) = (Inl Tcl_Error, (g, w))"
  using assms by (simp add: Noop_Exec_Run_Cmd_def started_exec_def)

lemma loop_refused:
  assumes "find_exec T (tcl_string A n) g = Inr (p, ex)" "worker_buffers A xfer_size [c, n, t, kw] ex = Inl e"
  shows "Async_Exec_Worker_Loop_Cmd fuel A T xfer_size new_buf I G si sf [c, n, t, kw] (g, w) = (Inl e, (g, w))"
  using assms by (simp add: Async_Exec_Worker_Loop_Cmd_def)

lemma loop_runs:
  assumes "find_exec T (tcl_string A n) g = Inr (p, ex)"
    "worker_buffers A xfer_size [c, n, t, kw] ex = Inr (work_type, m, buffer_size)"
  shows "Async_Exec_Worker_Loop_Cmd fuel A T xfer_size (\<lambda>k i. Some (buf k i)) I G si sf [c, n, t, kw] (g, w) =
    (case turbine_async_worker_loop fuel I G si sf ex work_type (map (buf buffer_size) [0..<nat m]) m w of
       Inl e \<Rightarrow> (Inl e, (g, w))
     | Inr (tc, ex, w') \<Rightarrow> (tcl_condition (tc \<noteq> TURBINE_ERROR_EXTERNAL) (Inr ()), (put_exec p ex g, w')))"
  using assms by (simp add: Async_Exec_Worker_Loop_Cmd_def those_map_Some)

lemma noop_configured:
  assumes "find_exec T (tcl_string A n) g = Inr (p, init_noop_executor)"
  shows "Async_Exec_Configure_Cmd A T [c, n, config] (g, w) =
    (Inr (), (put_exec p (init_noop_executor\<lparr>ex_context := NOOP_CONTEXT\<rparr>) g, w))"
  using assms by (simp add: Async_Exec_Configure_Cmd_def turbine_configure_exec_def init_noop_executor_def noop_configure_def)

text \<open>
  C22: From registration to the worker loop. A registered no-op executor that was not configured
  makes the worker loop command fail an assertion. Configured, with any text, the loop runs
  with as many buffers as \<^verbatim>\<open>buffer_count\<close> says but at most four, the number of its slots, unless
  \<^verbatim>\<open>buffer_count\<close> is 0, which the validation lets through and an assertion then rejects.
  Until the loop has started it, tasks cannot be launched: \<^verbatim>\<open>noop_exec_run\<close> is refused and
  changes nothing.
\<close>

theorem noop_lifecycle:
  assumes T: "table_ok T" "executors_table_init g"
      "tbl_search T (executors g) ''NOOP'' = None" "tbl_size T (executors g) < 64"
    and args: "tcl_string A n = ''NOOP''" "tcl_int A t = Some work_type" "dict_entries A kw = Some es"
      "keyword_args A es 16 xfer_size = Inr (buffer_count, buffer_size)"
  shows "\<exists>g1 g2.
    Noop_Exec_Register_Cmd T [c] g = (Inr (), g1) \<and>
    Async_Exec_Worker_Loop_Cmd fuel A T xfer_size (\<lambda>k i. Some (buf k i)) I G si sf [c, n, t, kw] (g1, w) = (Inl Abort, (g1, w)) \<and>
    Async_Exec_Configure_Cmd A T [c, n, config] (g1, w) = (Inr (), (g2, w)) \<and>
    Async_Exec_Worker_Loop_Cmd fuel A T xfer_size (\<lambda>k i. Some (buf k i)) I G si sf [c, n, t, kw] (g2, w) =
      (if buffer_count = 0 then (Inl Abort, (g2, w))
       else case turbine_async_worker_loop fuel I G si sf (init_noop_executor\<lparr>ex_context := NOOP_CONTEXT\<rparr>) work_type
              (map (buf buffer_size) [0..<nat (min 4 buffer_count)]) (min 4 buffer_count) w of
          Inl e \<Rightarrow> (Inl e, (g2, w))
        | Inr (tc, ex, w') \<Rightarrow> (tcl_condition (tc \<noteq> TURBINE_ERROR_EXTERNAL) (Inr ()), (put_exec (exec_brk g) ex g2, w'))) \<and>
    (\<forall>g' \<in> {g1, g2}. Noop_Exec_Run_Cmd A T [c, work] (g', w) = (Inl Tcl_Error, (g', w)))"
proof -
  let ?noop = "init_noop_executor :: (unit, _, (_, _) noop_world_scheme, _) turbine_executor"
  let ?g1 = "g\<lparr>executors := tbl_add T (executors g) ''NOOP'' (exec_brk g),
      exec_heap := (exec_heap g)(exec_brk g \<mapsto> ?noop), exec_brk := exec_brk g + 1\<rparr>"
  let ?g2 = "put_exec (exec_brk g) (?noop\<lparr>ex_context := NOOP_CONTEXT\<rparr>) ?g1"
  note reg = noop_registered [OF T]
  have f1: "find_exec T ''NOOP'' ?g1 = Inr (exec_brk g, ?noop)"
    and f2: "find_exec T ''NOOP'' ?g2 = Inr (exec_brk g, ?noop\<lparr>ex_context := NOOP_CONTEXT\<rparr>)"
    using T(2) reg(2) by (auto intro: find_exec_found)
  have pos: "0 \<le> buffer_count" by (rule keyword_args_bounds [OF args(4)]) simp
  have kw: "worker_keyword_args A kw TURBINE_ASYNC_EXEC_DEFAULT_BUFFER_COUNT xfer_size = Inr (buffer_count, buffer_size)"
    using args(3,4) by (simp add: worker_keyword_args_def TURBINE_ASYNC_EXEC_DEFAULT_BUFFER_COUNT_def tcl_get_def)
  have "worker_buffers A xfer_size [c, n, t, kw] ?noop = Inl Abort"
    using args(2) kw by (simp add: worker_buffers_def turbine_async_exec_max_slots_def init_noop_executor_def
        noop_max_slots_def NOOP_CONTEXT_def c_assert_def tcl_get_def)
  then have l1: "Async_Exec_Worker_Loop_Cmd fuel A T xfer_size (\<lambda>k i. Some (buf k i)) I G si sf [c, n, t, kw] (?g1, w) =
      (Inl Abort, (?g1, w))"
    using f1 args(1) by (intro loop_refused) simp_all
  have conf: "Async_Exec_Configure_Cmd A T [c, n, config] (?g1, w) = (Inr (), (?g2, w))"
    using f1 args(1) by (intro noop_configured) simp
  have buffers: "worker_buffers A xfer_size [c, n, t, kw] (?noop\<lparr>ex_context := NOOP_CONTEXT\<rparr>) =
      Inr (work_type, min 4 buffer_count, buffer_size)"
    using args(2) kw by (simp add: worker_buffers_def turbine_async_exec_max_slots_def init_noop_executor_def
        noop_max_slots_def NOOP_EXEC_SLOTS_def tcl_get_def)
  have l2: "Async_Exec_Worker_Loop_Cmd fuel A T xfer_size (\<lambda>k i. Some (buf k i)) I G si sf [c, n, t, kw] (?g2, w) =
      (if buffer_count = 0 then (Inl Abort, (?g2, w))
       else case turbine_async_worker_loop fuel I G si sf (?noop\<lparr>ex_context := NOOP_CONTEXT\<rparr>) work_type
              (map (buf buffer_size) [0..<nat (min 4 buffer_count)]) (min 4 buffer_count) w of
          Inl e \<Rightarrow> (Inl e, (?g2, w))
        | Inr (tc, ex, w') \<Rightarrow> (tcl_condition (tc \<noteq> TURBINE_ERROR_EXTERNAL) (Inr ()), (put_exec (exec_brk g) ex ?g2, w')))"
    (is "?loop = _")
  proof (subst loop_runs [where p = "exec_brk g", OF _ buffers])
    show "find_exec T (tcl_string A n) ?g2 = Inr (exec_brk g, ?noop\<lparr>ex_context := NOOP_CONTEXT\<rparr>)"
      using f2 args(1) by simp
  qed (use pos in \<open>auto simp: turbine_async_worker_loop_def [where nbuffers = 0] c_assert_def split: sum.splits\<close>)
  have "Noop_Exec_Run_Cmd A T [c, work] (?g1, w) = (Inl Tcl_Error, (?g1, w))"
    by (rule run_not_started [OF f1]) (simp add: init_noop_executor_def)
  moreover have "Noop_Exec_Run_Cmd A T [c, work] (?g2, w) = (Inl Tcl_Error, (?g2, w))"
    by (rule run_not_started [OF f2]) (simp add: init_noop_executor_def)
  ultimately have "\<forall>g' \<in> {?g1, ?g2}. Noop_Exec_Run_Cmd A T [c, work] (g', w) = (Inl Tcl_Error, (g', w))"
    by (auto simp del: fun_upd_apply)
  with reg(1) l1 conf l2 show ?thesis by (intro exI conjI)
qed

definition idle_interp :: "(val noop_state \<times> val noop_world, val) tcl_interp" where
  "idle_interp = \<lparr>eval_work = (\<lambda>c n st. Inr (True, st)), eval_cb = (\<lambda>c st. Inr (True, st)),
     set_var = (\<lambda>x v st. (True, st)), unset_var = (\<lambda>x st. (True, st))\<rparr>"

definition idle_adlb :: "(val noop_world, nat, string) adlb_get_api" where
  "idle_adlb = \<lparr>Amget = (\<lambda>ty n block bufs w. (ADLB_SHUTDOWN, [], w)), Aget_test = (\<lambda>req w. (ADLB_NOTHING, 0, w)),
     Aget_wait = (\<lambda>req w. (ADLB_SHUTDOWN, 0, w)), payload = (\<lambda>buf w. buf)\<rparr>"

definition new_registry :: "((string \<times> nat) list, 'e) registry" where
  "new_registry = \<lparr>executors_init = True, executors_table_init = True, executors = [], exec_heap = Map.empty, exec_brk = 1\<rparr>"

lemma noop_lifecycle_witness:
  "\<exists>g1 g2. let loop = Async_Exec_Worker_Loop_Cmd 5 val_tcl al_table 100 (\<lambda>k i. Some ''b'') idle_interp idle_adlb
        (\<lambda>w. (TURBINE_SUCCESS, w)) (\<lambda>w. w) [V_str ''loop'', V_str ''NOOP'', V_int 0, V_dict [(V_str ''buffer_count'', V_int 0)]];
      w = \<lparr>refs = \<lambda>_. 0, draws = []\<rparr> in
    Noop_Exec_Register_Cmd al_table [V_str ''loop''] new_registry = (Inr (), g1) \<and> loop (g1, w) = (Inl Abort, (g1, w)) \<and>
    Async_Exec_Configure_Cmd val_tcl al_table [V_str ''loop'', V_str ''NOOP'', V_str ''''] (g1, w) = (Inr (), (g2, w)) \<and>
    loop (g2, w) = (Inl Abort, (g2, w))"
  using noop_lifecycle [OF table_ok_al_table, of new_registry val_tcl "V_str ''NOOP''" "V_int 0" 0
      "V_dict [(V_str ''buffer_count'', V_int 0)]" "[(V_str ''buffer_count'', V_int 0)]" 100 0 100 "V_str ''loop''" 5
      "\<lambda>k i. ''b''" idle_interp idle_adlb "\<lambda>w. (TURBINE_SUCCESS, w)" "\<lambda>w. w" "\<lparr>refs = \<lambda>_. 0, draws = []\<rparr>" "V_str ''''" "V_str ''''"]
  by (auto simp: new_registry_def Let_def tcl_get_def tcl_condition_def val_tcl_def)

end
