(* ===== verification/Blob_Utils.thy ===== *)
theory Blob_Utils
  imports Blobs
begin

text \<open>
  The blob utilities of \<^verbatim>\<open>src/tcl/blob/blob.c\<close>, which SWIG makes available to Tcl: creation and release
  of blobs, casts, array access, and the transfer of blobs to and from files.

  Pointers are 64-bit words into a memory of bytes. An \<^verbatim>\<open>int\<close> has 32 and a \<^verbatim>\<open>long\<close> 64 bits, both
  little-endian, and a \<^verbatim>\<open>double\<close> is its bit pattern, a 64-bit word. Misaligned access is not
  ruled out. \<open>Undefined\<close> is access to bytes that are not allocated, or reading bytes never
  written. The allocator and the file system are parameters; without HDF5 support
  \<^verbatim>\<open>blobutils_hdf_write\<close> only fails.
\<close>

section \<open>Memory\<close>

record turbine_blob =
  b_pointer :: "64 word"
  b_length :: int

text \<open>
  The bytes that are allocated, with their value once there is one; the blocks \<^verbatim>\<open>malloc\<close> gave
  and their sizes; the structs of type \<^verbatim>\<open>turbine_blob\<close>.
\<close>

record blob_mem =
  bm_bytes :: "64 word \<rightharpoonup> char option"
  bm_blocks :: "64 word \<rightharpoonup> nat"
  bm_structs :: "64 word \<rightharpoonup> turbine_blob"

type_synonym allocator = "nat \<Rightarrow> blob_mem \<Rightarrow> 64 word"

definition block_malloc :: "allocator \<Rightarrow> nat \<Rightarrow> blob_mem \<Rightarrow> 64 word \<times> blob_mem" where
  "block_malloc alloc n m =
     (let p = alloc n m in
      if p = 0 then (0, m)
      else (p, m\<lparr>bm_bytes := (\<lambda>a. if unat (a - p) < n then Some None else bm_bytes m a),
                 bm_blocks := (bm_blocks m)(p \<mapsto> n)\<rparr>))"

definition block_free :: "64 word \<Rightarrow> blob_mem \<Rightarrow> blob_mem res" where
  "block_free p m =
     (if p = 0 then Inr m
      else case bm_blocks m p of
        None \<Rightarrow> Inl Undefined
      | Some n \<Rightarrow> Inr (m\<lparr>bm_bytes := (\<lambda>a. if unat (a - p) < n then None else bm_bytes m a),
                         bm_blocks := (bm_blocks m)(p := None), bm_structs := (bm_structs m)(p := None)\<rparr>))"

definition struct_malloc :: "allocator \<Rightarrow> turbine_blob \<Rightarrow> blob_mem \<Rightarrow> 64 word \<times> blob_mem" where
  "struct_malloc alloc b m =
     (let (p, m) = block_malloc alloc 16 m in (p, m\<lparr>bm_structs := (bm_structs m)(p \<mapsto> b)\<rparr>))"

definition blob_at :: "64 word \<Rightarrow> blob_mem \<Rightarrow> turbine_blob res" where
  "blob_at p m = (case bm_structs m p of None \<Rightarrow> Inl Undefined | Some b \<Rightarrow> Inr b)"

definition read_bytes :: "64 word \<Rightarrow> nat \<Rightarrow> blob_mem \<Rightarrow> string res" where
  "read_bytes p n m =
     (case those (map (\<lambda>k. case bm_bytes m (p + of_nat k) of None \<Rightarrow> None | Some c \<Rightarrow> c) [0..<n]) of
        None \<Rightarrow> Inl Undefined | Some bs \<Rightarrow> Inr bs)"

definition write_bytes :: "64 word \<Rightarrow> string \<Rightarrow> blob_mem \<Rightarrow> blob_mem res" where
  "write_bytes p bs m =
     c_defined (list_all (\<lambda>k. bm_bytes m (p + of_nat k) \<noteq> None) [0..<length bs])
       (Inr (m\<lparr>bm_bytes := (\<lambda>a. if unat (a - p) < length bs then Some (Some (bs ! unat (a - p))) else bm_bytes m a)\<rparr>))"

section \<open>Numbers as bytes\<close>

definition bytes_uint :: "string \<Rightarrow> int" where
  "bytes_uint bs = foldr (\<lambda>c v. of_char c + 256 * v) bs 0"

definition bytes_int :: "string \<Rightarrow> int" where
  "bytes_int bs = signed_take_bit (8 * length bs - 1) (bytes_uint bs)"

lemma int_bytes_Suc: "int_bytes (Suc n) i = char_of (nat (i mod 256)) # int_bytes n (i div 256)"
proof -
  have "i div 256 ^ Suc k = i div 256 div 256 ^ k" for k
    using zdiv_zmult2_eq [of "256 ^ k" i 256] by simp
  moreover have "[0..<Suc n] = 0 # map Suc [0..<n]" by (simp add: upt_conv_Cons map_Suc_upt del: upt_Suc)
  ultimately show ?thesis by (simp add: int_bytes_def comp_def del: upt_Suc power_Suc)
qed

lemma bytes_uint_int_bytes: "bytes_uint (int_bytes n i) = i mod 256 ^ n"
proof (induction n arbitrary: i)
  case (Suc n)
  have "i mod 256 ^ Suc n = 256 * (i div 256 mod 256 ^ n) + i mod 256"
    by (simp add: zmod_zmult2_eq)
  moreover have "(of_char (char_of (nat (i mod 256)) :: char) :: int) = int (of_char (char_of (nat (i mod 256)) :: char))"
    by (simp only: of_nat_of_char)
  moreover have "\<dots> = i mod 256" by (simp only: of_char_of) (simp add: nat_mod_distrib)
  ultimately show ?case
    using Suc.IH [of "i div 256"] by (simp add: int_bytes_Suc bytes_uint_def)
qed (simp add: int_bytes_def bytes_uint_def)

lemma bytes_int_int_bytes:
  assumes "0 < n" "- (2 ^ (8 * n - 1)) \<le> i" "i < 2 ^ (8 * n - 1)"
  shows "bytes_int (int_bytes n i) = i"
proof -
  have "(256 :: int) ^ n = 2 ^ (8 * n)" by (simp add: power_mult)
  then have "bytes_uint (int_bytes n i) = take_bit (8 * n) i"
    by (simp add: bytes_uint_int_bytes take_bit_eq_mod)
  moreover have "signed_take_bit (8 * n - 1) (take_bit (8 * n) i) = signed_take_bit (8 * n - 1) i"
    using assms(1) by (cases n) (simp_all add: signed_take_bit_take_bit)
  ultimately show ?thesis
    using assms by (simp add: bytes_int_def signed_take_bit_int_eq_self)
qed

section \<open>Creation and release\<close>

definition blobutils_malloc :: "allocator \<Rightarrow> nat \<Rightarrow> blob_mem \<Rightarrow> (64 word \<times> blob_mem) res" where
  "blobutils_malloc alloc bytes m =
     (let (result, m) = block_malloc alloc bytes m in c_assert (result \<noteq> 0) (Inr (result, m)))"

definition blobutils_free :: "64 word \<Rightarrow> blob_mem \<Rightarrow> blob_mem res" where
  "blobutils_free p m = block_free p m"

text \<open>A struct that could not be allocated is written to all the same.\<close>

definition blobutils_create_ptr :: "allocator \<Rightarrow> 64 word \<Rightarrow> int \<Rightarrow> blob_mem \<Rightarrow> (64 word \<times> blob_mem) res" where
  "blobutils_create_ptr alloc pointer len m =
     (let (result, m) = struct_malloc alloc \<lparr>b_pointer = pointer, b_length = len\<rparr> m in
      c_defined (result \<noteq> 0) (Inr (result, m)))"

definition blobutils_create :: "allocator \<Rightarrow> int \<Rightarrow> int \<Rightarrow> blob_mem \<Rightarrow> (64 word \<times> blob_mem) res" where
  "blobutils_create alloc pointer len m = blobutils_create_ptr alloc (word_of_int pointer) len m"

definition blobutils_make_test :: "allocator \<Rightarrow> blob_mem \<Rightarrow> (64 word \<times> blob_mem) res" where
  "blobutils_make_test alloc m =
     (let (d, m) = struct_malloc alloc \<lparr>b_pointer = 0, b_length = 0\<rparr> m; (t, m) = block_malloc alloc 64 m in
      c_defined (d \<noteq> 0 \<and> t \<noteq> 0)
        (tcl_check (write_bytes t (''howdy'' @ [NUL]) m) (\<lambda>m.
           Inr (d, m\<lparr>bm_structs := (bm_structs m)(d \<mapsto> \<lparr>b_pointer = t, b_length = 6\<rparr>)\<rparr>))))"

definition blobutils_destroy :: "64 word \<Rightarrow> blob_mem \<Rightarrow> blob_mem res" where
  "blobutils_destroy data m =
     tcl_check (blob_at data m) (\<lambda>b. tcl_check (block_free (b_pointer b) m) (block_free data))"

section \<open>Pointers and casts\<close>

definition blobutils_ptr_add :: "64 word \<Rightarrow> int \<Rightarrow> 64 word" where "blobutils_ptr_add p offset = p + word_of_int offset"
definition blobutils_sizeof_ptr :: int where "blobutils_sizeof_ptr = 8"
definition blobutils_sizeof_int :: int where "blobutils_sizeof_int = 4"
definition blobutils_sizeof_int32 :: int where "blobutils_sizeof_int32 = 4"
definition blobutils_sizeof_float :: int where "blobutils_sizeof_float = 8"

text \<open>An \<^verbatim>\<open>int\<close> is extended with its sign on the way to \<^verbatim>\<open>size_t\<close>.\<close>

definition blobutils_cast_to_ptr :: "int \<Rightarrow> 64 word" where "blobutils_cast_to_ptr i = word_of_int i"
definition blobutils_cast_int64_to_ptr :: "int \<Rightarrow> 64 word" where "blobutils_cast_int64_to_ptr i = word_of_int i"
definition blobutils_cast_to_ptrptr :: "64 word \<Rightarrow> 64 word" where "blobutils_cast_to_ptrptr p = p"
definition blobutils_cast_to_string :: "64 word \<Rightarrow> 64 word" where "blobutils_cast_to_string p = p"
definition blobutils_cast_to_char_ptrptr :: "64 word \<Rightarrow> 64 word" where "blobutils_cast_to_char_ptrptr p = p"
definition blobutils_cast_string_to_ptr :: "64 word \<Rightarrow> 64 word" where "blobutils_cast_string_to_ptr s = s"

text \<open>The conversion of \<^verbatim>\<open>long\<close> to \<^verbatim>\<open>int\<close> keeps the low 32 bits; the assertion is compiled in.\<close>

definition blobutils_cast_to_int :: "64 word \<Rightarrow> int res" where
  "blobutils_cast_to_int p =
     (let i_long = sint p; result = signed_take_bit 31 i_long in c_assert (i_long = result) (Inr result))"

definition blobutils_cast_to_long :: "64 word \<Rightarrow> int" where "blobutils_cast_to_long p = sint p"
definition blobutils_cast_to_long_long :: "64 word \<Rightarrow> int" where "blobutils_cast_to_long_long p = sint p"
definition blobutils_cast_to_int64 :: "64 word \<Rightarrow> int" where "blobutils_cast_to_int64 p = sint p"
definition blobutils_cast_int_to_int_ptr :: "int \<Rightarrow> 64 word" where "blobutils_cast_int_to_int_ptr i = word_of_int i"
definition blobutils_cast_int_to_const_int_ptr :: "int \<Rightarrow> 64 word" where "blobutils_cast_int_to_const_int_ptr i = word_of_int i"
definition blobutils_cast_int_to_dbl_ptr :: "int \<Rightarrow> 64 word" where "blobutils_cast_int_to_dbl_ptr i = word_of_int i"
definition blobutils_cast_int_to_const_dbl_ptr :: "int \<Rightarrow> 64 word" where "blobutils_cast_int_to_const_dbl_ptr i = word_of_int i"
definition blobutils_cast_long_to_int_ptr :: "int \<Rightarrow> 64 word" where "blobutils_cast_long_to_int_ptr l = word_of_int l"
definition blobutils_cast_long_to_const_int_ptr :: "int \<Rightarrow> 64 word" where "blobutils_cast_long_to_const_int_ptr l = word_of_int l"
definition blobutils_cast_long_to_dbl_ptr :: "int \<Rightarrow> 64 word" where "blobutils_cast_long_to_dbl_ptr l = word_of_int l"
definition blobutils_cast_long_to_const_dbl_ptr :: "int \<Rightarrow> 64 word" where "blobutils_cast_long_to_const_dbl_ptr l = word_of_int l"
definition blobutils_cast_to_int_ptr :: "64 word \<Rightarrow> 64 word" where "blobutils_cast_to_int_ptr p = p"
definition blobutils_cast_to_int32_ptr :: "64 word \<Rightarrow> 64 word" where "blobutils_cast_to_int32_ptr p = p"
definition blobutils_cast_to_int64_ptr :: "64 word \<Rightarrow> 64 word" where "blobutils_cast_to_int64_ptr p = p"
definition blobutils_cast_to_dbl_ptr :: "64 word \<Rightarrow> 64 word" where "blobutils_cast_to_dbl_ptr p = p"

section \<open>Arrays\<close>

text \<open>The address of an element, which the index and the size of the elements give.\<close>

definition elem :: "nat \<Rightarrow> 64 word \<Rightarrow> int \<Rightarrow> 64 word" where "elem sz p i = p + word_of_int (int sz * i)"

definition blobutils_get_ptr :: "64 word \<Rightarrow> int \<Rightarrow> blob_mem \<Rightarrow> (64 word) res" where
  "blobutils_get_ptr pointer index m =
     tcl_check (read_bytes (elem 8 pointer index) 8 m) (\<lambda>bs. Inr (word_of_int (bytes_uint bs)))"

definition blobutils_set_ptr :: "64 word \<Rightarrow> int \<Rightarrow> 64 word \<Rightarrow> blob_mem \<Rightarrow> blob_mem res" where
  "blobutils_set_ptr pointer index p m = write_bytes (elem 8 pointer index) (int_bytes 8 (uint p)) m"

definition blobutils_get_float :: "64 word \<Rightarrow> int \<Rightarrow> blob_mem \<Rightarrow> (64 word) res" where
  "blobutils_get_float pointer index m =
     tcl_check (read_bytes (elem 8 pointer index) 8 m) (\<lambda>bs. Inr (word_of_int (bytes_uint bs)))"

definition blobutils_set_float :: "64 word \<Rightarrow> int \<Rightarrow> 64 word \<Rightarrow> blob_mem \<Rightarrow> blob_mem res" where
  "blobutils_set_float p i d m = write_bytes (elem 8 p i) (int_bytes 8 (uint d)) m"

definition blobutils_get_int :: "64 word \<Rightarrow> int \<Rightarrow> blob_mem \<Rightarrow> int res" where
  "blobutils_get_int pointer index m = tcl_check (read_bytes (elem 4 pointer index) 4 m) (\<lambda>bs. Inr (bytes_int bs))"

definition blobutils_get_int32 :: "64 word \<Rightarrow> int \<Rightarrow> blob_mem \<Rightarrow> int res" where
  "blobutils_get_int32 pointer index m = tcl_check (read_bytes (elem 4 pointer index) 4 m) (\<lambda>bs. Inr (bytes_int bs))"

definition blobutils_set_int :: "64 word \<Rightarrow> int \<Rightarrow> int \<Rightarrow> blob_mem \<Rightarrow> blob_mem res" where
  "blobutils_set_int pointer index i m = write_bytes (elem 4 pointer index) (int_bytes 4 i) m"

definition blobutils_get_char :: "64 word \<Rightarrow> int \<Rightarrow> blob_mem \<Rightarrow> char res" where
  "blobutils_get_char data index m =
     tcl_check (blob_at data m) (\<lambda>d. tcl_check (read_bytes (elem 1 (b_pointer d) index) 1 m) (\<lambda>bs. Inr (hd bs)))"

text \<open>The double 0.0 has no bit set.\<close>

fun zeroes_loop :: "nat \<Rightarrow> int \<Rightarrow> 64 word \<Rightarrow> blob_mem \<Rightarrow> blob_mem res" where
  "zeroes_loop 0 i p m = Inr m"
| "zeroes_loop (Suc k) i p m = tcl_check (blobutils_set_float p i 0 m) (zeroes_loop k (i + 1) p)"

definition blobutils_zeroes_float :: "64 word \<Rightarrow> int \<Rightarrow> blob_mem \<Rightarrow> blob_mem res" where
  "blobutils_zeroes_float p n m = zeroes_loop (nat n) 0 p m"

text \<open>
  \<^verbatim>\<open>memcpy\<close> with the length converted to \<^verbatim>\<open>size_t\<close>; it is defined only on blocks that do not overlap.
\<close>

definition blobutils_turbine_run_output_blob :: "int \<Rightarrow> int \<Rightarrow> int \<Rightarrow> blob_mem \<Rightarrow> blob_mem res" where
  "blobutils_turbine_run_output_blob output p len m =
     (let n = unat (word_of_int len :: 64 word); output = word_of_int output; p = word_of_int p in
      tcl_check (read_bytes p n m) (\<lambda>bs.
        c_defined (n \<le> unat (output - p) \<and> n \<le> unat (p - output) \<or> n = 0) (write_bytes output bs m)))"

text \<open>The string is its characters without the terminator, as \<^verbatim>\<open>strlen\<close> finds it.\<close>

definition blobutils_strdup :: "allocator \<Rightarrow> string \<Rightarrow> blob_mem \<Rightarrow> (64 word \<times> blob_mem) res" where
  "blobutils_strdup alloc s m =
     (let (t, m) = block_malloc alloc (length s + 1) m in
      if t = 0 then Inr (0, m) else tcl_check (write_bytes t (s @ [NUL]) m) (\<lambda>m. Inr (t, m)))"

definition blobutils_hdf_write :: "string \<Rightarrow> string \<Rightarrow> 64 word \<Rightarrow> bool" where
  "blobutils_hdf_write output dataset blob = False"

section \<open>Files\<close>

text \<open>
  The system calls: \<^verbatim>\<open>open\<close> for writing (with \<^verbatim>\<open>O_CREAT\<close> and \<^verbatim>\<open>O_TRUNC\<close>) and for reading, \<^verbatim>\<open>fstat\<close>,
  \<^verbatim>\<open>write\<close> and \<^verbatim>\<open>read\<close>.
\<close>

record 'w file_api =
  open_write :: "string \<Rightarrow> 'w \<Rightarrow> int \<times> 'w"
  open_read :: "string \<Rightarrow> 'w \<Rightarrow> int \<times> 'w"
  file_stat :: "int \<Rightarrow> 'w \<Rightarrow> int \<times> int"
  sys_write :: "int \<Rightarrow> string \<Rightarrow> 'w \<Rightarrow> int \<times> 'w"
  sys_read :: "int \<Rightarrow> nat \<Rightarrow> 'w \<Rightarrow> int \<times> string \<times> 'w"

text \<open>
  The result of the system call is added to the total and to the buffer, and taken from what is
  left, whatever it is but 0, so a failure (-1) goes one byte back. \<open>fuel\<close> bounds the
  number of system calls.
\<close>

fun write_all ::
    "nat \<Rightarrow> 'w file_api \<Rightarrow> int \<Rightarrow> 64 word \<Rightarrow> int \<Rightarrow> int \<Rightarrow> int \<Rightarrow> blob_mem \<Rightarrow> 'w \<Rightarrow> (bool \<times> 'w) res" where
  "write_all 0 F fd buffer tot chunk cnt m w = Inl Unfinished"
| "write_all (Suc fuel) F fd buffer tot chunk cnt m w =
     tcl_check (read_bytes buffer (unat (word_of_int chunk :: 64 word)) m) (\<lambda>bs.
       let (bytes, w) = sys_write F fd bs w in
       if bytes = 0 then Inr (False, w)
       else tcl_check (c_int (tot + bytes)) (\<lambda>tot.
         if tot = cnt then Inr (True, w)
         else tcl_check (c_int (chunk - bytes)) (\<lambda>chunk.
           write_all fuel F fd (buffer + word_of_int bytes) tot chunk cnt m w)))"

definition blobutils_write ::
    "nat \<Rightarrow> 'w file_api \<Rightarrow> string \<Rightarrow> 64 word \<Rightarrow> blob_mem \<Rightarrow> 'w \<Rightarrow> (bool \<times> 'w) res" where
  "blobutils_write fuel F output blob m w =
     (let (fd, w) = open_write F output w in
      if fd = -1 then Inr (False, w)
      else tcl_check (blob_at blob m) (\<lambda>b.
        write_all fuel F fd (b_pointer b) 0 (b_length b) (b_length b) m w))"

fun read_all ::
    "nat \<Rightarrow> 'w file_api \<Rightarrow> int \<Rightarrow> 64 word \<Rightarrow> int \<Rightarrow> int \<Rightarrow> int \<Rightarrow> blob_mem \<Rightarrow> 'w \<Rightarrow> (int \<times> blob_mem \<times> 'w) res" where
  "read_all 0 F fd buffer tot chunk cnt m w = Inl Unfinished"
| "read_all (Suc fuel) F fd buffer tot chunk cnt m w =
     (let (bytes, bs, w) = sys_read F fd (unat (word_of_int chunk :: 64 word)) w in
      tcl_check (write_bytes buffer bs m) (\<lambda>m.
      if bytes = 0 then Inr (tot, m, w)
      else tcl_check (c_int (tot + bytes)) (\<lambda>tot.
        if tot = cnt then Inr (tot, m, w)
        else tcl_check (c_int (chunk - bytes)) (\<lambda>chunk.
          read_all fuel F fd (buffer + word_of_int bytes) tot chunk cnt m w))))"

text \<open>The size of the file is converted to \<^verbatim>\<open>int\<close>, and the total that was read to \<^verbatim>\<open>bool\<close>.\<close>

definition blobutils_read ::
    "nat \<Rightarrow> 'w file_api \<Rightarrow> allocator \<Rightarrow> string \<Rightarrow> 64 word \<Rightarrow> blob_mem \<Rightarrow> 'w \<Rightarrow> (bool \<times> blob_mem \<times> 'w) res" where
  "blobutils_read fuel F alloc input blob m w =
     (let (fd, w) = open_read F input w in
      if fd = -1 then Inr (False, m, w)
      else let (rc, st_size) = file_stat F fd w in
      c_assert (rc = 0)
        (tcl_check (blob_at blob m) (\<lambda>_.
         let len = signed_take_bit 31 st_size;
             (pointer, m) = block_malloc alloc (unat (word_of_int len :: 64 word)) m;
             m = m\<lparr>bm_structs := (bm_structs m)(blob \<mapsto> \<lparr>b_pointer = pointer, b_length = len\<rparr>)\<rparr> in
         if pointer = 0 then Inr (False, m, w)
         else tcl_check (read_all fuel F fd pointer 0 len len m w) (\<lambda>(tot, m, w). Inr (tot \<noteq> 0, m, w)))))"

section \<open>Reading what was written\<close>

lemma those_Some_iff: "those xs = Some ys \<longleftrightarrow> xs = map Some ys"
proof (induction xs arbitrary: ys)
  case (Cons x xs)
  then show ?case by (cases x; cases ys) (auto split: option.splits)
qed auto

lemma read_bytes_iff:
  "read_bytes p n m = Inr bs \<longleftrightarrow> length bs = n \<and> (\<forall>k < n. bm_bytes m (p + of_nat k) = Some (Some (bs ! k)))"
proof -
  have "read_bytes p n m = Inr bs \<longleftrightarrow>
      map (\<lambda>k. case bm_bytes m (p + of_nat k) of None \<Rightarrow> None | Some c \<Rightarrow> c) [0..<n] = map Some bs"
    by (auto simp: read_bytes_def simp flip: those_Some_iff split: option.splits)
  also have "\<dots> \<longleftrightarrow> length bs = n \<and> (\<forall>k < n. (case bm_bytes m (p + of_nat k) of None \<Rightarrow> None | Some c \<Rightarrow> c) = Some (bs ! k))"
    by (auto simp: list_eq_iff_nth_eq)
  also have "\<dots> \<longleftrightarrow> length bs = n \<and> (\<forall>k < n. bm_bytes m (p + of_nat k) = Some (Some (bs ! k)))"
    by (auto split: option.splits)
  finally show ?thesis .
qed

lemma offset_unat: "k < 2 ^ 64 \<Longrightarrow> unat (of_nat k :: 64 word) = k"
  by (simp add: unsigned_of_nat take_bit_nat_eq_self)

lemma write_bytes_cases:
  assumes "write_bytes p bs m = Inr m'"
  shows "m' = m\<lparr>bm_bytes := (\<lambda>a. if unat (a - p) < length bs then Some (Some (bs ! unat (a - p))) else bm_bytes m a)\<rparr>"
    "k < length bs \<Longrightarrow> bm_bytes m (p + of_nat k) \<noteq> None"
  using assms by (auto simp: write_bytes_def c_defined_Inr_conv list_all_iff)

lemma read_written:
  assumes "write_bytes p bs m = Inr m'" "length bs \<le> 2 ^ 64"
  shows "read_bytes p (length bs) m' = Inr bs"
  using assms(2) by (auto simp: read_bytes_iff write_bytes_cases(1) [OF assms(1)] offset_unat)

text \<open>Two ranges of addresses do not meet when the distance is at least their sizes, both ways round.\<close>

definition apart :: "64 word \<Rightarrow> nat \<Rightarrow> 64 word \<Rightarrow> nat \<Rightarrow> bool" where
  "apart p n q k \<longleftrightarrow> (\<forall>i < k. n \<le> unat (q + of_nat i - p))"

lemma read_other:
  assumes "write_bytes p bs m = Inr m'" "apart p (length bs) q n"
  shows "read_bytes q n m' = read_bytes q n m"
proof -
  have "bm_bytes m' (q + of_nat k) = bm_bytes m (q + of_nat k)" if "k < n" for k
    using assms(2) that unfolding apart_def write_bytes_cases(1) [OF assms(1)] by (auto simp: not_less)
  then show ?thesis unfolding read_bytes_def by (metis (mono_tags, lifting) atLeastLessThan_iff map_cong set_upt)
qed

text \<open>Elements of an array with different indices are apart.\<close>

lemma elem_apart:
  assumes "i \<noteq> j" "int_ok i" "int_ok j" "0 < sz" "sz \<le> 8"
  shows "apart (elem sz p i) sz (elem sz p j) sz"
  unfolding apart_def
proof (intro allI impI)
  fix k assume k: "k < sz"
  let ?d = "int sz * (j - i) + int k"
  have d: "elem sz p j + of_nat k - elem sz p i = word_of_int ?d"
    by (simp add: elem_def algebra_simps)
  have u: "uint (elem sz p j + of_nat k - elem sz p i) = ?d mod 2 ^ 64"
    unfolding d uint_word_of_int by simp
  have range: "- (2 ^ 36) < ?d" "?d < 2 ^ 36"
  proof -
    have b: "\<bar>j - i\<bar> \<le> 2 ^ 32" using assms(2,3) by (auto simp: int_ok_def INT_MIN_def INT_MAX_def)
    then have "\<bar>int sz * (j - i)\<bar> \<le> 8 * 2 ^ 32" unfolding abs_mult using assms(5) by (intro mult_mono) auto
    then show "- (2 ^ 36) < ?d" "?d < 2 ^ 36" using k assms(5) by (simp_all add: abs_le_iff)
  qed
  have "int sz \<le> ?d mod 2 ^ 64"
  proof (cases "i < j")
    case True
    then have "int sz * 1 \<le> int sz * (j - i)" by (intro mult_left_mono) auto
    then have "int sz \<le> ?d" by simp
    moreover have "?d mod 2 ^ 64 = ?d" using calculation range by (intro mod_pos_pos_trivial) auto
    ultimately show ?thesis by simp
  next
    case False
    with assms(1) have "int sz * (j - i) \<le> int sz * (- 1)" by (intro mult_left_mono) auto
    then have neg: "?d < 0" using k by simp
    have "?d mod 2 ^ 64 = (?d + 2 ^ 64) mod 2 ^ 64" by simp
    also have "\<dots> = ?d + 2 ^ 64" using neg range by (intro mod_pos_pos_trivial) auto
    finally show ?thesis using range assms(5) by simp
  qed
  then show "sz \<le> unat (elem sz p j + of_nat k - elem sz p i)"
    unfolding unat_eq_nat_uint u by linarith
qed

lemma read_elem:
  assumes "write_bytes (elem (length bs) p i) bs m = Inr m'" "int_ok i" "int_ok j" "bs \<noteq> []" "length bs \<le> 8"
  shows "read_bytes (elem (length bs) p j) (length bs) m' =
    (if j = i then Inr bs else read_bytes (elem (length bs) p j) (length bs) m)"
proof (cases "j = i")
  case True
  then show ?thesis using read_written [OF assms(1)] assms(5) by simp
next
  case False
  then have "apart (elem (length bs) p i) (length bs) (elem (length bs) p j) (length bs)"
    using assms(2-5) by (intro elem_apart) auto
  then show ?thesis using False read_other [OF assms(1)] by simp
qed

lemma get_int_after:
  assumes "blobutils_set_int p i v m = Inr m'" "int_ok i" "int_ok j" "int_ok v"
  shows "blobutils_get_int p j m' = (if j = i then Inr v else blobutils_get_int p j m)"
proof -
  have "bytes_int (int_bytes 4 v) = v"
    using assms(4) by (intro bytes_int_int_bytes) (simp_all add: int_ok_def INT_MIN_def INT_MAX_def)
  then show ?thesis
    using read_elem [of "int_bytes 4 v" p i m m' j] assms
    by (simp add: blobutils_set_int_def blobutils_get_int_def flip: length_0_conv)
qed

lemma get_float_after:
  assumes "blobutils_set_float p i d m = Inr m'" "int_ok i" "int_ok j"
  shows "blobutils_get_float p j m' = (if j = i then Inr d else blobutils_get_float p j m)"
proof -
  have "bytes_uint (int_bytes 8 (uint d)) = uint d"
    using uint_lt2p [of d] by (simp add: bytes_uint_int_bytes)
  then show ?thesis
    using read_elem [of "int_bytes 8 (uint d)" p i m m' j] assms
    by (simp add: blobutils_set_float_def blobutils_get_float_def flip: length_0_conv)
qed

lemma zeroes_loop_get:
  assumes "zeroes_loop k i p m = Inr m'" "int_ok j" "int_ok i" "i + int k \<le> INT_MAX"
  shows "blobutils_get_float p j m' = (if i \<le> j \<and> j < i + int k then Inr 0 else blobutils_get_float p j m)"
  using assms
proof (induction k i p m rule: zeroes_loop.induct)
  case (2 k i p m)
  then obtain m1 where m1: "blobutils_set_float p i 0 m = Inr m1" "zeroes_loop k (i + 1) p m1 = Inr m'"
    by (auto simp: tcl_check_Inr_conv)
  have ok: "int_ok (i + 1)" "i + 1 + int k \<le> INT_MAX" using "2.prems"(3,4) by (auto simp: int_ok_def)
  have "blobutils_get_float p j m' = (if i + 1 \<le> j \<and> j < i + 1 + int k then Inr 0 else blobutils_get_float p j m1)"
    using "2.IH" [OF m1(1) m1(2) "2.prems"(2) ok] .
  then show ?case using get_float_after [OF m1(1) "2.prems"(3,2)] by auto
qed auto

text \<open>
  C26: Arrays in blobs. What is stored at an index is read there again, and every other
  element, on either side, is as before: for integers, doubles and pointers, and for the loop that
  fills an array with zeroes. Indices are any \<^verbatim>\<open>int\<close>; the address of an element may wrap around.
\<close>

theorem blob_arrays:
  assumes "int_ok i" "int_ok j" "int_ok v" "int_ok n"
  shows "(blobutils_set_int p i v m = Inr m1 \<longrightarrow>
      blobutils_get_int p j m1 = (if j = i then Inr v else blobutils_get_int p j m) \<and>
      blobutils_get_int32 p j m1 = blobutils_get_int p j m1) \<and>
    (blobutils_set_float p i d m = Inr m2 \<longrightarrow>
      blobutils_get_float p j m2 = (if j = i then Inr d else blobutils_get_float p j m)) \<and>
    (blobutils_set_ptr p i q m = Inr m3 \<longrightarrow>
      blobutils_get_ptr p j m3 = (if j = i then Inr q else blobutils_get_ptr p j m)) \<and>
    (blobutils_zeroes_float p n m = Inr m4 \<longrightarrow>
      blobutils_get_float p j m4 = (if 0 \<le> j \<and> j < n then Inr 0 else blobutils_get_float p j m))"
proof (intro conjI impI)
  assume "blobutils_set_int p i v m = Inr m1"
  from get_int_after [OF this assms(1-3)]
  show "blobutils_get_int p j m1 = (if j = i then Inr v else blobutils_get_int p j m)" .
  show "blobutils_get_int32 p j m1 = blobutils_get_int p j m1"
    by (simp add: blobutils_get_int32_def blobutils_get_int_def)
next
  assume "blobutils_set_float p i d m = Inr m2"
  from get_float_after [OF this assms(1,2)]
  show "blobutils_get_float p j m2 = (if j = i then Inr d else blobutils_get_float p j m)" .
next
  assume "blobutils_set_ptr p i q m = Inr m3"
  then have "blobutils_set_float p i q m = Inr m3" by (simp add: blobutils_set_ptr_def blobutils_set_float_def)
  from get_float_after [OF this assms(1,2)]
  show "blobutils_get_ptr p j m3 = (if j = i then Inr q else blobutils_get_ptr p j m)"
    by (simp add: blobutils_get_ptr_def blobutils_get_float_def)
next
  assume z: "blobutils_zeroes_float p n m = Inr m4"
  have "int_ok 0" "0 + int (nat n) \<le> INT_MAX" using assms(4) by (auto simp: int_ok_def INT_MIN_def INT_MAX_def)
  from zeroes_loop_get [OF z [unfolded blobutils_zeroes_float_def] assms(2) this]
  show "blobutils_get_float p j m4 = (if 0 \<le> j \<and> j < n then Inr 0 else blobutils_get_float p j m)" by auto
qed

definition small_mem :: blob_mem where
  "small_mem = \<lparr>bm_bytes = (\<lambda>a. if a < 32 then Some None else None), bm_blocks = [0 \<mapsto> 32], bm_structs = Map.empty\<rparr>"

lemma blob_arrays_witness:
  "\<exists>m1. blobutils_set_int 8 2 (- 5) small_mem = Inr m1 \<and> blobutils_get_int 8 2 m1 = Inr (- 5) \<and>
    blobutils_get_int 8 1 m1 = Inl Undefined"
proof -
  have "write_bytes (elem 4 8 2) (int_bytes 4 (- 5)) small_mem \<noteq> Inl Undefined"
    by (simp add: write_bytes_def small_mem_def elem_def upt_rec c_defined_def)
  then obtain m1 where m1: "blobutils_set_int 8 2 (- 5) small_mem = Inr m1"
    by (auto simp: blobutils_set_int_def write_bytes_def c_defined_def split: if_splits)
  have ok: "int_ok 2" "int_ok 1" "int_ok (- 5)" by (simp_all add: int_ok_def INT_MIN_def INT_MAX_def)
  note r = blob_arrays [of 2 _ "- 5" 2 8 small_mem m1, THEN conjunct1, THEN mp, OF _ _ _ _ m1, THEN conjunct1]
  have "blobutils_get_int 8 1 small_mem = Inl Undefined"
    by (simp add: blobutils_get_int_def read_bytes_def small_mem_def elem_def upt_rec)
  with m1 r [of 2] r [of 1] ok show ?thesis by simp
qed

section \<open>Files\<close>

text \<open>
  What POSIX says of the calls when nothing fails: \<open>content\<close> is what is in a file, and \<open>opened\<close>
  the file and the position of a descriptor. A transfer may be shorter than asked for.
\<close>

definition file_ok ::
    "'w file_api \<Rightarrow> (string \<Rightarrow> 'w \<Rightarrow> string option) \<Rightarrow> (int \<Rightarrow> 'w \<Rightarrow> (string \<times> nat) option) \<Rightarrow> bool" where
  "file_ok F content opened \<longleftrightarrow>
     (\<forall>name w fd w'. open_write F name w = (fd, w') \<longrightarrow> fd \<noteq> -1 \<longrightarrow>
        content name w' = Some [] \<and> opened fd w' = Some (name, 0)) \<and>
     (\<forall>fd name c w bs r w'. opened fd w = Some (name, length c) \<longrightarrow> content name w = Some c \<longrightarrow> bs \<noteq> [] \<longrightarrow>
        sys_write F fd bs w = (r, w') \<longrightarrow> 1 \<le> r \<and> r \<le> int (length bs) \<and>
        content name w' = Some (c @ take (nat r) bs) \<and> opened fd w' = Some (name, length c + nat r)) \<and>
     (\<forall>name c w fd w'. content name w = Some c \<longrightarrow> open_read F name w = (fd, w') \<longrightarrow> fd \<noteq> -1 \<longrightarrow>
        content name w' = Some c \<and> opened fd w' = Some (name, 0) \<and> file_stat F fd w' = (0, int (length c))) \<and>
     (\<forall>fd name c w k n r bs w'. opened fd w = Some (name, k) \<longrightarrow> content name w = Some c \<longrightarrow> k < length c \<longrightarrow> 0 < n \<longrightarrow>
        sys_read F fd n w = (r, bs, w') \<longrightarrow> 1 \<le> r \<and> nat r \<le> n \<and> k + nat r \<le> length c \<and> bs = take (nat r) (drop k c) \<and>
        content name w' = Some c \<and> opened fd w' = Some (name, k + nat r))"

lemma file_okD:
  assumes "file_ok F content opened"
  shows "open_write F name w = (fd, w') \<Longrightarrow> fd \<noteq> -1 \<Longrightarrow> content name w' = Some [] \<and> opened fd w' = Some (name, 0)"
    "opened fd w = Some (name, length c) \<Longrightarrow> content name w = Some c \<Longrightarrow> bs \<noteq> [] \<Longrightarrow> sys_write F fd bs w = (r, w') \<Longrightarrow>
      1 \<le> r \<and> r \<le> int (length bs) \<and>
        content name w' = Some (c @ take (nat r) bs) \<and> opened fd w' = Some (name, length c + nat r)"
    "content name w = Some c \<Longrightarrow> open_read F name w = (fd, w') \<Longrightarrow> fd \<noteq> -1 \<Longrightarrow>
      content name w' = Some c \<and> opened fd w' = Some (name, 0) \<and> file_stat F fd w' = (0, int (length c))"
    "opened fd w = Some (name, k) \<Longrightarrow> content name w = Some c \<Longrightarrow> k < length c \<Longrightarrow> 0 < n \<Longrightarrow> sys_read F fd n w = (r, bs, w') \<Longrightarrow>
      1 \<le> r \<and> nat r \<le> n \<and> k + nat r \<le> length c \<and> bs = take (nat r) (drop k c) \<and>
        content name w' = Some c \<and> opened fd w' = Some (name, k + nat r)"
proof -
  note F = assms [unfolded file_ok_def]
  show "open_write F name w = (fd, w') \<Longrightarrow> fd \<noteq> -1 \<Longrightarrow> content name w' = Some [] \<and> opened fd w' = Some (name, 0)"
    using F [THEN conjunct1] by blast
  show "opened fd w = Some (name, length c) \<Longrightarrow> content name w = Some c \<Longrightarrow> bs \<noteq> [] \<Longrightarrow> sys_write F fd bs w = (r, w') \<Longrightarrow>
      1 \<le> r \<and> r \<le> int (length bs) \<and>
        content name w' = Some (c @ take (nat r) bs) \<and> opened fd w' = Some (name, length c + nat r)"
    using F [THEN conjunct2, THEN conjunct1] by blast
  show "content name w = Some c \<Longrightarrow> open_read F name w = (fd, w') \<Longrightarrow> fd \<noteq> -1 \<Longrightarrow>
      content name w' = Some c \<and> opened fd w' = Some (name, 0) \<and> file_stat F fd w' = (0, int (length c))"
    using F [THEN conjunct2, THEN conjunct2, THEN conjunct1] by blast
  show "opened fd w = Some (name, k) \<Longrightarrow> content name w = Some c \<Longrightarrow> k < length c \<Longrightarrow> 0 < n \<Longrightarrow> sys_read F fd n w = (r, bs, w') \<Longrightarrow>
      1 \<le> r \<and> nat r \<le> n \<and> k + nat r \<le> length c \<and> bs = take (nat r) (drop k c) \<and>
        content name w' = Some c \<and> opened fd w' = Some (name, k + nat r)"
    using F [THEN conjunct2, THEN conjunct2, THEN conjunct2] by blast
qed

lemma size_t_unat: "int_ok k \<Longrightarrow> 0 \<le> k \<Longrightarrow> unat (word_of_int k :: 64 word) = nat k"
  by (simp add: unat_eq_nat_uint uint_word_of_int int_ok_def INT_MAX_def)

text \<open>Reading a suffix of a range.\<close>

lemma read_bytes_drop:
  assumes "read_bytes p n m = Inr bs" "k \<le> n"
  shows "read_bytes (p + of_nat k) (n - k) m = Inr (drop k bs)"
proof -
  have "bm_bytes m (p + of_nat k + of_nat i) = Some (Some (bs ! (k + i)))" if "i < n - k" for i
    using assms that by (auto simp: read_bytes_iff add.assoc simp flip: of_nat_add)
  then show ?thesis using assms by (auto simp: read_bytes_iff)
qed

lemma write_all_writes:
  assumes F: "file_ok F content opened"
    and st: "opened fd w = Some (name, length c)" "content name w = Some c"
    and buf: "read_bytes buffer n m = Inr bs" "0 < n" "int_ok (int (length c) + int n)"
    and fuel: "n \<le> fuel"
  obtains w' where
    "write_all fuel F fd buffer (int (length c)) (int n) (int (length c) + int n) m w = Inr (True, w')"
    "content name w' = Some (c @ bs)" "opened fd w' = Some (name, length c + n)"
  using st buf fuel
proof (induction fuel arbitrary: thesis w c buffer n bs)
  case (Suc fuel)
  note st = "Suc.prems"(2,3) and buf = "Suc.prems"(4,5,6)
  have len: "length bs = n" using buf(1) by (simp add: read_bytes_iff)
  obtain r w1 where wr: "sys_write F fd bs w = (r, w1)" by fastforce
  with file_okD(2) [OF F st _ wr] len buf(2) have
    r: "1 \<le> r" "r \<le> int n" and w1: "content name w1 = Some (c @ take (nat r) bs)" "opened fd w1 = Some (name, length c + nat r)"
    by auto
  have ok: "int_ok (int n)" "int_ok (int (length c) + r)" "int_ok (int n - r)"
    using buf(3) r by (auto simp: int_ok_def INT_MIN_def)
  have sz: "unat (word_of_int (int n) :: 64 word) = n" using size_t_unat [OF ok(1)] by simp
  show ?case
  proof (cases "r = int n")
    case True
    then have "write_all (Suc fuel) F fd buffer (int (length c)) (int n) (int (length c) + int n) m w = Inr (True, w1)"
      using buf(1) wr sz ok(2) r by (simp del: of_int_of_nat_eq)
    with "Suc.prems"(1) w1 True len show ?thesis by simp
  next
    case False
    let ?k = "nat r"
    have k: "?k \<le> n" "int ?k = r" "0 < n - ?k" using r False by auto
    let ?c = "c @ take ?k bs"
    have lc: "length ?c = length c + ?k" using k(1) len by simp
    have st': "opened fd w1 = Some (name, length ?c)" using w1(2) lc by simp
    have rd: "read_bytes (buffer + of_nat ?k) (n - ?k) m = Inr (drop ?k bs)"
      by (rule read_bytes_drop [OF buf(1) k(1)])
    have tot: "int (length ?c) + int (n - ?k) = int (length c) + int n" using lc k by simp
    obtain w' where w': "write_all fuel F fd (buffer + of_nat ?k) (int (length ?c)) (int (n - ?k)) (int (length ?c) + int (n - ?k)) m w1 =
        Inr (True, w')" "content name w' = Some (?c @ drop ?k bs)" "opened fd w' = Some (name, length ?c + (n - ?k))"
    proof (rule "Suc.IH" [OF _ st' w1(1) rd k(3)])
      show "int_ok (int (length ?c) + int (n - ?k))" unfolding tot by (rule buf(3))
      show "n - ?k \<le> fuel" using "Suc.prems"(7) r k by linarith
    qed
    have "write_all (Suc fuel) F fd buffer (int (length c)) (int n) (int (length c) + int n) m w = Inr (True, w')"
      using buf(1) wr sz ok r False w'(1) lc k unfolding tot by (simp del: of_int_of_nat_eq add: of_nat_diff)
    with "Suc.prems"(1) w'(2,3) lc k show ?thesis by simp
  qed
qed simp

lemma shift_arith:
  fixes x y r n :: nat
  assumes "int y = (if r \<le> x then int x - int r else int x - int r + 2 ^ 64)" "r \<le> n" "n \<le> 2 ^ 63"
  shows "y < n - r \<longleftrightarrow> r \<le> x \<and> x < n" "r \<le> x \<Longrightarrow> y = x - r"
  using assms by (auto split: if_splits)

lemma shift_range:
  fixes x :: "64 word"
  assumes "r \<le> n" "n \<le> 2 ^ 63"
  shows "unat (x - of_nat r) < n - r \<longleftrightarrow> r \<le> unat x \<and> unat x < n"
    "r \<le> unat x \<Longrightarrow> unat (x - of_nat r) = unat x - r"
proof -
  have r: "uint (of_nat r :: 64 word) = int r" using assms
    by (simp add: uint_nat unsigned_of_nat take_bit_nat_eq_self)
  have d: "uint (x - of_nat r) = (if int r \<le> uint x then uint x - int r else uint x - int r + 2 ^ 64)"
    unfolding uint_sub_if' r by simp
  then have "int (unat (x - of_nat r)) = (if r \<le> unat x then int (unat x) - int r else int (unat x) - int r + 2 ^ 64)"
    unfolding uint_nat by (simp only: of_nat_le_iff)
  note arith = shift_arith [OF this assms]
  show "unat (x - of_nat r) < n - r \<longleftrightarrow> r \<le> unat x \<and> unat x < n" by (rule arith(1))
  show "r \<le> unat x \<Longrightarrow> unat (x - of_nat r) = unat x - r" by (rule arith(2))
qed

lemma read_all_reads:
  assumes F: "file_ok F content opened"
    and st: "opened fd w = Some (name, k)" "content name w = Some c"
    and buf: "\<And>i. i < n \<Longrightarrow> bm_bytes m (buffer + of_nat i) \<noteq> None"
    and n: "length c = k + n" "0 < n" "int_ok (int k + int n)" and fuel: "n \<le> fuel"
  obtains m' w' where "read_all fuel F fd buffer (int k) (int n) (int k + int n) m w = Inr (int k + int n, m', w')"
    "content name w' = Some c" "opened fd w' = Some (name, length c)" "bm_structs m' = bm_structs m"
    "\<And>a. bm_bytes m' a = (if unat (a - buffer) < n then Some (Some (c ! (k + unat (a - buffer)))) else bm_bytes m a)"
  using st buf n fuel
proof (induction fuel arbitrary: thesis w k buffer n m)
  case (Suc fuel)
  note st = "Suc.prems"(2,3) and buf = "Suc.prems"(4) and n = "Suc.prems"(5-7)
  have ok: "int_ok (int n)" using n(3) by (auto simp: int_ok_def INT_MIN_def)
  have sz: "unat (word_of_int (int n) :: 64 word) = n" using size_t_unat [OF ok] by simp
  have n63: "n \<le> 2 ^ 63" using ok by (simp add: int_ok_def INT_MAX_def)
  obtain r bs w1 where rd: "sys_read F fd n w = (r, bs, w1)" by (metis prod_cases3)
  from file_okD(4) [OF F st _ n(2) rd] n(1,2) have r: "1 \<le> r" "nat r \<le> n" and bs: "bs = take (nat r) (drop k c)"
    and w1: "content name w1 = Some c" "opened fd w1 = Some (name, k + nat r)" by auto
  let ?r = "nat r"
  have ri: "int ?r = r" using r(1) by simp
  have lbs: "length bs = ?r" using bs n(1) r(2) by simp
  obtain m1 where m1: "write_bytes buffer bs m = Inr m1"
    using buf r(2) lbs by (auto simp: write_bytes_def c_defined_def list_all_iff split: if_splits)
  have b1: "bm_bytes m1 a = (if unat (a - buffer) < ?r then Some (Some (c ! (k + unat (a - buffer)))) else bm_bytes m a)" for a
    unfolding write_bytes_cases(1) [OF m1] using lbs bs n(1) r(2) by auto
  have s1: "bm_structs m1 = bm_structs m" unfolding write_bytes_cases(1) [OF m1] by simp
  have ok2: "int_ok (int k + r)" "int_ok (int n - r)" using n(3) ok r by (auto simp: int_ok_def INT_MIN_def)
  show ?case
  proof (cases "r = int n")
    case True
    then have "read_all (Suc fuel) F fd buffer (int k) (int n) (int k + int n) m w = Inr (int k + int n, m1, w1)"
      using rd sz m1 ok2 n(2) by (simp del: of_int_of_nat_eq)
    with "Suc.prems"(1) w1 True s1 b1 n(1) show ?thesis by simp
  next
    case False
    have k: "0 < n - ?r" using r ri False by linarith
    have alloc: "bm_bytes m1 (buffer + of_nat ?r + of_nat i) \<noteq> None" if "i < n - ?r" for i
      unfolding b1 using buf [of "?r + i"] that by (auto simp: add.assoc)
    have tot: "int (k + ?r) + int (n - ?r) = int k + int n" using r by simp
    obtain m' w' where IH: "read_all fuel F fd (buffer + of_nat ?r) (int (k + ?r)) (int (n - ?r)) (int (k + ?r) + int (n - ?r)) m1 w1 =
        Inr (int (k + ?r) + int (n - ?r), m', w')" "content name w' = Some c" "opened fd w' = Some (name, length c)"
      "bm_structs m' = bm_structs m1"
      "\<And>a. bm_bytes m' a = (if unat (a - (buffer + of_nat ?r)) < n - ?r
         then Some (Some (c ! (k + ?r + unat (a - (buffer + of_nat ?r))))) else bm_bytes m1 a)"
    proof (rule "Suc.IH" [OF _ w1(2,1) alloc _ k])
      show "length c = k + ?r + (n - ?r)" using n(1) r(2) by simp
      show "int_ok (int (k + ?r) + int (n - ?r))" unfolding tot by (rule n(3))
      show "n - ?r \<le> fuel" using "Suc.prems"(8) r k by linarith
    qed (erule that, assumption+)
    have run: "read_all (Suc fuel) F fd buffer (int k) (int n) (int k + int n) m w = Inr (int k + int n, m', w')"
      using rd sz m1 ok2 r False IH(1) ri unfolding tot by (simp del: of_int_of_nat_eq add: of_nat_diff)
    have "bm_bytes m' a = (if unat (a - buffer) < n then Some (Some (c ! (k + unat (a - buffer)))) else bm_bytes m a)" for a
    proof -
      have eq: "a - (buffer + of_nat ?r) = (a - buffer) - of_nat ?r" by simp
      define x y where "x = unat (a - buffer)" and "y = unat ((a - buffer) - of_nat ?r)"
      note sh = shift_range [OF r(2) n63, of "a - buffer", folded x_def y_def]
      have "\<not> x < n \<Longrightarrow> \<not> x < ?r" using r(2) by linarith
      then show ?thesis unfolding IH(5) b1 eq x_def [symmetric] y_def [symmetric]
        using sh by (cases "?r \<le> x") (auto simp: not_le)
    qed
    with "Suc.prems"(1) run IH(2-4) s1 show ?thesis by simp
  qed
qed simp

text \<open>
  C14: A blob written to a file and read back is the same blob. When the system calls succeed,
  however short the transfers are, \<^verbatim>\<open>blobutils_write\<close> of a blob with at least one byte returns true
  and leaves exactly its bytes in the file, after at most as many calls as it has bytes; and
  \<^verbatim>\<open>blobutils_read\<close> at any time the file still has that content returns true and a fresh blob of the
  same length with the same bytes. Both leave the descriptor open.
\<close>

theorem blob_file_roundtrip:
  assumes F: "file_ok F content opened"
    and blob: "blob_at p m = Inr b" "b_length b = int n" "read_bytes (b_pointer b) n m = Inr bs"
    and n: "0 < n" "int_ok (int n)" "n \<le> fuel"
    and op: "open_write F name w = (fd, w0)" "fd \<noteq> -1"
  shows "\<exists>w1. blobutils_write fuel F name p m w = Inr (True, w1) \<and>
    content name w1 = Some bs \<and> opened fd w1 = Some (name, n) \<and>
    (\<forall>q m2 w2 fd2 w3. content name w2 = Some bs \<longrightarrow> blob_at q m2 \<noteq> Inl Undefined \<longrightarrow> alloc n m2 \<noteq> 0 \<longrightarrow>
       open_read F name w2 = (fd2, w3) \<longrightarrow> fd2 \<noteq> -1 \<longrightarrow>
       (\<exists>b' m' w'. blobutils_read fuel F alloc name q m2 w2 = Inr (True, m', w') \<and>
          blob_at q m' = Inr b' \<and> b_length b' = int n \<and> read_bytes (b_pointer b') n m' = Inr bs \<and>
          opened fd2 w' = Some (name, n)))"
proof -
  note w0 = file_okD(1) [OF F op]
  have len: "length bs = n" using blob(3) by (simp add: read_bytes_iff)
  obtain w1 where w1: "write_all fuel F fd (b_pointer b) 0 (int n) (int n) m w0 = Inr (True, w1)"
    "content name w1 = Some bs" "opened fd w1 = Some (name, n)"
    using write_all_writes [OF F, of fd w0 name "[]", OF _ _ blob(3) n(1) _ n(3)] w0 n(2) by auto
  have written: "blobutils_write fuel F name p m w = Inr (True, w1)"
    using op blob(1,2) w1(1) by (simp add: blobutils_write_def)
  have readable: "\<exists>b' m' w'. blobutils_read fuel F alloc name q m2 w2 = Inr (True, m', w') \<and>
      blob_at q m' = Inr b' \<and> b_length b' = int n \<and> read_bytes (b_pointer b') n m' = Inr bs \<and>
      opened fd2 w' = Some (name, n)"
    if c: "content name w2 = Some bs" and q: "blob_at q m2 \<noteq> Inl Undefined" and a: "alloc n m2 \<noteq> 0"
      and o: "open_read F name w2 = (fd2, w3)" "fd2 \<noteq> -1" for q m2 w2 fd2 w3
  proof -
    note w3 = file_okD(3) [OF F c o]
    obtain b0 where b0: "blob_at q m2 = Inr b0" using q by (auto simp: blob_at_def split: option.splits)
    have sz: "unat (word_of_int (int n) :: 64 word) = n" using size_t_unat [OF n(2)] by simp
    have stat: "signed_take_bit 31 (int n) = int n"
      using n(2) by (intro signed_take_bit_int_eq_self) (simp_all add: int_ok_def INT_MAX_def)
    let ?q = "alloc n m2" and ?b = "\<lparr>b_pointer = alloc n m2, b_length = int n\<rparr>"
    let ?m = "(snd (block_malloc alloc n m2))\<lparr>bm_structs := (bm_structs m2)(q \<mapsto> ?b)\<rparr>"
    have n64: "i < n \<Longrightarrow> i < 2 ^ 64" for i using n(2) by (simp add: int_ok_def INT_MAX_def)
    have alloc: "bm_bytes ?m (?q + of_nat i) \<noteq> None" if "i < n" for i
      using a that offset_unat [OF n64 [OF that]] by (simp add: block_malloc_def Let_def)
    obtain m' w' where r: "read_all fuel F fd2 ?q 0 (int n) (int n) ?m w3 = Inr (int n, m', w')"
      "opened fd2 w' = Some (name, n)" "bm_structs m' = bm_structs ?m"
      "\<And>a. bm_bytes m' a = (if unat (a - ?q) < n then Some (Some (bs ! unat (a - ?q))) else bm_bytes ?m a)"
      by (rule read_all_reads [OF F, of fd2 w3 name 0 bs n ?m ?q fuel]) (use w3 alloc len n in auto)
    have "read_bytes ?q n m' = Inr bs" using len offset_unat n64 by (auto simp: read_bytes_iff r(4))
    moreover have "blob_at q m' = Inr ?b" using r(3) by (simp add: blob_at_def)
    moreover have "blobutils_read fuel F alloc name q m2 w2 = Inr (True, m', w')"
      using o w3 b0 len stat sz a r(1) n(1) by (simp add: blobutils_read_def block_malloc_def Let_def del: of_int_of_nat_eq)
    ultimately show ?thesis using r(2) by auto
  qed
  show ?thesis using written w1(2,3) readable by blast
qed

text \<open>A file system that transfers half of what it is asked to, rounded up.\<close>

type_synonym half_world = "(string \<rightharpoonup> string) \<times> (int \<rightharpoonup> string \<times> nat) \<times> int"

definition half :: "nat \<Rightarrow> nat" where "half n = n - n div 2"

lemma half_bounds [simp]: "half n \<le> n" "0 < n \<Longrightarrow> 0 < half n" "k < j \<Longrightarrow> k + half (min n (j - k)) \<le> j"
  by (auto simp: half_def)

definition half_files :: "half_world file_api" where
  "half_files = \<lparr>
     open_write = (\<lambda>name (f, d, n). (\<bar>n\<bar>, (f(name \<mapsto> []), d(\<bar>n\<bar> \<mapsto> (name, 0)), \<bar>n\<bar> + 1))),
     open_read = (\<lambda>name (f, d, n). (\<bar>n\<bar>, (f, d(\<bar>n\<bar> \<mapsto> (name, 0)), \<bar>n\<bar> + 1))),
     file_stat = (\<lambda>fd (f, d, n). case d fd of None \<Rightarrow> (-1, 0) | Some (name, k) \<Rightarrow>
       (case f name of None \<Rightarrow> (-1, 0) | Some c \<Rightarrow> (0, int (length c)))),
     sys_write = (\<lambda>fd bs (f, d, n). case d fd of None \<Rightarrow> (-1, (f, d, n)) | Some (name, k) \<Rightarrow>
       (case f name of None \<Rightarrow> (-1, (f, d, n)) | Some c \<Rightarrow>
         let h = half (length bs) in (int h, (f(name \<mapsto> c @ take h bs), d(fd \<mapsto> (name, k + h)), n)))),
     sys_read = (\<lambda>fd m (f, d, n). case d fd of None \<Rightarrow> (-1, [], (f, d, n)) | Some (name, k) \<Rightarrow>
       (case f name of None \<Rightarrow> (-1, [], (f, d, n)) | Some c \<Rightarrow>
         let h = half (min m (length c - k)) in (int h, take h (drop k c), (f, d(fd \<mapsto> (name, k + h)), n))))\<rparr>"

definition half_content :: "string \<Rightarrow> half_world \<Rightarrow> string option" where "half_content name w = fst w name"
definition half_opened :: "int \<Rightarrow> half_world \<Rightarrow> (string \<times> nat) option" where "half_opened fd w = fst (snd w) fd"

lemma half_files_ok: "file_ok half_files half_content half_opened"
  unfolding file_ok_def half_files_def half_content_def half_opened_def
  by (auto simp: Let_def Suc_le_eq le_trans [OF half_bounds(1)] split: option.splits)

lemma half_open: "\<exists>fd w'. open_read half_files name w = (fd, w') \<and> fd \<noteq> -1"
  by (cases w) (simp add: half_files_def)

definition abc_mem :: blob_mem where
  "abc_mem = \<lparr>bm_bytes = (\<lambda>a. if unat (a - 100) < 3 then Some (Some (''abc'' ! unat (a - 100))) else None),
     bm_blocks = [100 \<mapsto> 3, 200 \<mapsto> 16], bm_structs = [200 \<mapsto> \<lparr>b_pointer = 100, b_length = 3\<rparr>]\<rparr>"

lemma abc_read: "read_bytes 100 3 abc_mem = Inr ''abc''"
  by (simp add: read_bytes_def abc_mem_def upt_rec)

lemma blob_file_roundtrip_witness:
  "\<exists>w1 b' m' w'. blobutils_write 3 half_files ''f'' 200 abc_mem (Map.empty, Map.empty, 3) = Inr (True, w1) \<and>
    half_content ''f'' w1 = Some ''abc'' \<and>
    blobutils_read 3 half_files (\<lambda>n m. 300) ''f'' 200 abc_mem w1 = Inr (True, m', w') \<and>
    blob_at 200 m' = Inr b' \<and> b_length b' = 3 \<and> read_bytes (b_pointer b') 3 m' = Inr ''abc''"
proof -
  let ?b = "\<lparr>b_pointer = 100, b_length = 3\<rparr>" and ?w = "(Map.empty, Map.empty, 3) :: half_world"
  have blob: "blob_at 200 abc_mem = Inr ?b" by (simp add: blob_at_def abc_mem_def)
  have len: "b_length ?b = int 3" by simp
  have rd: "read_bytes (b_pointer ?b) 3 abc_mem = Inr ''abc''" using abc_read by simp
  have ok: "int_ok (int 3)" by (simp add: int_ok_def INT_MIN_def INT_MAX_def)
  obtain w0 where op: "open_write half_files ''f'' ?w = (3, w0)" by (simp add: half_files_def)
  obtain w1 where w1: "blobutils_write 3 half_files ''f'' 200 abc_mem ?w = Inr (True, w1)" "half_content ''f'' w1 = Some ''abc''"
    and rest: "\<forall>q m2 w2 fd2 w3. half_content ''f'' w2 = Some ''abc'' \<longrightarrow> blob_at q m2 \<noteq> Inl Undefined \<longrightarrow>
       (\<lambda>n m. 300 :: 64 word) 3 m2 \<noteq> 0 \<longrightarrow> open_read half_files ''f'' w2 = (fd2, w3) \<longrightarrow> fd2 \<noteq> -1 \<longrightarrow>
       (\<exists>b' m' w'. blobutils_read 3 half_files (\<lambda>n m. 300) ''f'' q m2 w2 = Inr (True, m', w') \<and>
          blob_at q m' = Inr b' \<and> b_length b' = int 3 \<and> read_bytes (b_pointer b') 3 m' = Inr ''abc'' \<and>
          half_opened fd2 w' = Some (''f'', 3))"
    using blob_file_roundtrip [OF half_files_ok blob len rd _ ok _ op, of 3 "\<lambda>n m. 300"] by auto
  obtain fd2 w3 where "open_read half_files ''f'' w1 = (fd2, w3)" "fd2 \<noteq> -1" using half_open by blast
  with rest [rule_format, OF w1(2), of 200 abc_mem fd2 w3] blob w1 show ?thesis by auto
qed

text \<open>
  The file is wrong without notice when a call fails after part of the blob was written: the last
  byte is written twice. A blob without bytes cannot be written, and of a file with more than
  4 GiB only the remainder is read.
\<close>

definition scripted_files :: "(string \<times> int list) file_api" where
  "scripted_files = \<lparr>open_write = (\<lambda>name (c, rs). (3, ([], rs))), open_read = (\<lambda>name w. (3, w)),
     file_stat = (\<lambda>fd (c, rs). (0, int (length c))),
     sys_write = (\<lambda>fd bs (c, rs). (hd rs, (c @ take (nat (hd rs)) bs, tl rs))),
     sys_read = (\<lambda>fd n (c, rs). (hd rs, take (nat (hd rs)) c, (drop (nat (hd rs)) c, tl rs)))\<rparr>"

lemma abc_reads: "read_bytes 100 3 abc_mem = Inr ''abc''" "read_bytes 102 1 abc_mem = Inr ''c''"
    "read_bytes 101 2 abc_mem = Inr ''bc''"
  by (simp_all add: read_bytes_def abc_mem_def upt_rec)

lemma blob_write_interrupted:
  "blobutils_write (Suc (Suc (Suc fuel))) scripted_files ''f'' 200 abc_mem ([], [2, -1, 2]) = Inr (True, (''abbc'', []))"
proof -
  have "blob_at 200 abc_mem = Inr \<lparr>b_pointer = 100, b_length = 3\<rparr>" by (simp add: blob_at_def abc_mem_def)
  then show ?thesis
    using abc_reads by (simp add: blobutils_write_def scripted_files_def c_int_def int_ok_def INT_MIN_def INT_MAX_def)
qed

lemma blob_write_empty:
  assumes "open_write F name w = (fd, w0)" "fd \<noteq> -1" "blob_at p m = Inr b" "b_length b = 0" "sys_write F fd [] w0 = (0, w1)"
  shows "blobutils_write (Suc fuel) F name p m w = Inr (False, w1)"
  using assms by (simp add: blobutils_write_def read_bytes_def)

lemma blob_read_wraps: "signed_take_bit 31 (2 ^ 32 + 5 :: int) = 5"
  by simp

end
