(* ===== verification/Tcl_Util.thy ===== *)
theory Tcl_Util
  imports Tcl_Api "HOL-Library.Word"
begin

text \<open>
  The helpers of \<^verbatim>\<open>src/tcl/util.c\<close> and \<^verbatim>\<open>src/tcl/util.h\<close> for commands (errors, arrays, variables,
  dictionaries, conversions), and \<^verbatim>\<open>turbine::c::sync_exec\<close> with \<^verbatim>\<open>src/turbine/sync_exec.c\<close>, which runs a
  shell command. Formatting by \<^verbatim>\<open>printf\<close> is done by the caller: a message is given as the text it
  renders to. \<^verbatim>\<open>turbine_tcl_get_integer\<close>, which nothing calls, is not modelled: it hands Tcl an
  object on the stack that was never initialised.
\<close>

section \<open>Errors\<close>

text \<open>
  The interpreter: evaluation of a command of several words, which gives whether the code is
  \<^verbatim>\<open>TCL_OK\<close>, variables, whose setting may fail, and the error information.
\<close>

record ('obj, 'w) interp_api =
  eval_objv :: "'obj list \<Rightarrow> 'w \<Rightarrow> bool \<times> 'w"
  set_var2 :: "string \<Rightarrow> 'obj \<Rightarrow> 'w \<Rightarrow> 'w option"
  add_error_info :: "string \<Rightarrow> 'w \<Rightarrow> 'w"

definition turbine_user_error ::
    "('obj, 'f, 'z) tcl_api_scheme \<Rightarrow> ('obj, 'w) interp_api \<Rightarrow> 'obj list \<Rightarrow> (unit, 'w) cmd" where
  "turbine_user_error A I args w =
     (let (ok, w) = eval_objv I (new_string A ''::turbine::turbine_error'' # args) w in
      (tcl_condition ok (Inr ()), w))"

text \<open>\<open>msg\<close> is what \<^verbatim>\<open>vasprintf\<close> allocates, if it succeeds.\<close>

definition turbine_user_errorv ::
    "('obj, 'f, 'z) tcl_api_scheme \<Rightarrow> ('obj, 'w) interp_api \<Rightarrow> string \<Rightarrow> string option \<Rightarrow> (unit, 'w) cmd" where
  "turbine_user_errorv A I tcl_version msg w =
     (if tcl_version = ''8.5'' then (Inl Tcl_Error, w)
      else case msg of
        None \<Rightarrow> (Inl Abort, w)
      | Some msg \<Rightarrow>
          (Inl Tcl_Error, snd (eval_objv I [new_string A ''::turbine::turbine_error'', new_string A msg] w)))"

text \<open>
  The message of \<^verbatim>\<open>TCL_CONDITION\<close> is put together in a buffer by \<^verbatim>\<open>sprintf\<close>; what does not fit
  is written behind it.
\<close>

definition TCL_CONDITION_MSG_MAX :: nat where "TCL_CONDITION_MSG_MAX = 1024"

definition turbine_tcl_condition_failed ::
    "('obj, 'f, 'z) tcl_api_scheme \<Rightarrow> ('obj, 'w) interp_api \<Rightarrow> 'obj \<Rightarrow> string \<Rightarrow> (unit, 'w) cmd" where
  "turbine_tcl_condition_failed A I command msg w =
     (let commandname = tcl_string A command; nl = CHR 0x0A;
          buffer = [nl] @ ''error: '' @ commandname @ '': '' @ msg @ [nl, nl] in
      if length buffer + 1 \<le> TCL_CONDITION_MSG_MAX then (Inr (), add_error_info I buffer w)
      else (Inl Undefined, w))"

section \<open>Arrays, lists, variables and dictionaries\<close>

text \<open>The arrays have room for \<open>mx\<close> elements. On a number that is none the elements before it are filled in.\<close>

fun wide_entries :: "('obj, 'f, 'z) tcl_api_scheme \<Rightarrow> 'obj list \<Rightarrow> int list \<Rightarrow> turbine_code \<times> int list" where
  "wide_entries A [] output = (TURBINE_SUCCESS, output)"
| "wide_entries A (e # es) output =
     (case tcl_wide A e of None \<Rightarrow> (TURBINE_ERROR_NUMBER_FORMAT, output) | Some i \<Rightarrow> wide_entries A es (output @ [i]))"

definition turbine_tcl_long_array ::
    "('obj, 'f, 'z) tcl_api_scheme \<Rightarrow> 'obj \<Rightarrow> nat \<Rightarrow> (turbine_code \<times> int list \<times> nat) res" where
  "turbine_tcl_long_array A lst mx =
     (case tcl_list A lst of
        None \<Rightarrow> Inl Abort
      | Some entry \<Rightarrow> c_assert (length entry < mx)
          (let (code, output) = wide_entries A entry [] in Inr (code, output, length entry)))"

definition turbine_tcl_string_array ::
    "('obj, 'f, 'z) tcl_api_scheme \<Rightarrow> 'obj \<Rightarrow> nat \<Rightarrow> (turbine_code \<times> string list \<times> nat) res" where
  "turbine_tcl_string_array A lst mx =
     (case tcl_list A lst of
        None \<Rightarrow> Inl Abort
      | Some entry \<Rightarrow> c_assert (length entry < mx)
          (Inr (TURBINE_SUCCESS, map (tcl_string A) entry, length entry)))"

definition turbine_tcl_list_new :: "('obj, 'f, 'z) tcl_api_scheme \<Rightarrow> string list \<Rightarrow> 'obj" where
  "turbine_tcl_list_new A strings = new_list A (map (new_string A) strings)"

definition turbine_tcl_list_from_array_ints :: "('obj, 'f, 'z) tcl_api_scheme \<Rightarrow> int list \<Rightarrow> 'obj" where
  "turbine_tcl_list_from_array_ints A vals = new_list A (map (new_wide A) vals)"

definition set_variable :: "('obj, 'w) interp_api \<Rightarrow> string \<Rightarrow> 'obj \<Rightarrow> 'w \<Rightarrow> 'w res" where
  "set_variable I name v w = (case set_var2 I name v w of None \<Rightarrow> Inl Abort | Some w \<Rightarrow> Inr w)"

definition turbine_tcl_set_string ::
    "('obj, 'f, 'z) tcl_api_scheme \<Rightarrow> ('obj, 'w) interp_api \<Rightarrow> string \<Rightarrow> string \<Rightarrow> 'w \<Rightarrow> 'w res" where
  "turbine_tcl_set_string A I name v w = set_variable I name (new_string A v) w"

definition turbine_tcl_set_integer ::
    "('obj, 'f, 'z) tcl_api_scheme \<Rightarrow> ('obj, 'w) interp_api \<Rightarrow> string \<Rightarrow> int \<Rightarrow> 'w \<Rightarrow> 'w res" where
  "turbine_tcl_set_integer A I name v w = set_variable I name (new_wide A v) w"

definition turbine_tcl_set_long ::
    "('obj, 'f, 'z) tcl_api_scheme \<Rightarrow> ('obj, 'w) interp_api \<Rightarrow> string \<Rightarrow> int \<Rightarrow> 'w \<Rightarrow> 'w res" where
  "turbine_tcl_set_long A I name v w = set_variable I name (new_wide A v) w"

definition turbine_tcl_set_wideint ::
    "('obj, 'f, 'z) tcl_api_scheme \<Rightarrow> ('obj, 'w) interp_api \<Rightarrow> string \<Rightarrow> int \<Rightarrow> 'w \<Rightarrow> 'w res" where
  "turbine_tcl_set_wideint A I name v w = set_variable I name (new_wide A v) w"

definition turbine_tcl_dict_put :: "('obj, 'f, 'z) tcl_api_scheme \<Rightarrow> 'obj \<Rightarrow> string \<Rightarrow> 'obj \<Rightarrow> 'obj res" where
  "turbine_tcl_dict_put A dict key v =
     (case dict_insert A dict (new_string A key) v of None \<Rightarrow> Inl Abort | Some d \<Rightarrow> Inr d)"

text \<open>A key that is not there gives the null pointer.\<close>

definition turbine_tcl_dict_get :: "('obj, 'f, 'z) tcl_api_scheme \<Rightarrow> 'obj \<Rightarrow> string \<Rightarrow> 'obj option res" where
  "turbine_tcl_dict_get A dict key =
     (case dict_find A dict (new_string A key) of None \<Rightarrow> Inl Abort | Some v \<Rightarrow> Inr v)"

section \<open>Conversions of ADLB's types\<close>

definition Tcl_NewADLBInt :: "('obj, 'f, 'z) tcl_api_scheme \<Rightarrow> int \<Rightarrow> 'obj" where "Tcl_NewADLBInt A val = new_wide A val"
definition Tcl_NewADLB_ID :: "('obj, 'f, 'z) tcl_api_scheme \<Rightarrow> int \<Rightarrow> 'obj" where "Tcl_NewADLB_ID A val = new_wide A val"
definition Tcl_NewPtr :: "('obj, 'f, 'z) tcl_api_scheme \<Rightarrow> 64 word \<Rightarrow> 'obj" where "Tcl_NewPtr A ptr = new_wide A (sint ptr)"
definition Tcl_GetADLBInt :: "('obj, 'f, 'z) tcl_api_scheme \<Rightarrow> 'obj \<Rightarrow> int res" where "Tcl_GetADLBInt A obj = tcl_get (tcl_wide A obj)"
definition Tcl_GetADLB_ID :: "('obj, 'f, 'z) tcl_api_scheme \<Rightarrow> 'obj \<Rightarrow> int res" where "Tcl_GetADLB_ID A obj = tcl_get (tcl_wide A obj)"

definition Tcl_GetPtr :: "('obj, 'f, 'z) tcl_api_scheme \<Rightarrow> 'obj \<Rightarrow> (64 word) res" where
  "Tcl_GetPtr A obj = tcl_check (tcl_get (tcl_long A obj)) (\<lambda>ptrVal. Inr (word_of_int ptrVal))"

text \<open>
  The converter of subscripts, which nothing calls. The result is where the key starts in the
  text and its length, \<open>None\<close> for no subscript. The length counts the terminator in one form and
  not in the other.
\<close>

definition adlb_subscript_convert :: "string \<Rightarrow> nat \<Rightarrow> (nat \<times> nat) option res" where
  "adlb_subscript_convert str len =
     (if len = 0 then Inr None
      else c_defined (len \<le> length str)
        (if hd str = CHR ''.'' then Inr (Some (1, len))
         else if hd str = CHR ''[''
         then case strtol 10 (tl str) of
             None \<Rightarrow> Inl Tcl_Error
           | Some (sublen, _, endstr) \<Rightarrow>
               tcl_condition (endstr \<noteq> [] \<and> hd endstr = CHR '']'' \<and> 0 \<le> sublen)
                 (let sub_start = length str - length endstr + 1 in
                  tcl_condition (sublen = int len - int sub_start) (Inr (Some (sub_start, nat sublen))))
         else Inl Tcl_Error))"

section \<open>Shell commands\<close>

text \<open>The exit status in the result of \<^verbatim>\<open>system\<close>: bits 8 to 15.\<close>

definition WEXITSTATUS :: "int \<Rightarrow> int" where "WEXITSTATUS status = status div 256 mod 256"

definition exec_system :: "(string \<Rightarrow> 'w \<Rightarrow> int \<times> 'w) \<Rightarrow> string \<Rightarrow> 'w \<Rightarrow> bool \<times> int \<times> 'w" where
  "exec_system sys cmd w = (let (status, w) = sys cmd w in (status = 0, WEXITSTATUS status, w))"

text \<open>Every word is put in double quotes, but for redirections.\<close>

definition sync_exec_word :: "string \<Rightarrow> string" where
  "sync_exec_word s =
     (if (s \<noteq> [] \<and> (hd s = CHR ''>'' \<or> hd s = CHR ''<'')) \<or> s = ''2>'' then s @ '' ''
      else [CHR 0x22] @ s @ [CHR 0x22] @ '' '')"

definition sync_exec_line :: "string list \<Rightarrow> string" where
  "sync_exec_line args = concat (map sync_exec_word args)"

text \<open>Without arguments the buffer is used uninitialised. \<open>new_errors\<close> says that Tcl is newer than 8.5.\<close>

definition Sync_Exec_Cmd ::
    "('obj, 'f, 'z) tcl_api_scheme \<Rightarrow> ('obj, 'w) interp_api \<Rightarrow> (string \<Rightarrow> 'w \<Rightarrow> int \<times> 'w) \<Rightarrow> (int \<Rightarrow> string) \<Rightarrow> bool \<Rightarrow>
      'obj list \<Rightarrow> (unit, 'w) cmd" where
  "Sync_Exec_Cmd A I sys number new_errors objv w =
     (let cmd = sync_exec_line (map (tcl_string A) (tl objv)) in
      if tl objv = [] \<or> 16 * 1024 < length cmd + 1 then (Inl Undefined, w)
      else let (_, exitcode, w) = exec_system sys cmd w;
               msg = ''shell: Command failed with exit code: '' @ number exitcode in
        if exitcode \<noteq> 0
        then if new_errors then turbine_user_error A I [new_string A msg] w
             else (Inl Tcl_Error, add_error_info I msg w)
        else (Inr (), w))"

section \<open>What the shell is given\<close>

text \<open>
  What is relied on in the shell behind \<^verbatim>\<open>system\<close> is how POSIX has it read a line of double-quoted words
  and redirection operators: in double quotes all characters but the dollar sign, the
  backquote, the backslash and the double quote stand for themselves. \<open>exec tokens w\<close> is what the
  command made of these tokens does; nothing is said of other lines.
\<close>

datatype sh_token = Word string | Redirect string

fun sh_text :: "sh_token \<Rightarrow> string" where
  "sh_text (Word s) = [CHR 0x22] @ s @ [CHR 0x22] @ '' ''"
| "sh_text (Redirect s) = s @ '' ''"

fun literal_token :: "sh_token \<Rightarrow> bool" where
  "literal_token (Word s) \<longleftrightarrow> set s \<inter> {CHR 0x22, CHR ''$'', CHR 0x5C, CHR 0x60} = {}"
| "literal_token (Redirect s) \<longleftrightarrow> s \<in> {''<'', ''>'', ''>>'', ''2>''}"

definition sh_quoting :: "(string \<Rightarrow> 'w \<Rightarrow> int \<times> 'w) \<Rightarrow> (sh_token list \<Rightarrow> 'w \<Rightarrow> int \<times> 'w) \<Rightarrow> bool" where
  "sh_quoting sys exec \<longleftrightarrow> (\<forall>ts w. list_all literal_token ts \<longrightarrow> sys (concat (map sh_text ts)) w = exec ts w)"

text \<open>What an argument stands for, if it is one of those that the quoting of the code is made for.\<close>

definition token_of :: "string \<Rightarrow> sh_token" where
  "token_of s = (if s \<in> {''<'', ''>'', ''>>'', ''2>''} then Redirect s else Word s)"

definition quotable :: "string \<Rightarrow> bool" where
  "quotable s \<longleftrightarrow> literal_token (token_of s) \<and> (s \<in> {''<'', ''>'', ''>>'', ''2>''} \<or> s = [] \<or> hd s \<notin> {CHR ''<'', CHR ''>''})"

lemma sync_exec_line_tokens:
  "list_all quotable args \<Longrightarrow> sync_exec_line args = concat (map sh_text (map token_of args))"
  by (induction args) (auto simp: sync_exec_line_def sync_exec_word_def token_of_def quotable_def)

lemma length_sync_exec_line: "length (sync_exec_line args) \<le> sum_list (map (\<lambda>s. length s + 3) args)"
  by (induction args) (auto simp: sync_exec_line_def sync_exec_word_def)


definition no_interp :: "(val, string) interp_api" where
  "no_interp = \<lparr>eval_objv = (\<lambda>args w. (False, w)), set_var2 = (\<lambda>name v w. None), add_error_info = (\<lambda>msg w. w)\<rparr>"


text \<open>An argument with a quote can end the word and run another command.\<close>

lemma sync_exec_injection:
  "sync_exec_line [''echo'', ''x'' @ [CHR 0x22] @ ''; rm -r .; '' @ [CHR 0x22]] =
     [CHR 0x22] @ ''echo'' @ [CHR 0x22] @ '' '' @ [CHR 0x22] @ ''x'' @ [CHR 0x22] @ ''; rm -r .; '' @ [CHR 0x22, CHR 0x22] @ '' ''"
  by (simp add: sync_exec_line_def sync_exec_word_def)

end
