(* ===== verification/Adlb_Init.thy ===== *)
theory Adlb_Init
  imports Data_Correct
begin

text \<open>
  Setting ADLB up and shutting it down in \<^verbatim>\<open>src/tcl/adlb/tcl-adlb.c\<close>, in the build with XLB: the
  communicator, \<^verbatim>\<open>adlb::init\<close>, the queries on ranks and sizes, barriers, the server, and
  \<^verbatim>\<open>adlb::finalize\<close>. MPI and ADLB are parameters that act on a world \<open>'w\<close>; a communicator is
  the integer \<^verbatim>\<open>MPI_Comm\<close> is converted to. Start-up of the debugging output is not part of
  this theory.
\<close>

section \<open>State and interface\<close>

text \<open>The static variables of the file.\<close>

record ('w, 't, 'obj) adlb_process =
  ap_comm_init :: bool
  ap_must_free :: bool
  ap_init :: bool
  ap_comm :: int
  ap_comm_size :: int
  ap_comm_rank :: int
  ap_workers :: int
  ap_servers :: int
  ap_am_server :: bool
  ap_worker_comm :: int
  ap_worker_rank :: int
  ap_names :: "'obj field_name_objs"
  ap_world :: "('w, 't) adlb_world"

text \<open>
  MPI. The size and the rank are \<open>None\<close> for what is no communicator, which leaves the variable as
  it is. \<open>comm_at\<close> is the communicator at an address given as a number.
\<close>

record 'w mpi_api =
  mpi_init :: "'w \<Rightarrow> bool \<times> 'w"
  comm_dup_world :: "'w \<Rightarrow> int \<times> 'w"
  comm_size :: "int \<Rightarrow> 'w \<Rightarrow> int option"
  comm_rank :: "int \<Rightarrow> 'w \<Rightarrow> int option"
  comm_free :: "int \<Rightarrow> 'w \<Rightarrow> 'w"
  comm_at :: "int \<Rightarrow> 'w \<Rightarrow> int option"
  mpi_barrier :: "int \<Rightarrow> 'w \<Rightarrow> bool \<times> 'w"
  mpi_finalize :: "'w \<Rightarrow> 'w"
  comm_null :: int

text \<open>ADLB says of a process whether it is a server, and gives the communicator of the workers.\<close>

record 'w adlb_setup_api =
  xlb_init :: "int \<Rightarrow> int list \<Rightarrow> int \<Rightarrow> 'w \<Rightarrow> (adlb_code \<times> bool \<times> int) \<times> 'w"
  xlb_server :: "int \<Rightarrow> 'w \<Rightarrow> adlb_code \<times> 'w"
  xlb_finalize :: "'w \<Rightarrow> adlb_code \<times> 'w"
  xlb_fail :: "int \<Rightarrow> 'w \<Rightarrow> 'w"
  xlb_abort :: "int \<Rightarrow> 'w \<Rightarrow> 'w"
  comm_workers :: "'w \<Rightarrow> int"
  comm_leaders :: "'w \<Rightarrow> int"

definition out :: "('w, 't, 'obj) adlb_process \<Rightarrow> 'w" where "out p = aw_adlb (ap_world p)"

definition set_out :: "'w \<Rightarrow> ('w, 't, 'obj) adlb_process \<Rightarrow> ('w, 't, 'obj) adlb_process" where
  "set_out w p = p\<lparr>ap_world := (ap_world p)\<lparr>aw_adlb := w\<rparr>\<rparr>"

definition out_call :: "('w \<Rightarrow> 'a \<times> 'w) \<Rightarrow> ('a, ('w, 't, 'obj) adlb_process) cmd" where
  "out_call f p = (let (a, w) = f (out p) in (Inr a, set_out w p))"

definition update :: "(('w, 't, 'obj) adlb_process \<Rightarrow> ('w, 't, 'obj) adlb_process) \<Rightarrow> (unit, ('w, 't, 'obj) adlb_process) cmd" where
  "update f p = (Inr (), f p)"

lemma process_cmds [simp]:
  "cmd_bind (out_call f) k p = (let (a, w) = f (out p) in k a (set_out w p))"
  "cmd_bind (update g) l p = l () (g p)"
  by (simp_all add: cmd_bind_def out_call_def update_def Let_def split: prod.split)

section \<open>The communicator\<close>

text \<open>A call that fails leaves the variable as it was.\<close>

definition set_comm :: "'w mpi_api \<Rightarrow> int \<Rightarrow> ('w, 't, 'obj) adlb_process \<Rightarrow> ('w, 't, 'obj) adlb_process" where
  "set_comm M comm p =
     p\<lparr>ap_comm := comm,
       ap_comm_size := (case comm_size M comm (out p) of None \<Rightarrow> ap_comm_size p | Some n \<Rightarrow> n),
       ap_comm_rank := (case comm_rank M comm (out p) of None \<Rightarrow> ap_comm_rank p | Some n \<Rightarrow> n),
       ap_comm_init := True\<rparr>"

definition adlb_setup_comm :: "'w mpi_api \<Rightarrow> int \<Rightarrow> (unit, ('w, 't, 'obj) adlb_process) cmd" where
  "adlb_setup_comm M comm p =
     cmd_bind (cmd_condition (\<not> ap_comm_init p)) (\<lambda>_.
       if comm = 0
       then cmd_bind (update (\<lambda>p. p\<lparr>ap_must_free := True\<rparr>)) (\<lambda>_.
            cmd_bind (out_call (mpi_init M)) (\<lambda>ok.
            cmd_bind (cmd_do (c_assert ok (Inr ()))) (\<lambda>_.
            cmd_bind (out_call (comm_dup_world M)) (\<lambda>c. update (set_comm M c)))))
       else (\<lambda>p. case comm_at M comm (out p) of None \<Rightarrow> (Inl Undefined, p) | Some c \<Rightarrow> update (set_comm M c) p)) p"

text \<open>The pointer to a communicator is null when the argument is not given.\<close>

definition comm_arg :: "('obj, 'f, 'z) tcl_api_scheme \<Rightarrow> 'obj list \<Rightarrow> nat \<Rightarrow> int res" where
  "comm_arg A objv i = (if i < length objv then tcl_get (tcl_long A (objv ! i)) else Inr 0)"

definition ADLB_Init_Comm_Cmd ::
    "('obj, 'f, 'z) tcl_api_scheme \<Rightarrow> 'w mpi_api \<Rightarrow> 'obj list \<Rightarrow> (unit, ('w, 't, 'obj) adlb_process) cmd" where
  "ADLB_Init_Comm_Cmd A M objv =
     cmd_bind (cmd_condition (length objv = 1 \<or> length objv = 2)) (\<lambda>_.
     cmd_bind (cmd_do (comm_arg A objv 1)) (\<lambda>adlb_comm_ptr. adlb_setup_comm M adlb_comm_ptr))"

section \<open>Starting ADLB\<close>

text \<open>\<open>set_constants\<close> sets the variables of the namespace, \<^verbatim>\<open>set_namespace_constants\<close>.\<close>

definition adlb_constants :: "int \<Rightarrow> int \<Rightarrow> int \<Rightarrow> (string \<times> int) list" where
  "adlb_constants success rank_any null_id =
     [(''::adlb::SUCCESS'', success), (''::adlb::RANK_ANY'', rank_any), (''::adlb::NULL_ID'', null_id)]"

definition ADLB_Init_Cmd ::
    "('obj, 'f, 'z) tcl_api_scheme \<Rightarrow> 'w mpi_api \<Rightarrow> 'w adlb_setup_api \<Rightarrow> ('t, string, int) table_api \<Rightarrow>
      ('w \<Rightarrow> 'w) \<Rightarrow> 'obj list \<Rightarrow> (unit, ('w, 't, 'obj) adlb_process) cmd" where
  "ADLB_Init_Cmd A M X T set_constants objv p =
     cmd_bind (cmd_condition (length objv = 3 \<or> length objv = 4)) (\<lambda>_.
     cmd_bind (cmd_condition (\<not> ap_init p)) (\<lambda>_.
     cmd_bind (cmd_do (tcl_get (tcl_int A (objv ! 1)))) (\<lambda>servers.
     cmd_bind (cmd_do (tcl_get (tcl_int A (objv ! 2)))) (\<lambda>ntypes.
     cmd_bind (cmd_do (c_defined (0 < ntypes) (Inr ()))) (\<lambda>_.
     cmd_bind (update (\<lambda>p. p\<lparr>ap_world := (ap_world p)\<lparr>aw_cache := tbl_init T 16\<rparr>, ap_names := field_name_objs_init\<rparr>)) (\<lambda>_.
     cmd_bind (cmd_do (comm_arg A objv 3)) (\<lambda>adlb_comm_ptr.
     cmd_bind (\<lambda>p. if ap_comm_init p then (Inr (), p) else adlb_setup_comm M adlb_comm_ptr p) (\<lambda>_ p.
     cmd_bind (cmd_do (c_int (ap_comm_size p - servers))) (\<lambda>workers.
     cmd_bind (out_call (xlb_init X servers (map int [0..<nat ntypes]) (ap_comm p))) (\<lambda>(rc, am_server, worker_comm).
     cmd_bind (cmd_condition (rc = ADLB_SUCCESS)) (\<lambda>_.
       update (\<lambda>p. set_out (set_constants (out p))
         (p\<lparr>ap_am_server := am_server, ap_worker_comm := worker_comm,
            ap_worker_rank := (if am_server then ap_worker_rank p
              else case comm_rank M worker_comm (out p) of None \<Rightarrow> ap_worker_rank p | Some r \<Rightarrow> r),
            ap_workers := workers, ap_servers := servers, ap_init := True\<rparr>))))) p)))))))) p"

section \<open>Running\<close>

definition ADLB_Server_Cmd :: "'w adlb_setup_api \<Rightarrow> 'obj list \<Rightarrow> (unit, ('w, 't, 'obj) adlb_process) cmd" where
  "ADLB_Server_Cmd X objv p =
     cmd_bind (cmd_condition (ap_init p)) (\<lambda>_.
     cmd_bind (cmd_condition (ap_am_server p)) (\<lambda>_.
     cmd_bind (out_call (xlb_server X (100 * 1024 * 1024))) (\<lambda>rc. cmd_condition (rc = ADLB_SUCCESS)))) p"

definition ADLB_Barrier_Cmd ::
    "('obj, 'f, 'z) tcl_api_scheme \<Rightarrow> 'w mpi_api \<Rightarrow> 'obj list \<Rightarrow> (unit, ('w, 't, 'obj) adlb_process) cmd" where
  "ADLB_Barrier_Cmd A M objv =
     cmd_bind (cmd_condition (length objv = 2)) (\<lambda>_.
     cmd_bind (cmd_do (tcl_get (tcl_int A (objv ! 1)))) (\<lambda>comm.
     cmd_bind (out_call (mpi_barrier M comm)) (\<lambda>ok. cmd_do (c_assert ok (Inr ())))))"

definition ADLB_Worker_Barrier_Cmd ::
    "'w mpi_api \<Rightarrow> 'w adlb_setup_api \<Rightarrow> 'obj list \<Rightarrow> (unit, ('w, 't, 'obj) adlb_process) cmd" where
  "ADLB_Worker_Barrier_Cmd M X objv =
     cmd_bind (cmd_condition (length objv = 1)) (\<lambda>_.
     cmd_bind (\<lambda>p. out_call (mpi_barrier M (comm_workers X (out p))) p) (\<lambda>ok. cmd_do (c_assert ok (Inr ()))))"

section \<open>Queries\<close>

text \<open>A query is a function of the state. The rank of what is no communicator is -1.\<close>

definition ADLB_CommRank_Cmd ::
    "('obj, 'f, 'z) tcl_api_scheme \<Rightarrow> 'w mpi_api \<Rightarrow> 'obj list \<Rightarrow> ('w, 't, 'obj) adlb_process \<Rightarrow> int res" where
  "ADLB_CommRank_Cmd A M objv p =
     (if length objv = 1 then tcl_condition (ap_comm_init p) (Inr (ap_comm_rank p))
      else if length objv = 2
      then tcl_check (tcl_get (tcl_int A (objv ! 1))) (\<lambda>comm.
             Inr (case comm_rank M comm (out p) of None \<Rightarrow> -1 | Some r \<Rightarrow> r))
      else Inl Tcl_Error)"

text \<open>The size of what is no communicator is an uninitialised variable.\<close>

definition ADLB_CommSize_Cmd ::
    "('obj, 'f, 'z) tcl_api_scheme \<Rightarrow> 'w mpi_api \<Rightarrow> 'obj list \<Rightarrow> ('w, 't, 'obj) adlb_process \<Rightarrow> int res" where
  "ADLB_CommSize_Cmd A M objv p =
     tcl_condition (length objv = 2)
       (tcl_check (tcl_get (tcl_int A (objv ! 1))) (\<lambda>comm.
          case comm_size M comm (out p) of None \<Rightarrow> Inl Undefined | Some n \<Rightarrow> Inr n))"

definition ADLB_Worker_Rank_Cmd :: "('w, 't, 'obj) adlb_process \<Rightarrow> int res" where
  "ADLB_Worker_Rank_Cmd p = tcl_condition (ap_init p) (Inr (ap_worker_rank p))"

definition ADLB_AmServer_Cmd :: "('w, 't, 'obj) adlb_process \<Rightarrow> bool res" where
  "ADLB_AmServer_Cmd p = tcl_condition (ap_init p) (Inr (ap_am_server p))"

definition ADLB_Size_Cmd :: "('w, 't, 'obj) adlb_process \<Rightarrow> int res" where
  "ADLB_Size_Cmd p = tcl_condition (ap_comm_init p) (Inr (ap_comm_size p))"

definition ADLB_Servers_Cmd :: "('w, 't, 'obj) adlb_process \<Rightarrow> int res" where
  "ADLB_Servers_Cmd p = tcl_condition (ap_init p) (Inr (ap_servers p))"

definition ADLB_Workers_Cmd :: "('w, 't, 'obj) adlb_process \<Rightarrow> int res" where
  "ADLB_Workers_Cmd p = tcl_condition (ap_init p) (Inr (ap_workers p))"

definition ADLB_GetCommNull_Cmd :: "'w mpi_api \<Rightarrow> int" where "ADLB_GetCommNull_Cmd M = comm_null M"

definition ADLB_GetCommLeaders_Cmd :: "'w adlb_setup_api \<Rightarrow> ('w, 't, 'obj) adlb_process \<Rightarrow> int" where
  "ADLB_GetCommLeaders_Cmd X p = comm_leaders X (out p)"

definition ADLB_GetCommWorkers_Cmd :: "'w adlb_setup_api \<Rightarrow> ('w, 't, 'obj) adlb_process \<Rightarrow> int" where
  "ADLB_GetCommWorkers_Cmd X p = comm_workers X (out p)"

section \<open>The end\<close>

definition ADLB_Fail_Cmd :: "'w adlb_setup_api \<Rightarrow> (unit, ('w, 't, 'obj) adlb_process) cmd" where
  "ADLB_Fail_Cmd X = update (\<lambda>p. set_out (xlb_fail X 1 (out p)) p)"

definition ADLB_Abort_Cmd :: "'w adlb_setup_api \<Rightarrow> (unit, ('w, 't, 'obj) adlb_process) cmd" where
  "ADLB_Abort_Cmd X = update (\<lambda>p. set_out (xlb_abort X 1 (out p)) p)"

definition release_comm :: "'w mpi_api \<Rightarrow> ('w, 't, 'obj) adlb_process \<Rightarrow> ('w, 't, 'obj) adlb_process" where
  "release_comm M p =
     (if ap_must_free p then (set_out (comm_free M (ap_comm p) (out p)) p)\<lparr>ap_comm := comm_null M\<rparr> else p)
       \<lparr>ap_comm_init := False, ap_init := False\<rparr>"

definition end_mpi :: "'w mpi_api \<Rightarrow> bool \<Rightarrow> ('w, 't, 'obj) adlb_process \<Rightarrow> ('w, 't, 'obj) adlb_process" where
  "end_mpi M b p = (if b then set_out (mpi_finalize M (out p)) p else p)"

text \<open>
  The names are released and ADLB is finalised before the number of arguments is looked at. The
  argument is used uninitialised when it is no boolean. \<open>field_count\<close> is ADLB's number of fields of
  a struct type.
\<close>

definition ADLB_Finalize_Cmd ::
    "('obj, 'f, 'z) tcl_api_scheme \<Rightarrow> 'w mpi_api \<Rightarrow> 'w adlb_setup_api \<Rightarrow> ('t, string, int) table_api \<Rightarrow>
      (nat \<Rightarrow> nat option) \<Rightarrow> 'obj list \<Rightarrow> (unit, ('w, 't, 'obj) adlb_process) cmd" where
  "ADLB_Finalize_Cmd A M X T field_count objv p =
     cmd_bind (cmd_do (field_name_objs_finalize field_count (ap_names p))) (\<lambda>(_, names).
     cmd_bind (update (\<lambda>p. p\<lparr>ap_names := names\<rparr>)) (\<lambda>_.
     cmd_bind (out_call (xlb_finalize X)) (\<lambda>_.
     cmd_bind (cmd_condition (length objv = 2)) (\<lambda>_.
     cmd_bind (update (release_comm M)) (\<lambda>_.
     cmd_bind (cmd_do (case tcl_boolean A (objv ! 1) of None \<Rightarrow> Inl Undefined | Some b \<Rightarrow> Inr b)) (\<lambda>b.
     cmd_bind (update (end_mpi M b)) (\<lambda>_ p.
       (case blob_cache_finalize T (ap_world p) of (r, w) \<Rightarrow> (r, p\<lparr>ap_world := w\<rparr>))))))))) p"

section \<open>One life of ADLB\<close>

lemma process_Inr:
  "out_call f p = (Inr a, p1) \<longleftrightarrow> (\<exists>w. f (out p) = (a, w) \<and> p1 = set_out w p)"
  "update g p = (Inr u, p1) \<longleftrightarrow> p1 = g p"
  by (auto simp: out_call_def update_def split: prod.split)

lemma set_out_simps [simp]:
  "out (set_out w p) = w" "ap_comm_init (set_out w p) = ap_comm_init p" "ap_must_free (set_out w p) = ap_must_free p"
  "ap_init (set_out w p) = ap_init p" "ap_comm (set_out w p) = ap_comm p" "ap_comm_size (set_out w p) = ap_comm_size p"
  "ap_servers (set_out w p) = ap_servers p" "ap_workers (set_out w p) = ap_workers p"
  "ap_am_server (set_out w p) = ap_am_server p" "ap_worker_rank (set_out w p) = ap_worker_rank p"
  by (simp_all add: set_out_def out_def)

text \<open>The communicators that were freed, in order: only \<^verbatim>\<open>MPI_Comm_free\<close> frees one.\<close>

definition free_hist :: "'w mpi_api \<Rightarrow> 'w adlb_setup_api \<Rightarrow> ('w \<Rightarrow> 'w) \<Rightarrow> ('w \<Rightarrow> int list) \<Rightarrow> bool" where
  "free_hist M X k freed \<longleftrightarrow>
     (\<forall>w. freed (snd (mpi_init M w)) = freed w \<and> freed (snd (comm_dup_world M w)) = freed w \<and>
        freed (mpi_finalize M w) = freed w \<and> freed (snd (xlb_finalize X w)) = freed w \<and> freed (k w) = freed w) \<and>
     (\<forall>c w. freed (comm_free M c w) = freed w @ [c]) \<and>
     (\<forall>s ts c w. freed (snd (xlb_init X s ts c w)) = freed w)"

lemma free_histD:
  assumes "free_hist M X k freed"
  shows "mpi_init M w = (ok, w') \<Longrightarrow> freed w' = freed w" "comm_dup_world M w = (c, w') \<Longrightarrow> freed w' = freed w"
    "freed (mpi_finalize M w) = freed w" "xlb_finalize X w = (rc, w') \<Longrightarrow> freed w' = freed w" "freed (k w) = freed w"
    "freed (comm_free M c w) = freed w @ [c]" "xlb_init X s ts c w = (res, w') \<Longrightarrow> freed w' = freed w"
  using assms unfolding free_hist_def by (metis snd_conv)+

lemma set_comm_simps [simp]:
  "ap_comm (set_comm M c p) = c" "ap_must_free (set_comm M c p) = ap_must_free p" "ap_comm_init (set_comm M c p)"
  "out (set_comm M c p) = out p" "ap_init (set_comm M c p) = ap_init p" "ap_worker_rank (set_comm M c p) = ap_worker_rank p"
  by (simp_all add: set_comm_def out_def)

lemma setup_keeps:
  assumes "adlb_setup_comm M a p = (Inr u, p')"
  shows "ap_comm_init p' \<and> ap_worker_rank p' = ap_worker_rank p"
  using assms by (cases "a = 0") (auto simp: adlb_setup_comm_def cmd_bind_Inr cmd_Inr process_Inr
      simp del: process_cmds cmd_simps split: option.splits)

lemma setup_Inr:
  assumes "adlb_setup_comm M a p = (Inr u, p')" and H: "free_hist M X k freed"
  obtains c where "\<not> ap_comm_init p" "ap_comm_init p'" "ap_comm p' = c" "a \<noteq> 0 \<Longrightarrow> comm_at M a (out p) = Some c"
    "ap_must_free p' \<longleftrightarrow> ap_must_free p \<or> a = 0" "freed (out p') = freed (out p)" "ap_init p' = ap_init p"
    "ap_worker_rank p' = ap_worker_rank p"
proof (cases "a = 0")
  case True
  let ?p = "p\<lparr>ap_must_free := True\<rparr>"
  from assms(1) True obtain ok w1 c w2 where "\<not> ap_comm_init p" "mpi_init M (out ?p) = (ok, w1)" "comm_dup_world M w1 = (c, w2)"
    "p' = set_comm M c (set_out w2 (set_out w1 ?p))"
    by (auto simp: adlb_setup_comm_def cmd_bind_Inr cmd_Inr process_Inr res_Inr_convs simp del: process_cmds cmd_simps)
  moreover have "out ?p = out p" by (simp add: out_def)
  ultimately show ?thesis using that [of c] True free_histD(1,2) [OF H] by auto
next
  case False
  with assms(1) obtain c where "\<not> ap_comm_init p" "comm_at M a (out p) = Some c" "p' = set_comm M c p"
    by (auto simp: adlb_setup_comm_def cmd_bind_Inr cmd_Inr process_Inr simp del: process_cmds cmd_simps split: option.splits)
  then show ?thesis using that [of c] False by auto
qed

lemma init_steps:
  assumes "ADLB_Init_Cmd A M X T k objv p = (Inr u, p')"
  obtains a servers ntypes p1 rc srv wc w2 where
    "\<not> ap_init p" "tcl_int A (objv ! 1) = Some servers" "comm_arg A objv 3 = Inr a"
    "(if ap_comm_init p then (Inr (), p\<lparr>ap_world := (ap_world p)\<lparr>aw_cache := tbl_init T 16\<rparr>, ap_names := field_name_objs_init\<rparr>)
      else adlb_setup_comm M a (p\<lparr>ap_world := (ap_world p)\<lparr>aw_cache := tbl_init T 16\<rparr>, ap_names := field_name_objs_init\<rparr>)) = (Inr (), p1)"
    "xlb_init X servers (map int [0..<nat ntypes]) (ap_comm p1) (out p1) = ((rc, srv, wc), w2)"
    "p' = set_out (k w2) ((set_out w2 p1)\<lparr>ap_am_server := srv, ap_worker_comm := wc,
      ap_worker_rank := (if srv then ap_worker_rank (set_out w2 p1)
        else case comm_rank M wc (out (set_out w2 p1)) of None \<Rightarrow> ap_worker_rank (set_out w2 p1) | Some r \<Rightarrow> r),
      ap_workers := ap_comm_size p1 - servers, ap_servers := servers, ap_init := True\<rparr>)"
  using assms
  by (auto simp: ADLB_Init_Cmd_def cmd_bind_Inr cmd_Inr process_Inr res_Inr_convs c_int_Inr_conv
      simp del: process_cmds cmd_simps)

lemma init_Inr:
  assumes "ADLB_Init_Cmd A M X T k objv p = (Inr u, p')" and H: "free_hist M X k freed" and off: "\<not> ap_comm_init p"
  obtains a where "comm_arg A objv 3 = Inr a" "freed (out p') = freed (out p)"
    "a \<noteq> 0 \<longrightarrow> comm_at M a (out p) = Some (ap_comm p')" "ap_must_free p' \<longleftrightarrow> ap_must_free p \<or> a = 0"
proof -
  let ?p = "p\<lparr>ap_world := (ap_world p)\<lparr>aw_cache := tbl_init T 16\<rparr>, ap_names := field_name_objs_init\<rparr>"
  obtain a servers ntypes p1 rc srv wc w2 where a: "comm_arg A objv 3 = Inr a" and
    comm: "(if ap_comm_init p then (Inr (), ?p) else adlb_setup_comm M a ?p) = (Inr (), p1)" and
    init: "xlb_init X servers (map int [0..<nat ntypes]) (ap_comm p1) (out p1) = ((rc, srv, wc), w2)" and
    p': "p' = set_out (k w2) ((set_out w2 p1)\<lparr>ap_am_server := srv, ap_worker_comm := wc,
      ap_worker_rank := (if srv then ap_worker_rank (set_out w2 p1)
        else case comm_rank M wc (out (set_out w2 p1)) of None \<Rightarrow> ap_worker_rank (set_out w2 p1) | Some r \<Rightarrow> r),
      ap_workers := ap_comm_size p1 - servers, ap_servers := servers, ap_init := True\<rparr>)"
    by (rule init_steps [OF assms(1)]) blast
  have out: "out ?p = out p" by (simp add: out_def)
  have f2: "freed (k w2) = freed (out p1)" using free_histD(5,7) [OF H] init by metis
  from comm off have "adlb_setup_comm M a ?p = (Inr (), p1)" by simp
  then obtain c where "ap_comm p1 = c" "a \<noteq> 0 \<Longrightarrow> comm_at M a (out p) = Some c" "ap_must_free p1 \<longleftrightarrow> ap_must_free p \<or> a = 0"
    "freed (out p1) = freed (out p)"
    by (rule setup_Inr [OF _ H]) (simp add: out)
  then show ?thesis by (intro that [of a]) (use a f2 in \<open>auto simp: p'\<close>)
qed

lemma in_world_Inr:
  "(case x of (r, w) \<Rightarrow> (r, p\<lparr>ap_world := w\<rparr>)) = (Inr u, p') \<longleftrightarrow> (\<exists>w. x = (Inr u, w) \<and> p' = p\<lparr>ap_world := w\<rparr>)"
  by (cases x) auto

lemma finalize_Inr:
  assumes "ADLB_Finalize_Cmd A M X T fc objv p = (Inr u, p')" and H: "free_hist M X k freed"
  shows "\<not> ap_init p' \<and> \<not> ap_comm_init p' \<and> (ap_must_free p' \<longleftrightarrow> ap_must_free p) \<and>
    freed (out p') = freed (out p) @ (if ap_must_free p then [ap_comm p] else [])"
proof -
  have cache: "blob_cache_finalize T w = (Inr (), w') \<Longrightarrow> aw_adlb w' = aw_adlb w" for w w' :: "('a, 'b) adlb_world"
    by (auto simp: blob_cache_finalize_def split: sum.splits)
  from assms(1) obtain names rc w1 b w3 where x: "xlb_finalize X (out (p\<lparr>ap_names := names\<rparr>)) = (rc, w1)" and
    c: "blob_cache_finalize T (ap_world (end_mpi M b (release_comm M (set_out w1 (p\<lparr>ap_names := names\<rparr>))))) = (Inr (), w3)" and
    p': "p' = (end_mpi M b (release_comm M (set_out w1 (p\<lparr>ap_names := names\<rparr>))))\<lparr>ap_world := w3\<rparr>"
    by (auto simp: ADLB_Finalize_Cmd_def cmd_bind_Inr cmd_Inr process_Inr res_Inr_convs in_world_Inr
        simp del: process_cmds cmd_simps split: option.splits)
  have names: "out (p\<lparr>ap_names := names\<rparr>) = out p" by (simp add: out_def)
  have w3: "out p' = out (end_mpi M b (release_comm M (set_out w1 (p\<lparr>ap_names := names\<rparr>))))"
    using cache [OF c] by (simp add: p' out_def)
  have "freed (out p') = freed (out p) @ (if ap_must_free p then [ap_comm p] else [])"
    unfolding w3 using free_histD(3,6) [OF H] free_histD(4) [OF H x] names
    by (simp add: end_mpi_def release_comm_def set_out_def out_def)
  then show ?thesis by (simp add: p' end_mpi_def release_comm_def set_out_def)
qed

text \<open>
  What ADLB says of itself after \<^verbatim>\<open>adlb::init\<close>. Before it every query is refused. When it has
  succeeded, the servers are those asked for, workers and servers together are the size of the
  communicator, a process that is a server keeps the rank among workers it had, and a second
  \<^verbatim>\<open>adlb::init\<close>, with any arguments, is refused and changes nothing.
\<close>

theorem adlb_init_counts:
  assumes "ADLB_Init_Cmd A M X T k objv p = (Inr (), p')"
  shows "ADLB_Servers_Cmd p = Inl Tcl_Error \<and> ADLB_Workers_Cmd p = Inl Tcl_Error \<and> ADLB_AmServer_Cmd p = Inl Tcl_Error \<and>
    ADLB_Worker_Rank_Cmd p = Inl Tcl_Error \<and>
    (\<exists>size servers srv. tcl_int A (objv ! 1) = Some servers \<and>
      ADLB_Size_Cmd p' = Inr size \<and> ADLB_CommRank_Cmd A M [c] p' = Inr (ap_comm_rank p') \<and>
      ADLB_Servers_Cmd p' = Inr servers \<and> ADLB_Workers_Cmd p' = Inr (size - servers) \<and>
      ADLB_AmServer_Cmd p' = Inr srv \<and> (srv \<longrightarrow> ADLB_Worker_Rank_Cmd p' = Inr (ap_worker_rank p)) \<and>
      ADLB_Init_Cmd A M X T k objv' p' = (Inl Tcl_Error, p'))"
proof -
  obtain a servers p1 srv wc w2 where pre: "\<not> ap_init p" "tcl_int A (objv ! 1) = Some servers" and
    comm: "(if ap_comm_init p then (Inr (), p\<lparr>ap_world := (ap_world p)\<lparr>aw_cache := tbl_init T 16\<rparr>, ap_names := field_name_objs_init\<rparr>)
      else adlb_setup_comm M a (p\<lparr>ap_world := (ap_world p)\<lparr>aw_cache := tbl_init T 16\<rparr>, ap_names := field_name_objs_init\<rparr>)) = (Inr (), p1)" and
    p': "p' = set_out (k w2) ((set_out w2 p1)\<lparr>ap_am_server := srv, ap_worker_comm := wc,
      ap_worker_rank := (if srv then ap_worker_rank (set_out w2 p1)
        else case comm_rank M wc (out (set_out w2 p1)) of None \<Rightarrow> ap_worker_rank (set_out w2 p1) | Some r \<Rightarrow> r),
      ap_workers := ap_comm_size p1 - servers, ap_servers := servers, ap_init := True\<rparr>)"
    by (rule init_steps [OF assms]) blast
  have p1: "ap_comm_init p1 \<and> ap_worker_rank p1 = ap_worker_rank p"
    using comm by (auto dest: setup_keeps split: if_splits)
  have on: "ap_init p'" "ap_comm_init p'" using p1 by (simp_all add: p')
  then have "ADLB_Init_Cmd A M X T k objv' p' = (Inl Tcl_Error, p')"
    by (simp add: ADLB_Init_Cmd_def cmd_condition_def tcl_condition_def)
  with on p1 pre show ?thesis
    by (auto simp: ADLB_Servers_Cmd_def ADLB_Workers_Cmd_def ADLB_AmServer_Cmd_def ADLB_Worker_Rank_Cmd_def ADLB_Size_Cmd_def
        ADLB_CommRank_Cmd_def p')
qed

text \<open>
  Lives of ADLB in one process: each is \<^verbatim>\<open>adlb::init\<close> with its arguments, then \<^verbatim>\<open>adlb::finalize\<close>.
\<close>

fun lives_run ::
    "('obj, 'f, 'z) tcl_api_scheme \<Rightarrow> 'w mpi_api \<Rightarrow> 'w adlb_setup_api \<Rightarrow> ('t, string, int) table_api \<Rightarrow>
      ('w \<Rightarrow> 'w) \<Rightarrow> (nat \<Rightarrow> nat option) \<Rightarrow> 'obj list \<Rightarrow> 'obj list list \<Rightarrow> (unit, ('w, 't, 'obj) adlb_process) cmd" where
  "lives_run A M X T k fc fin [] = cmd_do (Inr ())"
| "lives_run A M X T k fc fin (objv # lives) =
     cmd_bind (ADLB_Init_Cmd A M X T k objv) (\<lambda>_.
     cmd_bind (ADLB_Finalize_Cmd A M X T fc fin) (\<lambda>_. lives_run A M X T k fc fin lives))"

lemma life_Inr:
  assumes H: "free_hist M X k freed" and off: "\<not> ap_comm_init p"
    and init: "ADLB_Init_Cmd A M X T k objv p = (Inr (), p1)" and fin: "ADLB_Finalize_Cmd A M X T fc fin p1 = (Inr (), p2)"
  obtains a c where "comm_arg A objv 3 = Inr a" "a \<noteq> 0 \<longrightarrow> comm_at M a (out p) = Some c" "\<not> ap_comm_init p2"
    "ap_must_free p2 \<longleftrightarrow> ap_must_free p \<or> a = 0" "freed (out p2) = freed (out p) @ (if ap_must_free p2 then [c] else [])"
proof -
  note f = finalize_Inr [OF fin H]
  obtain a where a: "comm_arg A objv 3 = Inr a" "freed (out p1) = freed (out p)"
    "a \<noteq> 0 \<longrightarrow> comm_at M a (out p) = Some (ap_comm p1)" "ap_must_free p1 \<longleftrightarrow> ap_must_free p \<or> a = 0"
    by (rule init_Inr [OF init H off])
  show ?thesis by (rule that [of a "ap_comm p1"]) (use a f in auto)
qed

text \<open>The communicators a process made or was given that \<^verbatim>\<open>adlb::finalize\<close> frees.\<close>

definition freed_of :: "bool \<Rightarrow> ('a \<Rightarrow> bool) \<Rightarrow> ('a \<times> int) list \<Rightarrow> int list" where
  "freed_of must own xs = map snd (if must then xs else dropWhile (\<lambda>(x, c). \<not> own x) xs)"

lemma freed_of_Cons: "freed_of must own ((x, c) # xs) = (if must \<or> own x then [c] else []) @ freed_of (must \<or> own x) own xs"
  by (simp add: freed_of_def)

text \<open>
  C7: Who frees which communicator. Over any number of lives of ADLB, the communicators freed are
  those of all lives from the first on that was started without one and made its own: until
  then the caller's communicators are left alone, and from then on every life frees its
  communicator, whether it made it or was given it, since the note that it must be freed is never
  taken back.
\<close>

theorem comm_freed:
  assumes H: "free_hist M X k freed" and off: "\<not> ap_comm_init p"
    and run: "lives_run A M X T k fc fin lives p = (Inr (), p')"
  shows "\<exists>comms. length comms = length lives \<and>
    (\<forall>i < length lives. \<forall>a. comm_arg A (lives ! i) 3 = Inr a \<longrightarrow> a \<noteq> 0 \<longrightarrow> (\<exists>w. comm_at M a w = Some (comms ! i))) \<and>
    freed (out p') = freed (out p) @
      freed_of (ap_must_free p) (\<lambda>objv. comm_arg A objv 3 = Inr 0) (zip lives comms)"
  using off run
proof (induction lives arbitrary: p)
  case Nil
  then show ?case by (simp add: freed_of_def cmd_Inr del: cmd_simps)
next
  case (Cons objv lives)
  from Cons.prems(2) obtain p1 p2 where
    p1: "ADLB_Init_Cmd A M X T k objv p = (Inr (), p1)" and p2: "ADLB_Finalize_Cmd A M X T fc fin p1 = (Inr (), p2)" and
    rest: "lives_run A M X T k fc fin lives p2 = (Inr (), p')"
    by (auto simp: cmd_bind_Inr simp del: process_cmds cmd_simps)
  obtain a c where life: "comm_arg A objv 3 = Inr a" "a \<noteq> 0 \<longrightarrow> comm_at M a (out p) = Some c" "\<not> ap_comm_init p2"
    "ap_must_free p2 \<longleftrightarrow> ap_must_free p \<or> a = 0" "freed (out p2) = freed (out p) @ (if ap_must_free p2 then [c] else [])"
    by (rule life_Inr [OF H Cons.prems(1) p1 p2])
  from Cons.IH [OF life(3) rest] obtain comms where
    comms: "length comms = length lives"
    "\<forall>i < length lives. \<forall>a. comm_arg A (lives ! i) 3 = Inr a \<longrightarrow> a \<noteq> 0 \<longrightarrow> (\<exists>w. comm_at M a w = Some (comms ! i))"
    "freed (out p') = freed (out p2) @ freed_of (ap_must_free p2) (\<lambda>objv. comm_arg A objv 3 = Inr 0) (zip lives comms)"
    by blast
  show ?case
  proof (intro exI [of _ "c # comms"] conjI allI impI)
    fix i b assume "i < length (objv # lives)" "comm_arg A ((objv # lives) ! i) 3 = Inr b" "b \<noteq> 0"
    then show "\<exists>w. comm_at M b w = Some ((c # comms) ! i)" using life(1,2) comms(2) by (cases i) auto
  next
    have "comm_arg A objv 3 = Inr 0 \<longleftrightarrow> a = 0" using life(1) by auto
    then show "freed (out p') = freed (out p) @
      freed_of (ap_must_free p) (\<lambda>objv. comm_arg A objv 3 = Inr 0) (zip (objv # lives) (c # comms))"
      using comms(3) life(4,5) by (auto simp: freed_of_Cons)
  qed (use comms(1) in simp)
qed

definition list_mpi :: "int list mpi_api" where
  "list_mpi = \<lparr>mpi_init = (\<lambda>w. (True, w)), comm_dup_world = (\<lambda>w. (5, w)), comm_size = (\<lambda>c w. Some 8), comm_rank = (\<lambda>c w. Some 0),
     comm_free = (\<lambda>c w. w @ [c]), comm_at = (\<lambda>a w. if a = 64 then Some 9 else None), mpi_barrier = (\<lambda>c w. (True, w)),
     mpi_finalize = (\<lambda>w. w), comm_null = 0\<rparr>"

definition list_setup :: "int list adlb_setup_api" where
  "list_setup = \<lparr>xlb_init = (\<lambda>s ts c w. ((ADLB_SUCCESS, False, 11), w)), xlb_server = (\<lambda>n w. (ADLB_SUCCESS, w)),
     xlb_finalize = (\<lambda>w. (ADLB_SUCCESS, w)), xlb_fail = (\<lambda>n w. w), xlb_abort = (\<lambda>n w. w),
     comm_workers = (\<lambda>w. 11), comm_leaders = (\<lambda>w. 12)\<rparr>"

definition fresh_process :: "(int list, (string \<times> int) list, val) adlb_process" where
  "fresh_process = \<lparr>ap_comm_init = False, ap_must_free = False, ap_init = False, ap_comm = 0, ap_comm_size = -1, ap_comm_rank = -1,
     ap_workers = -1, ap_servers = -1, ap_am_server = False, ap_worker_comm = 0, ap_worker_rank = -1,
     ap_names = \<lparr>fn_objs = None, fn_size = 0\<rparr>,
     ap_world = \<lparr>aw_adlb = [], aw_heap = \<lparr>h_blocks = Map.empty, h_next = 1\<rparr>, aw_cache = []\<rparr>\<rparr>"

lemmas life_defs = cmd_bind_def cmd_do_def out_call_def ADLB_Init_Cmd_def ADLB_Finalize_Cmd_def adlb_setup_comm_def set_comm_def comm_arg_def list_mpi_def
  list_setup_def release_comm_def end_mpi_def set_out_def out_def update_def cmd_condition_def
  field_name_objs_finalize_def field_name_objs_init_def blob_cache_finalize_def c_int_def int_ok_def INT_MIN_def INT_MAX_def

lemma list_hist: "free_hist list_mpi list_setup (\<lambda>w. w) (\<lambda>w. w)"
  by (simp add: free_hist_def list_mpi_def list_setup_def)

lemma release_no_names: "release_field_names fc i (replicate n None) = Inr []"
  by (induction n arbitrary: i) auto

lemma val_conversions: "tcl_boolean val_types (V_int 0) = Some False" "tcl_long val_types (V_int n) = Some n"
  by (simp_all add: val_types_def val_tcl_def tcl_api.defs)

lemma list_finalize:
  assumes "ap_names p = field_name_objs_init" "aw_cache (ap_world p) = []"
  shows "\<exists>p'. ADLB_Finalize_Cmd val_types list_mpi list_setup al_table (\<lambda>i. None) [V_int 0, V_int 0] p = (Inr (), p') \<and>
    \<not> ap_comm_init p' \<and> \<not> ap_init p'"
  using assms by (cases "ap_must_free p") (simp_all add: life_defs release_no_names val_conversions)

lemma list_init:
  assumes "\<not> ap_comm_init p" "\<not> ap_init p" "objv = [V_int 0, V_int 3, V_int 2] \<or> objv = [V_int 0, V_int 3, V_int 2, V_int 64]"
  shows "\<exists>p'. ADLB_Init_Cmd val_types list_mpi list_setup al_table (\<lambda>w. w) objv p = (Inr (), p') \<and>
    ap_names p' = field_name_objs_init \<and> aw_cache (ap_world p') = []"
  using assms(3)
proof
  assume "objv = [V_int 0, V_int 3, V_int 2]"
  with assms(1,2) show ?thesis by (simp add: life_defs val_conversions)
next
  assume "objv = [V_int 0, V_int 3, V_int 2, V_int 64]"
  with assms(1,2) show ?thesis by (simp add: life_defs val_conversions)
qed

lemma list_life:
  assumes "\<not> ap_comm_init p" "\<not> ap_init p" "objv = [V_int 0, V_int 3, V_int 2] \<or> objv = [V_int 0, V_int 3, V_int 2, V_int 64]"
  shows "\<exists>p1 p2. ADLB_Init_Cmd val_types list_mpi list_setup al_table (\<lambda>w. w) objv p = (Inr (), p1) \<and>
    ADLB_Finalize_Cmd val_types list_mpi list_setup al_table (\<lambda>i. None) [V_int 0, V_int 0] p1 = (Inr (), p2) \<and>
    \<not> ap_comm_init p2 \<and> \<not> ap_init p2"
  using list_init [OF assms] list_finalize by blast

lemma adlb_init_counts_witness:
  "\<exists>p'. ADLB_Init_Cmd val_types list_mpi list_setup al_table (\<lambda>w. w) [V_int 0, V_int 3, V_int 2] fresh_process = (Inr (), p') \<and>
    (\<exists>size. ADLB_Size_Cmd p' = Inr size \<and> ADLB_Servers_Cmd p' = Inr 3 \<and> ADLB_Workers_Cmd p' = Inr (size - 3)) \<and>
    ADLB_Init_Cmd val_types list_mpi list_setup al_table (\<lambda>w. w) [] p' = (Inl Tcl_Error, p')"
proof -
  obtain p' where "ADLB_Init_Cmd val_types list_mpi list_setup al_table (\<lambda>w. w) [V_int 0, V_int 3, V_int 2] fresh_process = (Inr (), p')"
    using list_life [of fresh_process "[V_int 0, V_int 3, V_int 2]"] by (auto simp: fresh_process_def)
  with adlb_init_counts [OF this, of "V_int 0" "[]"] show ?thesis by auto
qed

lemma list_lives:
  assumes "\<not> ap_comm_init p" "\<not> ap_init p"
    "\<forall>objv \<in> set ls. objv = [V_int 0, V_int 3, V_int 2] \<or> objv = [V_int 0, V_int 3, V_int 2, V_int 64]"
  shows "\<exists>p'. lives_run val_types list_mpi list_setup al_table (\<lambda>w. w) (\<lambda>i. None) [V_int 0, V_int 0] ls p = (Inr (), p')"
  using assms
proof (induction ls arbitrary: p)
  case (Cons objv ls)
  obtain p1 p2 where "ADLB_Init_Cmd val_types list_mpi list_setup al_table (\<lambda>w. w) objv p = (Inr (), p1)"
    "ADLB_Finalize_Cmd val_types list_mpi list_setup al_table (\<lambda>i. None) [V_int 0, V_int 0] p1 = (Inr (), p2)"
    "\<not> ap_comm_init p2" "\<not> ap_init p2"
    using list_life [OF Cons.prems(1,2), of objv] Cons.prems(3) by auto
  with Cons.IH [of p2] Cons.prems(3) show ?case by (auto simp: cmd_bind_def)
qed simp

lemma comm_freed_witness:
  "\<exists>p' a. lives_run val_types list_mpi list_setup al_table (\<lambda>w. w) (\<lambda>i. None) [V_int 0, V_int 0]
      [[V_int 0, V_int 3, V_int 2, V_int 64], [V_int 0, V_int 3, V_int 2], [V_int 0, V_int 3, V_int 2, V_int 64]] fresh_process = (Inr (), p') \<and>
    out p' = [a, 9]"
proof -
  let ?lives = "[[V_int 0, V_int 3, V_int 2, V_int 64], [V_int 0, V_int 3, V_int 2], [V_int 0, V_int 3, V_int 2, V_int 64]]"
  obtain p' where run: "lives_run val_types list_mpi list_setup al_table (\<lambda>w. w) (\<lambda>i. None) [V_int 0, V_int 0] ?lives fresh_process = (Inr (), p')"
    using list_lives [of fresh_process ?lives] by (auto simp: fresh_process_def)
  have off: "\<not> ap_comm_init fresh_process" by (simp add: fresh_process_def)
  from comm_freed [OF list_hist off run] obtain comms where
    c: "length comms = length ?lives" "\<forall>i < length ?lives. \<forall>a. comm_arg val_types (?lives ! i) 3 = Inr a \<longrightarrow> a \<noteq> 0 \<longrightarrow> (\<exists>w. comm_at list_mpi a w = Some (comms ! i))"
    "out p' = out fresh_process @ freed_of (ap_must_free fresh_process) (\<lambda>objv. comm_arg val_types objv 3 = Inr 0) (zip ?lives comms)"
    by blast
  from c(1) obtain x y z where xyz: "comms = [x, y, z]" by (auto simp: length_Suc_conv eval_nat_numeral)
  have "comms ! 2 = 9" using c(2) [rule_format, of 2 64] by (auto simp: comm_arg_def list_mpi_def val_conversions split: if_splits)
  with c(3) xyz have "out p' = [y, 9]" by (simp add: freed_of_def fresh_process_def out_def comm_arg_def val_conversions)
  with run show ?thesis by blast
qed

end
