(* ===== verification/Turbine_Init.thy ===== *)
theory Turbine_Init
  imports Cache Async_Exec Tcl_Util
begin

text \<open>
  Starting and stopping Turbine: \<^verbatim>\<open>src/turbine/turbine.c\<close>, the debugging output of
  \<^verbatim>\<open>src/util/debug.c\<close>, and the commands of \<^verbatim>\<open>src/tcl/turbine/tcl-turbine.c\<close> that call them, set the
  constants of the namespace and control the log. The environment, the log library and the
  parsers of numbers and versions of c-utils are parameters.
\<close>

section \<open>Debugging output\<close>

text \<open>
  The buffer is allocated when the output starts, unless it is disabled, and freed when it
  ends, and the pointer is not reset. The output is the lines that were printed: a text, or
  the complaint that a message is longer than the buffer.
\<close>

datatype buffer_pointer = Null | Live | Freed

datatype debug_line = Text string | Exceeded

record debug_state =
  dbg_initialized :: bool
  dbg_enabled :: bool
  dbg_buffer :: buffer_pointer
  dbg_size :: nat
  dbg_printed :: "debug_line list"

type_synonym env = "string \<Rightarrow> string option"

definition turbine_debug_init :: "env \<Rightarrow> debug_state \<Rightarrow> debug_state" where
  "turbine_debug_init env s =
     (if dbg_initialized s then s
      else let s = s\<lparr>dbg_initialized := True\<rparr> in
        if env ''TURBINE_DEBUG'' = Some ''0'' then s\<lparr>dbg_enabled := False\<rparr>
        else s\<lparr>dbg_size := 32 * 1024, dbg_buffer := Live\<rparr>)"

text \<open>
  What \<^verbatim>\<open>vsnprintf\<close> does not write it still counts. With more characters than the buffer has, the
  room left for the newline is a negative number taken as \<^verbatim>\<open>size_t\<close>, and the newline is written
  behind the buffer.
\<close>

definition turbine_debug :: "string \<Rightarrow> string \<Rightarrow> debug_state \<Rightarrow> debug_state res" where
  "turbine_debug token msg s =
     (if \<not> dbg_enabled s then Inr s
      else c_assert (dbg_initialized s) (c_defined (dbg_buffer s = Live \<and> length token + 3 \<le> dbg_size s)
        (let n = length token + 2 + length msg;
             text = take (dbg_size s - 1) (token @ '': '' @ msg);
             check = (\<lambda>n. if dbg_size s \<le> n then [Exceeded] else []) in
         c_defined (n \<le> dbg_size s)
           (let text = (if n + 1 < dbg_size s then text @ [CHR 0x0A] else text) in
            Inr (s\<lparr>dbg_printed := dbg_printed s @ check n @ check (n + 1) @ [Text text]\<rparr>)))))"

definition turbine_debug_finalize :: "debug_state \<Rightarrow> debug_state res" where
  "turbine_debug_finalize s =
     (if \<not> dbg_initialized s then Inr s
      else c_defined (dbg_buffer s \<noteq> Freed)
        (Inr (s\<lparr>dbg_buffer := (if dbg_buffer s = Null then Null else Freed), dbg_initialized := False\<rparr>)))"

section \<open>The library\<close>

record ('t, 'r, 'd, 'g) turbine_process =
  tp_size :: int
  tp_rank :: int
  tp_initialized :: bool
  tp_debug :: debug_state
  tp_cache :: "('t, 'r, 'd) cache"
  tp_execs :: 'g

text \<open>
  The numbers in the environment, with a default for a variable that is not set: whether that
  succeeds, and the number it leaves. \<open>versions_ok\<close> says that \<^verbatim>\<open>version_require\<close> lets the versions of
  c-utils and ADLB pass; otherwise it ends the process.
\<close>

record env_api =
  getenv :: env
  getenv_integer :: "string \<Rightarrow> int \<Rightarrow> bool \<times> int"
  getenv_ulong :: "string \<Rightarrow> 64 word \<Rightarrow> bool \<times> 64 word"
  versions_ok :: bool

definition check_versions :: "env_api \<Rightarrow> unit res" where
  "check_versions E = c_assert (versions_ok E) (Inr ())"

text \<open>
  On the rank given in the environment the process waits for a debugger, without end unless one
  attaches. \<^verbatim>\<open>%i\<close> of \<^verbatim>\<open>sscanf\<close> accepts what \<^verbatim>\<open>strtol\<close> does with base 0.
\<close>

definition gdb_check :: "env_api \<Rightarrow> int \<Rightarrow> unit res" where
  "gdb_check E rank =
     (case getenv E ''GDB_RANK'' of
        None \<Rightarrow> Inr ()
      | Some s \<Rightarrow>
          if s = [] then Inr ()
          else case strtol 0 s of
            None \<Rightarrow> Inl Abort
          | Some (gdb_rank, _, _) \<Rightarrow> c_defined (int_ok gdb_rank) (if gdb_rank = rank then Inl Unfinished else Inr ()))"

definition setup_cache ::
    "env_api \<Rightarrow> 't table \<Rightarrow> 'r tree \<Rightarrow> ('t, 'r, 'd) cache \<Rightarrow> (bool \<times> ('t, 'r, 'd) cache) res" where
  "setup_cache E T R c =
     (case getenv_integer E ''TURBINE_CACHE_SIZE'' 1024 of
        (False, _) \<Rightarrow> Inr (False, c)
      | (True, sz) \<Rightarrow>
          (case getenv_ulong E ''TURBINE_CACHE_MAX'' (10 * 1024 * 1024) of
             (False, _) \<Rightarrow> Inr (False, c)
           | (True, max_memory) \<Rightarrow> tcl_check (turbine_cache_init T R sz max_memory c) (\<lambda>c. Inr (True, c))))"

definition turbine_init ::
    "env_api \<Rightarrow> 't table \<Rightarrow> 'r tree \<Rightarrow> bool \<Rightarrow> int \<Rightarrow> int \<Rightarrow> ('t, 'r, 'd, ('tt, 'e) registry) turbine_process \<Rightarrow>
      (turbine_code \<times> ('t, 'r, 'd, ('tt, 'e) registry) turbine_process) res" where
  "turbine_init E T R amserver rank sz p =
     tcl_check (check_versions E) (\<lambda>_.
     tcl_check (gdb_check E rank) (\<lambda>_.
     tcl_check
       (if amserver then Inr (True, p)
        else let p = p\<lparr>tp_size := sz, tp_rank := rank, tp_initialized := True\<rparr> in
          tcl_check (setup_cache E T R (tp_cache p)) (\<lambda>(b, c). Inr (b, p\<lparr>tp_cache := c\<rparr>))) (\<lambda>(b, p).
     if \<not> b then Inr (TURBINE_ERROR_NUMBER_FORMAT, p)
     else let p = p\<lparr>tp_debug := turbine_debug_init (getenv E) (tp_debug p)\<rparr>;
              (tc, g) = turbine_async_exec_initialize (tp_execs p) in
       Inr (tc, p\<lparr>tp_execs := g\<rparr>))))"

definition turbine_finalize ::
    "'t table \<Rightarrow> 'r tree \<Rightarrow> ('tt, string, nat) table_api \<Rightarrow>
      ('t, 'r, 'd, ('tt, ('x, 's, 'w, 'cb) turbine_executor) registry) turbine_process \<Rightarrow> 'w \<Rightarrow>
      (('t, 'r, 'd, ('tt, ('x, 's, 'w, 'cb) turbine_executor) registry) turbine_process \<times> 'w) res" where
  "turbine_finalize T R TX p w =
     tcl_check (turbine_cache_finalize T R (tp_cache p)) (\<lambda>c.
     tcl_check (turbine_async_exec_finalize TX (tp_execs p) w) (\<lambda>(_, g, w).
       Inr (p\<lparr>tp_cache := c, tp_execs := g\<rparr>, w)))"

section \<open>The commands\<close>

record 'l log_api =
  log_init :: "'l \<Rightarrow> 'l"
  log_normalize :: "'l \<Rightarrow> 'l"
  log_file_set :: "string \<Rightarrow> 'l \<Rightarrow> bool \<times> 'l"
  log_rank_set :: "int \<Rightarrow> 'l \<Rightarrow> 'l"
  log_enabled :: "bool \<Rightarrow> 'l \<Rightarrow> 'l"
  log_printf :: "string \<Rightarrow> 'l \<Rightarrow> 'l"

definition log_setup :: "env_api \<Rightarrow> 'l log_api \<Rightarrow> int \<Rightarrow> 'l \<Rightarrow> bool \<times> 'l" where
  "log_setup E L rank l =
     (let l = log_normalize L (log_init L l) in
      if snd (getenv_integer E ''TURBINE_LOG'' 1) \<noteq> 0
      then let (b, l) = (case getenv E ''TURBINE_LOG_FILE'' of
               None \<Rightarrow> (True, l) | Some filename \<Rightarrow> if filename = [] then (True, l) else log_file_set L filename l) in
        if \<not> b then (False, l)
        else (True, if snd (getenv_integer E ''TURBINE_LOG_RANKS'' 0) \<noteq> 0 then log_rank_set L rank l else l)
      else (True, log_enabled L False l))"

text \<open>The result of \<^verbatim>\<open>log_setup\<close> is ignored.\<close>

definition Turbine_Init_Cmd ::
    "('obj, 'f, 'z) tcl_api_scheme \<Rightarrow> env_api \<Rightarrow> 'l log_api \<Rightarrow> 't table \<Rightarrow> 'r tree \<Rightarrow> 'obj list \<Rightarrow>
      (unit, ('t, 'r, 'd, ('tt, 'e) registry) turbine_process \<times> 'l) cmd" where
  "Turbine_Init_Cmd A E L T R objv = (\<lambda>(p, l).
     case tcl_condition (length objv = 4)
            (tcl_check (tcl_get (tcl_int A (objv ! 1))) (\<lambda>amserver.
             tcl_check (tcl_get (tcl_int A (objv ! 2))) (\<lambda>rank.
             tcl_check (tcl_get (tcl_int A (objv ! 3))) (\<lambda>sz.
             tcl_check (turbine_init E T R (amserver \<noteq> 0) rank sz p) (\<lambda>(code, p). Inr (rank, code, p)))))) of
       Inl e \<Rightarrow> (Inl e, (p, l))
     | Inr (rank, code, p) \<Rightarrow>
         if code \<noteq> TURBINE_SUCCESS then (Inl Tcl_Error, (p, l))
         else (Inr (), (p, snd (log_setup E L rank l))))"

definition Turbine_Init_Debug_Cmd ::
    "env_api \<Rightarrow> 'obj list \<Rightarrow> (unit, ('t, 'r, 'd, 'g) turbine_process) cmd" where
  "Turbine_Init_Debug_Cmd E objv p =
     (tcl_condition (length objv = 1) (Inr ()),
      if length objv = 1 then p\<lparr>tp_debug := turbine_debug_init (getenv E) (tp_debug p)\<rparr> else p)"

text \<open>The version is printed to a buffer of eight bytes.\<close>

definition Turbine_Version_Cmd :: "('obj, 'f, 'z) tcl_api_scheme \<Rightarrow> string \<Rightarrow> 'obj list \<Rightarrow> 'obj res" where
  "Turbine_Version_Cmd A version objv =
     tcl_condition (length objv = 1) (c_defined (length version < 8) (Inr (new_string A version)))"

definition set_namespace_constants ::
    "('obj, 'f, 'z) tcl_api_scheme \<Rightarrow> ('obj, 'w) interp_api \<Rightarrow> int \<Rightarrow> int \<Rightarrow> bool \<Rightarrow> 'w \<Rightarrow> 'w res" where
  "set_namespace_constants A I work_type local_type have_coaster w =
     tcl_check (turbine_tcl_set_integer A I ''::turbine::WORK'' work_type w) (\<lambda>w.
     tcl_check (turbine_tcl_set_integer A I ''::turbine::CONTROL'' work_type w) (\<lambda>w.
     tcl_check (turbine_tcl_set_integer A I ''::turbine::LOCAL'' local_type w) (\<lambda>w.
     tcl_check (turbine_tcl_set_string A I ''::turbine::NOOP_EXEC_NAME'' ''NOOP'' w) (\<lambda>w.
       if have_coaster then turbine_tcl_set_string A I ''::turbine::COASTER_EXEC_NAME'' ''COASTER'' w else Inr w))))"

definition Turbine_Log_Cmd :: "('obj, 'f, 'z) tcl_api_scheme \<Rightarrow> 'l log_api \<Rightarrow> 'obj list \<Rightarrow> (unit, 'l) cmd" where
  "Turbine_Log_Cmd A L objv l =
     (if length objv = 2 then (Inr (), log_printf L (tcl_string A (objv ! 1)) l) else (Inl Tcl_Error, l))"

definition Turbine_Normalize_Cmd :: "'l log_api \<Rightarrow> 'obj list \<Rightarrow> (unit, 'l) cmd" where
  "Turbine_Normalize_Cmd L objv l = (if length objv = 1 then (Inr (), log_normalize L l) else (Inl Tcl_Error, l))"

definition Turbine_TaskComm_Cmd :: "('obj, 'f, 'z) tcl_api_scheme \<Rightarrow> int \<Rightarrow> 'obj list \<Rightarrow> 'obj res" where
  "Turbine_TaskComm_Cmd A turbine_task_comm objv = tcl_condition (length objv = 1) (Inr (new_wide A turbine_task_comm))"

definition Turbine_Finalize_Cmd ::
    "'t table \<Rightarrow> 'r tree \<Rightarrow> ('tt, string, nat) table_api \<Rightarrow> 'obj list \<Rightarrow>
      (unit, ('t, 'r, 'd, ('tt, ('x, 's, 'w, 'cb) turbine_executor) registry) turbine_process \<times> 'w) cmd" where
  "Turbine_Finalize_Cmd T R TX objv = (\<lambda>(p, w).
     case turbine_finalize T R TX p w of Inl e \<Rightarrow> (Inl e, (p, w)) | Inr st \<Rightarrow> (Inr (), st))"

definition Turbine_Debug_On_Cmd ::
    "('obj, 'f, 'z) tcl_api_scheme \<Rightarrow> 'obj list \<Rightarrow> ('t, 'r, 'd, 'g) turbine_process \<Rightarrow> 'obj res" where
  "Turbine_Debug_On_Cmd A objv p =
     tcl_condition (length objv = 1) (Inr (new_wide A (if dbg_enabled (tp_debug p) then 1 else 0)))"

text \<open>The token of the messages is that of \<^verbatim>\<open>DEBUG_TCL_TURBINE\<close>.\<close>

definition Turbine_Debug_Cmd ::
    "('obj, 'f, 'z) tcl_api_scheme \<Rightarrow> string \<Rightarrow> 'obj list \<Rightarrow> (unit, ('t, 'r, 'd, 'g) turbine_process) cmd" where
  "Turbine_Debug_Cmd A token objv p =
     (if length objv \<noteq> 2 then (Inl Tcl_Error, p)
      else if dbg_enabled (tp_debug p)
      then (case turbine_debug token (tcl_string A (objv ! 1)) (tp_debug p) of
              Inl e \<Rightarrow> (Inl e, p) | Inr d \<Rightarrow> (Inr (), p\<lparr>tp_debug := d\<rparr>))
      else (Inr (), p))"

section \<open>Messages\<close>

text \<open>
  What becomes of a debugging message. Up to 32764 characters with its token it is printed as a
  line; one or two characters more and it is cut or loses its newline, with a complaint; anything
  longer writes the newline behind the buffer. With the output disabled nothing happens.
\<close>

theorem debug_message_fits:
  assumes "dbg_initialized s" "dbg_buffer s = Live" "dbg_size s = 32 * 1024" "length token \<le> 100"
  shows "(\<not> dbg_enabled s \<longrightarrow> turbine_debug token msg s = Inr s) \<and>
    (dbg_enabled s \<longrightarrow>
      (length token + length msg \<le> 32764 \<longrightarrow>
         turbine_debug token msg s = Inr (s\<lparr>dbg_printed := dbg_printed s @ [Text (token @ '': '' @ msg @ [CHR 0x0A])]\<rparr>)) \<and>
      (length token + length msg = 32765 \<or> length token + length msg = 32766 \<longrightarrow>
         (\<exists>s' k. turbine_debug token msg s = Inr s' \<and>
            dbg_printed s' = dbg_printed s @ replicate k Exceeded @ [Text (take 32767 (token @ '': '' @ msg))] \<and> 0 < k)) \<and>
      (32766 < length token + length msg \<longrightarrow> turbine_debug token msg s = Inl Undefined))"
proof (intro conjI impI)
  assume on: "dbg_enabled s"
  let ?n = "length token + 2 + length msg"
  have run: "turbine_debug token msg s = c_defined (?n \<le> 32768) (Inr (s\<lparr>dbg_printed := dbg_printed s @
      (if 32768 \<le> ?n then [Exceeded] else []) @ (if 32768 \<le> ?n + 1 then [Exceeded] else []) @
      [Text (take 32767 (token @ '': '' @ msg) @ (if ?n + 1 < 32768 then [CHR 0x0A] else []))]\<rparr>))"
    using assms on by (simp add: turbine_debug_def Let_def)
  show "turbine_debug token msg s = Inr (s\<lparr>dbg_printed := dbg_printed s @ [Text (token @ '': '' @ msg @ [CHR 0x0A])]\<rparr>)"
    if "length token + length msg \<le> 32764"
    unfolding run using that by (simp add: c_defined_def)
  show "\<exists>s' k. turbine_debug token msg s = Inr s' \<and>
      dbg_printed s' = dbg_printed s @ replicate k Exceeded @ [Text (take 32767 (token @ '': '' @ msg))] \<and> 0 < k"
    if "length token + length msg = 32765 \<or> length token + length msg = 32766"
    using that
  proof
    assume "length token + length msg = 32765"
    then show ?thesis unfolding run by (simp add: c_defined_def) (rule exI [of _ "Suc 0"], simp)
  next
    assume "length token + length msg = 32766"
    then show ?thesis unfolding run by (simp add: c_defined_def) (rule exI [of _ "Suc (Suc 0)"], simp)
  qed
  show "turbine_debug token msg s = Inl Undefined" if "32766 < length token + length msg"
    unfolding run using that by (simp add: c_defined_def)
qed (simp add: turbine_debug_def)

definition debug_on :: debug_state where
  "debug_on = \<lparr>dbg_initialized = True, dbg_enabled = True, dbg_buffer = Live, dbg_size = 32768, dbg_printed = []\<rparr>"

lemma debug_message_fits_witness:
  "turbine_debug ''T'' ''hi'' debug_on = Inr (debug_on\<lparr>dbg_printed := [Text (''T: hi'' @ [CHR 0x0A])]\<rparr>) \<and>
    turbine_debug ''T'' (replicate 40000 CHR ''x'') debug_on = Inl Undefined"
  using debug_message_fits [of debug_on "''T''" "''hi''"] debug_message_fits [of debug_on "''T''" "replicate 40000 CHR ''x''"]
  by (simp add: debug_on_def)

text \<open>
  A second start with the output disabled leaves the pointer of the first in place, and the
  buffer is freed twice.
\<close>

lemma debug_double_free:
  "turbine_debug_finalize (turbine_debug_init (\<lambda>_. Some ''0'') (debug_on\<lparr>dbg_initialized := False, dbg_buffer := Freed\<rparr>)) = Inl Undefined"
  by (simp add: turbine_debug_init_def turbine_debug_finalize_def debug_on_def)

section \<open>Starting and stopping\<close>

lemma init_items: "table_ok T \<Longrightarrow> tbl_items T (tbl_init T n) = []"
  using table_okD(1,7) [of T] by (metis map_of_eq_empty_iff)

lemma finalize_empty:
  assumes "table_ok T" "entries c = tbl_init T n"
  shows "turbine_cache_finalize T R c = Inr (if initialized c
    then c\<lparr>entries := tbl_free T (entries c), lru := rb_clear R (lru c), initialized := False\<rparr> else c)"
  using assms by (simp add: turbine_cache_finalize_def init_items)

definition stopped :: "('t, 'r, 'd, ('tt, 'e) registry) turbine_process \<Rightarrow> bool" where
  "stopped p \<longleftrightarrow> \<not> initialized (tp_cache p) \<and> (\<forall>a \<in> dom (heap (tp_cache p)). a < brk (tp_cache p)) \<and>
     \<not> executors_init (tp_execs p) \<and> \<not> executors_table_init (tp_execs p)"

definition startable :: "env_api \<Rightarrow> int \<Rightarrow> int \<Rightarrow> 64 word \<Rightarrow> bool" where
  "startable E rank n mx \<longleftrightarrow> versions_ok E \<and> gdb_check E rank = Inr () \<and>
     getenv_integer E ''TURBINE_CACHE_SIZE'' 1024 = (True, n) \<and>
     getenv_ulong E ''TURBINE_CACHE_MAX'' (10 * 1024 * 1024) = (True, mx) \<and> 2 \<le> n"

text \<open>
  C8: Starting and stopping a worker. From a stopped process, in an environment with good numbers and
  a capacity of at least two, \<^verbatim>\<open>turbine_init\<close> succeeds and leaves the cache empty, in its invariant and
  with the capacity and budget of the environment. A second start is not refused: it fails the
  assertion of the cache on a worker, and only where there is no cache returns an error. Stopping
  brings the process back to where it can be started again.
\<close>

theorem turbine_lifecycle:
  assumes T: "table_ok T" "rbtree_ok R" and E: "startable E rank n mx" and p: "stopped p"
  shows "\<exists>p1 p2. turbine_init E T R False rank sz p = Inr (TURBINE_SUCCESS, p1) \<and>
    cache_inv T R (tp_cache p1) \<and> cache_abs R (tp_cache p1) = [] \<and>
    max_entries (tp_cache p1) = n \<and> memory (tp_cache p1) = mx \<and> executors_init (tp_execs p1) \<and>
    turbine_init E T R False rank sz p1 = Inl Abort \<and>
    (\<exists>q. turbine_init E T R True rank sz p1 = Inr (TURBINE_ERROR_INVALID, q)) \<and>
    turbine_finalize T R TX p1 w = Inr (p2, w) \<and> stopped p2"
proof -
  let ?c = "tp_cache p" and ?g = "tp_execs p"
  have off: "\<not> initialized ?c" "\<forall>a \<in> dom (heap ?c). a < brk ?c" "\<not> executors_init ?g" "\<not> executors_table_init ?g"
    using p by (auto simp: stopped_def)
  have env: "check_versions E = Inr ()" "gdb_check E rank = Inr ()"
      "getenv_integer E ''TURBINE_CACHE_SIZE'' 1024 = (True, n)"
      "getenv_ulong E ''TURBINE_CACHE_MAX'' (10 * 1024 * 1024) = (True, mx)" "2 \<le> n"
    using E by (simp_all add: startable_def check_versions_def)
  let ?c1 = "?c\<lparr>initialized := True, max_entries := n, memory := mx, entries := tbl_init T n, lru := rb_init R\<rparr>"
  have init: "turbine_cache_init T R n mx ?c = Inr ?c1"
    using off(1) env(5) by (simp add: turbine_cache_init_def Let_def)
  note c1 = init_inv [OF T off(1) env(5) off(2) init]
  let ?p1 = "p\<lparr>tp_size := sz, tp_rank := rank, tp_initialized := True, tp_cache := ?c1,
    tp_debug := turbine_debug_init (getenv E) (tp_debug p), tp_execs := ?g\<lparr>executors_init := True\<rparr>\<rparr>"
  have start: "turbine_init E T R False rank sz p = Inr (TURBINE_SUCCESS, ?p1)"
    using env init off(3) by (simp add: turbine_init_def setup_cache_def turbine_async_exec_initialize_def Let_def)
  have again: "turbine_init E T R False rank sz ?p1 = Inl Abort"
    using env by (simp add: turbine_init_def setup_cache_def turbine_cache_init_def Let_def)
  have server: "\<exists>q. turbine_init E T R True rank sz ?p1 = Inr (TURBINE_ERROR_INVALID, q)"
    using env(1,2) by (simp add: turbine_init_def turbine_async_exec_initialize_def Let_def)
  let ?p2 = "?p1\<lparr>tp_cache := ?c1\<lparr>entries := tbl_free T (tbl_init T n), lru := rb_clear R (rb_init R), initialized := False\<rparr>,
    tp_execs := ?g\<lparr>executors_init := False\<rparr>\<rparr>"
  have stop: "turbine_finalize T R TX ?p1 w = Inr (?p2, w)"
    using off(4) finalize_empty [OF T(1), of ?c1 n R]
    by (simp add: turbine_finalize_def turbine_async_exec_finalize_def)
  have down: "stopped ?p2" using off by (simp add: stopped_def)
  have cache: "tp_cache ?p1 = ?c1" "executors_init (tp_execs ?p1)" by simp_all
  show ?thesis
    by (rule exI [of _ ?p1], rule exI [of _ ?p2], unfold cache(1), intro conjI)
      (rule start c1 cache(2) again server stop down)+
qed

definition good_env :: env_api where
  "good_env = \<lparr>getenv = (\<lambda>_. None), getenv_integer = (\<lambda>_ n. (True, n)), getenv_ulong = (\<lambda>_ n. (True, n)), versions_ok = True\<rparr>"

definition stopped_process ::
    "((int \<times> nat) list, (int \<times> nat) list, string,
      ((string \<times> nat) list, (unit, nat, (nat, unit) world_scheme, nat) turbine_executor) registry) turbine_process" where
  "stopped_process = \<lparr>tp_size = -1, tp_rank = -1, tp_initialized = False,
     tp_debug = \<lparr>dbg_initialized = False, dbg_enabled = True, dbg_buffer = Null, dbg_size = 0, dbg_printed = []\<rparr>,
     tp_cache = cache_blank, tp_execs = \<lparr>executors_init = False, executors_table_init = False, executors = [],
       exec_heap = Map.empty, exec_brk = 1\<rparr>\<rparr>"

lemma turbine_lifecycle_witness:
  "\<exists>p1 p2. turbine_init good_env al_table al_rbtree False 3 8 stopped_process = Inr (TURBINE_SUCCESS, p1) \<and>
    max_entries (tp_cache p1) = 1024 \<and> turbine_init good_env al_table al_rbtree False 3 8 p1 = Inl Abort \<and>
    turbine_finalize al_table al_rbtree al_table p1 \<lparr>refs = \<lambda>_. 0\<rparr> = Inr (p2, \<lparr>refs = \<lambda>_. 0\<rparr>) \<and> stopped p2"
proof -
  have "startable good_env 3 1024 (10 * 1024 * 1024)" by (simp add: startable_def good_env_def gdb_check_def)
  moreover have "stopped stopped_process" by (simp add: stopped_def stopped_process_def cache_blank_def)
  ultimately show ?thesis
    using turbine_lifecycle [OF table_ok_al_table rbtree_ok_al_rbtree, of good_env 3 1024 "10 * 1024 * 1024" stopped_process 8 al_table "\<lparr>refs = \<lambda>_. 0\<rparr>"]
    by blast
qed

end
