(* ===== verification/Turbine_Io.thy ===== *)
theory Turbine_Io
  imports Tcl_Util
begin

text \<open>
  Broadcasts and copies of files over all processes of a communicator: \<^verbatim>\<open>src/turbine/io.c\<close> and the
  commands \<^verbatim>\<open>turbine::c::bcast\<close> and \<^verbatim>\<open>copy_to\<close> of \<^verbatim>\<open>src/tcl/turbine/tcl-turbine.c\<close>.

  The code runs on every rank and meets in the collective operations of MPI, so it is
  modelled for all ranks at once: the broadcast as a function from the list of their arguments, by
  rank, to the list of their results, the copy as what each rank does from one collective operation
  to the next, on files that all ranks share. A collective operation takes place when all ranks take
  part; when one has returned and another waits for it, the result is \<open>Unfinished\<close>: the
  operation never ends. Log messages are not modelled.
\<close>

section \<open>Broadcast\<close>

text \<open>
  The argument of a rank is the text its pointer points to, \<open>None\<close> when the pointer is not
  initialised or null. The result is the value returned, the text and its length.
\<close>

definition turbine_io_bcast :: "string option list \<Rightarrow> (bool \<times> string option \<times> int option) list res" where
  "turbine_io_bcast ranks =
     (case ranks of
        [] \<Rightarrow> Inr []
      | s # others \<Rightarrow>
          (case s of
             None \<Rightarrow> Inl Undefined
           | Some text \<Rightarrow>
               (let sz = int (length text) + 1 in
                if INT_MAX < sz then (if others = [] then Inr [(False, s, None)] else Inl Unfinished)
                else let bytes = sz in Inr (map (\<lambda>_. (True, Some text, Some (bytes - 1))) ranks))))"

text \<open>
  Every rank has its own variables. The root given to the command decides who reads and who sets
  the variable; the broadcast itself is from rank 0. The result of the broadcast is ignored.
\<close>

type_synonym vars = "string \<rightharpoonup> string"

definition bcast_args :: "int \<Rightarrow> string \<Rightarrow> vars list \<Rightarrow> string option list" where
  "bcast_args root name ranks = map (\<lambda>(rank, vars). if int rank = root then vars name else None) (enumerate 0 ranks)"

definition set_result :: "int \<Rightarrow> string \<Rightarrow> (nat \<times> vars) \<times> bool \<times> string option \<times> int option \<Rightarrow> vars res" where
  "set_result root name = (\<lambda>((rank, vars), _, s, _).
     if int rank \<noteq> root then (case s of None \<Rightarrow> Inl Undefined | Some text \<Rightarrow> Inr (vars(name \<mapsto> text))) else Inr vars)"

definition Turbine_Bcast_Cmd :: "('obj, 'f, 'z) tcl_api_scheme \<Rightarrow> 'obj list \<Rightarrow> vars list \<Rightarrow> vars list res" where
  "Turbine_Bcast_Cmd A objv ranks =
     tcl_condition (length objv = 4)
       (tcl_check (tcl_get (tcl_int A (objv ! 1))) (\<lambda>comm.
        tcl_check (tcl_get (tcl_int A (objv ! 2))) (\<lambda>root.
        let name = tcl_string A (objv ! 3) in
        tcl_check (turbine_io_bcast (bcast_args root name ranks)) (\<lambda>results.
          map_res (set_result root name) (zip (enumerate 0 ranks) results)))))"

section \<open>Copying a file\<close>

text \<open>
  What a rank sees of the file system: what \<^verbatim>\<open>stat\<close> says of a path, whether it can be opened for
  writing, and the file a path leads to, or would create. Files are numbered, and their contents are
  a store that all ranks share, so that two paths, on one rank or on several, can be the same file.
\<close>

datatype file_kind = Directory | Regular | Missing | Stat_Error

record rank_fs =
  fs_stat :: "string \<Rightarrow> file_kind"
  fs_writable :: "string \<Rightarrow> bool"
  fs_file :: "string \<Rightarrow> nat"

type_synonym files = "nat \<rightharpoonup> string"

text \<open>The last component of a path, as \<^verbatim>\<open>basename\<close> of POSIX has it.\<close>

definition basename :: "string \<Rightarrow> string" where
  "basename path =
     (if path = [] then ''.''
      else let p = rev (dropWhile (\<lambda>c. c = CHR ''/'') (rev path)) in
        if p = [] then ''/'' else rev (takeWhile (\<lambda>c. c \<noteq> CHR ''/'') (rev p)))"

text \<open>The destination is opened for writing, which truncates it.\<close>

definition copy_destination :: "string \<Rightarrow> string \<Rightarrow> rank_fs \<Rightarrow> files \<Rightarrow> (nat \<times> files) option" where
  "copy_destination name_in name_out fs m =
     (case (case fs_stat fs name_out of
              Directory \<Rightarrow> Some (name_out @ ''/'' @ basename name_in)
            | Regular \<Rightarrow> Some name_out
            | Missing \<Rightarrow> Some name_out
            | Stat_Error \<Rightarrow> None) of
        None \<Rightarrow> None
      | Some target \<Rightarrow>
          if fs_writable fs target then Some (fs_file fs target, m(fs_file fs target \<mapsto> [])) else None)"

definition TURBINE_IO_FILE_CHUNK_SIZE :: int where "TURBINE_IO_FILE_CHUNK_SIZE = 40 * 1024 * 1024"

text \<open>
  A rank is between two collective operations of MPI. It is about to take part in the broadcast of
  the size, the opening of the input, a read of the next chunk or the closing of the input, or it has
  returned. \<open>At_Read file_size tot f\<close> has copied \<open>tot\<close> bytes to the file \<open>f\<close>.
\<close>

datatype copier = At_Bcast "int option" | At_Open int | At_Read int int nat | At_Close | Returned bool

datatype collective = C_Bcast | C_Open | C_Read | C_Close

fun waits_in :: "copier \<Rightarrow> collective option" where
  "waits_in (At_Bcast _) = Some C_Bcast"
| "waits_in (At_Open _) = Some C_Open"
| "waits_in (At_Read _ _ _) = Some C_Read"
| "waits_in At_Close = Some C_Close"
| "waits_in (Returned _) = None"

text \<open>Before the broadcast, rank 0 looks for the size and returns if it cannot find it out.\<close>

definition bcast_size :: "int option \<Rightarrow> nat \<Rightarrow> copier" where
  "bcast_size st_size rank =
     (if rank = 0 then (case st_size of None \<Rightarrow> Returned False | Some n \<Rightarrow> At_Bcast (Some n)) else At_Bcast None)"

text \<open>The loop: the next chunk, or the end.\<close>

definition copy_next :: "int \<Rightarrow> int \<Rightarrow> nat \<Rightarrow> copier" where
  "copy_next file_size tot f = (if tot < file_size then At_Read file_size tot f else At_Close)"

definition chunk_of :: "int \<Rightarrow> int \<Rightarrow> nat" where
  "chunk_of file_size tot = nat (min TURBINE_IO_FILE_CHUNK_SIZE (file_size - tot))"

text \<open>Writing at a place in a file, which is made longer with zeroes when it ends before.\<close>

definition write_at :: "nat \<Rightarrow> string \<Rightarrow> string \<Rightarrow> string" where
  "write_at pos bytes old = take pos (old @ replicate (pos - length old) (CHR 0x00)) @ bytes @ drop (pos + length bytes) old"

text \<open>
  What a rank does from a collective operation to the next one. \<open>before\<close> are the files as the operation
  found them: what is read from the input is from there. A read that gives less than the
  chunk fails an assertion.
\<close>

fun copy_segment ::
    "int option \<Rightarrow> bool \<Rightarrow> string \<Rightarrow> string \<Rightarrow> files \<Rightarrow> rank_fs \<Rightarrow> copier \<Rightarrow> files \<Rightarrow> (copier \<times> files) res" where
  "copy_segment root_size opened name_in name_out before fs (At_Bcast sz) m =
     (case root_size of None \<Rightarrow> Inl Undefined | Some file_size \<Rightarrow> Inr (At_Open file_size, m))"
| "copy_segment root_size opened name_in name_out before fs (At_Open file_size) m =
     (if \<not> opened then Inr (Returned False, m)
      else case copy_destination name_in name_out fs m of
        None \<Rightarrow> Inr (Returned False, m)
      | Some (f, m) \<Rightarrow> Inr (copy_next file_size 0 f, m))"
| "copy_segment root_size opened name_in name_out before fs (At_Read file_size tot f) m =
     (let chunk = chunk_of file_size tot;
          buffer = take chunk (drop (nat tot) (case before (fs_file fs name_in) of None \<Rightarrow> [] | Some data \<Rightarrow> data)) in
      c_assert (length buffer = chunk)
        (Inr (copy_next file_size (tot + int chunk) f,
           m(f \<mapsto> write_at (nat tot) buffer (case m f of None \<Rightarrow> [] | Some old \<Rightarrow> old)))))"
| "copy_segment root_size opened name_in name_out before fs At_Close m = Inr (Returned True, m)"
| "copy_segment root_size opened name_in name_out before fs (Returned b) m = Inr (Returned b, m)"

text \<open>The segments of all ranks, one rank after the other.\<close>

fun copy_segments ::
    "(rank_fs \<Rightarrow> copier \<Rightarrow> files \<Rightarrow> (copier \<times> files) res) \<Rightarrow> (rank_fs \<times> copier) list \<Rightarrow> files \<Rightarrow>
      ((rank_fs \<times> copier) list \<times> files) res" where
  "copy_segments seg [] m = Inr ([], m)"
| "copy_segments seg ((fs, c) # cs) m =
     tcl_check (seg fs c m) (\<lambda>(c, m). tcl_check (copy_segments seg cs m) (\<lambda>(cs, m). Inr ((fs, c) # cs, m)))"

text \<open>
  A collective operation takes place when every rank takes part in it. A rank that waits in one while
  another has returned waits for ever: the run is \<open>Unfinished\<close>. Ranks in different
  operations are an error in the use of MPI. \<open>fuel\<close> bounds the number of operations.
\<close>

definition the_size :: "copier \<Rightarrow> int option" where
  "the_size c = (case c of At_Bcast sz \<Rightarrow> sz | _ \<Rightarrow> None)"

fun run_copiers :: "nat \<Rightarrow> bool \<Rightarrow> string \<Rightarrow> string \<Rightarrow> (rank_fs \<times> copier) list \<Rightarrow> files \<Rightarrow> (bool list \<times> files) res" where
  "run_copiers 0 opened name_in name_out cs m = Inl Unfinished"
| "run_copiers (Suc fuel) opened name_in name_out cs m =
     (let ops = map (\<lambda>(fs, c). waits_in c) cs in
      if set ops \<subseteq> {None} then Inr (map (\<lambda>(fs, c). c = Returned True) cs, m)
      else if None \<in> set ops then Inl Unfinished
      else c_defined (\<forall>op \<in> set ops. op = hd ops)
        (tcl_check (copy_segments (copy_segment (the_size (snd (hd cs))) opened name_in name_out m) cs m) (\<lambda>(cs, m).
           run_copiers fuel opened name_in name_out cs m)))"

text \<open>
  All ranks together. \<open>st_size\<close> is what \<^verbatim>\<open>stat\<close> gives on rank 0, \<open>opened\<close> whether MPI can open the
  input, for all ranks or for none. The result has the value each rank returns.
\<close>

definition turbine_io_copy_to ::
    "nat \<Rightarrow> int option \<Rightarrow> bool \<Rightarrow> string \<Rightarrow> string \<Rightarrow> rank_fs list \<Rightarrow> files \<Rightarrow> (bool list \<times> files) res" where
  "turbine_io_copy_to fuel st_size opened name_in name_out ranks m =
     run_copiers fuel opened name_in name_out (map (\<lambda>(rank, fs). (fs, bcast_size st_size rank)) (enumerate 0 ranks)) m"

definition Turbine_CopyTo_Cmd ::
    "nat \<Rightarrow> ('obj, 'f, 'z) tcl_api_scheme \<Rightarrow> (string \<Rightarrow> int option) \<Rightarrow> (string \<Rightarrow> bool) \<Rightarrow> 'obj list \<Rightarrow>
      rank_fs list \<Rightarrow> files \<Rightarrow> (unit res list \<times> files) res" where
  "Turbine_CopyTo_Cmd fuel A st_size opened objv ranks m =
     (if length objv \<noteq> 4 \<or> tcl_int A (objv ! 1) = None then Inr (map (\<lambda>_. Inl Tcl_Error) ranks, m)
      else let name_in = tcl_string A (objv ! 2); name_out = tcl_string A (objv ! 3) in
        tcl_check (turbine_io_copy_to fuel (st_size name_in) (opened name_in) name_in name_out ranks m) (\<lambda>(results, m).
          Inr (map (\<lambda>b. tcl_condition b (Inr ())) results, m)))"

section \<open>What is broadcast and copied\<close>

lemma args_others:
  "map (\<lambda>(rank, vars). if int rank = 0 then vars name else None) (enumerate (Suc n) ranks) = replicate (length ranks) None"
  by (induction ranks arbitrary: n) auto

lemma set_others:
  "map_res (set_result 0 name) (zip (enumerate (Suc n) ranks) (replicate (length ranks) (True, Some t, l))) =
    Inr (map (\<lambda>vars. vars(name \<mapsto> t)) ranks)"
  by (induction ranks arbitrary: n) (auto simp: set_result_def)

text \<open>
  C24: Broadcast of a variable. From root 0 every rank ends with the value rank 0 has, and no other
  variable changes on any rank. From any other root nothing good comes of it: rank 0, which does
  the broadcast, sends what an uninitialised pointer points to.
\<close>

theorem bcast_variable:
  assumes A: "tcl_int A (objv ! 1) = Some comm" "tcl_int A (objv ! 2) = Some root" "tcl_string A (objv ! 3) = name"
    "length objv = 4"
  shows "(root = 0 \<longrightarrow> v name = Some text \<longrightarrow> int (length text) < INT_MAX \<longrightarrow>
      Turbine_Bcast_Cmd A objv (v # ranks) = Inr (v # map (\<lambda>vars. vars(name \<mapsto> text)) ranks)) \<and>
    (root \<noteq> 0 \<longrightarrow> Turbine_Bcast_Cmd A objv (v # ranks) = Inl Undefined)"
proof (intro conjI impI)
  assume root: "root = 0" and v: "v name = Some text" "int (length text) < INT_MAX"
  have args: "bcast_args root name (v # ranks) = Some text # replicate (length ranks) None"
    using root v(1) args_others [of name 0 ranks] by (simp add: bcast_args_def)
  have sent: "turbine_io_bcast (bcast_args root name (v # ranks)) =
      Inr (replicate (Suc (length ranks)) (True, Some text, Some (int (length text))))"
    using v(2) unfolding args by (simp add: turbine_io_bcast_def map_replicate_const)
  have "set_result 0 name ((0, v), True, Some text, Some (int (length text))) = Inr v" by (simp add: set_result_def)
  then show "Turbine_Bcast_Cmd A objv (v # ranks) = Inr (v # map (\<lambda>vars. vars(name \<mapsto> text)) ranks)"
    using A sent set_others [of name 0 ranks "text" "Some (int (length text))"] root by (simp add: Turbine_Bcast_Cmd_def)
next
  assume "root \<noteq> 0"
  then show "Turbine_Bcast_Cmd A objv (v # ranks) = Inl Undefined"
    using A by (simp add: Turbine_Bcast_Cmd_def bcast_args_def turbine_io_bcast_def)
qed

definition bcast_objv :: "val list" where "bcast_objv = [V_str ''bcast'', V_int 1, V_int 0, V_str ''x'']"

lemma bcast_variable_witness:
  "Turbine_Bcast_Cmd val_tcl bcast_objv [[''x'' \<mapsto> ''hi''], Map.empty, [''y'' \<mapsto> ''z'']] =
     Inr [[''x'' \<mapsto> ''hi''], [''x'' \<mapsto> ''hi''], [''y'' \<mapsto> ''z'', ''x'' \<mapsto> ''hi'']]"
  using bcast_variable [of val_tcl bcast_objv 1 0 "''x''" "[''x'' \<mapsto> ''hi'']" "''hi''" "[Map.empty, [''y'' \<mapsto> ''z'']]"]
  by (simp add: bcast_objv_def val_tcl_def INT_MAX_def)

subsection \<open>What is copied\<close>

text \<open>The file a rank writes, if it can.\<close>

definition target_of :: "string \<Rightarrow> string \<Rightarrow> rank_fs \<Rightarrow> string" where
  "target_of name_in name_out fs = (if fs_stat fs name_out = Directory then name_out @ ''/'' @ basename name_in else name_out)"

definition can_write :: "string \<Rightarrow> string \<Rightarrow> rank_fs \<Rightarrow> bool" where
  "can_write name_in name_out fs \<longleftrightarrow> fs_stat fs name_out \<noteq> Stat_Error \<and> fs_writable fs (target_of name_in name_out fs)"

definition dest_file :: "string \<Rightarrow> string \<Rightarrow> rank_fs \<Rightarrow> nat" where
  "dest_file name_in name_out fs = fs_file fs (target_of name_in name_out fs)"

lemma copy_destination_eq:
  "copy_destination name_in name_out fs m =
    (if can_write name_in name_out fs
     then Some (dest_file name_in name_out fs, m(dest_file name_in name_out fs \<mapsto> [])) else None)"
  by (cases "fs_stat fs name_out") (auto simp: copy_destination_def can_write_def dest_file_def target_of_def)

text \<open>The files when all those in \<open>T\<close> have the content \<open>t\<close>.\<close>

definition filled :: "nat set \<Rightarrow> string \<Rightarrow> files \<Rightarrow> files" where
  "filled T t m = (\<lambda>i. if i \<in> T then Some t else m i)"

lemma filled_simps [simp]:
  "filled {} t m = m" "(filled T t m)(f \<mapsto> t) = filled (insert f T) t m" "i \<notin> T \<Longrightarrow> filled T t m i = m i"
  "i \<in> T \<Longrightarrow> filled T t m i = Some t"
  by (auto simp: filled_def fun_eq_iff)

lemma filled_filled: "T \<subseteq> T' \<Longrightarrow> filled T' t' (filled T t m) = filled T' t' m"
  by (auto simp: filled_def fun_eq_iff)

text \<open>Segments that each write the same to the file of their rank.\<close>

lemma same_segments:
  assumes "\<And>fs T. fs \<in> set ranks \<Longrightarrow> T \<subseteq> D ` set ranks \<Longrightarrow>
    seg fs (st fs) (filled T t m) = Inr (st' fs, filled (insert (D fs) T) t m)"
  shows "copy_segments seg (map (\<lambda>fs. (fs, st fs)) ranks) m = Inr (map (\<lambda>fs. (fs, st' fs)) ranks, filled (D ` set ranks) t m)"
proof -
  have "copy_segments seg (map (\<lambda>fs. (fs, st fs)) rs) (filled T t m) =
      Inr (map (\<lambda>fs. (fs, st' fs)) rs, filled (D ` set rs \<union> T) t m)"
    if "set rs \<subseteq> set ranks" "T \<subseteq> D ` set ranks" for rs T
    using that
  proof (induction rs arbitrary: T)
    case (Cons fs rs)
    then have "copy_segments seg (map (\<lambda>fs. (fs, st fs)) rs) (filled (insert (D fs) T) t m) =
        Inr (map (\<lambda>fs. (fs, st' fs)) rs, filled (D ` set rs \<union> insert (D fs) T) t m)" by simp
    then show ?case using assms [of fs T] Cons.prems by simp
  qed simp
  from this [of ranks "{}"] show ?thesis by simp
qed

lemma each_segment:
  "(\<And>fs m. fs \<in> set ranks \<Longrightarrow> seg fs (st fs) m = Inr (st' fs, g fs m)) \<Longrightarrow>
    copy_segments seg (map (\<lambda>fs. (fs, st fs)) ranks) m = Inr (map (\<lambda>fs. (fs, st' fs)) ranks, fold g ranks m)"
  by (induction ranks arbitrary: m) auto

lemma failing_segment:
  "fs \<in> set ranks \<Longrightarrow> (\<And>m. seg fs (st fs) m = Inl Abort) \<Longrightarrow>
    (\<And>fs m. fs \<in> set ranks \<Longrightarrow> seg fs (st fs) m = Inl Abort \<or> (\<exists>r. seg fs (st fs) m = Inr r)) \<Longrightarrow>
    copy_segments seg (map (\<lambda>fs. (fs, st fs)) ranks) m = Inl Abort"
proof (induction ranks arbitrary: m)
  case (Cons fs' ranks)
  show ?case
  proof (cases "seg fs' (st fs') m = Inl Abort")
    case False
    then obtain c m' where ok: "seg fs' (st fs') m = Inr (c, m')" using Cons.prems(3) [of fs' m] by auto
    then have "fs \<in> set ranks" using Cons.prems(1,2) by auto
    then show ?thesis using Cons.IH [of m'] Cons.prems(2,3) ok by simp
  qed simp
qed simp

lemma fold_still: "fold (\<lambda>x m. m) xs m = m"
  by (induction xs) auto

lemma run_fails:
  assumes "ranks \<noteq> []" "\<And>fs. fs \<in> set ranks \<Longrightarrow> waits_in (st fs) = Some op"
    and "copy_segments (copy_segment (the_size (st (hd ranks))) opened name_in name_out m) (map (\<lambda>fs. (fs, st fs)) ranks) m = Inl e"
  shows "run_copiers (Suc fuel) opened name_in name_out (map (\<lambda>fs. (fs, st fs)) ranks) m = Inl e"
proof -
  let ?cs = "map (\<lambda>fs. (fs, st fs)) ranks"
  have "set (map (\<lambda>(fs, c). waits_in c) ?cs) = {Some op}" using assms(1,2) by (cases ranks) auto
  moreover have "hd (map (\<lambda>(fs, c). waits_in c) ?cs) = Some op" "snd (hd ?cs) = st (hd ranks)"
    using assms(1,2) by (cases ranks; simp)+
  ultimately show ?thesis using assms(3) by (simp add: Let_def)
qed

lemma run_round:
  assumes "ranks \<noteq> []" "\<And>fs. fs \<in> set ranks \<Longrightarrow> waits_in (st fs) = Some op"
    and "copy_segments (copy_segment (the_size (st (hd ranks))) opened name_in name_out m) (map (\<lambda>fs. (fs, st fs)) ranks) m =
      Inr (cs, m')"
  shows "run_copiers (Suc fuel) opened name_in name_out (map (\<lambda>fs. (fs, st fs)) ranks) m =
    run_copiers fuel opened name_in name_out cs m'"
proof -
  let ?cs = "map (\<lambda>fs. (fs, st fs)) ranks"
  have "set (map (\<lambda>(fs, c). waits_in c) ?cs) = {Some op}" using assms(1,2) by (cases ranks) auto
  moreover have "hd (map (\<lambda>(fs, c). waits_in c) ?cs) = Some op" "snd (hd ?cs) = st (hd ranks)"
    using assms(1,2) by (cases ranks; simp)+
  ultimately show ?thesis using assms(3) by (simp add: Let_def)
qed

lemma run_returned: "run_copiers (Suc fuel) opened name_in name_out (map (\<lambda>fs. (fs, Returned b)) ranks) m = Inr (map (\<lambda>_. b) ranks, m)"
  by (auto simp: Let_def)

text \<open>The rest of the loop, with \<open>tot\<close> bytes in all destinations.\<close>

lemma copy_rest:
  assumes ranks: "ranks \<noteq> []" and ins: "\<forall>fs \<in> set ranks. m (fs_file fs name_in) = Some data"
    and apart: "\<forall>fs \<in> set ranks. \<forall>fs' \<in> set ranks. D fs \<noteq> fs_file fs' name_in"
  shows "tot \<le> length data \<Longrightarrow> length data + 2 \<le> fuel + tot \<Longrightarrow>
    run_copiers fuel opened name_in name_out (map (\<lambda>fs. (fs, copy_next (int (length data)) (int tot) (D fs))) ranks)
      (filled (D ` set ranks) (take tot data) m) =
    Inr (map (\<lambda>_. True) ranks, filled (D ` set ranks) data m)"
proof (induction "length data - tot" arbitrary: tot fuel rule: less_induct)
  case less
  let ?n = "int (length data)" and ?T = "D ` set ranks"
  let ?m = "filled ?T (take tot data) m"
  from less.prems obtain fuel' where f: "fuel = Suc (Suc fuel')" by (cases fuel; cases "fuel - 1") auto
  show ?case
  proof (cases "tot < length data")
    case False
    then have "run_copiers (Suc (Suc fuel')) opened name_in name_out (map (\<lambda>fs. (fs, At_Close)) ranks) ?m =
        run_copiers (Suc fuel') opened name_in name_out (map (\<lambda>fs. (fs, Returned True)) ranks) ?m"
      by (intro run_round [where st = "\<lambda>fs. At_Close" and op = C_Close] ranks)
        (simp_all add: each_segment [where st = "\<lambda>fs. At_Close" and st' = "\<lambda>fs. Returned True" and g = "\<lambda>fs m. m"] fold_still)
    then show ?thesis using less.prems False by (simp add: f copy_next_def run_returned del: run_copiers.simps)
  next
    case True
    define chunk where "chunk = chunk_of ?n (int tot)"
    have chunk: "0 < chunk" "tot + chunk \<le> length data"
      using True by (auto simp: chunk_def chunk_of_def TURBINE_IO_FILE_CHUNK_SIZE_def)
    let ?b = "take chunk (drop tot data)" and ?t = "take (tot + chunk) data"
    have wr: "write_at tot ?b (take tot data) = ?t" "write_at tot ?b ?t = ?t"
      using chunk by (simp_all add: write_at_def take_add)
    have seg: "copy_segment sz opened name_in name_out ?m fs (At_Read ?n (int tot) (D fs)) (filled T ?t ?m) =
        Inr (copy_next ?n (int (tot + chunk)) (D fs), filled (insert (D fs) T) ?t ?m)"
      if "fs \<in> set ranks" "T \<subseteq> ?T" for sz fs T
    proof -
      have "fs_file fs name_in \<notin> ?T" using apart that(1) by (metis imageE)
      then have "?m (fs_file fs name_in) = Some data" using ins that(1) by simp
      moreover have "filled T ?t ?m (D fs) = Some (if D fs \<in> T then ?t else take tot data)"
        using that(1) by (auto simp: filled_def)
      ultimately show ?thesis using chunk wr by (simp add: chunk_def [symmetric] Let_def)
    qed
    have "run_copiers (Suc (Suc fuel')) opened name_in name_out (map (\<lambda>fs. (fs, At_Read ?n (int tot) (D fs))) ranks) ?m =
        run_copiers (Suc fuel') opened name_in name_out
          (map (\<lambda>fs. (fs, copy_next ?n (int (tot + chunk)) (D fs))) ranks) (filled ?T ?t ?m)"
      by (rule run_round [where st = "\<lambda>fs. At_Read ?n (int tot) (D fs)" and op = C_Read, OF ranks])
        (simp, rule same_segments, rule seg)
    also have "\<dots> = Inr (map (\<lambda>_. True) ranks, filled ?T data m)"
      unfolding filled_filled [OF subset_refl]
      by (rule less.hyps) (use chunk less.prems True f in simp_all)
    finally show ?thesis using True by (simp add: f copy_next_def del: run_copiers.simps)
  qed
qed

text \<open>The start: after the broadcast all ranks know the size.\<close>

lemma copy_start:
  assumes "ranks \<noteq> []"
  shows "turbine_io_copy_to (Suc fuel) (Some n) opened name_in name_out ranks m =
    run_copiers fuel opened name_in name_out (map (\<lambda>fs. (fs, At_Open n)) ranks) m"
proof -
  obtain fs0 rs where r: "ranks = fs0 # rs" using assms by (cases ranks) auto
  have others: "map (\<lambda>(rank, fs). (fs, bcast_size (Some n) rank)) (enumerate (Suc k) rs) = map (\<lambda>fs. (fs, At_Bcast None)) rs" for k
    by (induction rs arbitrary: k) (auto simp: bcast_size_def)
  have seg: "copy_segments (copy_segment (Some n) opened name_in name_out m) (map (\<lambda>fs. (fs, At_Bcast None)) rs) m =
      Inr (map (\<lambda>fs. (fs, At_Open n)) rs, m)"
    by (induction rs) auto
  let ?ops = "map (\<lambda>(fs, c). waits_in c) ((fs0, At_Bcast (Some n)) # map (\<lambda>fs. (fs, At_Bcast None)) rs)"
  have "set ?ops \<subseteq> {Some C_Bcast}" "?ops \<noteq> []" by auto
  then have "\<not> set ?ops \<subseteq> {None}" "None \<notin> set ?ops" "\<forall>op \<in> set ?ops. op = hd ?ops" by auto
  then show ?thesis
    unfolding turbine_io_copy_to_def r enumerate_simps list.map prod.case others
    by (simp add: bcast_size_def the_size_def seg Let_def)
qed

text \<open>Every rank that can opens its destination.\<close>

lemma copy_opened:
  assumes "ranks \<noteq> []" "\<forall>fs \<in> set ranks. can_write name_in name_out fs"
  shows "turbine_io_copy_to (Suc (Suc fuel)) (Some n) True name_in name_out ranks m =
    run_copiers fuel True name_in name_out (map (\<lambda>fs. (fs, copy_next n 0 (dest_file name_in name_out fs))) ranks)
      (filled (dest_file name_in name_out ` set ranks) [] m)"
  unfolding copy_start [OF assms(1)]
  by (rule run_round [where st = "\<lambda>fs. At_Open n" and op = C_Open, OF assms(1)])
    (simp, rule same_segments, use assms(2) in \<open>simp add: copy_destination_eq\<close>)

text \<open>A destination that is an input, and destinations of which only some can be opened.\<close>

lemma copy_onto_input:
  assumes ranks: "ranks \<noteq> []" and "\<forall>fs \<in> set ranks. can_write name_in name_out fs" "data \<noteq> []"
    and fs': "fs' \<in> set ranks" "fs_file fs' name_in \<in> dest_file name_in name_out ` set ranks"
  shows "turbine_io_copy_to (Suc (Suc (Suc k))) (Some (int (length data))) True name_in name_out ranks m = Inl Abort"
proof -
  let ?n = "int (length data)" and ?D = "dest_file name_in name_out"
  have n: "0 < ?n" "0 < chunk_of ?n 0"
    using assms(3) by (simp_all add: chunk_of_def TURBINE_IO_FILE_CHUNK_SIZE_def)
  let ?m = "filled (?D ` set ranks) [] m"
  have "run_copiers (Suc k) True name_in name_out (map (\<lambda>fs. (fs, At_Read ?n 0 (?D fs))) ranks) ?m = Inl Abort"
  proof (rule run_fails [where st = "\<lambda>fs. At_Read ?n 0 (?D fs)" and op = C_Read, OF ranks], simp,
      rule failing_segment [OF fs'(1)])
    show "copy_segment sz True name_in name_out ?m fs' (At_Read ?n 0 (?D fs')) m' = Inl Abort" for sz m'
      using fs'(2) n by (simp add: c_assert_def)
    show "copy_segment sz True name_in name_out ?m fs (At_Read ?n 0 (?D fs)) m' = Inl Abort \<or>
        (\<exists>r. copy_segment sz True name_in name_out ?m fs (At_Read ?n 0 (?D fs)) m' = Inr r)" for sz fs m'
      by (simp add: c_assert_def Let_def)
  qed
  then show ?thesis using n by (simp add: copy_opened [OF assms(1,2)] copy_next_def del: run_copiers.simps)
qed

lemma copy_stuck:
  assumes ranks: "ranks \<noteq> []"
    and some: "\<exists>fs \<in> set ranks. can_write name_in name_out fs" and not: "\<exists>fs \<in> set ranks. \<not> can_write name_in name_out fs"
  shows "turbine_io_copy_to (Suc (Suc (Suc k))) (Some n) True name_in name_out ranks m = Inl Unfinished"
proof -
  let ?D = "dest_file name_in name_out"
  let ?st = "\<lambda>fs. if can_write name_in name_out fs then copy_next n 0 (?D fs) else Returned False"
  have "copy_segments (copy_segment sz True name_in name_out m) (map (\<lambda>fs. (fs, At_Open n)) ranks) m =
      Inr (map (\<lambda>fs. (fs, ?st fs)) ranks, fold (\<lambda>fs m. if can_write name_in name_out fs then m(?D fs \<mapsto> []) else m) ranks m)" for sz
    by (rule each_segment) (simp add: copy_destination_eq)
  then have "turbine_io_copy_to (Suc (Suc (Suc k))) (Some n) True name_in name_out ranks m =
      run_copiers (Suc k) True name_in name_out (map (\<lambda>fs. (fs, ?st fs)) ranks)
        (fold (\<lambda>fs m. if can_write name_in name_out fs then m(?D fs \<mapsto> []) else m) ranks m)"
    unfolding copy_start [OF ranks]
    by (intro run_round [where st = "\<lambda>fs. At_Open n" and op = C_Open] ranks) simp_all
  also have "\<dots> = Inl Unfinished"
  proof -
    let ?ops = "map (\<lambda>(fs, c). waits_in c) (map (\<lambda>fs. (fs, ?st fs)) ranks)"
    from some obtain fs where fs: "fs \<in> set ranks" "can_write name_in name_out fs" by blast
    have "waits_in (?st fs) \<in> set ?ops" using imageI [OF fs(1), of "\<lambda>fs. waits_in (?st fs)"] by (simp add: image_image)
    moreover have "waits_in (?st fs) \<noteq> None" using fs(2) by (simp add: copy_next_def)
    ultimately have "\<not> set ?ops \<subseteq> {None}" by (meson singletonD subsetD)
    moreover from not obtain fs' where fs': "fs' \<in> set ranks" "\<not> can_write name_in name_out fs'" by blast
    then have "None \<in> set ?ops" using imageI [OF fs'(1), of "\<lambda>fs. waits_in (?st fs)"] by (simp add: image_image)
    ultimately show ?thesis by (simp only: run_copiers.simps Let_def if_False if_True)
  qed
  finally show ?thesis .
qed

text \<open>
  C23: Copy of a file to every rank. When rank 0 can stat the file, MPI can open it, its size has not
  changed in between, every rank can write its destination and no destination is the input, every
  rank returns true, every destination (the name in the destination directory when it is one)
  has the content of the input, and no other file changes. Ranks may share destinations. When a
  destination is the file that some rank reads from, by whatever path, and that is not empty,
  opening the destination empties it and the copy dies on an assertion. When only some of
  the ranks can write their destinations, the others wait for them for ever in the first read.
\<close>

theorem copy_to_copies:
  assumes ranks: "ranks \<noteq> []" and ins: "\<forall>fs \<in> set ranks. m (fs_file fs name_in) = Some data"
    and fuel: "length data + 4 \<le> fuel"
  shows "((\<forall>fs \<in> set ranks. can_write name_in name_out fs) \<longrightarrow>
      (\<forall>fs \<in> set ranks. \<forall>fs' \<in> set ranks. dest_file name_in name_out fs \<noteq> fs_file fs' name_in) \<longrightarrow>
      turbine_io_copy_to fuel (Some (int (length data))) True name_in name_out ranks m =
        Inr (map (\<lambda>_. True) ranks, \<lambda>i. if i \<in> dest_file name_in name_out ` set ranks then Some data else m i)) \<and>
    ((\<forall>fs \<in> set ranks. can_write name_in name_out fs) \<longrightarrow> data \<noteq> [] \<longrightarrow>
      (\<exists>fs \<in> set ranks. \<exists>fs' \<in> set ranks. dest_file name_in name_out fs = fs_file fs' name_in) \<longrightarrow>
      turbine_io_copy_to fuel (Some (int (length data))) True name_in name_out ranks m = Inl Abort) \<and>
    ((\<exists>fs \<in> set ranks. can_write name_in name_out fs) \<longrightarrow> (\<exists>fs \<in> set ranks. \<not> can_write name_in name_out fs) \<longrightarrow>
      turbine_io_copy_to fuel (Some (int (length data))) True name_in name_out ranks m = Inl Unfinished)"
proof (intro conjI impI)
  let ?D = "dest_file name_in name_out"
  obtain k where k: "fuel = Suc (Suc (Suc k))" "length data + 1 \<le> k"
    using that [of "fuel - 3"] fuel by simp
  show "turbine_io_copy_to fuel (Some (int (length data))) True name_in name_out ranks m =
      Inr (map (\<lambda>_. True) ranks, \<lambda>i. if i \<in> ?D ` set ranks then Some data else m i)"
    if can: "\<forall>fs \<in> set ranks. can_write name_in name_out fs"
      and apart: "\<forall>fs \<in> set ranks. \<forall>fs' \<in> set ranks. ?D fs \<noteq> fs_file fs' name_in"
    using copy_rest [where D = ?D, OF ranks ins apart, of 0 "Suc k" True name_out] k
    by (simp add: copy_opened [OF ranks can] filled_def del: run_copiers.simps)
  show "turbine_io_copy_to fuel (Some (int (length data))) True name_in name_out ranks m = Inl Abort"
    if can: "\<forall>fs \<in> set ranks. can_write name_in name_out fs" and data: "data \<noteq> []"
      and same: "\<exists>fs \<in> set ranks. \<exists>fs' \<in> set ranks. ?D fs = fs_file fs' name_in"
  proof -
    from same obtain fs' where "fs' \<in> set ranks" "fs_file fs' name_in \<in> ?D ` set ranks" by (metis imageI)
    then show ?thesis unfolding k(1) by (rule copy_onto_input [OF ranks can data])
  qed
  show "turbine_io_copy_to fuel (Some (int (length data))) True name_in name_out ranks m = Inl Unfinished"
    if "\<exists>fs \<in> set ranks. can_write name_in name_out fs" "\<exists>fs \<in> set ranks. \<not> can_write name_in name_out fs"
    unfolding k(1) by (rule copy_stuck [OF ranks that])
qed

text \<open>Two ranks: on one the destination is a directory, on the other a file. Then the directory of the input.\<close>

definition dir_fs :: rank_fs where
  "dir_fs = \<lparr>fs_stat = (\<lambda>p. if p = ''/a'' \<or> p = ''/tmp'' then Directory else Missing), fs_writable = (\<lambda>p. True),
     fs_file = (\<lambda>p. if p = ''/a/f'' then 0 else 1)\<rparr>"

definition file_fs :: rank_fs where
  "file_fs = \<lparr>fs_stat = (\<lambda>p. Regular), fs_writable = (\<lambda>p. p \<noteq> ''/a/f''), fs_file = (\<lambda>p. if p = ''/a/f'' then 0 else 2)\<rparr>"

lemma copy_to_copies_witness:
  "turbine_io_copy_to 7 (Some 3) True ''/a/f'' ''/tmp'' [dir_fs, file_fs] [0 \<mapsto> ''abc'', 2 \<mapsto> ''old''] =
     Inr ([True, True], [0 \<mapsto> ''abc'', 1 \<mapsto> ''abc'', 2 \<mapsto> ''abc'']) \<and>
   turbine_io_copy_to 7 (Some 3) True ''/a/f'' ''/a'' [dir_fs, file_fs] [0 \<mapsto> ''abc'', 2 \<mapsto> ''old''] = Inl Abort"
proof -
  let ?m = "[0 \<mapsto> ''abc'', 2 \<mapsto> ''old'']"
  have r: "[dir_fs, file_fs] \<noteq> []" "\<forall>fs \<in> set [dir_fs, file_fs]. ?m (fs_file fs ''/a/f'') = Some ''abc''"
    "length ''abc'' + 4 \<le> 7" by (simp_all add: dir_fs_def file_fs_def)
  note defs = can_write_def dest_file_def target_of_def basename_def dir_fs_def file_fs_def
  have can: "\<forall>fs \<in> set [dir_fs, file_fs]. can_write ''/a/f'' ''/tmp'' fs" "\<forall>fs \<in> set [dir_fs, file_fs]. can_write ''/a/f'' ''/a'' fs"
    and apart: "\<forall>fs \<in> set [dir_fs, file_fs]. \<forall>fs' \<in> set [dir_fs, file_fs].
      dest_file ''/a/f'' ''/tmp'' fs \<noteq> fs_file fs' ''/a/f''"
    and same: "\<exists>fs \<in> set [dir_fs, file_fs]. \<exists>fs' \<in> set [dir_fs, file_fs].
      dest_file ''/a/f'' ''/a'' fs = fs_file fs' ''/a/f''" by (simp_all add: defs)
  have "(\<lambda>i. if i \<in> dest_file ''/a/f'' ''/tmp'' ` set [dir_fs, file_fs] then Some ''abc'' else ?m i) =
      [0 \<mapsto> ''abc'', 1 \<mapsto> ''abc'', 2 \<mapsto> ''abc'']" by (auto simp: defs fun_eq_iff)
  moreover have "turbine_io_copy_to 7 (Some (int (length ''abc''))) True ''/a/f'' ''/tmp'' [dir_fs, file_fs] ?m =
      Inr (map (\<lambda>_. True) [dir_fs, file_fs],
        \<lambda>i. if i \<in> dest_file ''/a/f'' ''/tmp'' ` set [dir_fs, file_fs] then Some ''abc'' else ?m i)"
    using copy_to_copies [OF r, of "''/tmp''"] can(1) apart by blast
  moreover have "turbine_io_copy_to 7 (Some (int (length ''abc''))) True ''/a/f'' ''/a'' [dir_fs, file_fs] ?m = Inl Abort"
    using copy_to_copies [OF r, of "''/a''"] can(2) same by blast
  ultimately show ?thesis by simp
qed

end
