(* ===== verification/Languages.thy ===== *)
theory Languages
  imports Tcl_Util
begin

text \<open>
  The interpreters of other languages embedded in Turbine, \<^verbatim>\<open>src/tcl/python\<close>, \<^verbatim>\<open>src/tcl/r\<close> and
  \<^verbatim>\<open>src/tcl/julia\<close>; the logging library MPE, \<^verbatim>\<open>src/tcl/mpe\<close>; the small extension \<^verbatim>\<open>src/tcl/c-utils\<close>;
  and \<^verbatim>\<open>src/turbine/run.c\<close>, which runs a Tcl script in an interpreter. The interpreters and
  libraries are parameters that act on a world \<open>'w\<close>; messages are not modelled.
\<close>

section \<open>Python\<close>

text \<open>
  \<^verbatim>\<open>PyRun_SimpleString\<close> gives whether there was no exception, \<^verbatim>\<open>PyRun_String\<close> the value of an
  expression if there was none, and \<^verbatim>\<open>PyArg_Parse\<close> the text of a value that is a string.
\<close>

record ('w, 'v) python_api =
  py_init :: "'w \<Rightarrow> bool \<times> 'w"
  run_simple :: "string \<Rightarrow> 'w \<Rightarrow> bool \<times> 'w"
  run_string :: "string \<Rightarrow> 'w \<Rightarrow> 'v option \<times> 'w"
  parse_string :: "'v \<Rightarrow> 'w \<Rightarrow> string option \<times> 'w"
  py_finalize :: "'w \<Rightarrow> 'w"

record 'w python_state =
  py_initialized :: bool
  py_world :: 'w

definition python_init :: "('w, 'v) python_api \<Rightarrow> (unit, 'w python_state) cmd" where
  "python_init P s =
     (if py_initialized s then (Inr (), s)
      else let (ok, w) = py_init P (py_world s); s = s\<lparr>py_world := w\<rparr> in
        if ok then (Inr (), s\<lparr>py_initialized := True\<rparr>) else (Inl Tcl_Error, s))"

definition python_finalize :: "('w, 'v) python_api \<Rightarrow> 'w python_state \<Rightarrow> 'w python_state" where
  "python_finalize P s = s\<lparr>py_world := py_finalize P (py_world s), py_initialized := False\<rparr>"

text \<open>All lines but the last are commands; the result is the last line, the expression.\<close>

fun python_commands :: "('w, 'v) python_api \<Rightarrow> string list \<Rightarrow> (string option, 'w python_state) cmd" where
  "python_commands P [] s = (Inr None, s)"
| "python_commands P [expression] s = (Inr (Some expression), s)"
| "python_commands P (command # lines) s =
     (let (ok, w) = run_simple P command (py_world s); s = s\<lparr>py_world := w\<rparr> in
      if ok then python_commands P lines s else (Inl Tcl_Error, s))"

definition python_result_default :: string where "python_result_default = ''NOTHING''"

text \<open>
  The code of \<^verbatim>\<open>PyArg_Parse\<close> is dropped, so for a value that is no string the result is the
  default. Without lines there is no output. An exception leaves the interpreter running.
\<close>

definition python_eval ::
    "('w, 'v) python_api \<Rightarrow> (string \<Rightarrow> string list) \<Rightarrow> bool \<Rightarrow> string \<Rightarrow> (string option, 'w python_state) cmd" where
  "python_eval P split_lines persist code =
     cmd_bind (python_init P) (\<lambda>_.
     cmd_bind (python_commands P (split_lines code)) (\<lambda>expression.
     cmd_bind (\<lambda>s. case expression of
         None \<Rightarrow> (Inr None, s)
       | Some e \<Rightarrow>
           (let (v, w) = run_string P e (py_world s); s = s\<lparr>py_world := w\<rparr> in
            case v of None \<Rightarrow> (Inl Tcl_Error, s)
            | Some v \<Rightarrow> (let (t, w) = parse_string P v (py_world s); s = s\<lparr>py_world := w\<rparr> in
                (Inr (Some (case t of None \<Rightarrow> python_result_default | Some t \<Rightarrow> t)), s)))) (\<lambda>output s.
       (Inr output, if persist then s else python_finalize P s))))"

text \<open>Without output a null pointer is made the result.\<close>

definition Python_Eval_Cmd ::
    "('obj, 'f, 'z) tcl_api_scheme \<Rightarrow> ('w, 'v) python_api \<Rightarrow> (string \<Rightarrow> string list) \<Rightarrow> 'obj list \<Rightarrow>
      ('obj, 'w python_state) cmd" where
  "Python_Eval_Cmd A P split_lines objv =
     cmd_bind (cmd_condition (length objv = 3)) (\<lambda>_.
     cmd_bind (cmd_do (tcl_get (tcl_boolean A (objv ! 1)))) (\<lambda>persist.
     cmd_bind (python_eval P split_lines persist (tcl_string A (objv ! 2))) (\<lambda>output.
       cmd_do (case output of None \<Rightarrow> Inl Undefined | Some t \<Rightarrow> Inr (new_string A t)))))"

section \<open>R\<close>

text \<open>
  \<open>r_parse\<close> parses a line; a line that is no expression is an error. \<^verbatim>\<open>Rf_mkString\<close> of a null pointer
  is undefined. R is never finalised.
\<close>

record ('w, 'x, 'v) r_api =
  init_embedded :: "'w \<Rightarrow> bool \<times> 'w"
  r_parse :: "string \<Rightarrow> 'w \<Rightarrow> 'x option \<times> 'w"
  r_value :: "'x \<Rightarrow> 'w \<Rightarrow> 'v \<times> 'w"
  encode_element :: "'v \<Rightarrow> string"

record 'w r_state =
  r_initialized :: bool
  r_world :: 'w

text \<open>The flag is set even when R could not be initialised.\<close>

definition init_r :: "('w, 'x, 'v) r_api \<Rightarrow> 'w r_state \<Rightarrow> bool \<times> 'w r_state" where
  "init_r R s =
     (if r_initialized s then (True, s)
      else let (rc, w) = init_embedded R (r_world s) in (rc, s\<lparr>r_world := w, r_initialized := True\<rparr>))"

definition eval_r_line :: "('w, 'x, 'v) r_api \<Rightarrow> string \<Rightarrow> ('v, 'w r_state) cmd" where
  "eval_r_line R cmd s =
     (let (code, w) = r_parse R cmd (r_world s); s = s\<lparr>r_world := w\<rparr> in
      case code of None \<Rightarrow> (Inl Tcl_Error, s)
      | Some x \<Rightarrow> (let (v, w) = r_value R x (r_world s) in (Inr v, s\<lparr>r_world := w\<rparr>)))"

fun r_commands :: "('w, 'x, 'v) r_api \<Rightarrow> string list \<Rightarrow> (string option, 'w r_state) cmd" where
  "r_commands R [] = cmd_do (Inr None)"
| "r_commands R [expression] = cmd_do (Inr (Some expression))"
| "r_commands R (command # lines) = cmd_bind (eval_r_line R command) (\<lambda>_. r_commands R lines)"

definition r_eval :: "('w, 'x, 'v) r_api \<Rightarrow> (string \<Rightarrow> string list) \<Rightarrow> string \<Rightarrow> (string, 'w r_state) cmd" where
  "r_eval R split_lines code s =
     (let (rc, s) = init_r R s in
      if \<not> rc then (Inl Tcl_Error, s)
      else cmd_bind (r_commands R (split_lines code)) (\<lambda>expression.
           case expression of
             None \<Rightarrow> cmd_do (Inl Undefined)
           | Some e \<Rightarrow> cmd_bind (eval_r_line R e) (\<lambda>x. cmd_do (Inr (encode_element R x)))) s)"

definition R_Eval_Cmd ::
    "('obj, 'f, 'z) tcl_api_scheme \<Rightarrow> ('w, 'x, 'v) r_api \<Rightarrow> (string \<Rightarrow> string list) \<Rightarrow> 'obj list \<Rightarrow>
      ('obj, 'w r_state) cmd" where
  "R_Eval_Cmd A R split_lines objv =
     cmd_bind (cmd_condition (length objv = 2)) (\<lambda>_.
     cmd_bind (r_eval R split_lines (tcl_string A (objv ! 1))) (\<lambda>t. cmd_do (Inr (new_string A t))))"

section \<open>Julia\<close>

text \<open>
  The value of a line is that of the variable it is assigned to, rendered by interpolation.
  An error of the evaluation gives a null pointer, which is used. \<open>chomp\<close> of c-utils removes the newline
  at the end.
\<close>

record 'w julia_api =
  jl_init :: "'w \<Rightarrow> 'w"
  jl_eval_string :: "string \<Rightarrow> 'w \<Rightarrow> string option \<times> 'w"

record 'w julia_state =
  jl_initialized :: bool
  jl_world :: 'w

definition julia_initialize :: "'w julia_api \<Rightarrow> 'w julia_state \<Rightarrow> 'w julia_state" where
  "julia_initialize J s = s\<lparr>jl_world := jl_init J (jl_world s), jl_initialized := True\<rparr>"

definition julia_eval :: "'w julia_api \<Rightarrow> (string \<Rightarrow> string) \<Rightarrow> string \<Rightarrow> (string, 'w julia_state) cmd" where
  "julia_eval J chomp code s =
     (let s = (if jl_initialized s then s else julia_initialize J s);
          assignment = ''_t = '' @ code in
      if length code + 32 < length assignment + 1 then (Inl Undefined, s)
      else let (_, w) = jl_eval_string J assignment (jl_world s);
               (value, w) = jl_eval_string J ([CHR 0x22] @ ''$_t'' @ [CHR 0x0A] @ [CHR 0x22]) w; s = s\<lparr>jl_world := w\<rparr> in
        case value of None \<Rightarrow> (Inl Undefined, s) | Some t \<Rightarrow> (Inr (chomp t), s))"

definition Julia_Eval_Cmd ::
    "('obj, 'f, 'z) tcl_api_scheme \<Rightarrow> 'w julia_api \<Rightarrow> (string \<Rightarrow> string) \<Rightarrow> 'obj list \<Rightarrow> ('obj, 'w julia_state) cmd" where
  "Julia_Eval_Cmd A J chomp objv =
     cmd_bind (cmd_condition (length objv = 2)) (\<lambda>_.
     cmd_bind (julia_eval J chomp (tcl_string A (objv ! 1))) (\<lambda>t. cmd_do (Inr (new_string A t))))"

section \<open>MPE\<close>

text \<open>
  The commands exist twice, for a build with MPE and one without; \<open>enabled\<close> selects. The library gives
  out identifiers of events, gives them descriptions and logs them.
\<close>

record 'w mpe_api =
  mpe_initialized :: "'w \<Rightarrow> bool"
  get_state_ids :: "'w \<Rightarrow> (int \<times> int) \<times> 'w"
  describe_state :: "int \<Rightarrow> int \<Rightarrow> string \<Rightarrow> 'w \<Rightarrow> 'w"
  get_solo_id :: "'w \<Rightarrow> int \<times> 'w"
  describe_event :: "int \<Rightarrow> string \<Rightarrow> 'w \<Rightarrow> 'w"
  log_event :: "int \<Rightarrow> string option \<Rightarrow> 'w \<Rightarrow> 'w"

text \<open>The assertion is there in a build with assertions; the others are undefined then.\<close>

definition assert_mpe_initialized :: "'w mpe_api \<Rightarrow> (unit, 'w) cmd" where
  "assert_mpe_initialized M w = (if mpe_initialized M w then (Inr (), w) else (Inl Abort, w))"

definition MPE_Enabled_Cmd :: "('obj, 'f, 'z) tcl_api_scheme \<Rightarrow> 'obj list \<Rightarrow> ('obj, 'w) cmd" where
  "MPE_Enabled_Cmd A objv = cmd_bind (cmd_condition (length objv = 1)) (\<lambda>_. cmd_do (Inr (new_boolean A True)))"

definition MPE_Create_Pair_Cmd :: "('obj, 'f, 'z) tcl_api_scheme \<Rightarrow> 'w mpe_api \<Rightarrow> 'obj list \<Rightarrow> ('obj, 'w) cmd" where
  "MPE_Create_Pair_Cmd A M objv =
     cmd_bind (assert_mpe_initialized M) (\<lambda>_.
     cmd_bind (cmd_condition (length objv = 2)) (\<lambda>_ w.
       let ((event1, event2), w) = get_state_ids M w;
           w = describe_state M event1 event2 (tcl_string A (objv ! 1)) w in
       (Inr (new_list A [new_wide A event1, new_wide A event2]), w)))"

definition MPE_Create_Solo_Cmd :: "('obj, 'f, 'z) tcl_api_scheme \<Rightarrow> 'w mpe_api \<Rightarrow> 'obj list \<Rightarrow> ('obj, 'w) cmd" where
  "MPE_Create_Solo_Cmd A M objv =
     cmd_bind (assert_mpe_initialized M) (\<lambda>_.
     cmd_bind (cmd_condition (length objv = 2)) (\<lambda>_ w.
       let (event, w) = get_solo_id M w;
           w = describe_event M event (tcl_string A (objv ! 1)) w in
       (Inr (new_wide A event), w)))"

definition MPE_Log_Cmd :: "('obj, 'f, 'z) tcl_api_scheme \<Rightarrow> 'w mpe_api \<Rightarrow> 'obj list \<Rightarrow> (unit, 'w) cmd" where
  "MPE_Log_Cmd A M objv =
     cmd_bind (assert_mpe_initialized M) (\<lambda>_.
     cmd_bind (cmd_condition (length objv = 2 \<or> length objv = 3)) (\<lambda>_.
     cmd_bind (cmd_do (tcl_get (tcl_int A (objv ! 1)))) (\<lambda>event w.
       let bytes = (if length objv = 3 then Some (tcl_string A (objv ! 2)) else None) in
       (Inr (), log_event M event bytes w))))"

definition MPE_Enabled_Cmd_off :: "('obj, 'f, 'z) tcl_api_scheme \<Rightarrow> 'obj list \<Rightarrow> ('obj, 'w) cmd" where
  "MPE_Enabled_Cmd_off A objv = cmd_bind (cmd_condition (length objv = 1)) (\<lambda>_. cmd_do (Inr (new_boolean A False)))"

text \<open>Without MPE the other commands succeed, whatever they are called with, and give no result.\<close>

definition MPE_Noop_Cmd :: "'obj list \<Rightarrow> (unit, 'w) cmd" where
  "MPE_Noop_Cmd objv = cmd_do (Inr ())"

section \<open>Library utilities\<close>

text \<open>
  \<open>mallinfo\<close> is the number of bytes in use where the C library has \<^verbatim>\<open>mallinfo\<close>; \<open>strkey_hash\<close> is the hash
  function of c-utils, into the range below its bound; \<open>uname\<close> the name of the node, if the call succeeds.
\<close>

definition c_utils_heapsize_Cmd :: "('obj, 'f, 'z) tcl_api_scheme \<Rightarrow> int option \<Rightarrow> 'obj list \<Rightarrow> 'obj res" where
  "c_utils_heapsize_Cmd A mallinfo objv =
     tcl_condition (length objv = 1) (Inr (new_wide A (case mallinfo of None \<Rightarrow> -1 | Some n \<Rightarrow> n)))"

definition c_utils_hash_Cmd :: "('obj, 'f, 'z) tcl_api_scheme \<Rightarrow> (string \<Rightarrow> int \<Rightarrow> int) \<Rightarrow> 'obj list \<Rightarrow> 'obj res" where
  "c_utils_hash_Cmd A strkey_hash objv =
     tcl_condition (length objv = 2) (Inr (new_wide A (strkey_hash (tcl_string A (objv ! 1)) INT_MAX)))"

definition Hostname_Cmd :: "('obj, 'f, 'z) tcl_api_scheme \<Rightarrow> string option \<Rightarrow> 'obj list \<Rightarrow> 'obj res" where
  "Hostname_Cmd A uname objv =
     tcl_condition (length objv = 1) (case uname of None \<Rightarrow> Inl Abort | Some nodename \<Rightarrow> Inr (new_string A nodename))"

section \<open>Running a script\<close>

text \<open>
  \<open>'i\<close> are interpreters. \<open>interp_set\<close> sets a variable of one, which may fail; \<open>interp_eval\<close> evaluates a
  script; \<open>error_info\<close> is the entry \<^verbatim>\<open>-errorinfo\<close> of the return options, if there is one. A file that
  cannot be read gives no script. The communicator and the buffer for the output are given as addresses.
\<close>

record ('obj, 'i, 'w) run_api =
  create_interp :: "'w \<Rightarrow> 'i \<times> 'w"
  delete_interp :: "'i \<Rightarrow> 'w \<Rightarrow> 'w"
  interp_set :: "'i \<Rightarrow> string \<Rightarrow> 'obj \<Rightarrow> 'w \<Rightarrow> 'w option"
  interp_eval :: "'i \<Rightarrow> string \<Rightarrow> 'w \<Rightarrow> bool \<times> 'w"
  error_info :: "'i \<Rightarrow> 'w \<Rightarrow> 'obj option"
  slurp :: "string \<Rightarrow> 'w \<Rightarrow> string option"

definition interp_of :: "('obj, 'i, 'w) run_api \<Rightarrow> 'i \<Rightarrow> ('obj, 'w) interp_api" where
  "interp_of R i = \<lparr>eval_objv = (\<lambda>args w. (False, w)), set_var2 = interp_set R i, add_error_info = (\<lambda>_ w. w)\<rparr>"

text \<open>A variable whose setting is not checked stays as it is if it fails.\<close>

definition set_unchecked :: "('obj, 'i, 'w) run_api \<Rightarrow> 'i \<Rightarrow> string \<Rightarrow> 'obj \<Rightarrow> 'w \<Rightarrow> 'w" where
  "set_unchecked R i name v w = (case interp_set R i name v w of None \<Rightarrow> w | Some w \<Rightarrow> w)"

text \<open>After an error the interpreter that was made for the script is not deleted.\<close>

definition turbine_run_string ::
    "('obj, 'f, 'z) tcl_api_scheme \<Rightarrow> ('obj, 'i, 'w) run_api \<Rightarrow> 64 word option \<Rightarrow> string \<Rightarrow> string list \<Rightarrow>
      64 word option \<Rightarrow> 'i option \<Rightarrow> 'w \<Rightarrow> (turbine_code \<times> 'w) res" where
  "turbine_run_string A R comm script argv out interp w =
     (let (created_interp, i, w) =
            (case interp of Some i \<Rightarrow> (False, i, w) | None \<Rightarrow> (let (i, w) = create_interp R w in (True, i, w)));
          w = (case comm of None \<Rightarrow> w
               | Some comm_ptr \<Rightarrow> set_unchecked R i ''TURBINE_ADLB_COMM'' (new_wide A (sint comm_ptr)) w) in
      tcl_check (turbine_tcl_set_integer A (interp_of R i) ''argc'' (int (length argv)) w) (\<lambda>w.
        let argv_val = (if 0 < length argv then turbine_tcl_list_new A argv else new_string A '''');
            w = set_unchecked R i ''argv'' argv_val w in
        tcl_check (case out of None \<Rightarrow> Inr w
                   | Some p \<Rightarrow> turbine_tcl_set_wideint A (interp_of R i) ''turbine_run_output'' (sint p) w) (\<lambda>w.
          let (ok, w) = interp_eval R i script w in
          if \<not> ok then
            (case error_info R i w of None \<Rightarrow> Inl Undefined | Some msg \<Rightarrow> Inr (TURBINE_ERROR_UNKNOWN, w))
          else Inr (TURBINE_SUCCESS, if created_interp then delete_interp R i w else w))))"

definition turbine_run_interp ::
    "('obj, 'f, 'z) tcl_api_scheme \<Rightarrow> ('obj, 'i, 'w) run_api \<Rightarrow> 64 word option \<Rightarrow> string \<Rightarrow> string list \<Rightarrow>
      64 word option \<Rightarrow> 'i option \<Rightarrow> 'w \<Rightarrow> (turbine_code \<times> 'w) res" where
  "turbine_run_interp A R comm script_file argv out interp w =
     (case slurp R script_file w of
        None \<Rightarrow> Inr (TURBINE_ERROR_INVALID, w)
      | Some script \<Rightarrow> turbine_run_string A R comm script argv out interp w)"

definition turbine_run ::
    "('obj, 'f, 'z) tcl_api_scheme \<Rightarrow> ('obj, 'i, 'w) run_api \<Rightarrow> 64 word option \<Rightarrow> string \<Rightarrow> string list \<Rightarrow>
      64 word option \<Rightarrow> 'w \<Rightarrow> (turbine_code \<times> 'w) res" where
  "turbine_run A R comm script_file argv out w = turbine_run_interp A R comm script_file argv out None w"

section \<open>What evaluation gives\<close>

text \<open>Lines before the last are run in order, each on the world the one before left.\<close>

fun runs :: "('w, 'v) python_api \<Rightarrow> string list \<Rightarrow> 'w \<Rightarrow> 'w option" where
  "runs P [] w = Some w"
| "runs P (c # cs) w = (case run_simple P c w of (ok, w') \<Rightarrow> if ok then runs P cs w' else None)"

lemma python_commands_run:
  "runs P cs (py_world s) = Some w \<Longrightarrow>
    python_commands P (cs @ [e]) s = (Inr (Some e), s\<lparr>py_world := w\<rparr>)"
proof (induction cs arbitrary: s)
  case Nil
  then show ?case by simp
next
  case (Cons c cs)
  obtain ok w1 where r: "run_simple P c (py_world s) = (ok, w1)" by (cases "run_simple P c (py_world s)")
  with Cons.prems have ok: ok and "runs P cs w1 = Some w" by (auto split: if_splits)
  then have "python_commands P (cs @ [e]) (s\<lparr>py_world := w1\<rparr>) = (Inr (Some e), s\<lparr>py_world := w\<rparr>)"
    using Cons.IH [of "s\<lparr>py_world := w1\<rparr>"] by simp
  then show ?case using r ok by (cases "cs @ [e]") auto
qed

lemma python_commands_fail:
  "runs P cs (py_world s) = None \<Longrightarrow>
    fst (python_commands P (cs @ [e]) s) = Inl Tcl_Error \<and> py_initialized (snd (python_commands P (cs @ [e]) s)) = py_initialized s"
proof (induction cs arbitrary: s)
  case Nil
  then show ?case by simp
next
  case (Cons c cs)
  obtain ok w1 where r: "run_simple P c (py_world s) = (ok, w1)" by (cases "run_simple P c (py_world s)")
  show ?case
  proof (cases ok)
    case False
    then show ?thesis using r by (cases "cs @ [e]") auto
  next
    case True
    then have "runs P cs (py_world (s\<lparr>py_world := w1\<rparr>)) = None" using Cons.prems r by simp
    from Cons.IH [OF this] show ?thesis using r True by (cases "cs @ [e]") auto
  qed
qed

text \<open>
  In an interpreter that runs, a script of commands and an expression gives the text of the expression's
  value in the world the commands left, and the interpreter goes on exactly if it is to persist; a
  command that raises an exception makes the evaluation fail and leaves the interpreter running even
  if it was not to persist.
\<close>

lemma python_eval_value:
  assumes init: "py_initialized s" and lines: "split_lines code = cs @ [e]"
    and runs: "runs P cs (py_world s) = Some w" and v: "run_string P e w = (Some v, w1)"
    and t: "parse_string P v w1 = (Some t, w2)"
  shows "python_eval P split_lines True code s = (Inr (Some t), s\<lparr>py_world := w2\<rparr>)"
    and "python_eval P split_lines False code s =
      (Inr (Some t), s\<lparr>py_world := py_finalize P w2, py_initialized := False\<rparr>)"
  using python_commands_run [OF runs, of e] init v t
  by (simp_all add: python_eval_def python_init_def cmd_bind_def lines python_finalize_def)

lemma python_eval_exception:
  assumes "py_initialized s" "split_lines code = cs @ [e]" "runs P cs (py_world s) = None"
  shows "fst (python_eval P split_lines persist code s) = Inl Tcl_Error"
    and "py_initialized (snd (python_eval P split_lines persist code s))"
  using python_commands_fail [OF assms(3), of e] assms(1,2)
  by (auto simp: python_eval_def python_init_def cmd_bind_def split: prod.splits sum.splits)

text \<open>A code without lines gives no output, and the command has no object to make its result.\<close>

lemma python_eval_empty:
  assumes "py_initialized s" "split_lines (tcl_string A code) = []" "tcl_boolean A flag = Some True"
  shows "fst (Python_Eval_Cmd A P split_lines [cmd, flag, code] s) = Inl Undefined"
  using assms by (simp add: Python_Eval_Cmd_def python_eval_def python_init_def cmd_bind_def cmd_condition_def cmd_do_def tcl_get_def)

text \<open>Julia's buffer for the assignment is large enough for every code.\<close>

lemma julia_assignment_fits: "length (''_t = '' @ code) + 1 \<le> length code + 32"
  by simp

text \<open>R that failed to start is taken to run from then on.\<close>

lemma r_eval_after_failure:
  assumes "\<not> r_initialized s" "init_embedded R (r_world s) = (False, w)"
  shows "r_eval R split_lines code s = (Inl Tcl_Error, s\<lparr>r_world := w, r_initialized := True\<rparr>)"
    and "fst (init_r R (snd (r_eval R split_lines code s)))"
  using assms by (simp_all add: r_eval_def init_r_def)

text \<open>A script that ends in an error leaves the interpreter that was made for it.\<close>

lemma run_string_error:
  assumes "create_interp R w = (i, w1)" "interp_set R i ''argc'' (new_wide A 0) w1 = Some w2"
    "interp_set R i ''argv'' (new_string A '''') w2 = Some w3" "interp_eval R i script w3 = (False, w4)"
    "error_info R i w4 = Some msg"
  shows "turbine_run_string A R None script [] None None w = Inr (TURBINE_ERROR_UNKNOWN, w4)"
  using assms by (simp add: turbine_run_string_def turbine_tcl_set_integer_def set_variable_def interp_of_def set_unchecked_def)

end
