(* ===== verification/Registration.thy ===== *)
theory Registration
  imports Turbine_Init
begin

text \<open>
  The registration of the commands with Tcl: \<^verbatim>\<open>Tcladlb_Init\<close>, \<^verbatim>\<open>Tclturbine_Init\<close> and the set-up
  functions of the parts they call. The table of commands of the interpreter maps the full name of a
  command to the C function that implements it, given by its name; a registration under a
  name that is taken replaces the command. The export patterns are not modelled.
  \<^verbatim>\<open>Blob_Init\<close> is generated by SWIG and a parameter.
\<close>

type_synonym commands = "string \<rightharpoonup> string"

fun create_commands :: "string \<Rightarrow> (string \<times> string) list \<Rightarrow> commands \<Rightarrow> commands" where
  "create_commands ns [] reg = reg"
| "create_commands ns ((name, function) # rest) reg = create_commands ns rest (reg(ns @ name \<mapsto> function))"

definition adlb_commands :: "(string \<times> string) list" where
  "adlb_commands =
     [(''init_comm'', ''ADLB_Init_Comm_Cmd''), (''init'', ''ADLB_Init_Cmd''),
      (''declare_struct_type'', ''ADLB_Declare_Struct_Type_Cmd''),
      (''is_struct_type'', ''ADLB_Is_Struct_Type_Cmd''), (''server'', ''ADLB_Server_Cmd''),
      (''rank'', ''ADLB_CommRank_Cmd''), (''size'', ''ADLB_CommSize_Cmd''),
      (''comm_workers'', ''ADLB_GetCommWorkers_Cmd''), (''comm_leaders'', ''ADLB_GetCommLeaders_Cmd''),
      (''barrier'', ''ADLB_Barrier_Cmd''), (''worker_barrier'', ''ADLB_Worker_Barrier_Cmd''),
      (''worker_rank'', ''ADLB_Worker_Rank_Cmd''), (''amserver'', ''ADLB_AmServer_Cmd''),
      (''size'', ''ADLB_Size_Cmd''), (''servers'', ''ADLB_Servers_Cmd''), (''workers'', ''ADLB_Workers_Cmd''),
      (''hostmap_lookup'', ''ADLB_Hostmap_Lookup_Cmd''), (''hostmap_list'', ''ADLB_Hostmap_List_Cmd''),
      (''get_priority'', ''ADLB_Get_Priority_Cmd''), (''reset_priority'', ''ADLB_Reset_Priority_Cmd''),
      (''set_priority'', ''ADLB_Set_Priority_Cmd''), (''put'', ''ADLB_Put_Cmd''), (''spawn'', ''ADLB_Spawn_Cmd''),
      (''get'', ''ADLB_Get_Cmd''), (''iget'', ''ADLB_Iget_Cmd''), (''create'', ''ADLB_Create_Cmd''),
      (''multicreate'', ''ADLB_Multicreate_Cmd''), (''create_globals'', ''ADLB_Create_Globals_Cmd''),
      (''exists'', ''ADLB_Exists_Cmd''), (''exists_sub'', ''ADLB_Exists_Sub_Cmd''),
      (''closed'', ''ADLB_Closed_Cmd''), (''store'', ''ADLB_Store_Cmd''), (''retrieve'', ''ADLB_Retrieve_Cmd''),
      (''retrieve_decr'', ''ADLB_Retrieve_Decr_Cmd''), (''acquire_ref'', ''ADLB_Acquire_Ref_Cmd''),
      (''acquire_write_ref'', ''ADLB_Acquire_Write_Ref_Cmd''), (''acquire_sub_ref'', ''ADLB_Acquire_Sub_Ref_Cmd''),
      (''acquire_sub_write_ref'', ''ADLB_Acquire_Sub_Write_Ref_Cmd''), (''enumerate'', ''ADLB_Enumerate_Cmd''),
      (''retrieve_blob'', ''ADLB_Retrieve_Blob_Cmd''), (''retrieve_decr_blob'', ''ADLB_Retrieve_Blob_Decr_Cmd''),
      (''blob_free'', ''ADLB_Blob_Free_Cmd''), (''local_blob_free'', ''ADLB_Local_Blob_Free_Cmd''),
      (''store_blob'', ''ADLB_Store_Blob_Cmd''), (''store_blob_floats'', ''ADLB_Blob_store_floats_Cmd''),
      (''store_blob_ints'', ''ADLB_Blob_store_ints_Cmd''),
      (''blob_from_float_list'', ''ADLB_Blob_From_Float_List_Cmd''),
      (''blob_from_int_list'', ''ADLB_Blob_From_Int_List_Cmd''),
      (''blob_from_string'', ''ADLB_Blob_From_String_Cmd''), (''blob_to_string'', ''ADLB_Blob_To_String_Cmd''),
      (''enable_read_refcount'', ''ADLB_Enable_Read_Refcount_Cmd''),
      (''refcount_incr'', ''ADLB_Refcount_Incr_Cmd''), (''read_refcount_incr'', ''ADLB_Read_Refcount_Incr_Cmd''),
      (''read_refcount_decr'', ''ADLB_Read_Refcount_Decr_Cmd''),
      (''write_refcount_incr'', ''ADLB_Write_Refcount_Incr_Cmd''),
      (''write_refcount_decr'', ''ADLB_Write_Refcount_Decr_Cmd''), (''insert'', ''ADLB_Insert_Cmd''),
      (''struct_insert'', ''ADLB_Struct_Insert_Cmd''), (''insert_atomic'', ''ADLB_Insert_Atomic_Cmd''),
      (''lookup'', ''ADLB_Lookup_Cmd''), (''struct_lookup'', ''ADLB_Struct_Lookup_Cmd''),
      (''lookup_spin'', ''ADLB_Lookup_Spin_Cmd''), (''subscribe'', ''ADLB_Subscribe_Cmd''),
      (''lock'', ''ADLB_Lock_Cmd''), (''unlock'', ''ADLB_Unlock_Cmd''), (''unique'', ''ADLB_Unique_Cmd''),
      (''typeof'', ''ADLB_Typeof_Cmd''), (''container_typeof'', ''ADLB_Container_Typeof_Cmd''),
      (''container_reference'', ''ADLB_Container_Reference_Cmd''),
      (''container_size'', ''ADLB_Container_Size_Cmd''), (''struct_reference'', ''ADLB_Struct_Reference_Cmd''),
      (''create_nested'', ''ADLB_Create_Nested_Cmd''),
      (''create_nested_container'', ''ADLB_Create_Nested_Container_Cmd''),
      (''create_nested_bag'', ''ADLB_Create_Nested_Bag_Cmd''),
      (''struct_create_nested'', ''ADLB_Struct_Create_Nested_Cmd''),
      (''struct_create_nested_container'', ''ADLB_Struct_Create_Nested_Container_Cmd''),
      (''struct_create_nested_bag'', ''ADLB_Struct_Create_Nested_Bag_Cmd''), (''xpt_init'', ''ADLB_Xpt_Init_Cmd''),
      (''xpt_finalize'', ''ADLB_Xpt_Finalize_Cmd''), (''xpt_write'', ''ADLB_Xpt_Write_Cmd''),
      (''xpt_lookup'', ''ADLB_Xpt_Lookup_Cmd''), (''xpt_pack'', ''ADLB_Xpt_Pack_Cmd''),
      (''xpt_unpack'', ''ADLB_Xpt_Unpack_Cmd''), (''xpt_reload'', ''ADLB_Xpt_Reload_Cmd''),
      (''dict_create'', ''ADLB_Dict_Create_Cmd''), (''subscript_struct'', ''ADLB_Subscript_Struct_Cmd''),
      (''subscript_container'', ''ADLB_Subscript_Container_Cmd''),
      (''add_debug_symbol'', ''ADLB_Add_Debug_Symbol_Cmd''), (''debug_symbol'', ''ADLB_Debug_Symbol_Cmd''),
      (''comm_null'', ''ADLB_GetCommNull_Cmd''), (''fail'', ''ADLB_Fail_Cmd''), (''abort'', ''ADLB_Abort_Cmd''),
      (''finalize'', ''ADLB_Finalize_Cmd'')]"

definition turbine_commands :: "(string \<times> string) list" where
  "turbine_commands =
     [(''init'', ''Turbine_Init_Cmd''), (''init_debug'', ''Turbine_Init_Debug_Cmd''),
      (''version'', ''Turbine_Version_Cmd''), (''rule'', ''Turbine_Rule_Cmd''),
      (''ruleopts'', ''Turbine_RuleOpts_Cmd''), (''log'', ''Turbine_Log_Cmd''),
      (''normalize'', ''Turbine_Normalize_Cmd''), (''worker_loop'', ''Turbine_Worker_Loop_Cmd''),
      (''cache_check'', ''Turbine_Cache_Check_Cmd''), (''cache_retrieve'', ''Turbine_Cache_Retrieve_Cmd''),
      (''cache_store'', ''Turbine_Cache_Store_Cmd''), (''task_comm'', ''Turbine_TaskComm_Cmd''),
      (''finalize'', ''Turbine_Finalize_Cmd''), (''debug_on'', ''Turbine_Debug_On_Cmd''),
      (''debug'', ''Turbine_Debug_Cmd''), (''toint_impl'', ''Turbine_ToIntImpl_Cmd''),
      (''parse_int_impl'', ''Turbine_ParseIntImpl_Cmd''), (''sync_exec'', ''Sync_Exec_Cmd''),
      (''async_exec_names'', ''Async_Exec_Names_Cmd''), (''async_exec_configure'', ''Async_Exec_Configure_Cmd''),
      (''async_exec_worker_loop'', ''Async_Exec_Worker_Loop_Cmd''),
      (''noop_exec_register'', ''Noop_Exec_Register_Cmd''), (''noop_exec_run'', ''Noop_Exec_Run_Cmd''),
      (''coaster_register'', ''Coaster_Register_Cmd''), (''coaster_run'', ''Coaster_Run_Cmd''),
      (''bcast'', ''Turbine_Bcast_Cmd''), (''copy_to'', ''Turbine_CopyTo_Cmd'')]"

definition tcl_adlb_init :: "commands \<Rightarrow> commands" where
  "tcl_adlb_init reg = create_commands ''adlb::'' adlb_commands reg"

definition tcl_c_utils_init :: "commands \<Rightarrow> commands" where
  "tcl_c_utils_init reg = create_commands ''c_utils::''
     [(''heapsize'', ''c_utils_heapsize_Cmd''), (''hash'', ''c_utils_hash_Cmd''), (''hostname'', ''Hostname_Cmd'')] reg"

definition tcl_mpe_init :: "commands \<Rightarrow> commands" where
  "tcl_mpe_init reg = create_commands ''mpe::''
     [(''enabled'', ''MPE_Enabled_Cmd''), (''create_pair'', ''MPE_Create_Pair_Cmd''), (''create_solo'', ''MPE_Create_Solo_Cmd''), (''log'', ''MPE_Log_Cmd'')] reg"

definition tcl_julia_init :: "commands \<Rightarrow> commands" where
  "tcl_julia_init reg = create_commands ''julia::''
     [(''eval'', ''Julia_Eval_Cmd'')] reg"

definition tcl_python_init :: "commands \<Rightarrow> commands" where
  "tcl_python_init reg = create_commands ''python::''
     [(''eval'', ''Python_Eval_Cmd'')] reg"

definition tcl_r_init :: "commands \<Rightarrow> commands" where
  "tcl_r_init reg = create_commands ''r::''
     [(''eval'', ''R_Eval_Cmd'')] reg"

text \<open>
  \<open>stubs\<close> is whether the interpreter provides its functions and \<open>provide\<close> whether a package of a name and
  version can be announced.
\<close>

definition package_init :: "bool \<Rightarrow> (string \<Rightarrow> string \<Rightarrow> bool) \<Rightarrow> string \<Rightarrow> string \<Rightarrow> unit res" where
  "package_init stubs provide name version = tcl_condition stubs (tcl_condition (provide name version) (Inr ()))"

definition Tcladlb_Init :: "bool \<Rightarrow> (string \<Rightarrow> string \<Rightarrow> bool) \<Rightarrow> commands \<Rightarrow> commands res" where
  "Tcladlb_Init stubs provide reg =
     tcl_check (package_init stubs provide ''ADLB'' ''0.1'') (\<lambda>_. Inr (tcl_adlb_init reg))"

definition Tclpython_Init :: "bool \<Rightarrow> (string \<Rightarrow> string \<Rightarrow> bool) \<Rightarrow> unit res" where
  "Tclpython_Init stubs provide = package_init stubs provide ''python'' ''0.1''"

definition Tclr_Init :: "bool \<Rightarrow> (string \<Rightarrow> string \<Rightarrow> bool) \<Rightarrow> unit res" where
  "Tclr_Init stubs provide = package_init stubs provide ''r'' ''0.1''"

text \<open>Julia's package has Python's name.\<close>

definition Tcljulia_Init :: "bool \<Rightarrow> (string \<Rightarrow> string \<Rightarrow> bool) \<Rightarrow> unit res" where
  "Tcljulia_Init stubs provide = package_init stubs provide ''python'' ''0.1''"

text \<open>Work of type 0 is \<^verbatim>\<open>TURBINE_ADLB_WORK_TYPE_WORK\<close>, of type -1 \<^verbatim>\<open>TURBINE_ADLB_WORK_TYPE_LOCAL\<close>.\<close>

definition Tclturbine_Init ::
    "('obj, 'f, 'z) tcl_api_scheme \<Rightarrow> ('obj, 'w) interp_api \<Rightarrow> bool \<Rightarrow> (string \<Rightarrow> string \<Rightarrow> bool) \<Rightarrow> string \<Rightarrow>
      (commands \<Rightarrow> commands) \<Rightarrow> bool \<Rightarrow> commands \<Rightarrow> 'w \<Rightarrow> (commands \<times> 'w) res" where
  "Tclturbine_Init A I stubs provide version Blob_Init have_coaster reg w =
     tcl_check (package_init stubs provide ''turbine'' version) (\<lambda>_.
       let reg = Blob_Init (tcl_r_init (tcl_python_init (tcl_julia_init (tcl_mpe_init
                   (tcl_adlb_init (tcl_c_utils_init reg))))));
           reg = create_commands ''turbine::c::'' turbine_commands reg in
       tcl_check (set_namespace_constants A I 0 (-1) have_coaster w) (\<lambda>w. Inr (reg, w)))"

section \<open>Which function a name stands for\<close>

text \<open>The last registration of a name counts; names outside the namespace stay.\<close>

lemma create_commands_eq:
  "create_commands ns t reg c = (case map_of (rev (map (\<lambda>(n, f). (ns @ n, f)) t)) c of Some f \<Rightarrow> Some f | None \<Rightarrow> reg c)"
proof (induction t arbitrary: reg)
  case Nil
  then show ?case by simp
next
  case (Cons x t)
  obtain n f where x: "x = (n, f)" by (cases x)
  show ?case unfolding x by (simp add: Cons.IH map_add_def split: option.splits)
qed

lemma create_commands_name:
  "create_commands ns t reg (ns @ n) = (case map_of (rev t) n of Some f \<Rightarrow> Some f | None \<Rightarrow> reg (ns @ n))"
proof (induction t arbitrary: reg)
  case Nil
  then show ?case by simp
next
  case (Cons x t)
  obtain m f where x: "x = (m, f)" by (cases x)
  show ?case unfolding x by (simp add: Cons.IH map_add_def split: option.splits)
qed

lemma create_commands_other:
  "take (length ns) c \<noteq> ns \<Longrightarrow> create_commands ns t reg c = reg c"
proof (induction t arbitrary: reg)
  case Nil
  then show ?case by simp
next
  case (Cons x t)
  obtain m f where x: "x = (m, f)" by (cases x)
  have "c \<noteq> ns @ m" using Cons.prems by auto
  then show ?case unfolding x using Cons by simp
qed

text \<open>Two functions are registered as \<^verbatim>\<open>adlb::size\<close>; the first cannot be called.\<close>

lemma adlb_size_replaced:
  "(''size'', ''ADLB_CommSize_Cmd'') \<in> set adlb_commands"
  "tcl_adlb_init reg ''adlb::size'' = Some ''ADLB_Size_Cmd''"
proof -
  show "(''size'', ''ADLB_CommSize_Cmd'') \<in> set adlb_commands" by (simp add: adlb_commands_def)
  have "map_of (rev adlb_commands) ''size'' = Some ''ADLB_Size_Cmd''" by (simp add: adlb_commands_def)
  then show "tcl_adlb_init reg ''adlb::size'' = Some ''ADLB_Size_Cmd''"
    unfolding tcl_adlb_init_def using create_commands_name [of "''adlb::''" adlb_commands reg "''size''"] by simp
qed

definition effective :: "(string \<times> string) list \<Rightarrow> bool" where
  "effective t \<longleftrightarrow> list_all (\<lambda>(n, f). map_of (rev t) n = Some f) t"

lemma turbine_commands_effective: "effective turbine_commands"
  by (simp add: effective_def adlb_commands_def turbine_commands_def)

end
