(* ===== verification/Variants.thy ===== *)
theory Variants
  imports Registration Blob_Utils Languages
begin

text \<open>
  What other builds have: the statically linked package of \<^verbatim>\<open>src/tcl/static-pkg/static-pkg.c\<close>, whose Tcl
  library is compiled into the program; the HDF5 output of \<^verbatim>\<open>src/tcl/blob/blob.c\<close>; and the commands
  that stand in for Python, R and Julia where a build lacks them. Tcl and the HDF5 library are
  parameters that act on a world \<open>'w\<close>; messages are not modelled.
\<close>

section \<open>Statically linked packages\<close>

text \<open>
  \<open>eval\<close> evaluates a script and gives whether the code is \<^verbatim>\<open>TCL_OK\<close>. The scripts of the library and the names
  of the files they come from are generated by the build and an argument.
\<close>

definition tcl_eval_bundled_file :: "(string \<Rightarrow> 'w \<Rightarrow> bool \<times> 'w) \<Rightarrow> string \<Rightarrow> (unit, 'w) cmd" where
  "tcl_eval_bundled_file eval script w =
     (let (ok, w) = eval script w in
      if ok then (Inr (), w) else (Inl Tcl_Error, snd (eval ''puts $::errorInfo'' w)))"

fun eval_lib_src :: "(string \<Rightarrow> 'w \<Rightarrow> bool \<times> 'w) \<Rightarrow> (string \<times> string) list \<Rightarrow> (unit, 'w) cmd" where
  "eval_lib_src eval [] = cmd_do (Inr ())"
| "eval_lib_src eval ((script, filename) # srcs) =
     cmd_bind (tcl_eval_bundled_file eval script) (\<lambda>_. eval_lib_src eval srcs)"

definition Tclturbine_InitStatic ::
    "(unit, 'w) cmd \<Rightarrow> (string \<Rightarrow> 'w \<Rightarrow> bool \<times> 'w) \<Rightarrow> (string \<times> string) list \<Rightarrow> (unit, 'w) cmd" where
  "Tclturbine_InitStatic init eval turbine_lib_src = cmd_bind init (\<lambda>_. eval_lib_src eval turbine_lib_src)"

text \<open>\<open>static_package\<close> announces the set-up function of a package to the \<^verbatim>\<open>load\<close> command.\<close>

definition ifneeded_script :: "string \<Rightarrow> string \<Rightarrow> string" where
  "ifneeded_script package version =
     ''package ifneeded {'' @ package @ ''} {'' @ version @ ''} { load {} {'' @ package @ ''} }''"

definition register_static_pkg ::
    "(string \<Rightarrow> 'i \<Rightarrow> 'w \<Rightarrow> 'w) \<Rightarrow> (string \<Rightarrow> 'w \<Rightarrow> bool \<times> 'w) \<Rightarrow> string \<Rightarrow> string \<Rightarrow> 'i \<Rightarrow> (unit, 'w) cmd" where
  "register_static_pkg static_package eval package version init w =
     (let w = static_package package init w;
          (ok, w) = eval (ifneeded_script package version) w in
      if ok then (Inr (), w) else (Inl Tcl_Error, snd (eval ''puts $errorInfo'' w)))"

definition register_tcl_turbine_static_pkg ::
    "(string \<Rightarrow> 'i \<Rightarrow> 'w \<Rightarrow> 'w) \<Rightarrow> (string \<Rightarrow> 'w \<Rightarrow> bool \<times> 'w) \<Rightarrow> string \<Rightarrow> 'i \<Rightarrow> (unit, 'w) cmd" where
  "register_tcl_turbine_static_pkg static_package eval version init_static =
     register_static_pkg static_package eval ''turbine'' version init_static"

text \<open>The library is loaded in order, up to the first script that fails, whose error is printed.\<close>

fun scripts_run :: "(string \<Rightarrow> 'w \<Rightarrow> bool \<times> 'w) \<Rightarrow> string list \<Rightarrow> 'w \<Rightarrow> 'w option" where
  "scripts_run eval [] w = Some w"
| "scripts_run eval (s # ss) w = (if fst (eval s w) then scripts_run eval ss (snd (eval s w)) else None)"

lemma eval_lib_src_all:
  "scripts_run eval (map fst srcs) w = Some w' \<Longrightarrow> eval_lib_src eval srcs w = (Inr (), w')"
proof (induction srcs arbitrary: w)
  case (Cons x srcs)
  then show ?case
    by (cases x) (auto simp: tcl_eval_bundled_file_def cmd_bind_def cmd_do_def split: prod.splits if_splits)
qed simp

lemma eval_lib_src_fails:
  assumes "scripts_run eval (map fst before) w = Some w1" "eval script w1 = (False, w2)"
  shows "eval_lib_src eval (before @ (script, name) # after) w = (Inl Tcl_Error, snd (eval ''puts $::errorInfo'' w2))"
  using assms
proof (induction before arbitrary: w)
  case Nil
  then show ?case by (simp add: tcl_eval_bundled_file_def cmd_bind_def)
next
  case (Cons x before)
  then show ?case
    by (cases x) (auto simp: tcl_eval_bundled_file_def cmd_bind_def split: prod.splits if_splits)
qed

section \<open>HDF5\<close>

text \<open>
  The library gives out identifiers, negative after an error, and the same for the codes of its
  operations. The number of doubles is computed in \<^verbatim>\<open>size_t\<close> and converted to \<^verbatim>\<open>int\<close>, then to \<^verbatim>\<open>hsize_t\<close>.
  Nothing that is opened is closed.
\<close>

record 'w hdf_api =
  h5_space :: "64 word \<Rightarrow> 'w \<Rightarrow> int \<times> 'w"
  h5_create_file :: "string \<Rightarrow> 'w \<Rightarrow> int \<times> 'w"
  h5_create_dataset :: "int \<Rightarrow> string \<Rightarrow> int \<Rightarrow> 'w \<Rightarrow> int \<times> 'w"
  h5_select :: "int \<Rightarrow> 64 word \<Rightarrow> 'w \<Rightarrow> int \<times> 'w"
  h5_write :: "int \<Rightarrow> int \<Rightarrow> int \<Rightarrow> string \<Rightarrow> 'w \<Rightarrow> int \<times> 'w"

definition hdf_count :: "int \<Rightarrow> int" where
  "hdf_count len = signed_take_bit 31 (uint (word_of_int len :: 64 word) div 8)"

definition blobutils_hdf_write_hdf5 ::
    "'w hdf_api \<Rightarrow> string \<Rightarrow> string \<Rightarrow> 64 word \<Rightarrow> blob_mem \<Rightarrow> 'w \<Rightarrow> (bool \<times> 'w) res" where
  "blobutils_hdf_write_hdf5 H path dataset p m w =
     tcl_check (blob_at p m) (\<lambda>b.
       let count = word_of_int (hdf_count (b_length b)) :: 64 word;
           (memspace, w) = h5_space H count w;
           (file, w) = h5_create_file H path w in
       if file < 0 then Inr (False, w)
       else let (dataspace, w) = h5_space H count w;
                (dset, w) = h5_create_dataset H file dataset dataspace w;
                (status, w) = h5_select H dataspace count w in
         if status < 0 then Inr (False, w)
         else tcl_check (read_bytes (b_pointer b) (8 * unat count) m) (\<lambda>bs.
           let (status, w) = h5_write H dset memspace dataspace bs w in Inr (0 \<le> status, w)))"

text \<open>The bytes of a blob behind its last whole double are dropped; a negative length is no small number.\<close>

lemma hdf_count_whole: "0 \<le> n \<Longrightarrow> n < 2 ^ 31 \<Longrightarrow> hdf_count n = n div 8"
proof -
  assume n: "0 \<le> n" "n < 2 ^ 31"
  then have "uint (word_of_int n :: 64 word) = n" by (simp add: uint_word_of_int)
  moreover have "signed_take_bit 31 (n div 8) = n div 8"
    using n by (intro signed_take_bit_int_eq_self) simp_all
  ultimately show ?thesis by (simp add: hdf_count_def)
qed

lemma hdf_count_negative: "hdf_count (- 8) = - 1"
  by (simp add: hdf_count_def uint_word_of_int signed_take_bit_int_eq_self_iff)

section \<open>Builds without the languages\<close>

definition Python_Eval_Cmd_off ::
    "('obj, 'f, 'z) tcl_api_scheme \<Rightarrow> ('obj, 'w) interp_api \<Rightarrow> string \<Rightarrow> string option \<Rightarrow> 'obj list \<Rightarrow> (unit, 'w) cmd" where
  "Python_Eval_Cmd_off A I tcl_version msg objv =
     cmd_bind (cmd_condition (length objv = 3)) (\<lambda>_. turbine_user_errorv A I tcl_version msg)"

definition R_Eval_Cmd_off ::
    "('obj, 'f, 'z) tcl_api_scheme \<Rightarrow> ('obj, 'w) interp_api \<Rightarrow> 'obj list \<Rightarrow> (unit, 'w) cmd" where
  "R_Eval_Cmd_off A I objv =
     cmd_bind (cmd_condition (length objv = 2)) (\<lambda>_.
     cmd_bind (turbine_tcl_condition_failed A I (objv ! 0) ''Turbine not compiled with R support'') (\<lambda>_.
       cmd_do (Inl Tcl_Error)))"

definition Julia_Eval_Cmd_off ::
    "('obj, 'f, 'z) tcl_api_scheme \<Rightarrow> ('obj, 'w) interp_api \<Rightarrow> 'obj list \<Rightarrow> (unit, 'w) cmd" where
  "Julia_Eval_Cmd_off A I objv =
     cmd_bind (cmd_condition (length objv = 2)) (\<lambda>_.
     cmd_bind (turbine_tcl_condition_failed A I (objv ! 0) ''Turbine not compiled with Julia support'') (\<lambda>_.
       cmd_do (Inl Tcl_Error)))"

end
