(* ===== verification/Spec2Isabelle.thy ===== *)
theory Spec2Isabelle
  imports Lru_Queue Cache Noop_Exec Coaster_Exec Handles Adlb_Types Serialize_Canonical Nested_Create Refcount_Cmds Data_Correct Store_Typed Enumerate_Correct
    Work_Correct Rule_Correct Parse_Int Checkpoint_Correct Worker Cache_Cmds Exec_Cmds
    Blob_Utils Tcl_Util Adlb_Init Turbine_Init Turbine_Io Languages Registration Variants
begin

text \<open>
  Verification of Turbine, the runtime of Swift/T: the C code under \<^verbatim>\<open>src/code/src\<close>. Paths below are relative to it.

  \<^bold>\<open>The program.\<close> A Swift/T program is Tcl code that runs on many MPI processes. Servers of the ADLB
  library hold its data and its tasks; workers take tasks and evaluate them. Turbine is what the Tcl
  code calls: \<^verbatim>\<open>tcl/adlb/tcl-adlb.c\<close> wraps ADLB in commands (data, containers, reference counts, tasks,
  checkpoints, blobs), \<^verbatim>\<open>tcl/turbine/tcl-turbine.c\<close> has the commands of Turbine itself (rules, the cache,
  executors, start and stop), and \<^verbatim>\<open>turbine/\<close> the parts behind them: the worker loop, the asynchronous
  worker with its executors, and the cache. ADLB, MPI, Tcl, c-utils, Coaster and the embedded languages
  are not part of the repository: they are records of functions that the definitions take as arguments,
  over a world of arbitrary type. What a theorem relies on in them is a named predicate
  (\<open>table_ok\<close>, \<open>rbtree_ok\<close>, \<open>tcl_ok\<close>, \<open>pack_ok\<close>, \<open>dict_ok\<close>, \<open>store_ok\<close>, \<open>queue_ok\<close>, \<open>buffer_ok\<close> and so on),
  and an instance of each, by which the witnesses compute, shows that it can hold.

  \<^bold>\<open>How C becomes HOL\<close> (\<open>Prelude\<close>, \<open>Tcl_Api\<close>, \<open>C_Lib\<close>, \<open>C_Utils\<close>, \<open>Adlb_Api\<close>). A function is a function of its
  arguments and the state it uses. A result \<open>Inl\<close> is a fault: \<open>Tcl_Error\<close> is \<^verbatim>\<open>TCL_ERROR\<close>, \<open>Abort\<close> a failed
  assertion, \<open>Undefined\<close> a step C does not define, and \<open>Unfinished\<close> no behaviour of the code, but the end of
  what the model was given to run on. The macros of \<^verbatim>\<open>tcl/util.h\<close> are combinators
  with their names; commands are in the state-passing type \<open>cmd\<close>. Signed integers are \<open>int\<close>, with \<open>c_int\<close>
  where the code could leave the range; unsigned ones whose wrap-around matters are words. Memory is
  explicit where aliasing or release matters: entries of the cache, buffers of handles and subscripts,
  blobs. Texts of messages, debugging output and the release of temporary storage are left out, except
  where a theorem is about them.

  \<^bold>\<open>Which theory models which part.\<close>
  \<^item> Codes and types: \<open>Turbine_Defs\<close> (\<^verbatim>\<open>turbine/turbine-defs.h\<close>, \<^verbatim>\<open>turbine_code_tostring\<close>).
  \<^item> The cache of data: \<open>Lru_Queue\<close> is its specification, a queue in order of last access, and the contract
    of its operations, the locale \<open>bounded_cache\<close>, with what follows for a client; \<open>Cache\<close>
    (\<^verbatim>\<open>turbine/cache.c\<close>) provides the contract; \<open>Cache_Cmds\<close> are the commands that use it.
  \<^item> The asynchronous worker: \<open>Exec_Interface\<close> (\<^verbatim>\<open>turbine/executors/exec_interface.h\<close>) with the contract of an
    executor, the locale \<open>executor\<close>; \<open>Async_Exec\<close> (\<^verbatim>\<open>turbine/async_exec.c\<close>), the registry, the ring of
    requests, callbacks and the loop, verified once in that locale; \<open>Noop_Exec\<close> and \<open>Coaster_Exec\<close>, the
    executors that provide it; \<open>Exec_Cmds\<close>, the commands.
  \<^item> The synchronous worker: \<open>Worker\<close> (\<^verbatim>\<open>turbine/worker.c\<close>, \<^verbatim>\<open>turbine/services.c\<close>).
  \<^item> Start and stop: \<open>Turbine_Init\<close> (\<^verbatim>\<open>turbine/turbine.c\<close>, \<^verbatim>\<open>util/debug.c\<close>), \<open>Adlb_Init\<close> (set-up in
    \<^verbatim>\<open>tcl-adlb.c\<close>), \<open>Registration\<close> (the tables of commands) and \<open>Variants\<close> (static packages, HDF5, builds
    without the languages).
  \<^item> Data in \<^verbatim>\<open>tcl-adlb.c\<close>: \<open>Handles\<close> (handles and subscripts), \<open>Adlb_Types\<close> (types, creation), \<open>Blobs\<close> (blobs
    and their local copies), \<open>Serialize\<close> (Tcl objects to bytes and back), \<open>Data_Cmds\<close> (store, retrieve),
    \<open>Container_Cmds\<close> (entries, enumeration, nested creation), \<open>Refcount_Cmds\<close> (reference counts,
    locks, small commands), \<open>Checkpoint\<close>, and \<open>Work_Cmds\<close> (tasks).
  \<^item> Rules and numbers in \<^verbatim>\<open>tcl-turbine.c\<close>: \<open>Rule_Cmds\<close> and \<open>Parse_Int\<close>.
  \<^item> The rest: \<open>Blob_Utils\<close> (\<^verbatim>\<open>tcl/blob/blob.c\<close>), \<open>Turbine_Io\<close> (\<^verbatim>\<open>turbine/io.c\<close>), \<open>Tcl_Util\<close> (\<^verbatim>\<open>tcl/util.c\<close>,
    \<^verbatim>\<open>turbine/sync_exec.c\<close>), \<open>Languages\<close> (Python, R, Julia, MPE, c-utils, \<^verbatim>\<open>turbine/run.c\<close>).

  \<^bold>\<open>What is shown.\<close>
  \<^item> The cache refines its queue over every run of its commands, frees each buffer exactly once, and gives
    back what was stored as long as it is cached (\<open>Cache\<close>, \<open>Cache_Cmds\<close>).
  \<^item> The ring of requests is a queue; the asynchronous worker never faults on either executor,
    whatever ADLB and the scripts do within their contracts; a worker that returns success has
    released the references to all callbacks, and a failing callback shows which are lost; waiting
    for a task terminates (\<open>Async_Exec\<close>, \<open>Noop_Exec\<close>, \<open>Coaster_Exec\<close>, \<open>Exec_Cmds\<close>).
  \<^item> The worker evaluates every task it takes exactly once, in order, and its loop returns when the
    tasks run out; the service process is stopped within a known time (\<open>Worker\<close>).
  \<^item> Values nested to any depth are unpacked to what was packed (\<open>Serialize_Correct\<close>); packing with sorted
    keys and elements is canonical for dictionaries and for multisets of strings, and is not for
    other multisets (\<open>Serialize_Canonical\<close>); what \<^verbatim>\<open>store\<close> accepts is a value of the declared type
    (\<open>Store_Typed\<close>) and is retrieved again (\<open>Data_Correct\<close>), enumerated consistently (\<open>Enumerate_Correct\<close>)
    and, without other multisets, restored from checkpoints that were added to the index
    (\<open>Checkpoint_Correct\<close>).
  \<^item> Clients that create the same nested entry at the same time agree on one datum, in every
    interleaving, and finish (\<open>Nested_Create\<close>); reference counts are the sum of the changes asked
    for, read counts from when they are enabled (\<open>Refcount_Cmds\<close>); no task is lost or made up (\<open>Work_Correct\<close>).
  \<^item> Rules pass on their inputs and options and leak nothing (\<open>Rule_Correct\<close>); printed integers are
    parsed again in every base (\<open>Parse_Int\<close>); handles, blobs and broadcasts keep what they are given
    (\<open>Handles\<close>, \<open>Blobs\<close>, \<open>Blob_Utils\<close>, \<open>Turbine_Io\<close>); a file is copied to all ranks unless a
    destination is the input (\<open>Turbine_Io\<close>); the words of a shell command reach it as they are as far as the
    code quotes them (\<open>Tcl_Util\<close>).
  \<^item> ADLB and Turbine can be started again after they were stopped, and which communicators are
    freed (\<open>Adlb_Init\<close>, \<open>Turbine_Init\<close>).
  Where the code does not do what it means to, the model follows the code and a lemma shows it: for example a
  communicator of the caller that is freed (\<open>comm_freed\<close>), a truncated container that is taken for a
  whole one (\<open>container_truncated\<close>), a memory budget that is never enforced (\<open>cache_budget_not_enforced\<close>).

  \<^bold>\<open>Bounds and fuel.\<close> Loops over arguments, types and buffers are recursions that are shown to end. Fuel stands
  for what the environment decides, and what is enough is part of the theorems:
  \<^item> \<open>worker_run\<close> counts tasks: more than ADLB has left is enough (\<open>worker_loop_returns\<close>).
  \<^item> \<open>loop_run\<close> counts iterations of the asynchronous loop, which polls as long as ADLB and the executor
    have nothing; its theorems hold for every count and say that no other fault occurs. The no-op
    executor draws from a list in place of \<^verbatim>\<open>rand\<close>; \<open>noop_wait_terminates\<close> bounds the draws.
  \<^item> \<open>adlb_datum2tclobj\<close> and \<open>adlb_tclobj2datum\<close> count the nesting of the data: the depth of the value is enough.
  \<^item> \<open>retrieve_spin\<close> and \<open>nested_wait\<close> count polls: one more than those that find nothing is enough
    (\<open>lookup_spin_returns\<close>, \<open>nested_create_finishes\<close>).
  \<^item> \<open>run_copiers\<close> counts collective operations: four more than the bytes of the file is enough (\<open>copy_to_copies\<close>).
  \<^item> \<open>write_all\<close> and \<open>read_all\<close> count system calls: the number of bytes is enough.

  \<^bold>\<open>Not modelled.\<close> The Tcl library (\<^verbatim>\<open>src/code/lib\<close>) and the shell scripts, which are not C; the branches for an
  older ADLB (\<^verbatim>\<open>USE_ADLB\<close>); \<^verbatim>\<open>turbine_tcl_get_integer\<close>, which nothing calls and which hands Tcl an
  uninitialised object; \<^verbatim>\<open>turbine_check_failed\<close> and the error printers of the workers, which only put
  messages together; export patterns of namespaces; the empty main program and the macros for errors of MPI.
  Structs are packed and unpacked by the model, but the theorems on values are for integers, references,
  floats, strings, containers and multisets. Memory allocation is taken to succeed where the code does
  not test it.
\<close>

end
